(* ===== verification/Prelude.thy ===== *)
theory Prelude
  imports Main "HOL-Library.Word" "HOL-Library.Monad_Syntax"
begin

text \<open>
  Shared vocabulary of the development: the machine integer types of
  \<^verbatim>\<open>lib/audio/audio.h\<close> (AuUint8, AuInt16, AuUint32, AuFixedPoint and so on), blocks of bytes
  with the copy operations of C (\<^verbatim>\<open>bcopy\<close>, \<^verbatim>\<open>bzero\<close>) as partial functions that yield \<open>None\<close> on
  an access outside the block, and the lemma collections the component theories share.
\<close>

unbundle bit_operations_syntax

section \<open>Machine integers\<close>

text \<open>
  Signed and unsigned integers of one width share a word type; \<open>uint\<close>/\<open>unat\<close> and \<open>sint\<close> read
  them. On the LP64 targets of the server (\<^verbatim>\<open>LONG64\<close> in \<^verbatim>\<open>Amd.h\<close>) AuInt32 and AuUint32 have 32 bits.
\<close>

type_synonym u8 = "8 word"
type_synonym u16 = "16 word"
type_synonym u32 = "32 word"
type_synonym s16 = "16 word"
type_synonym s32 = "32 word"
type_synonym bytes = "u8 list"

lemma unat_u8_less: "unat (x :: u8) < 256"
  using unsigned_less [of x] by simp

lemma unat_u16_less: "unat (x :: u16) < 65536"
  using unsigned_less [of x] by simp

lemma unat_u32_less: "unat (x :: u32) < 4294967296"
  using unsigned_less [of x] by simp

lemma unat_eqD: "unat x = k \<Longrightarrow> x = word_of_nat k"
  by auto

named_theorems mem_simps \<open>length and access lemmas of byte blocks\<close>
named_theorems frame_simps \<open>state components an operation leaves alone\<close>

section \<open>Blocks of bytes\<close>

text \<open>
  \<open>blit src d dst\<close> writes the bytes \<open>src\<close> at offset \<open>d\<close> of the block \<open>dst\<close>; it is the pure part
  of \<^verbatim>\<open>bcopy\<close>. \<open>store\<close> and \<open>load\<close> check that the access stays inside the block.
\<close>

definition blit :: "'a list \<Rightarrow> nat \<Rightarrow> 'a list \<Rightarrow> 'a list" where
  "blit src d dst = take d dst @ src @ drop (d + length src) dst"

definition store :: "'a list \<Rightarrow> nat \<Rightarrow> 'a list \<Rightarrow> 'a list option" where
  "store src d dst = (if d + length src \<le> length dst then Some (blit src d dst) else None)"

definition load :: "'a list \<Rightarrow> nat \<Rightarrow> nat \<Rightarrow> 'a list option" where
  "load b s n = (if s + n \<le> length b then Some (take n (drop s b)) else None)"

lemma length_blit [mem_simps]:
  "d + length src \<le> length dst \<Longrightarrow> length (blit src d dst) = length dst"
  by (simp add: blit_def)

lemma blit_Nil [simp]: "d \<le> length dst \<Longrightarrow> blit [] d dst = dst"
  by (simp add: blit_def)

lemma store_Some [mem_simps]:
  "store src d dst = Some b \<longleftrightarrow> d + length src \<le> length dst \<and> b = blit src d dst"
  by (auto simp: store_def)

lemma load_Some [mem_simps]:
  "load b s n = Some x \<longleftrightarrow> s + n \<le> length b \<and> x = take n (drop s b)"
  by (auto simp: load_def)

lemma nth_blit:
  "d + length src \<le> length dst \<Longrightarrow> i < length dst \<Longrightarrow>
   blit src d dst ! i = (if d \<le> i \<and> i < d + length src then src ! (i - d) else dst ! i)"
  by (auto simp: blit_def nth_append min_def)

lemma take_blit_before:
  "k \<le> d \<Longrightarrow> d + length src \<le> length dst \<Longrightarrow> take k (blit src d dst) = take k dst"
  by (rule nth_equalityI) (auto simp: mem_simps nth_blit)

lemma drop_blit_after:
  "d + length src \<le> k \<Longrightarrow> d + length src \<le> length dst \<Longrightarrow> drop k (blit src d dst) = drop k dst"
  by (rule nth_equalityI) (auto simp: mem_simps nth_blit)

lemma take_drop_blit_same:
  "d + length src \<le> length dst \<Longrightarrow> take (length src) (drop d (blit src d dst)) = src"
  by (rule nth_equalityI) (auto simp: mem_simps nth_blit)

lemma blit_blit_adjacent:
  "d + length x + length y \<le> length dst \<Longrightarrow>
   blit y (d + length x) (blit x d dst) = blit (x @ y) d dst"
  by (rule nth_equalityI) (auto simp: mem_simps nth_blit nth_append)

section \<open>Alignment\<close>

text \<open>\<^verbatim>\<open>PAD4\<close> of \<^verbatim>\<open>server/dia/au.h\<close> on 32-bit operands.\<close>

definition PAD4 :: "u32 \<Rightarrow> u32" where
  "PAD4 x = (x + 3) AND NOT 3"

lemma PAD4_div: "unat x + 3 < 2 ^ 32 \<Longrightarrow> unat (PAD4 x) = (unat x + 3) div 4 * 4"
proof -
  assume a: "unat x + 3 < 2 ^ 32"
  have "PAD4 x = push_bit 2 (drop_bit 2 (x + 3))"
  proof -
    have "3 = (mask 2 :: u32)" by (simp add: mask_eq_exp_minus_1)
    then have "PAD4 x = (x + 3) AND NOT (mask 2)" by (simp add: PAD4_def)
    also have "\<dots> = push_bit 2 (drop_bit 2 (x + 3))"
    proof (rule bit_word_eqI)
      fix n :: nat
      have "2 \<le> n \<Longrightarrow> Suc (Suc (n - 2)) = n" by simp
      then show "bit ((x + 3) AND NOT (mask 2)) n = bit (push_bit 2 (drop_bit 2 (x + 3))) n"
        by (cases "2 \<le> n") (auto simp: bit_simps dest: bit_imp_le_length)
    qed
    finally show ?thesis .
  qed
  moreover have "unat (x + 3) = unat x + 3"
    using a by (simp add: unat_word_ariths)
  moreover have "4 * ((unat x + 3) div 4) \<le> unat x + 3" by simp
  ultimately show ?thesis
    using a by (simp add: push_bit_eq_mult drop_bit_eq_div unat_word_ariths(2) unat_div mult.commute
        del: div_mult_self_is_m)
qed

section \<open>Results\<close>

text \<open>
  \<open>res_bind\<close> sequences computations that may stop with an error, as an early
  \<^verbatim>\<open>return\<close> does in the source.
\<close>

fun res_bind :: "'e + 'a \<Rightarrow> ('a \<Rightarrow> 'e + 'b) \<Rightarrow> 'e + 'b" where
  "res_bind (Inl e) f = Inl e"
| "res_bind (Inr x) f = f x"

lemma res_bind_Inr [simp]: "res_bind m f = Inr y \<longleftrightarrow> (\<exists>x. m = Inr x \<and> f x = Inr y)"
  by (cases m) auto

lemma res_bind_cong [fundef_cong]:
  "m = n \<Longrightarrow> (\<And>x. n = Inr x \<Longrightarrow> f x = g x) \<Longrightarrow> res_bind m f = res_bind n g"
  by (cases n) auto

end
