(* ===== verification/Sample_Format.thy ===== *)
theory Sample_Format
  imports Prelude
begin

text \<open>
  The sample format converters of \<^verbatim>\<open>server/dia/auprocess.c\<close>, for the little-endian native format
  (\<^verbatim>\<open>auNativeFormat = AuFormatLinearSigned16LSB\<close>, \<^verbatim>\<open>server/dda/voxware/auvoxware.h\<close>). Each converter
  works in place on the mini-buffer: the ones into the native format widen 8-bit samples to 16 bits
  from the last sample backwards, the ones from it narrow 16-bit samples forwards. The model keeps the
  loops, their pointers and their order of accesses; an access outside the buffer is \<open>None\<close>.
\<close>

section \<open>Accesses\<close>

definition ld8 :: "bytes \<Rightarrow> nat \<Rightarrow> u8 option" where
  "ld8 b p = (if p < length b then Some (b ! p) else None)"

definition st8 :: "u8 \<Rightarrow> nat \<Rightarrow> bytes \<Rightarrow> bytes option" where
  "st8 v p b = (if p < length b then Some (b[p := v]) else None)"

text \<open>A 16-bit sample is stored low byte first.\<close>

definition lo8 :: "u16 \<Rightarrow> u8" where
  "lo8 v = ucast v"

definition hi8 :: "u16 \<Rightarrow> u8" where
  "hi8 v = ucast (drop_bit 8 v)"

definition mk16 :: "u8 \<Rightarrow> u8 \<Rightarrow> u16" where
  "mk16 lo hi = ucast lo OR push_bit 8 (ucast hi)"

definition ld16 :: "bytes \<Rightarrow> nat \<Rightarrow> u16 option" where
  "ld16 b p = (if p + 1 < length b then Some (mk16 (b ! p) (b ! (p + 1))) else None)"

definition st16 :: "u16 \<Rightarrow> nat \<Rightarrow> bytes \<Rightarrow> bytes option" where
  "st16 v p b = (if p + 1 < length b then Some (b[p := lo8 v, p + 1 := hi8 v]) else None)"

section \<open>The loops\<close>

text \<open>
  \<open>expand_loop f k b\<close>: the loop \<^verbatim>\<open>for (...; i++, s--, d--) *d = f(*s)\<close> of the 8-bit converters with
  \<open>k\<close> samples left, so that \<open>s = p + k - 1\<close> and \<open>d = p + 2 * (k - 1)\<close>.
\<close>

fun expand_loop :: "(u8 \<Rightarrow> u16) \<Rightarrow> nat \<Rightarrow> bytes \<Rightarrow> bytes option" where
  "expand_loop f 0 b = Some b"
| "expand_loop f (Suc k) b =
     do { x \<leftarrow> ld8 b k; b' \<leftarrow> st16 (f x) (2 * k) b; expand_loop f k b' }"

text \<open>\<open>compact_loop f i k b\<close>: the loop \<^verbatim>\<open>for (...; i++, s++, d++) *d = f(*s)\<close>, at sample \<open>i\<close> with \<open>k\<close> left.\<close>

fun compact_loop :: "(u16 \<Rightarrow> u8) \<Rightarrow> nat \<Rightarrow> nat \<Rightarrow> bytes \<Rightarrow> bytes option" where
  "compact_loop f i 0 b = Some b"
| "compact_loop f i (Suc k) b =
     do { x \<leftarrow> ld16 b (2 * i); b' \<leftarrow> st8 (f x) i b; compact_loop f (Suc i) k b' }"

text \<open>\<open>sample_loop f i k b\<close>: the loops that rewrite 16-bit samples in place.\<close>

fun sample_loop :: "(u16 \<Rightarrow> u16) \<Rightarrow> nat \<Rightarrow> nat \<Rightarrow> bytes \<Rightarrow> bytes option" where
  "sample_loop f i 0 b = Some b"
| "sample_loop f i (Suc k) b =
     do { x \<leftarrow> ld16 b (2 * i); b' \<leftarrow> st16 (f x) (2 * i) b; sample_loop f (Suc i) k b' }"

section \<open>The sample functions\<close>

definition ulawToLinearTable :: "u16 list" where
  "ulawToLinearTable = [
   0x8284, 0x8684, 0x8a84, 0x8e84, 0x9284, 0x9684, 0x9a84, 0x9e84, 0xa284, 0xa684, 0xaa84, 0xae84,
   0xb284, 0xb684, 0xba84, 0xbe84, 0xc184, 0xc384, 0xc584, 0xc784, 0xc984, 0xcb84, 0xcd84, 0xcf84,
   0xd184, 0xd384, 0xd584, 0xd784, 0xd984, 0xdb84, 0xdd84, 0xdf84, 0xe104, 0xe204, 0xe304, 0xe404,
   0xe504, 0xe604, 0xe704, 0xe804, 0xe904, 0xea04, 0xeb04, 0xec04, 0xed04, 0xee04, 0xef04, 0xf004,
   0xf0c4, 0xf144, 0xf1c4, 0xf244, 0xf2c4, 0xf344, 0xf3c4, 0xf444, 0xf4c4, 0xf544, 0xf5c4, 0xf644,
   0xf6c4, 0xf744, 0xf7c4, 0xf844, 0xf8a4, 0xf8e4, 0xf924, 0xf964, 0xf9a4, 0xf9e4, 0xfa24, 0xfa64,
   0xfaa4, 0xfae4, 0xfb24, 0xfb64, 0xfba4, 0xfbe4, 0xfc24, 0xfc64, 0xfc94, 0xfcb4, 0xfcd4, 0xfcf4,
   0xfd14, 0xfd34, 0xfd54, 0xfd74, 0xfd94, 0xfdb4, 0xfdd4, 0xfdf4, 0xfe14, 0xfe34, 0xfe54, 0xfe74,
   0xfe8c, 0xfe9c, 0xfeac, 0xfebc, 0xfecc, 0xfedc, 0xfeec, 0xfefc, 0xff0c, 0xff1c, 0xff2c, 0xff3c,
   0xff4c, 0xff5c, 0xff6c, 0xff7c, 0xff88, 0xff90, 0xff98, 0xffa0, 0xffa8, 0xffb0, 0xffb8, 0xffc0,
   0xffc8, 0xffd0, 0xffd8, 0xffe0, 0xffe8, 0xfff0, 0xfff8, 0x0000, 0x7d7c, 0x797c, 0x757c, 0x717c,
   0x6d7c, 0x697c, 0x657c, 0x617c, 0x5d7c, 0x597c, 0x557c, 0x517c, 0x4d7c, 0x497c, 0x457c, 0x417c,
   0x3e7c, 0x3c7c, 0x3a7c, 0x387c, 0x367c, 0x347c, 0x327c, 0x307c, 0x2e7c, 0x2c7c, 0x2a7c, 0x287c,
   0x267c, 0x247c, 0x227c, 0x207c, 0x1efc, 0x1dfc, 0x1cfc, 0x1bfc, 0x1afc, 0x19fc, 0x18fc, 0x17fc,
   0x16fc, 0x15fc, 0x14fc, 0x13fc, 0x12fc, 0x11fc, 0x10fc, 0x0ffc, 0x0f3c, 0x0ebc, 0x0e3c, 0x0dbc,
   0x0d3c, 0x0cbc, 0x0c3c, 0x0bbc, 0x0b3c, 0x0abc, 0x0a3c, 0x09bc, 0x093c, 0x08bc, 0x083c, 0x07bc,
   0x075c, 0x071c, 0x06dc, 0x069c, 0x065c, 0x061c, 0x05dc, 0x059c, 0x055c, 0x051c, 0x04dc, 0x049c,
   0x045c, 0x041c, 0x03dc, 0x039c, 0x036c, 0x034c, 0x032c, 0x030c, 0x02ec, 0x02cc, 0x02ac, 0x028c,
   0x026c, 0x024c, 0x022c, 0x020c, 0x01ec, 0x01cc, 0x01ac, 0x018c, 0x0174, 0x0164, 0x0154, 0x0144,
   0x0134, 0x0124, 0x0114, 0x0104, 0x00f4, 0x00e4, 0x00d4, 0x00c4, 0x00b4, 0x00a4, 0x0094, 0x0084,
   0x0078, 0x0070, 0x0068, 0x0060, 0x0058, 0x0050, 0x0048, 0x0040, 0x0038, 0x0030, 0x0028, 0x0020,
   0x0018, 0x0010, 0x0008, 0x0000]"

definition ulawToLinear :: "u8 \<Rightarrow> u16" where
  "ulawToLinear x = ulawToLinearTable ! unat x"

definition exp_lut :: "u16 list" where
  "exp_lut = [0, 0, 1, 1] @ replicate 4 2 @ replicate 8 3 @ replicate 16 4 @ replicate 32 5 @
     replicate 64 6 @ replicate 128 7"

text \<open>
  The body of the loop of \<open>AuNativeToULAW8\<close>. \<^verbatim>\<open>CLIP\<close> and \<^verbatim>\<open>ZEROTRAP\<close> are not defined in the source,
  and the line that adds \<^verbatim>\<open>BIAS\<close> is commented out there.
\<close>

definition linearToUlaw :: "s16 \<Rightarrow> u8" where
  "linearToUlaw v =
     (let sign = signed_drop_bit 8 v AND 0x80;
          sample = (if sign \<noteq> 0 then - v else v);
          exponent = exp_lut ! unat (signed_drop_bit 7 sample AND 0xff);
          mantissa = signed_drop_bit (unat exponent + 3) sample AND 0xf
      in NOT (ucast (sign OR push_bit 4 exponent OR mantissa)))"

definition signed8ToNative :: "u8 \<Rightarrow> u16" where
  "signed8ToNative x = push_bit 8 (ucast x)"

definition nativeToSigned8 :: "u16 \<Rightarrow> u8" where
  "nativeToSigned8 x = ucast (drop_bit 8 x)"

definition unsigned8ToNative :: "u8 \<Rightarrow> u16" where
  "unsigned8ToNative x = push_bit 8 (ucast x) XOR 0x8000"

definition nativeToUnsigned8 :: "s16 \<Rightarrow> u8" where
  "nativeToUnsigned8 x = ucast (signed_drop_bit 8 (x XOR 0x8000))"

section \<open>The converters\<close>

text \<open>
  \<open>AuULAW8ToNative\<close> and \<open>AuNativeToULAW8\<close> count their samples in a 16-bit \<^verbatim>\<open>AuInt16 i\<close>, the others in
  an \<^verbatim>\<open>AuInt32\<close>. The sample count \<^verbatim>\<open>numSamples * tracks\<close> is at most 255 times the mini-buffer length
  (1024 samples), so the 32-bit product does not wrap. In \<open>ulaw_expand_loop\<close> the source pointer is \<open>k - 1\<close>
  bytes above the buffer's start and moves down with each sample.
\<close>

fun ulaw_expand_loop :: "nat \<Rightarrow> 16 word \<Rightarrow> int \<Rightarrow> bytes \<Rightarrow> bytes option" where
  "ulaw_expand_loop k i n b =
     (if sint i < n then
        (case k of 0 \<Rightarrow> None
         | Suc j \<Rightarrow> do { x \<leftarrow> ld8 b j; b' \<leftarrow> st16 (ulawToLinear x) (2 * j) b;
                        ulaw_expand_loop j (i + 1) n b' })
      else Some b)"

function ulaw_compact_loop :: "nat \<Rightarrow> 16 word \<Rightarrow> int \<Rightarrow> bytes \<Rightarrow> bytes option" where
  "ulaw_compact_loop pos i n b =
     (if sint i < n then
        (case ld16 b (2 * pos) of None \<Rightarrow> None
         | Some x \<Rightarrow> ulaw_compact_loop (Suc pos) (i + 1) n (b[pos := linearToUlaw x]))
      else Some b)"
  by pat_completeness auto
termination
  by (relation "measure (\<lambda>(pos, i, n, b). length b - pos)") (auto simp: ld16_def split: if_splits)

declare ulaw_expand_loop.simps [simp del] ulaw_compact_loop.simps [simp del]

definition AuULAW8ToNative :: "nat \<Rightarrow> nat \<Rightarrow> bytes \<Rightarrow> bytes option" where
  "AuULAW8ToNative tracks numSamples p =
     ulaw_expand_loop (numSamples * tracks) 0 (int (numSamples * tracks)) p"

definition AuNativeToULAW8 :: "nat \<Rightarrow> nat \<Rightarrow> bytes \<Rightarrow> bytes option" where
  "AuNativeToULAW8 tracks numSamples s = ulaw_compact_loop 0 0 (int (numSamples * tracks)) s"

definition AuSigned8ToNative :: "nat \<Rightarrow> nat \<Rightarrow> bytes \<Rightarrow> bytes option" where
  "AuSigned8ToNative tracks numSamples p = expand_loop signed8ToNative (numSamples * tracks) p"

definition AuNativeToSigned8 :: "nat \<Rightarrow> nat \<Rightarrow> bytes \<Rightarrow> bytes option" where
  "AuNativeToSigned8 tracks numSamples s = compact_loop nativeToSigned8 0 (numSamples * tracks) s"

definition AuUnsigned8ToNative :: "nat \<Rightarrow> nat \<Rightarrow> bytes \<Rightarrow> bytes option" where
  "AuUnsigned8ToNative tracks numSamples p = expand_loop unsigned8ToNative (numSamples * tracks) p"

definition AuNativeToUnsigned8 :: "nat \<Rightarrow> nat \<Rightarrow> bytes \<Rightarrow> bytes option" where
  "AuNativeToUnsigned8 tracks numSamples s = compact_loop nativeToUnsigned8 0 (numSamples * tracks) s"

text \<open>The 16-bit converters work on the two bytes of a sample.\<close>

definition swap16 :: "u16 \<Rightarrow> u16" where
  "swap16 x = mk16 (hi8 x) (lo8 x)"

definition neg16_lsb_to_msb :: "u16 \<Rightarrow> u16" where
  "neg16_lsb_to_msb x = mk16 (hi8 x XOR 0x80) (lo8 x)"

definition neg16_msb_to_lsb :: "u16 \<Rightarrow> u16" where
  "neg16_msb_to_lsb x = mk16 (hi8 x) (lo8 x XOR 0x80)"

definition changeSign :: "nat \<Rightarrow> nat \<Rightarrow> bytes \<Rightarrow> bytes option" where
  "changeSign tracks numSamples p = sample_loop (\<lambda>x. x XOR 0x8000) 0 (numSamples * tracks) p"

definition byteSwap :: "nat \<Rightarrow> nat \<Rightarrow> bytes \<Rightarrow> bytes option" where
  "byteSwap tracks numSamples p = sample_loop swap16 0 (numSamples * tracks) p"

definition AuNeg16LSBTo16MSB :: "nat \<Rightarrow> nat \<Rightarrow> bytes \<Rightarrow> bytes option" where
  "AuNeg16LSBTo16MSB tracks numSamples p = sample_loop neg16_lsb_to_msb 0 (numSamples * tracks) p"

definition AuNeg16MSBto16LSB :: "nat \<Rightarrow> nat \<Rightarrow> bytes \<Rightarrow> bytes option" where
  "AuNeg16MSBto16LSB tracks numSamples p = sample_loop neg16_msb_to_lsb 0 (numSamples * tracks) p"

text \<open>
  The \<^verbatim>\<open>converters\<close> table, indexed by format, for the little-endian native format (the macros at the end
  of \<^verbatim>\<open>au.h\<close>); \<open>None\<close> is a null entry, for which no conversion is made. Formats above 7 are outside the
  table.
\<close>

type_synonym converter = "nat \<Rightarrow> nat \<Rightarrow> bytes \<Rightarrow> bytes option"

definition toNativeFormat :: "u8 \<Rightarrow> converter option" where
  "toNativeFormat f =
     (if f = 1 then Some AuULAW8ToNative else if f = 2 then Some AuUnsigned8ToNative
      else if f = 3 then Some AuSigned8ToNative else if f = 4 then Some byteSwap
      else if f = 5 then Some AuNeg16MSBto16LSB else if f = 7 then Some changeSign else None)"

definition fromNativeFormat :: "u8 \<Rightarrow> converter option" where
  "fromNativeFormat f =
     (if f = 1 then Some AuNativeToULAW8 else if f = 2 then Some AuNativeToUnsigned8
      else if f = 3 then Some AuNativeToSigned8 else if f = 4 then Some byteSwap
      else if f = 5 then Some AuNeg16LSBTo16MSB else if f = 7 then Some changeSign else None)"

definition auBytesPerSample :: "u32 list" where
  "auBytesPerSample = [0, 1, 1, 1, 2, 2, 2, 2]"

section \<open>Bytes and samples\<close>

definition bytes16 :: "u16 \<Rightarrow> bytes" where
  "bytes16 v = [lo8 v, hi8 v]"

definition samples :: "nat \<Rightarrow> bytes \<Rightarrow> u16 list" where
  "samples n b = map (\<lambda>i. mk16 (b ! (2 * i)) (b ! (2 * i + 1))) [0..<n]"

lemma mk16_lo_hi [simp]: "mk16 (lo8 v) (hi8 v) = v"
  unfolding mk16_def lo8_def hi8_def
  by (rule bit_word_eqI) (auto simp: bit_simps)

lemma lo8_mk16 [simp]: "lo8 (mk16 l h) = l"
  unfolding mk16_def lo8_def
  by (rule bit_word_eqI) (auto simp: bit_simps)

lemma hi8_mk16 [simp]: "hi8 (mk16 l h) = h"
  unfolding mk16_def hi8_def
  by (rule bit_word_eqI) (auto simp: bit_simps dest: bit_imp_le_length)

lemma length_bytes16 [simp]: "length (bytes16 v) = 2"
  by (simp add: bytes16_def)

lemma length_samples [simp]: "length (samples n b) = n"
  by (simp add: samples_def)

lemma length_concat_bytes16 [simp]: "length (concat (map bytes16 vs)) = 2 * length vs"
  by (induction vs) auto

lemma length_map_bytes16 [simp]: "length (concat (map (bytes16 \<circ> f) vs)) = 2 * length vs"
  by (induction vs) auto

lemma samples_Suc_Cons: "samples (Suc n) (x # y # b) = mk16 x y # samples n b"
proof -
  have "[0..<Suc n] = 0 # map Suc [0..<n]"
    by (simp add: map_Suc_upt upt_conv_Cons del: upt_Suc)
  then show ?thesis by (simp add: samples_def o_def del: upt_Suc)
qed

lemma concat_samples:
  "2 * n \<le> length b \<Longrightarrow> concat (map bytes16 (samples n b)) = take (2 * n) b"
proof (induction n arbitrary: b)
  case 0
  then show ?case by (simp add: samples_def)
next
  case (Suc n)
  then obtain x y b' where b: "b = x # y # b'"
    by (cases b; cases "tl b") auto
  with Suc show ?case
    by (simp add: samples_Suc_Cons bytes16_def)
qed

lemma samples_concat: "samples (length vs) (concat (map bytes16 vs) @ r) = vs"
  by (induction vs) (simp_all add: samples_def [of 0] samples_Suc_Cons bytes16_def)

section \<open>The loops convert every sample\<close>

lemma st16_in_range:
  "p + 1 < length b \<Longrightarrow> st16 v p b = Some (take p b @ bytes16 v @ drop (p + 2) b)"
  by (simp add: st16_def bytes16_def upd_conv_take_nth_drop take_update_swap drop_update_swap
      flip: drop_drop)
    (simp add: list_update_append take_Suc_conv_app_nth Cons_nth_drop_Suc [symmetric] nth_append)

text \<open>
  Widening goes backwards: when sample \<open>k\<close> is stored at bytes \<open>2k\<close> and \<open>2k + 1\<close>, the samples below
  \<open>k\<close> have not been overwritten.
\<close>

lemma expand_loop_correct:
  "2 * k \<le> length b \<Longrightarrow>
   expand_loop f k b = Some (concat (map (bytes16 \<circ> f) (take k b)) @ drop (2 * k) b)"
proof (induction k arbitrary: b)
  case 0
  then show ?case by simp
next
  case (Suc k)
  let ?b = "take (2 * k) b @ bytes16 (f (b ! k)) @ drop (2 * k + 2) b"
  have len: "2 * k + 1 < length b" and k: "k < length b" using Suc.prems by auto
  have "expand_loop f (Suc k) b = expand_loop f k ?b"
    using len k by (simp add: ld8_def st16_in_range)
  also have "\<dots> = Some (concat (map (bytes16 \<circ> f) (take k ?b)) @ drop (2 * k) ?b)"
    using Suc.prems by (intro Suc.IH) simp
  also have "take k ?b = take k b"
    using len by (simp add: min_def)
  also have "drop (2 * k) ?b = bytes16 (f (b ! k)) @ drop (2 * Suc k) b"
    using len by simp
  finally show ?case
    using k by (simp add: take_Suc_conv_app_nth)
qed

text \<open>
  Narrowing goes forwards: byte \<open>i\<close> is written when the samples up to \<open>i\<close> have been read.
\<close>

lemma compact_loop_correct:
  "2 * (i + k) \<le> length b \<Longrightarrow>
   compact_loop f i k b =
     Some (take i b @ map f (samples k (drop (2 * i) b)) @ drop (i + k) b)"
proof (induction k arbitrary: i b)
  case 0
  then show ?case by (simp add: samples_def)
next
  case (Suc k)
  let ?x = "mk16 (b ! (2 * i)) (b ! (2 * i + 1))"
  let ?b = "b[i := f ?x]"
  have len: "2 * i + 1 < length b" "2 * (Suc i + k) \<le> length ?b" using Suc.prems by auto
  have s: "samples (Suc k) (drop (2 * i) b) = ?x # samples k (drop (2 * Suc i) b)"
    using len by (simp add: Cons_nth_drop_Suc [symmetric] samples_Suc_Cons)
  have "compact_loop f i (Suc k) b = compact_loop f (Suc i) k ?b"
    using len by (simp add: ld16_def st8_def)
  also have "\<dots> = Some (take (Suc i) ?b @ map f (samples k (drop (2 * Suc i) ?b)) @ drop (Suc i + k) ?b)"
    using len(2) by (rule Suc.IH)
  also have "take (Suc i) ?b = take i b @ [f ?x]"
    using len by (simp add: take_Suc_conv_app_nth)
  finally show ?case
    by (simp add: s)
qed

lemma sample_loop_correct:
  "2 * (i + k) \<le> length b \<Longrightarrow>
   sample_loop f i k b =
     Some (take (2 * i) b @ concat (map (bytes16 \<circ> f) (samples k (drop (2 * i) b))) @
       drop (2 * (i + k)) b)"
proof (induction k arbitrary: i b)
  case 0
  then show ?case by (simp add: samples_def)
next
  case (Suc k)
  let ?x = "mk16 (b ! (2 * i)) (b ! (2 * i + 1))"
  let ?b = "take (2 * i) b @ bytes16 (f ?x) @ drop (2 * i + 2) b"
  have len: "2 * i + 1 < length b" "2 * (Suc i + k) \<le> length ?b" using Suc.prems by auto
  have s: "samples (Suc k) (drop (2 * i) b) = ?x # samples k (drop (2 * Suc i) b)"
    using len by (simp add: Cons_nth_drop_Suc [symmetric] samples_Suc_Cons)
  have "sample_loop f i (Suc k) b = sample_loop f (Suc i) k ?b"
    using len by (simp add: ld16_def st16_in_range)
  also have "\<dots> = Some (take (2 * Suc i) ?b @
      concat (map (bytes16 \<circ> f) (samples k (drop (2 * Suc i) ?b))) @ drop (2 * (Suc i + k)) ?b)"
    using len(2) by (rule Suc.IH)
  also have "take (2 * Suc i) ?b = take (2 * i) b @ bytes16 (f ?x)"
    using len by simp
  also have "drop (2 * Suc i) ?b = drop (2 * Suc i) b"
    using len by simp
  also have "drop (2 * (Suc i + k)) ?b = drop (2 * (Suc i + k)) b"
    using len by (simp add: min_def ac_simps)
  finally show ?case
    by (simp add: s)
qed

section \<open>The 8- and 16-bit linear formats\<close>

lemma nativeToSigned8_inverse: "nativeToSigned8 (signed8ToNative x) = x"
  unfolding nativeToSigned8_def signed8ToNative_def
  by (rule bit_word_eqI) (auto simp: bit_simps dest: bit_imp_le_length)

lemma nativeToUnsigned8_inverse: "nativeToUnsigned8 (unsigned8ToNative x) = x"
proof -
  have "push_bit 8 (ucast x) XOR 0x8000 XOR 0x8000 = (push_bit 8 (ucast x) :: u16)"
    by (simp add: xor.assoc)
  then have "nativeToUnsigned8 (unsigned8ToNative x) = ucast (signed_drop_bit 8 (push_bit 8 (ucast x) :: u16))"
    by (simp add: nativeToUnsigned8_def unsigned8ToNative_def xor.assoc)
  also have "\<dots> = x"
    by (rule bit_word_eqI) (auto simp: bit_simps min_def dest: bit_imp_le_length)
  finally show ?thesis .
qed

lemma swap16_inverse: "swap16 (swap16 x) = x"
  by (simp add: swap16_def)

lemma neg16_inverse: "neg16_lsb_to_msb (neg16_msb_to_lsb x) = x"
  by (simp add: neg16_lsb_to_msb_def neg16_msb_to_lsb_def xor.assoc)

lemma expand_compact_inverse:
  assumes "2 * n \<le> length b" and "\<And>x. g (f x) = x"
  shows "\<exists>b'. (expand_loop f n b \<bind> compact_loop g 0 n) = Some b' \<and> length b' = length b \<and>
    take n b' = take n b"
proof -
  let ?vs = "map f (take n b)"
  let ?b = "concat (map bytes16 ?vs) @ drop (2 * n) b"
  have l: "length ?vs = n" using assms(1) by simp
  have lb: "length ?b = length b" using assms(1) l by (simp only: length_append length_concat_bytes16) simp
  have "expand_loop f n b = Some ?b"
    using expand_loop_correct [OF assms(1), of f] by simp
  moreover have "compact_loop g 0 n ?b = Some (map g (samples n ?b) @ drop n ?b)"
    using compact_loop_correct [of 0 n ?b g] lb assms(1) by simp
  moreover have "samples n ?b = ?vs"
    using samples_concat [of ?vs "drop (2 * n) b"] l by simp
  moreover have "map g ?vs = take n b"
    by (simp add: assms(2) o_def)
  ultimately show ?thesis
    using assms(1) lb by auto
qed

lemma sample_loop_inverse:
  assumes "2 * n \<le> length b" and "\<And>x. g (f x) = x"
  shows "(sample_loop f 0 n b \<bind> sample_loop g 0 n) = Some b"
proof -
  let ?vs = "map f (samples n b)"
  let ?b = "concat (map bytes16 ?vs) @ drop (2 * n) b"
  have l: "length ?vs = n" by simp
  have lb: "length ?b = length b" using assms(1) by (simp only: length_append length_concat_bytes16) simp
  have "sample_loop f 0 n b = Some ?b"
    using sample_loop_correct [of 0 n b f] assms(1) by simp
  moreover have "sample_loop g 0 n ?b = Some (concat (map (bytes16 \<circ> g) (samples n ?b)) @ drop (2 * n) ?b)"
    using sample_loop_correct [of 0 n ?b g] lb assms(1) by simp
  moreover have "samples n ?b = ?vs"
    using samples_concat [of ?vs "drop (2 * n) b"] l by simp
  moreover have "concat (map (bytes16 \<circ> g) ?vs) = take (2 * n) b"
    using concat_samples [OF assms(1)] by (simp add: assms(2) o_def)
  moreover have "drop (2 * n) ?b = drop (2 * n) b"
    by simp
  ultimately show ?thesis
    by simp
qed

section \<open>The properties of the converters\<close>

lemma converter_loops:
  "AuUnsigned8ToNative t n = expand_loop unsigned8ToNative (n * t)"
  "AuNativeToUnsigned8 t n = compact_loop nativeToUnsigned8 0 (n * t)"
  "AuSigned8ToNative t n = expand_loop signed8ToNative (n * t)"
  "AuNativeToSigned8 t n = compact_loop nativeToSigned8 0 (n * t)"
  "changeSign t n = sample_loop (\<lambda>x. x XOR 0x8000) 0 (n * t)"
  "byteSwap t n = sample_loop swap16 0 (n * t)"
  "AuNeg16LSBTo16MSB t n = sample_loop neg16_lsb_to_msb 0 (n * t)"
  "AuNeg16MSBto16LSB t n = sample_loop neg16_msb_to_lsb 0 (n * t)"
  by (simp_all add: fun_eq_iff AuUnsigned8ToNative_def AuNativeToUnsigned8_def AuSigned8ToNative_def
      AuNativeToSigned8_def changeSign_def byteSwap_def AuNeg16LSBTo16MSB_def AuNeg16MSBto16LSB_def)

text \<open>
  C22. For every linear format that has a converter, converting a buffer of samples to the native format
  and back restores every byte of the samples, touches nothing outside the buffer and keeps its length:
  the in-place loops never overwrite a sample they have yet to read.
\<close>

theorem converters_roundtrip:
  assumes fmt: "f \<noteq> 1" and to: "toNativeFormat f = Some g" and from_: "fromNativeFormat f = Some h"
    and room: "2 * (numSamples * tracks) \<le> length b"
  shows "\<exists>b'. (g tracks numSamples b \<bind> h tracks numSamples) = Some b' \<and> length b' = length b \<and>
    take (numSamples * tracks * unat (auBytesPerSample ! unat f)) b' =
    take (numSamples * tracks * unat (auBytesPerSample ! unat f)) b"
proof -
  let ?n = "numSamples * tracks"
  have "f = 2 \<or> f = 3 \<or> f = 4 \<or> f = 5 \<or> f = 7"
    using to fmt by (auto simp: toNativeFormat_def split: if_splits)
  then show ?thesis
  proof (elim disjE)
    assume "f = 2"
    then show ?thesis
      using expand_compact_inverse [OF room, of nativeToUnsigned8 unsigned8ToNative] to from_
      by (simp add: toNativeFormat_def fromNativeFormat_def auBytesPerSample_def
          converter_loops nativeToUnsigned8_inverse)
  next
    assume "f = 3"
    then show ?thesis
      using expand_compact_inverse [OF room, of nativeToSigned8 signed8ToNative] to from_
      by (simp add: toNativeFormat_def fromNativeFormat_def auBytesPerSample_def
          converter_loops nativeToSigned8_inverse)
  next
    assume "f = 4"
    then show ?thesis
      using sample_loop_inverse [OF room, of swap16 swap16] to from_
      by (simp add: toNativeFormat_def fromNativeFormat_def converter_loops swap16_inverse)
  next
    assume "f = 5"
    then show ?thesis
      using sample_loop_inverse [OF room, of neg16_lsb_to_msb neg16_msb_to_lsb] to from_
      by (simp add: toNativeFormat_def fromNativeFormat_def converter_loops
          neg16_inverse)
  next
    assume "f = 7"
    then show ?thesis
      using sample_loop_inverse [OF room, of "\<lambda>x. x XOR 0x8000" "\<lambda>x. x XOR 0x8000"] to from_
      by (simp add: toNativeFormat_def fromNativeFormat_def converter_loops xor.assoc)
  qed
qed

theorem converters_roundtrip_witness:
  "\<exists>b'. (AuUnsigned8ToNative 2 1 [10, 200, 0, 0] \<bind> AuNativeToUnsigned8 2 1) = Some b' \<and>
    length b' = length [10 :: u8, 200, 0, 0] \<and> take 2 b' = [10, 200]"
proof -
  have "toNativeFormat 2 = Some AuUnsigned8ToNative" "fromNativeFormat 2 = Some AuNativeToUnsigned8"
    by (simp_all add: toNativeFormat_def fromNativeFormat_def)
  then show ?thesis
    using converters_roundtrip [of 2 AuUnsigned8ToNative AuNativeToUnsigned8 1 2 "[10, 200, 0, 0]"]
    by (simp add: auBytesPerSample_def)
qed

section \<open>The u-law converters\<close>

lemma ulaw_expand_loop_generic:
  "i = of_nat c \<Longrightarrow> n = int (c + k) \<Longrightarrow> c + k \<le> 32767 \<Longrightarrow>
   ulaw_expand_loop k i n b = expand_loop ulawToLinear k b"
proof (induction k arbitrary: i b c)
  case 0
  then have "sint i = int c" by (simp add: signed_of_nat take_bit_int_eq_self signed_take_bit_int_eq_self)
  with 0 show ?case by (subst ulaw_expand_loop.simps) simp
next
  case (Suc k)
  then have s: "sint i = int c" by (simp add: signed_of_nat signed_take_bit_int_eq_self)
  have "ulaw_expand_loop k (i + 1) n = expand_loop ulawToLinear k"
    using Suc.prems by (intro ext Suc.IH [of _ "Suc c"]) auto
  with s Suc.prems show ?case
    by (subst ulaw_expand_loop.simps) simp
qed

lemma ulaw_compact_loop_generic:
  "i = of_nat c \<Longrightarrow> n = int (c + k) \<Longrightarrow> c + k \<le> 32767 \<Longrightarrow>
   ulaw_compact_loop pos i n b = compact_loop linearToUlaw pos k b"
proof (induction k arbitrary: i b c pos)
  case 0
  then have "sint i = int c" by (simp add: signed_of_nat signed_take_bit_int_eq_self)
  with 0 show ?case by (subst ulaw_compact_loop.simps) simp
next
  case (Suc k)
  then have s: "sint i = int c" by (simp add: signed_of_nat signed_take_bit_int_eq_self)
  have "ulaw_compact_loop (Suc pos) (i + 1) n b' = compact_loop linearToUlaw (Suc pos) k b'" for b'
    using Suc.prems by (intro Suc.IH [of _ "Suc c"]) auto
  with s Suc.prems show ?case
    by (subst ulaw_compact_loop.simps) (auto simp: ld16_def st8_def split: option.splits)
qed

lemma sint_s16_le: "sint (i :: s16) \<le> 32767"
  using sint_less [of i] by simp

lemma ulaw_expand_loop_runs_away: "32767 < n \<Longrightarrow> ulaw_expand_loop k i n b = None"
proof (induction k arbitrary: i b)
  case 0
  then show ?case using sint_s16_le [of i] by (subst ulaw_expand_loop.simps) simp
next
  case (Suc k)
  then show ?case using sint_s16_le [of i]
    by (subst ulaw_expand_loop.simps) (auto simp: bind_eq_None_conv)
qed

lemma ulaw_compact_loop_runs_away: "32767 < n \<Longrightarrow> ulaw_compact_loop pos i n b = None"
proof (induction pos i n b rule: ulaw_compact_loop.induct)
  case (1 pos i n b)
  then show ?case using sint_s16_le [of i]
    by (subst ulaw_compact_loop.simps) (auto split: option.splits)
qed

text \<open>
  Up to 32767 samples the u-law converters rewrite exactly the samples of the buffer, each through the
  sample function; with more samples than that the 16-bit loop counter never reaches the sample count and
  both loops leave the buffer, whatever its size.
\<close>

theorem ulaw_converters_bound:
  "(numSamples * tracks \<le> 32767 \<and> 2 * (numSamples * tracks) \<le> length b \<longrightarrow>
     AuULAW8ToNative tracks numSamples b =
       Some (concat (map (bytes16 \<circ> ulawToLinear) (take (numSamples * tracks) b)) @
         drop (2 * (numSamples * tracks)) b) \<and>
     AuNativeToULAW8 tracks numSamples b =
       Some (map linearToUlaw (samples (numSamples * tracks) b) @ drop (numSamples * tracks) b)) \<and>
   (32767 < numSamples * tracks \<longrightarrow>
     AuULAW8ToNative tracks numSamples b = None \<and> AuNativeToULAW8 tracks numSamples b = None)"
proof (intro conjI impI)
  assume a: "numSamples * tracks \<le> 32767 \<and> 2 * (numSamples * tracks) \<le> length b"
  then show "AuULAW8ToNative tracks numSamples b =
       Some (concat (map (bytes16 \<circ> ulawToLinear) (take (numSamples * tracks) b)) @
         drop (2 * (numSamples * tracks)) b)"
    unfolding AuULAW8ToNative_def
    by (subst ulaw_expand_loop_generic [of _ 0]) (auto simp: expand_loop_correct)
  from a show "AuNativeToULAW8 tracks numSamples b =
       Some (map linearToUlaw (samples (numSamples * tracks) b) @ drop (numSamples * tracks) b)"
    unfolding AuNativeToULAW8_def
    by (subst ulaw_compact_loop_generic [of _ 0 _ "numSamples * tracks"])
      (auto simp: compact_loop_correct)
qed (simp_all add: AuULAW8ToNative_def AuNativeToULAW8_def ulaw_expand_loop_runs_away
    ulaw_compact_loop_runs_away flip: of_nat_mult)

text \<open>The witness is the largest flow the server advertises: 32 tracks and a mini-buffer of 1024 samples.\<close>

theorem ulaw_converters_bound_witness:
  "AuULAW8ToNative 2 1 [0, 255, 0, 0] = Some [0x84, 0x82, 0, 0] \<and>
   AuULAW8ToNative 32 1024 (replicate 65536 0) = None"
proof -
  have "AuULAW8ToNative 2 1 [0, 255, 0, 0] =
      Some (concat (map (bytes16 \<circ> ulawToLinear) [0, 255]))"
    using ulaw_converters_bound [of 1 2 "[0, 255, 0, 0]"] by simp
  moreover have "AuULAW8ToNative 32 1024 (replicate 65536 0) = None"
    using ulaw_converters_bound [of 1024 32 "replicate 65536 0"] by simp
  ultimately show ?thesis
    by (simp add: ulawToLinear_def ulawToLinearTable_def bytes16_def lo8_def hi8_def)
qed

end
