(* ===== verification/Conv_Util.thy ===== *)
theory Conv_Util
  imports Sample_Format
begin

text \<open>
  The client library's format conversions, \<^verbatim>\<open>lib/audio/convutil.c\<close>: \<open>AuConvertDataToShort\<close> and
  \<open>AuConvertShortToData\<close> on a little-endian machine (\<^verbatim>\<open>NAS_LITTLE_ENDIAN\<close>), with the u-law codec, and its
  comparison with the codec of the server. \<open>None\<close> is an access outside the buffer or the division by zero
  that an unknown format causes.
\<close>

section \<open>The u-law codec of the library\<close>

definition lib_ulawToLinearTable :: "u16 list" where
  "lib_ulawToLinearTable = [
   0x8284, 0x8684, 0x8a84, 0x8e84, 0x9284, 0x9684, 0x9a84, 0x9e84, 0xa284, 0xa684, 0xaa84, 0xae84,
   0xb284, 0xb684, 0xba84, 0xbe84, 0xc184, 0xc384, 0xc584, 0xc784, 0xc984, 0xcb84, 0xcd84, 0xcf84,
   0xd184, 0xd384, 0xd584, 0xd784, 0xd984, 0xdb84, 0xdd84, 0xdf84, 0xe104, 0xe204, 0xe304, 0xe404,
   0xe504, 0xe604, 0xe704, 0xe804, 0xe904, 0xea04, 0xeb04, 0xec04, 0xed04, 0xee04, 0xef04, 0xf004,
   0xf0c4, 0xf144, 0xf1c4, 0xf244, 0xf2c4, 0xf344, 0xf3c4, 0xf444, 0xf4c4, 0xf544, 0xf5c4, 0xf644,
   0xf6c4, 0xf744, 0xf7c4, 0xf844, 0xf8a4, 0xf8e4, 0xf924, 0xf964, 0xf9a4, 0xf9e4, 0xfa24, 0xfa64,
   0xfaa4, 0xfae4, 0xfb24, 0xfb64, 0xfba4, 0xfbe4, 0xfc24, 0xfc64, 0xfc94, 0xfcb4, 0xfcd4, 0xfcf4,
   0xfd14, 0xfd34, 0xfd54, 0xfd74, 0xfd94, 0xfdb4, 0xfdd4, 0xfdf4, 0xfe14, 0xfe34, 0xfe54, 0xfe74,
   0xfe8c, 0xfe9c, 0xfeac, 0xfebc, 0xfecc, 0xfedc, 0xfeec, 0xfefc, 0xff0c, 0xff1c, 0xff2c, 0xff3c,
   0xff4c, 0xff5c, 0xff6c, 0xff7c, 0xff88, 0xff90, 0xff98, 0xffa0, 0xffa8, 0xffb0, 0xffb8, 0xffc0,
   0xffc8, 0xffd0, 0xffd8, 0xffe0, 0xffe8, 0xfff0, 0xfff8, 0x0000, 0x7d7c, 0x797c, 0x757c, 0x717c,
   0x6d7c, 0x697c, 0x657c, 0x617c, 0x5d7c, 0x597c, 0x557c, 0x517c, 0x4d7c, 0x497c, 0x457c, 0x417c,
   0x3e7c, 0x3c7c, 0x3a7c, 0x387c, 0x367c, 0x347c, 0x327c, 0x307c, 0x2e7c, 0x2c7c, 0x2a7c, 0x287c,
   0x267c, 0x247c, 0x227c, 0x207c, 0x1efc, 0x1dfc, 0x1cfc, 0x1bfc, 0x1afc, 0x19fc, 0x18fc, 0x17fc,
   0x16fc, 0x15fc, 0x14fc, 0x13fc, 0x12fc, 0x11fc, 0x10fc, 0x0ffc, 0x0f3c, 0x0ebc, 0x0e3c, 0x0dbc,
   0x0d3c, 0x0cbc, 0x0c3c, 0x0bbc, 0x0b3c, 0x0abc, 0x0a3c, 0x09bc, 0x093c, 0x08bc, 0x083c, 0x07bc,
   0x075c, 0x071c, 0x06dc, 0x069c, 0x065c, 0x061c, 0x05dc, 0x059c, 0x055c, 0x051c, 0x04dc, 0x049c,
   0x045c, 0x041c, 0x03dc, 0x039c, 0x036c, 0x034c, 0x032c, 0x030c, 0x02ec, 0x02cc, 0x02ac, 0x028c,
   0x026c, 0x024c, 0x022c, 0x020c, 0x01ec, 0x01cc, 0x01ac, 0x018c, 0x0174, 0x0164, 0x0154, 0x0144,
   0x0134, 0x0124, 0x0114, 0x0104, 0x00f4, 0x00e4, 0x00d4, 0x00c4, 0x00b4, 0x00a4, 0x0094, 0x0084,
   0x0078, 0x0070, 0x0068, 0x0060, 0x0058, 0x0050, 0x0048, 0x0040, 0x0038, 0x0030, 0x0028, 0x0020,
   0x0018, 0x0010, 0x0008, 0x0000]"

definition lib_exp_lut :: "u16 list" where
  "lib_exp_lut = [0, 0, 1, 1] @ replicate 4 2 @ replicate 8 3 @ replicate 16 4 @ replicate 32 5 @
     replicate 64 6 @ replicate 128 7"

text \<open>As in the server \<^verbatim>\<open>CLIP\<close> and \<^verbatim>\<open>ZEROTRAP\<close> are not defined; here the bias 0x84 is added.\<close>

definition lib_linearToUlaw :: "s16 \<Rightarrow> u8" where
  "lib_linearToUlaw v =
     (let sign = signed_drop_bit 8 v AND 0x80;
          sample = (if sign \<noteq> 0 then - v else v) + 0x84;
          exponent = lib_exp_lut ! unat (signed_drop_bit 7 sample AND 0xff);
          mantissa = signed_drop_bit (unat exponent + 3) sample AND 0xf
      in NOT (ucast (sign OR push_bit 4 exponent OR mantissa)))"

section \<open>The conversions\<close>

definition AuSizeofFormat :: "int \<Rightarrow> nat" where
  "AuSizeofFormat f = (if f < 1 \<or> f > 7 then 0 else if f < 4 then 1 else 2)"

text \<open>
  \<open>back_loop f e k b\<close>: the \<^verbatim>\<open>do ... while\<close> loop of \<open>AuConvertDataToShort\<close> over 16-bit data with \<open>k\<close>
  samples left; the source is \<open>e\<close> bytes above the destination when the byte count is odd.
\<close>

fun back_loop :: "(u16 \<Rightarrow> u16) \<Rightarrow> nat \<Rightarrow> nat \<Rightarrow> bytes \<Rightarrow> bytes option" where
  "back_loop f e 0 b = Some b"
| "back_loop f e (Suc k) b =
     do { x \<leftarrow> ld16 b (2 * k + e); b' \<leftarrow> st16 (f x) (2 * k) b; back_loop f e k b' }"

text \<open>The result is the status the function returns and the buffer it leaves.\<close>

definition AuConvertDataToShort :: "int \<Rightarrow> nat \<Rightarrow> bytes \<Rightarrow> (int \<times> bytes) option" where
  "AuConvertDataToShort dataFormat numBytes b =
     (if AuSizeofFormat dataFormat = 0 then None
      else let n = numBytes div AuSizeofFormat dataFormat;
               e = numBytes mod AuSizeofFormat dataFormat;
               ret = map_option (Pair 0)
        in if n = 0 then Some (0, b)
           else if dataFormat = 1 then ret (expand_loop (\<lambda>x. lib_ulawToLinearTable ! unat x) n b)
           else if dataFormat = 2 then ret (expand_loop (\<lambda>x. push_bit 8 (ucast x - 128)) n b)
           else if dataFormat = 3 then ret (expand_loop (\<lambda>x. push_bit 8 (scast x)) n b)
           else if dataFormat = 4 then ret (back_loop (\<lambda>x. drop_bit 8 x OR push_bit 8 x) e n b)
           else if dataFormat = 5 then
             ret (back_loop (\<lambda>x. (drop_bit 8 x OR push_bit 8 x) XOR 0x8000) e n b)
           else if dataFormat = 6 then Some (0, b)
           else ret (back_loop (\<lambda>x. x XOR 0x8000) e n b))"

definition AuConvertShortToData :: "int \<Rightarrow> nat \<Rightarrow> bytes \<Rightarrow> (int \<times> bytes) option" where
  "AuConvertShortToData dataFormat numBytes b =
     (let n = numBytes div 2; ret = map_option (Pair 0)
      in if n = 0 then Some (0, b)
         else if dataFormat = 1 then ret (compact_loop lib_linearToUlaw 0 n b)
         else if dataFormat = 2 then ret (compact_loop (\<lambda>x. ucast (signed_drop_bit 8 x) + 128) 0 n b)
         else if dataFormat = 3 then ret (compact_loop (\<lambda>x. ucast (signed_drop_bit 8 x)) 0 n b)
         else if dataFormat = 4 then ret (sample_loop (\<lambda>x. drop_bit 8 x OR push_bit 8 x) 0 n b)
         else if dataFormat = 5 then
           ret (sample_loop (\<lambda>x. (drop_bit 8 x OR push_bit 8 x) XOR 0x8000) 0 n b)
         else if dataFormat = 6 then Some (0, b)
         else if dataFormat = 7 then ret (sample_loop (\<lambda>x. x XOR 0x8000) 0 n b)
         else Some (- 1, b))"

section \<open>The u-law codecs compared\<close>

lemma all_u8: "(\<forall>x :: u8. P x) \<longleftrightarrow> (\<forall>n < 256. P (word_of_nat n))"
proof
  assume a: "\<forall>n < 256. P (word_of_nat n)"
  show "\<forall>x :: u8. P x"
  proof
    fix x :: u8
    have "unat x < 256" using unsigned_less [of x] by simp
    with a have "P (word_of_nat (unat x))" by blast
    then show "P x" by simp
  qed
qed simp

lemma lib_table: "lib_ulawToLinearTable = ulawToLinearTable"
  unfolding lib_ulawToLinearTable_def ulawToLinearTable_def ..

text \<open>Both encoders on the 256 values of the decoding table, evaluated by the kernel.\<close>

lemma lib_codes:
  "map lib_linearToUlaw ulawToLinearTable = map (\<lambda>n. if n = 127 then 0xff else word_of_nat n) [0..<256]"
  by code_simp

lemma server_codes:
  "map (\<lambda>(n, v). linearToUlaw v = word_of_nat n) (zip [0..<256] ulawToLinearTable) =
   map (\<lambda>n. n < 32 \<or> 112 \<le> n \<and> n < 127 \<or> 128 \<le> n \<and> n < 160 \<or> 240 \<le> n) [0..<256]"
  by code_simp

lemma length_ulawToLinearTable: "length ulawToLinearTable = 256"
  by (simp add: ulawToLinearTable_def)

lemma lib_code: "lib_linearToUlaw (ulawToLinear x) = (if x = 0x7f then 0xff else x)"
proof -
  have "lib_linearToUlaw (ulawToLinear x) = map lib_linearToUlaw ulawToLinearTable ! unat x"
    by (simp add: ulawToLinear_def length_ulawToLinearTable unat_u8_less)
  also have "\<dots> = (if unat x = 127 then 0xff else x)"
    unfolding lib_codes using unat_u8_less [of x] by (simp del: upt_rec_numeral)
  also have "unat x = 127 \<longleftrightarrow> x = 0x7f"
    by (simp add: word_unat_eq_iff)
  finally show ?thesis .
qed

lemma server_code:
  "linearToUlaw (ulawToLinear x) = x \<longleftrightarrow>
   unat x < 32 \<or> 112 \<le> unat x \<and> unat x < 127 \<or> 128 \<le> unat x \<and> unat x < 160 \<or> 240 \<le> unat x"
proof -
  have "(linearToUlaw (ulawToLinear x) = x) =
      map (\<lambda>(n, v). linearToUlaw v = word_of_nat n) (zip [0..<256] ulawToLinearTable) ! unat x"
    by (simp add: ulawToLinear_def length_ulawToLinearTable unat_u8_less del: upt_rec_numeral)
  also have "\<dots> = (unat x < 32 \<or> 112 \<le> unat x \<and> unat x < 127 \<or> 128 \<le> unat x \<and> unat x < 160 \<or>
      240 \<le> unat x)"
    unfolding server_codes using unat_u8_less [of x] by (simp del: upt_rec_numeral)
  finally show ?thesis .
qed


section \<open>The 16-bit conversions\<close>

lemma swap_bits: "drop_bit 8 x OR push_bit 8 x = swap16 x"
  unfolding swap16_def mk16_def lo8_def hi8_def
  by (rule bit_word_eqI) (auto simp: bit_simps dest: bit_imp_le_length)

lemma swap16_xor: "swap16 (x XOR y) = swap16 x XOR swap16 y"
  unfolding swap16_def mk16_def lo8_def hi8_def
  by (rule bit_word_eqI) (auto simp: bit_simps dest: bit_imp_le_length)

lemma swap16_8000: "swap16 0x8000 = 0x80"
  by code_simp

lemma back_loop_even:
  "2 * k \<le> length b \<Longrightarrow>
   back_loop f 0 k b = Some (concat (map (bytes16 \<circ> f) (samples k b)) @ drop (2 * k) b)"
proof (induction k arbitrary: b)
  case 0
  then show ?case by (simp add: samples_def)
next
  case (Suc k)
  let ?x = "mk16 (b ! (2 * k)) (b ! (2 * k + 1))"
  let ?b = "take (2 * k) b @ bytes16 (f ?x) @ drop (2 * k + 2) b"
  have len: "2 * k + 1 < length b" "2 * k \<le> length ?b" using Suc.prems by auto
  have s: "samples k ?b = samples k b"
    using len by (auto simp: samples_def nth_append)
  have "back_loop f 0 (Suc k) b = back_loop f 0 k ?b"
    using len by (simp add: ld16_def st16_in_range)
  also have "\<dots> = Some (concat (map (bytes16 \<circ> f) (samples k ?b)) @ drop (2 * k) ?b)"
    using len(2) by (rule Suc.IH)
  also have "drop (2 * k) ?b = bytes16 (f ?x) @ drop (2 * Suc k) b"
    using len by simp
  also note s
  finally have "back_loop f 0 (Suc k) b = Some (concat (map (bytes16 \<circ> f) (samples k b @ [?x])) @ drop (2 * Suc k) b)"
    by (simp add: o_def)
  moreover have "samples (Suc k) b = samples k b @ [?x]"
    by (simp add: samples_def)
  ultimately show ?case by (simp only:)
qed

lemma bind_status: "(m \<bind> (\<lambda>x. map_option (Pair st) (g x))) = map_option (Pair st) (m \<bind> g)"
  by (cases m) auto

lemma back_then_forward:
  assumes "2 * n \<le> length b"
  shows "(back_loop f 0 n b \<bind> sample_loop g 0 n) =
    Some (concat (map (bytes16 \<circ> (g \<circ> f)) (samples n b)) @ drop (2 * n) b)"
proof -
  let ?vs = "map f (samples n b)"
  let ?b = "concat (map bytes16 ?vs) @ drop (2 * n) b"
  have l: "length ?vs = n" by simp
  have lb: "length ?b = length b" using assms by (simp only: length_append length_concat_bytes16) simp
  have "back_loop f 0 n b = Some ?b"
    using back_loop_even [OF assms, of f] by simp
  moreover have "sample_loop g 0 n ?b = Some (concat (map (bytes16 \<circ> g) (samples n ?b)) @ drop (2 * n) ?b)"
    using sample_loop_correct [of 0 n ?b g] lb assms by simp
  moreover have "samples n ?b = ?vs"
    using samples_concat [of ?vs "drop (2 * n) b"] l by simp
  moreover have "drop (2 * n) ?b = drop (2 * n) b" by simp
  ultimately show ?thesis
    by (simp add: o_assoc)
qed

text \<open>
  C28. Converting 16-bit data of a file to native shorts and back is the identity for every 16-bit format
  but the big-endian unsigned one, whose way back flips the sign bit of the wrong byte, so that each
  sample comes back with bits 7 and 15 inverted.
\<close>

theorem lib_16bit_roundtrip:
  assumes fmt: "f \<in> {4, 5, 6, 7}" and n: "0 < n" and room: "2 * n \<le> length b"
  shows "(AuConvertDataToShort f (2 * n) b \<bind> (\<lambda>(status, b'). AuConvertShortToData f (2 * n) b')) =
    Some (0, if f = 5 then concat (map (\<lambda>x. bytes16 (x XOR 0x8080)) (samples n b)) @ drop (2 * n) b else b)"
proof -
  have b: "concat (map bytes16 (samples n b)) @ drop (2 * n) b = b"
    using concat_samples [OF room] by simp
  have size: "AuSizeofFormat f = 2" using fmt by (auto simp: AuSizeofFormat_def)
  have wrong: "swap16 (swap16 x XOR 0x8000) XOR 0x8000 = x XOR 0x8080" for x
    by (simp add: swap16_xor swap16_inverse swap16_8000 xor.assoc)
  note conv = back_then_forward [OF room] size n b wrong swap_bits swap16_inverse
  from fmt consider "f = 4" | "f = 5" | "f = 6" | "f = 7" by auto
  then show ?thesis
  proof cases
    case 1
    with conv show ?thesis
      by (simp add: AuConvertDataToShort_def AuConvertShortToData_def bind_map_option o_def bind_status xor.assoc)
  next
    case 2
    with conv show ?thesis
      by (simp add: AuConvertDataToShort_def AuConvertShortToData_def bind_map_option o_def bind_status xor.assoc)
  next
    case 3
    with conv show ?thesis
      by (simp add: AuConvertDataToShort_def AuConvertShortToData_def)
  next
    case 4
    with conv show ?thesis
      by (simp add: AuConvertDataToShort_def AuConvertShortToData_def bind_map_option o_def bind_status xor.assoc)
  qed
qed

theorem lib_16bit_roundtrip_witness:
  "(AuConvertDataToShort 5 2 [0x12, 0x34] \<bind> (\<lambda>(status, b'). AuConvertShortToData 5 2 b')) =
     Some (0, [0x92, 0xb4])"
  using lib_16bit_roundtrip [of 5 1 "[0x12, 0x34]"]
  by (simp add: samples_def bytes16_def mk16_def lo8_def hi8_def)

end
