(* ===== verification/Linked_List.thy ===== *)
theory Linked_List
  imports Prelude
begin

text \<open>
  The doubly linked lists of the server (\<^verbatim>\<open>AddToLinkedList\<close> and \<^verbatim>\<open>RemoveFromLinkedList\<close> in
  \<^verbatim>\<open>server/dia/au.h\<close>), which hold the devices, the buckets, the flows and the pending events. Nodes are
  numbers; \<open>links\<close> maps the nodes that are allocated to their \<^verbatim>\<open>prev\<close> and \<^verbatim>\<open>next\<close> pointers, and an
  access through a pointer to a node that is not allocated is \<open>None\<close>. The predicate \<open>dll\<close> says which
  list of nodes a head pointer represents.
\<close>

section \<open>The macros\<close>

record link =
  l_prev :: "nat option"
  l_next :: "nat option"

type_synonym links = "nat \<rightharpoonup> link"

definition set_prev :: "nat \<Rightarrow> nat option \<Rightarrow> links \<Rightarrow> links option" where
  "set_prev n p L = map_option (\<lambda>lk. L(n \<mapsto> lk\<lparr>l_prev := p\<rparr>)) (L n)"

definition set_next :: "nat \<Rightarrow> nat option \<Rightarrow> links \<Rightarrow> links option" where
  "set_next n p L = map_option (\<lambda>lk. L(n \<mapsto> lk\<lparr>l_next := p\<rparr>)) (L n)"

definition AddToLinkedList :: "nat option \<Rightarrow> nat \<Rightarrow> links \<Rightarrow> (nat option \<times> links) option" where
  "AddToLinkedList head item L =
     do { L \<leftarrow> set_prev item None L;
          L \<leftarrow> set_next item head L;
          L \<leftarrow> (case head of None \<Rightarrow> Some L | Some h \<Rightarrow> set_prev h (Some item) L);
          Some (Some item, L) }"

definition RemoveFromLinkedList :: "nat option \<Rightarrow> nat \<Rightarrow> links \<Rightarrow> (nat option \<times> links) option" where
  "RemoveFromLinkedList head item L =
     do { lk \<leftarrow> L item;
          L \<leftarrow> (case l_next lk of None \<Rightarrow> Some L | Some n \<Rightarrow> set_prev n (l_prev lk) L);
          lk \<leftarrow> L item;
          (case l_prev lk of
             Some p \<Rightarrow> do { L \<leftarrow> set_next p (l_next lk) L; Some (head, L) }
           | None \<Rightarrow> Some (l_next lk, L)) }"

text \<open>The nodes met by following \<^verbatim>\<open>next\<close>; it does not return on a cycle.\<close>

partial_function (option) chain :: "links \<Rightarrow> nat option \<Rightarrow> nat list option" where
  "chain L head =
     (case head of None \<Rightarrow> Some []
      | Some x \<Rightarrow> do { lk \<leftarrow> L x; xs \<leftarrow> chain L (l_next lk); Some (x # xs) })"

section \<open>Representation\<close>

text \<open>\<open>seg L p h xs e\<close>: from \<open>h\<close> the nodes \<open>xs\<close>, the first with \<^verbatim>\<open>prev\<close> \<open>p\<close>, the last with \<^verbatim>\<open>next\<close> \<open>e\<close>.\<close>

fun seg :: "links \<Rightarrow> nat option \<Rightarrow> nat option \<Rightarrow> nat list \<Rightarrow> nat option \<Rightarrow> bool" where
  "seg L p h [] e \<longleftrightarrow> h = e"
| "seg L p h (x # xs) e \<longleftrightarrow>
     h = Some x \<and> (case L x of None \<Rightarrow> False | Some lk \<Rightarrow> l_prev lk = p \<and> seg L (Some x) (l_next lk) xs e)"

definition dll :: "links \<Rightarrow> nat option \<Rightarrow> nat list \<Rightarrow> bool" where
  "dll L h xs \<longleftrightarrow> distinct xs \<and> seg L None h xs None"

lemma seg_cong: "(\<And>x. x \<in> set xs \<Longrightarrow> L x = L' x) \<Longrightarrow> seg L p h xs e = seg L' p h xs e"
  by (induction xs arbitrary: p h) (auto split: option.splits)

lemma seg_upd [simp]: "x \<notin> set xs \<Longrightarrow> seg (L(x := v)) p h xs e = seg L p h xs e"
  by (intro seg_cong) auto

lemma seg_dom: "seg L p h xs e \<Longrightarrow> x \<in> set xs \<Longrightarrow> x \<in> dom L"
  by (induction xs arbitrary: p h) (auto split: option.splits)

lemma dll_cong: "(\<And>x. x \<in> set xs \<Longrightarrow> L x = L' x) \<Longrightarrow> dll L h xs = dll L' h xs"
  unfolding dll_def using seg_cong by blast

lemma dll_dom: "dll L h xs \<Longrightarrow> x \<in> set xs \<Longrightarrow> x \<in> dom L"
  by (auto simp: dll_def dest: seg_dom)

lemma dll_empty [simp]: "dll L None xs \<longleftrightarrow> xs = []" "dll L h [] \<longleftrightarrow> h = None"
  by (cases xs; auto simp: dll_def)+

lemma chain_seg: "seg L p h xs None \<Longrightarrow> chain L h = Some xs"
  by (induction xs arbitrary: p h) (auto simp: chain.simps split: option.splits)

lemma chain_dll: "dll L h xs \<Longrightarrow> chain L h = Some xs"
  by (auto simp: dll_def chain_seg)

lemma dll_det: "dll L h xs \<Longrightarrow> dll L h ys \<Longrightarrow> xs = ys"
  by (drule chain_dll)+ simp

lemma seg_append:
  "seg L p h (xs @ ys) e \<longleftrightarrow>
   (\<exists>m. seg L p h xs m \<and> seg L (if xs = [] then p else Some (last xs)) m ys e)"
  by (induction xs arbitrary: p h) (auto split: option.splits)

lemma seg_relink_last:
  "seg L p h xs m \<Longrightarrow> xs \<noteq> [] \<Longrightarrow> distinct xs \<Longrightarrow> L (last xs) = Some lk \<Longrightarrow>
   seg (L(last xs \<mapsto> lk\<lparr>l_next := m'\<rparr>)) p h xs m'"
  by (induction xs arbitrary: p h) (auto split: option.splits if_splits)

lemma seg_relink_first:
  "seg L p (Some x) (x # xs) e \<Longrightarrow> distinct (x # xs) \<Longrightarrow> L x = Some lk \<Longrightarrow>
   seg (L(x \<mapsto> lk\<lparr>l_prev := p'\<rparr>)) p' (Some x) (x # xs) e"
  by auto

lemma AddToLinkedList_dll:
  assumes "dll L h xs" and "x \<notin> set xs" and "x \<in> dom L"
  shows "\<exists>L'. AddToLinkedList h x L = Some (Some x, L') \<and> dll L' (Some x) (x # xs) \<and> dom L' = dom L \<and>
    (\<forall>y. y \<notin> set (x # xs) \<longrightarrow> L' y = L y)"
proof (cases xs)
  case Nil
  with assms show ?thesis
    by (auto simp: AddToLinkedList_def set_prev_def set_next_def dll_def dom_def)
next
  case (Cons y ys)
  with assms obtain lk where lk: "h = Some y" "L y = Some lk" "l_prev lk = None"
      "seg L (Some y) (l_next lk) ys None"
    and d: "distinct ys" "y \<notin> set ys" "x \<noteq> y" "x \<notin> set ys"
    by (auto simp: dll_def split: option.splits)
  from assms(3) obtain k where "L x = Some k" by auto
  with lk d Cons show ?thesis
    by (simp add: AddToLinkedList_def set_prev_def set_next_def dll_def) (simp add: dom_def, blast?)
qed

lemma RemoveFromLinkedList_dll:
  assumes "dll L h xs" and "x \<in> set xs"
  shows "\<exists>h' L'. RemoveFromLinkedList h x L = Some (h', L') \<and> dll L' h' (remove1 x xs) \<and> dom L' = dom L \<and>
    (\<forall>y. y \<notin> set xs \<longrightarrow> L' y = L y)"
proof -
  obtain ys zs where xs: "xs = ys @ x # zs" and x: "x \<notin> set ys"
    using split_list_first [OF assms(2)] by blast
  have d: "distinct (ys @ x # zs)" and sg: "seg L None h (ys @ x # zs) None"
    using assms(1) xs by (simp_all add: dll_def)
  let ?p = "if ys = [] then None else Some (last ys)"
  obtain lk where lk: "L x = Some lk" "l_prev lk = ?p"
    and before: "seg L None h ys (Some x)" and after: "seg L (Some x) (l_next lk) zs None"
    using sg by (auto simp: seg_append split: option.splits)
  have r: "remove1 x xs = ys @ zs" using x xs by (simp add: remove1_append)
  define L1 where "L1 = (case zs of [] \<Rightarrow> L | z # zs' \<Rightarrow> L(z \<mapsto> (the (L z))\<lparr>l_prev := ?p\<rparr>))"
  have n: "l_next lk = (case zs of [] \<Rightarrow> None | z # _ \<Rightarrow> Some z)"
    using after by (cases zs) auto
  have step1: "(case l_next lk of None \<Rightarrow> Some L | Some n \<Rightarrow> set_prev n (l_prev lk) L) = Some L1"
    using after lk(2) by (cases zs) (auto simp: L1_def set_prev_def n split: option.splits)
  have same: "L1 y = L y" if "y \<notin> set zs" for y
    using that by (auto simp: L1_def split: list.splits)
  have dom1: "dom L1 = dom L"
    using after by (cases zs) (auto simp: L1_def split: option.splits)
  have seg1: "seg L1 ?p (l_next lk) zs None"
    using after d by (cases zs) (auto simp: L1_def split: option.splits)
  have before1: "seg L1 None h ys (Some x)"
  proof -
    have "seg L1 None h ys (Some x) = seg L None h ys (Some x)"
      using same d by (intro seg_cong) auto
    with before show ?thesis by simp
  qed
  have lk1: "L1 x = Some lk" using same [of x] d lk(1) by auto
  show ?thesis
  proof (cases "ys = []")
    case True
    then have "RemoveFromLinkedList h x L = Some (l_next lk, L1)"
      using lk lk1 step1 by (simp add: RemoveFromLinkedList_def)
    then show ?thesis
      using True seg1 d r dom1 same xs by (auto simp: dll_def)
  next
    case False
    then obtain q where q: "L1 (last ys) = Some q"
      using seg_dom [OF before1, of "last ys"] by auto
    let ?L = "L1(last ys \<mapsto> q\<lparr>l_next := l_next lk\<rparr>)"
    have res: "RemoveFromLinkedList h x L = Some (h, ?L)"
      using False lk lk1 step1 q by (simp add: RemoveFromLinkedList_def set_next_def)
    have "seg ?L None h ys (l_next lk)"
      using seg_relink_last [OF before1 False _ q] d by simp
    moreover have "last ys \<notin> set zs" using False d by (auto dest: last_in_set)
    ultimately have "dll ?L h (ys @ zs)"
      using seg1 d False by (auto simp: dll_def seg_append)
    with res show ?thesis
      using False r dom1 same xs q by (auto intro!: last_in_set)
  qed
qed

text \<open>The node behind a node of the list, and a node linked behind the last.\<close>

lemma dll_next:
  "dll L h (ys @ z # zs) \<Longrightarrow> \<exists>lk. L z = Some lk \<and> l_next lk = (case zs of [] \<Rightarrow> None | y # _ \<Rightarrow> Some y)"
  by (cases zs) (auto simp: dll_def seg_append split: option.splits)

lemma dll_snoc:
  assumes "dll L h xs" "xs \<noteq> []" "e \<notin> set xs" "L (last xs) = Some lk"
  shows "dll (L(last xs \<mapsto> lk\<lparr>l_next := Some e\<rparr>, e \<mapsto> \<lparr>l_prev = Some (last xs), l_next = None\<rparr>)) h (xs @ [e])"
proof -
  have "seg (L(last xs \<mapsto> lk\<lparr>l_next := Some e\<rparr>)) None h xs (Some e)"
    using assms seg_relink_last [of L None h xs None lk "Some e"] by (simp add: dll_def)
  with assms show ?thesis by (auto simp: dll_def seg_append)
qed

lemma dll_head: "dll L h xs \<Longrightarrow> h = (case xs of [] \<Rightarrow> None | x # _ \<Rightarrow> Some x)"
  by (cases xs) (auto simp: dll_def)

lemma dll_free: "dll L h xs \<Longrightarrow> x \<notin> set xs \<Longrightarrow> dll (L(x := v)) h xs"
  by (simp add: dll_def)

text \<open>
  Removing a node that is in no list, with null pointers, empties the list: the macro takes the node for the
  first one.
\<close>

lemma RemoveFromLinkedList_alien:
  "L x = Some lk \<Longrightarrow> l_prev lk = None \<Longrightarrow> l_next lk = None \<Longrightarrow> RemoveFromLinkedList h x L = Some (None, L)"
  by (simp add: RemoveFromLinkedList_def)

end
