(* ===== verification/Server_State.thy ===== *)
theory Server_State
  imports Sample_Format Linked_List
begin

text \<open>
  The data of the audio server (\<^verbatim>\<open>server/dia/au.h\<close>): components (devices, buckets and the ports, wave
  forms and monitors a flow creates), flow elements, compiled flows and flows, and the \<open>server\<close> record with
  the stores that hold them and the global variables of \<^verbatim>\<open>auprocess.c\<close>, \<^verbatim>\<open>auutil.c\<close> and \<^verbatim>\<open>auevents.c\<close>.

  Pointers to components, flows and clients are numbers, looked up in maps: a freed or never allocated
  object has no entry, and using it is \<open>None\<close>. Pointers into a component's data are offsets. A function
  pointer is a value of the datatype that lists the functions the code stores there.
\<close>

section \<open>Constants\<close>

abbreviation (input) AuStateStop :: u8 where "AuStateStop \<equiv> 0"
abbreviation (input) AuStateStart :: u8 where "AuStateStart \<equiv> 1"
abbreviation (input) AuStatePause :: u8 where "AuStatePause \<equiv> 2"
abbreviation (input) AuStateAny :: u8 where "AuStateAny \<equiv> 255"
abbreviation (input) AuReasonUser :: u8 where "AuReasonUser \<equiv> 0"
abbreviation (input) AuReasonUnderrun :: u8 where "AuReasonUnderrun \<equiv> 1"
abbreviation (input) AuReasonOverrun :: u8 where "AuReasonOverrun \<equiv> 2"
abbreviation (input) AuReasonEOF :: u8 where "AuReasonEOF \<equiv> 3"
abbreviation (input) AuReasonWatermark :: u8 where "AuReasonWatermark \<equiv> 4"
abbreviation (input) AuReasonHardware :: u8 where "AuReasonHardware \<equiv> 5"
abbreviation (input) AuReasonAny :: u8 where "AuReasonAny \<equiv> 255"
abbreviation (input) AuElementNotifyKindLowWater :: u8 where "AuElementNotifyKindLowWater \<equiv> 0"
abbreviation (input) AuElementNotifyKindHighWater :: u8 where "AuElementNotifyKindHighWater \<equiv> 1"
abbreviation (input) AuElementNotifyKindState :: u8 where "AuElementNotifyKindState \<equiv> 2"
abbreviation (input) AuElementNotifyKindSpecial :: u8 where "AuElementNotifyKindSpecial \<equiv> 255"
abbreviation (input) AuElementActionChangeState :: u8 where "AuElementActionChangeState \<equiv> 0"
abbreviation (input) AuElementActionSendNotify :: u8 where "AuElementActionSendNotify \<equiv> 1"
abbreviation (input) AuElementActionNoop :: u8 where "AuElementActionNoop \<equiv> 2"
abbreviation (input) AuElementAll :: u32 where "AuElementAll \<equiv> 255"
abbreviation (input) AuUnlimitedSamples :: u32 where "AuUnlimitedSamples \<equiv> 0"
abbreviation (input) AuComponentKindOther :: u8 where "AuComponentKindOther \<equiv> 0"
abbreviation (input) AuComponentKindPhysicalInput :: u8 where "AuComponentKindPhysicalInput \<equiv> 1"
abbreviation (input) AuComponentKindPhysicalOutput :: u8 where "AuComponentKindPhysicalOutput \<equiv> 2"
abbreviation (input) AuComponentKindBucket :: u8 where "AuComponentKindBucket \<equiv> 3"
abbreviation (input) AuComponentKindPhysicalFeedback :: u8 where "AuComponentKindPhysicalFeedback \<equiv> 5"
abbreviation (input) auNativeFormat :: u8 where "auNativeFormat \<equiv> 6"
abbreviation (input) auNativeBytesPerSample :: u32 where "auNativeBytesPerSample \<equiv> 2"
abbreviation (input) AllPhysicalOutputs :: u32 where "AllPhysicalOutputs \<equiv> 0x0f"
abbreviation (input) AllPhysicalInputs :: u32 where "AllPhysicalInputs \<equiv> 0x30"
abbreviation (input) auMaxTracks :: nat where "auMaxTracks \<equiv> 32"

text \<open>\<^verbatim>\<open>sizeofFormat\<close> reads a table of eight entries.\<close>

definition sizeofFormat :: "u8 \<Rightarrow> u32 option" where
  "sizeofFormat f = (if unat f < 8 then Some (auBytesPerSample ! unat f) else None)"

section \<open>Components\<close>

text \<open>
  \<open>c_data\<close> is the block from \<^verbatim>\<open>data\<close> to \<^verbatim>\<open>dataEnd\<close>; \<open>c_read\<close> and \<open>c_write\<close> are offsets in it. For a monitor it
  is the area behind \<^verbatim>\<open>read\<close> in which minima and maxima are collected.
\<close>

record component =
  c_id :: u32
  c_numSamples :: u32
  c_changableMask :: u32
  c_valueMask :: u32
  c_kind :: u8
  c_use :: u8
  c_access :: u8
  c_format :: u8
  c_numTracks :: u8
  c_description :: bytes
  c_descriptionType :: u8
  c_minSampleRate :: u32
  c_maxSampleRate :: u32
  c_location :: u32
  c_gain :: s32
  c_lineMode :: u8
  c_children :: "u32 list"
  c_lowWaterMark :: u32
  c_highWaterMark :: u32
  c_refCnt :: u32
  c_readTag :: u32
  c_sampleRate :: u32
  c_physicalDeviceMask :: u32
  c_minibufSize :: u32
  c_bytesPerSample :: u32
  c_minibufSamples :: u32
  c_dataSize :: u32
  c_minibuf :: bytes
  c_data :: bytes
  c_write :: nat
  c_read :: nat
  c_incoming :: u32
  c_outgoing :: u32
  c_currentSize :: u32
  c_discard :: bool
  c_eof :: bool
  c_processed :: bool
  c_destroyed :: bool
  c_list :: bool
  c_frequency :: u32
  c_waveSamples :: u32

text \<open>What \<open>aucalloc\<close> gives: all zero.\<close>

definition component0 :: component where
  "component0 = \<lparr>c_id = 0, c_numSamples = 0, c_changableMask = 0, c_valueMask = 0, c_kind = 0, c_use = 0,
     c_access = 0, c_format = 0, c_numTracks = 0, c_description = [], c_descriptionType = 0,
     c_minSampleRate = 0, c_maxSampleRate = 0, c_location = 0, c_gain = 0, c_lineMode = 0, c_children = [],
     c_lowWaterMark = 0, c_highWaterMark = 0, c_refCnt = 0, c_readTag = 0, c_sampleRate = 0,
     c_physicalDeviceMask = 0, c_minibufSize = 0, c_bytesPerSample = 0, c_minibufSamples = 0,
     c_dataSize = 0, c_minibuf = [], c_data = [], c_write = 0, c_read = 0, c_incoming = 0, c_outgoing = 0,
     c_currentSize = 0, c_discard = False, c_eof = False, c_processed = False, c_destroyed = False,
     c_list = False, c_frequency = 0, c_waveSamples = 0\<rparr>"

section \<open>Elements\<close>

text \<open>An action as it comes off the wire (\<^verbatim>\<open>auElementAction\<close>), and as it is kept (\<^verbatim>\<open>ActionRec\<close>).\<close>

record raw_action =
  ra_flow :: u32
  ra_element_num :: u8
  ra_trigger_state :: u8
  ra_trigger_prev_state :: u8
  ra_trigger_reason :: u8
  ra_action :: u8
  ra_new_state :: u8

record action =
  a_flow :: nat
  a_triggerState :: u8
  a_triggerPrevState :: u8
  a_triggerReason :: u8
  a_action :: u8
  a_elementNum :: u8
  a_newState :: u8

text \<open>
  The union \<^verbatim>\<open>auElement\<close> (\<^verbatim>\<open>lib/audio/Aproto.h\<close>) with the variable data that follows it: actions, the tracks of
  a bundle, the inputs of a sum.
\<close>

datatype au_element =
    ImportClient (r_sample_rate: u16) (r_format: u8) (r_num_tracks: u8) (r_discard: bool)
      (r_max_samples: u32) (r_low_water_mark: u32) (r_actions: "raw_action list")
  | ImportDevice (r_sample_rate: u16) (r_num_samples: u32) (r_device: u32) (r_actions: "raw_action list")
  | ImportBucket (r_sample_rate: u16) (r_num_samples: u32) (r_bucket: u32) (r_offset: u32) (r_actions: "raw_action list")
  | ImportWaveForm (r_sample_rate: u16) (r_num_samples: u32) (r_wave_form: u8) (r_frequency: u32)
      (r_actions: "raw_action list")
  | Bundle (r_tracks: "(u8 \<times> u8) list")
  | MultiplyConstant (r_input: u16) (r_constant: s32)
  | AddConstant (r_input: u16) (r_constant: s32)
  | Sum (r_inputs: "u16 list")
  | ExportClient (r_sample_rate: u16) (r_input: u16) (r_format: u8) (r_num_tracks: u8) (r_discard: bool)
      (r_max_samples: u32) (r_high_water_mark: u32) (r_actions: "raw_action list")
  | ExportDevice (r_sample_rate: u16) (r_input: u16) (r_num_samples: u32) (r_device: u32) (r_actions: "raw_action list")
  | ExportBucket (r_input: u16) (r_num_samples: u32) (r_bucket: u32) (r_offset: u32) (r_actions: "raw_action list")
  | ExportMonitor (r_event_rate: u16) (r_input: u16) (r_format: u8) (r_num_tracks: u8)

text \<open>
  A flow element. \<open>e_minibuf\<close> is the element's own mini-buffer (bucket elements) or \<open>None\<close>: then \<^verbatim>\<open>minibuf\<close>
  points to the component's. \<open>e_component\<close> is \<open>None\<close> until the element is compiled.
\<close>

record flow_element =
  e_client :: nat
  e_state :: u8
  e_prevState :: u8
  e_elementNum :: u32
  e_numBytes :: u32
  e_refCnt :: u32
  e_currentSample :: u32
  e_nextSample :: u32
  e_minibufSamples :: u32
  e_minibufBytes :: u32
  e_compiled :: bool
  e_setup :: bool
  e_countSamples :: bool
  e_stateChange :: bool
  e_isComponent :: bool
  e_parmsChanged :: bool
  e_minibuf :: "bytes option"
  e_raw :: au_element
  e_actions :: "action list"
  e_component :: "nat option"
  e_read :: nat
  e_write :: nat
  e_sampleRate :: u32
  e_readTag :: u32
  e_toNativeFormat :: "converter option"
  e_fromNativeFormat :: "converter option"
  e_minibufChunk :: u32

section \<open>Compiled flows\<close>

datatype rate_converter = Rcm | RcNull | Rc1 | Rc2 | Rc4 | RcN
datatype read_input = ReadClient | ReadDevice | ReadBucket | ReadWaveForm
datatype write_output = WriteClient | WriteDevice | WriteBucket | WriteMonitor
datatype accumulate = Accumulate | AccumulateSimpleMono | AccumulateSimpleStereo
datatype read_tag = TagElement | TagComponent

text \<open>An element is named by its flow and its index there.\<close>

record compiled_input =
  ci_component :: nat
  ci_flowEl :: "nat \<times> nat"
  ci_multiplyConstant :: s32
  ci_addConstant :: s32
  ci_tracks :: "(u8 \<times> u8) list"
  ci_rateConvert :: rate_converter
  ci_preadTag :: read_tag
  ci_readInput :: read_input

record compiled_output =
  co_component :: nat
  co_flowEl :: "nat \<times> nat"
  co_firstInput :: u16
  co_inputs :: "compiled_input list"
  co_rateConvert :: rate_converter
  co_writeOutput :: write_output

record compiled_flow =
  cf_outputs :: "compiled_output list"
  cf_physicalDeviceMask :: u32
  cf_freeComponents :: bool
  cf_accumulateOutput :: accumulate

definition compiled_flow0 :: compiled_flow where
  "compiled_flow0 = \<lparr>cf_outputs = [], cf_physicalDeviceMask = 0, cf_freeComponents = False,
     cf_accumulateOutput = Accumulate\<rparr>"

record flow =
  f_flowId :: u32
  f_count :: u32
  f_state :: u8
  f_varLen :: u32
  f_pendingState :: u8
  f_clocked :: bool
  f_trivial :: bool
  f_needsRecompile :: bool
  f_compiled :: compiled_flow
  f_elements :: "flow_element list option"

text \<open>A flow and an element of zero bytes (\<open>ProcAuCreateFlow\<close> uses \<open>aucalloc\<close>).\<close>

definition flow0 :: flow where
  "flow0 = \<lparr>f_flowId = 0, f_count = 0, f_state = 0, f_varLen = 0, f_pendingState = 0, f_clocked = False,
     f_trivial = False, f_needsRecompile = False, f_compiled = compiled_flow0, f_elements = None\<rparr>"

definition element0 :: flow_element where
  "element0 = \<lparr>e_client = 0, e_state = 0, e_prevState = 0, e_elementNum = 0, e_numBytes = 0, e_refCnt = 0,
     e_currentSample = 0, e_nextSample = 0, e_minibufSamples = 0, e_minibufBytes = 0, e_compiled = False,
     e_setup = False, e_countSamples = False, e_stateChange = False, e_isComponent = False,
     e_parmsChanged = False, e_minibuf = None, e_raw = Sum [], e_actions = [], e_component = None,
     e_read = 0, e_write = 0, e_sampleRate = 0, e_readTag = 0, e_toNativeFormat = None,
     e_fromNativeFormat = None, e_minibufChunk = 0\<rparr>"

text \<open>\<^verbatim>\<open>flow->numElements\<close>; \<open>f_elements = None\<close> is a null \<^verbatim>\<open>elements\<close>, for which it is 0.\<close>

definition f_numElements :: "flow \<Rightarrow> nat" where
  "f_numElements f = (case f_elements f of None \<Rightarrow> 0 | Some es \<Rightarrow> length es)"

section \<open>Events\<close>

datatype au_event =
    ElementNotify (ev_flowId: u32) (ev_element: u32) (ev_kind: u8) (ev_reason: u8) (ev_prev_state: u8)
      (ev_cur_state: u8) (ev_num_bytes: u32)
  | MonitorNotify (ev_flowId: u32) (ev_element: u32) (ev_format: u8) (ev_num_tracks: u8) (ev_count: u32)
      (ev_data: bytes)

text \<open>\<open>None\<close> as event: \<^verbatim>\<open>processClockedFlows\<close> is set, and \<^verbatim>\<open>flow\<close> and \<^verbatim>\<open>client\<close> are not (\<open>q_flow\<close> is then any value).\<close>

record queued =
  q_event :: "au_event option"
  q_flow :: nat
  q_client :: nat

section \<open>Clients\<close>

record client =
  cl_index :: nat
  cl_sequence :: u16
  cl_clientGone :: bool
  cl_errorValue :: u32
  cl_closeDownMode :: u8

section \<open>The server\<close>

text \<open>What the server asks of the device driver through \<^verbatim>\<open>AuCallbacks\<close>, in order.\<close>

datatype driver_call =
    SetWritePhysicalOutputFunction | EnableProcessFlow | DisableProcessFlow
  | ReadPhysicalInputs | WritePhysicalOutputs | SetSampleRate u32 | EventPosted
  | SetPhysicalOutputGain s32 | SetPhysicalOutputMode u8 | SetPhysicalInputGainAndLineMode s32 u8
  | SetPhysicalFeedbackGain s32

text \<open>
  \<open>sv_setSampleRate\<close> is the driver's \<^verbatim>\<open>AuSetSampleRateCB\<close>, if it has one: the rate it chooses for the rate asked.
  \<open>sv_readPhysicalInputs\<close> is what the driver's \<^verbatim>\<open>AuReadPhysicalInputsCB\<close> leaves in the mini-buffer of each
  physical input. \<open>sv_mallocs\<close> tells the outcome of the next allocations; after its end they succeed. New
  objects get the number \<open>sv_next\<close>. \<open>sv_written\<close> lists the events written to clients, with the sequence number
  put in them.
\<close>

record server =
  sv_clients :: "nat \<rightharpoonup> client"
  sv_written :: "(nat \<times> u16 \<times> au_event) list"
  sv_comps :: "nat \<rightharpoonup> component"
  sv_comp_links :: links
  sv_flows :: "nat \<rightharpoonup> flow"
  sv_flow_links :: links
  sv_next :: nat
  sv_auDevices :: "nat option"
  sv_auBuckets :: "nat option"
  sv_auClockedFlows :: "nat option"
  sv_auUnclockedFlows :: "nat option"
  sv_auFlow :: "compiled_flow option"
  sv_readTag :: u32
  sv_processFlowEnabled :: bool
  sv_maxOutputGain :: s32
  sv_desiredOutputGain :: s32
  sv_auCurrentSampleRate :: u32
  sv_auMinibufSamples :: u32
  sv_minSampleRate :: u32
  sv_maxSampleRate :: u32
  sv_auAverageFlows :: bool
  sv_events :: "nat \<rightharpoonup> queued"
  sv_event_links :: links
  sv_AuEventQueue :: "nat option"
  sv_AuEventQueueTail :: "nat option"
  sv_calls :: "driver_call list"
  sv_setSampleRate :: "(u32 \<Rightarrow> u32) option"
  sv_readPhysicalInputs :: "nat \<Rightarrow> bytes option"
  sv_mallocs :: "bool list"

text \<open>
  The server before its devices are created, with mini-buffers of \<open>n\<close> samples: the initial values of the
  global variables.
\<close>

definition server_init :: "u32 \<Rightarrow> server" where
  "server_init n = \<lparr>sv_clients = Map.empty, sv_written = [], sv_comps = Map.empty, sv_comp_links = Map.empty,
     sv_flows = Map.empty, sv_flow_links = Map.empty, sv_next = 0, sv_auDevices = None, sv_auBuckets = None,
     sv_auClockedFlows = None, sv_auUnclockedFlows = None, sv_auFlow = None, sv_readTag = 0,
     sv_processFlowEnabled = False, sv_maxOutputGain = 0x640000, sv_desiredOutputGain = 0,
     sv_auCurrentSampleRate = 0, sv_auMinibufSamples = n, sv_minSampleRate = 4000, sv_maxSampleRate = 44100,
     sv_auAverageFlows = False, sv_events = Map.empty, sv_event_links = Map.empty, sv_AuEventQueue = None,
     sv_AuEventQueueTail = None, sv_calls = [], sv_setSampleRate = None, sv_readPhysicalInputs = (\<lambda>_. None),
     sv_mallocs = []\<rparr>"

definition aualloc :: "server \<Rightarrow> bool \<times> server" where
  "aualloc s = (case sv_mallocs s of [] \<Rightarrow> (True, s) | b # bs \<Rightarrow> (b, s\<lparr>sv_mallocs := bs\<rparr>))"

definition AuCallback :: "driver_call \<Rightarrow> server \<Rightarrow> server" where
  "AuCallback c s = s\<lparr>sv_calls := sv_calls s @ [c]\<rparr>"

section \<open>Access\<close>

definition get_comp :: "nat \<Rightarrow> server \<Rightarrow> component option" where
  "get_comp r s = sv_comps s r"

definition put_comp :: "nat \<Rightarrow> component \<Rightarrow> server \<Rightarrow> server" where
  "put_comp r c s = s\<lparr>sv_comps := (sv_comps s)(r \<mapsto> c)\<rparr>"

definition upd_comp :: "nat \<Rightarrow> (component \<Rightarrow> component) \<Rightarrow> server \<Rightarrow> server option" where
  "upd_comp r f s = do { c \<leftarrow> get_comp r s; Some (put_comp r (f c) s) }"

definition get_flow :: "nat \<Rightarrow> server \<Rightarrow> flow option" where
  "get_flow r s = sv_flows s r"

definition put_flow :: "nat \<Rightarrow> flow \<Rightarrow> server \<Rightarrow> server" where
  "put_flow r f s = s\<lparr>sv_flows := (sv_flows s)(r \<mapsto> f)\<rparr>"

definition upd_flow :: "nat \<Rightarrow> (flow \<Rightarrow> flow) \<Rightarrow> server \<Rightarrow> server option" where
  "upd_flow r g s = do { f \<leftarrow> get_flow r s; Some (put_flow r (g f) s) }"

definition get_el :: "nat \<times> nat \<Rightarrow> server \<Rightarrow> flow_element option" where
  "get_el p s = do { f \<leftarrow> get_flow (fst p) s; es \<leftarrow> f_elements f;
     if snd p < length es then Some (es ! snd p) else None }"

definition put_el :: "nat \<times> nat \<Rightarrow> flow_element \<Rightarrow> server \<Rightarrow> server" where
  "put_el p e s = (case get_flow (fst p) s of None \<Rightarrow> s
     | Some f \<Rightarrow> put_flow (fst p) (f\<lparr>f_elements := map_option (\<lambda>es. es[snd p := e]) (f_elements f)\<rparr>) s)"

definition upd_el :: "nat \<times> nat \<Rightarrow> (flow_element \<Rightarrow> flow_element) \<Rightarrow> server \<Rightarrow> server option" where
  "upd_el p g s = do { e \<leftarrow> get_el p s; Some (put_el p (g e) s) }"

text \<open>The component an element's \<^verbatim>\<open>component\<close> pointer refers to.\<close>

definition el_comp :: "flow_element \<Rightarrow> server \<Rightarrow> component option" where
  "el_comp e s = do { r \<leftarrow> e_component e; get_comp r s }"

end
