(* ===== verification/Mixer.thy ===== *)
theory Mixer
  imports Sample_Format
begin

text \<open>
  The arithmetic of the mixer: \<open>AuFixedPointMultiply\<close> (\<^verbatim>\<open>server/dia/auutil.c\<close>) and, of
  \<^verbatim>\<open>server/dia/auprocess.c\<close> compiled with \<^verbatim>\<open>OUTPUT_RANGE_CHECK\<close>, the loops of \<open>accumulateOutput\<close>,
  \<open>accumulateOutputSimpleMono\<close>, \<open>accumulateOutputSimpleStereo\<close> and the range check of \<open>writeOutput\<close>. Inputs
  are 16-bit samples in one byte block, the output is an array of 32-bit sums in another.

  Signed 32-bit arithmetic wraps in the model; the theorems show where the code stays in range.
\<close>

section \<open>Fixed point numbers\<close>

definition AuFixedPointIntegralAddend :: "s32 \<Rightarrow> s32" where
  "AuFixedPointIntegralAddend fp = signed_drop_bit 16 fp"

definition AuFixedPointFractionalAddend :: "s32 \<Rightarrow> s32" where
  "AuFixedPointFractionalAddend fp = fp AND 0xffff"

definition AuFixedPointFromSum :: "s32 \<Rightarrow> s32 \<Rightarrow> s32" where
  "AuFixedPointFromSum a b = push_bit 16 a + b"

definition AuFixedPointMultiply :: "s32 \<Rightarrow> s32 \<Rightarrow> s32" where
  "AuFixedPointMultiply m1 m2 =
     (let negative = (sint m1 < 0) \<noteq> (sint m2 < 0);
          m1 = (if sint m1 < 0 then - m1 else m1);
          m2 = (if sint m2 < 0 then - m2 else m2);
          A = AuFixedPointIntegralAddend m1; B = AuFixedPointFractionalAddend m1;
          C = AuFixedPointIntegralAddend m2; D = AuFixedPointFractionalAddend m2;
          result = D * A + signed_drop_bit 16 (D * B) + C * m1
      in if negative then - result else result)"

section \<open>32-bit accesses\<close>

definition mk32 :: "u16 \<Rightarrow> u16 \<Rightarrow> u32" where
  "mk32 lo hi = ucast lo OR push_bit 16 (ucast hi)"

definition ld32 :: "bytes \<Rightarrow> nat \<Rightarrow> u32 option" where
  "ld32 b p = do { lo \<leftarrow> ld16 b p; hi \<leftarrow> ld16 b (p + 2); Some (mk32 lo hi) }"

definition st32 :: "u32 \<Rightarrow> nat \<Rightarrow> bytes \<Rightarrow> bytes option" where
  "st32 v p b = do { b \<leftarrow> st16 (ucast v) p b; st16 (ucast (drop_bit 16 v)) (p + 2) b }"

section \<open>Mixing\<close>

text \<open>What one input sample adds to the output: integral and fractional parts are multiplied apart.\<close>

definition mix_value :: "s32 \<Rightarrow> s32 \<Rightarrow> s16 \<Rightarrow> s32" where
  "mix_value multiplyConstant addConstant s =
     (let v = scast s in
      (v * AuFixedPointIntegralAddend multiplyConstant + AuFixedPointIntegralAddend addConstant) +
      signed_drop_bit 16 (v * AuFixedPointFractionalAddend multiplyConstant +
                          AuFixedPointFractionalAddend addConstant))"

text \<open>\<open>acc1 f ip inp op out\<close>: \<^verbatim>\<open>*out += f(*in)\<close> with \<open>in\<close> at sample \<open>ip\<close> and \<open>out\<close> at word \<open>op\<close>.\<close>

definition acc1 :: "(s16 \<Rightarrow> s32) \<Rightarrow> nat \<Rightarrow> bytes \<Rightarrow> nat \<Rightarrow> bytes \<Rightarrow> bytes option" where
  "acc1 f ip inp op out =
     do { s \<leftarrow> ld16 inp (2 * ip); x \<leftarrow> ld32 out (4 * op); st32 (x + f s) (4 * op) out }"

text \<open>The loop over \<^verbatim>\<open>j\<close>, the tracks \<open>(inTrack, outTrack)\<close> of one input; the loop over \<^verbatim>\<open>i\<close>, the frames.\<close>

fun acc_tracks :: "(s16 \<Rightarrow> s32) \<Rightarrow> (u8 \<times> u8) list \<Rightarrow> nat \<Rightarrow> bytes \<Rightarrow> nat \<Rightarrow> bytes \<Rightarrow> bytes option" where
  "acc_tracks f [] ip inp op out = Some out"
| "acc_tracks f ((it, ot) # ts) ip inp op out =
     do { out \<leftarrow> acc1 f (ip + unat it) inp (op + unat ot) out; acc_tracks f ts ip inp op out }"

fun acc_frames :: "(s16 \<Rightarrow> s32) \<Rightarrow> (u8 \<times> u8) list \<Rightarrow> nat \<Rightarrow> nat \<Rightarrow> nat \<Rightarrow> nat \<Rightarrow> bytes \<Rightarrow> nat \<Rightarrow> bytes \<Rightarrow> bytes option" where
  "acc_frames f ts inTracks outTracks 0 ip inp op out = Some out"
| "acc_frames f ts inTracks outTracks (Suc n) ip inp op out =
     do { out \<leftarrow> acc_tracks f ts ip inp op out;
          acc_frames f ts inTracks outTracks n (ip + inTracks) inp (op + outTracks) out }"

fun acc_all :: "(s16 \<Rightarrow> s32) \<Rightarrow> nat \<Rightarrow> nat \<Rightarrow> bytes \<Rightarrow> bytes \<Rightarrow> bytes option" where
  "acc_all f 0 k inp out = Some out"
| "acc_all f (Suc n) k inp out = do { out \<leftarrow> acc1 f k inp k out; acc_all f n (Suc k) inp out }"

text \<open>
  \<open>inTracks\<close> and \<open>outTracks\<close> are the tracks of the input and the output component, \<open>n\<close> the frames in the
  input's mini-buffer. Without a track list all input tracks map to the output tracks.
\<close>

definition accumulateOutput ::
  "s32 \<Rightarrow> s32 \<Rightarrow> (u8 \<times> u8) list \<Rightarrow> nat \<Rightarrow> nat \<Rightarrow> nat \<Rightarrow> bytes \<Rightarrow> bytes \<Rightarrow> bytes option" where
  "accumulateOutput multiplyConstant addConstant tracks inTracks outTracks n inp out =
     (if tracks \<noteq> [] then acc_frames (mix_value multiplyConstant addConstant) tracks inTracks outTracks n 0 inp 0 out
      else acc_all (mix_value multiplyConstant addConstant) (n * outTracks) 0 inp out)"

definition accumulateOutputSimpleMono :: "s32 \<Rightarrow> nat \<Rightarrow> bytes \<Rightarrow> bytes \<Rightarrow> bytes option" where
  "accumulateOutputSimpleMono multiplyConstant n inp out =
     acc_all (\<lambda>s. scast s * AuFixedPointIntegralAddend multiplyConstant +
        signed_drop_bit 16 (scast s * AuFixedPointFractionalAddend multiplyConstant)) n 0 inp out"

definition accumulateOutputSimpleStereo :: "s32 \<Rightarrow> nat \<Rightarrow> bytes \<Rightarrow> bytes \<Rightarrow> bytes option" where
  "accumulateOutputSimpleStereo multiplyConstant n inp out =
     acc_all (\<lambda>s. scast s * AuFixedPointIntegralAddend multiplyConstant +
        signed_drop_bit 16 (scast s * AuFixedPointFractionalAddend multiplyConstant)) (n * 2) 0 inp out"

text \<open>The range check of \<open>writeOutput\<close>: \<open>n\<close> sums are narrowed in place to 16 bits.\<close>

definition clip :: "s32 \<Rightarrow> s16" where
  "clip x = ucast (if sint x < -32768 then -32768 else if sint x > 32767 then 32767 else x)"

fun clip_loop :: "nat \<Rightarrow> nat \<Rightarrow> bytes \<Rightarrow> bytes option" where
  "clip_loop i 0 b = Some b"
| "clip_loop i (Suc n) b =
     do { x \<leftarrow> ld32 b (4 * i); b \<leftarrow> st16 (clip x) (2 * i) b; clip_loop (Suc i) n b }"

section \<open>Words of a block\<close>

definition w16 :: "bytes \<Rightarrow> nat \<Rightarrow> u16" where
  "w16 b i = mk16 (b ! (2 * i)) (b ! (2 * i + 1))"

definition w32 :: "bytes \<Rightarrow> nat \<Rightarrow> u32" where
  "w32 b i = mk32 (w16 b (2 * i)) (w16 b (2 * i + 1))"

lemma mk32_lo_hi [simp]: "mk32 (ucast v) (ucast (drop_bit 16 v)) = v"
  unfolding mk32_def by (rule bit_word_eqI) (auto simp: bit_simps)

lemma ld16_w16 [mem_simps]: "2 * i + 1 < length b \<Longrightarrow> ld16 b (2 * i) = Some (w16 b i)"
  by (simp add: ld16_def w16_def)

lemma st16_w16:
  assumes "2 * i + 1 < length b"
  shows "\<exists>b'. st16 v (2 * i) b = Some b' \<and> length b' = length b \<and>
    (\<forall>j. w16 b' j = (if j = i then v else w16 b j))"
proof -
  have "w16 (b[2 * i := lo8 v, 2 * i + 1 := hi8 v]) j = (if j = i then v else w16 b j)" for j
  proof -
    have "2 * j \<noteq> 2 * i + 1" "2 * j + 1 \<noteq> 2 * i" by arith+
    then show ?thesis using assms by (auto simp: w16_def)
  qed
  with assms show ?thesis by (simp add: st16_def)
qed

lemma ld32_w32 [mem_simps]: "4 * i + 3 < length b \<Longrightarrow> ld32 b (4 * i) = Some (w32 b i)"
  using ld16_w16 [of "2 * i" b] ld16_w16 [of "2 * i + 1" b] by (simp add: ld32_def w32_def)

lemma st32_w32:
  assumes "4 * i + 3 < length b"
  shows "\<exists>b'. st32 v (4 * i) b = Some b' \<and> length b' = length b \<and>
    (\<forall>j. w32 b' j = (if j = i then v else w32 b j))"
proof -
  obtain b1 where b1: "st16 (ucast v) (2 * (2 * i)) b = Some b1" "length b1 = length b"
      "\<And>j. w16 b1 j = (if j = 2 * i then ucast v else w16 b j)"
    using st16_w16 [of "2 * i" b "ucast v"] assms by auto
  obtain b2 where b2: "st16 (ucast (drop_bit 16 v)) (2 * (2 * i + 1)) b1 = Some b2" "length b2 = length b1"
      "\<And>j. w16 b2 j = (if j = 2 * i + 1 then ucast (drop_bit 16 v) else w16 b1 j)"
    using st16_w16 [of "2 * i + 1" b1 "ucast (drop_bit 16 v)"] assms b1(2) by auto
  have "w32 b2 j = (if j = i then v else w32 b j)" for j
  proof -
    have "2 * j \<noteq> 2 * i + 1" "2 * j + 1 \<noteq> 2 * i" by arith+
    then show ?thesis by (auto simp: w32_def b1(3) b2(3))
  qed
  with b1 b2 show ?thesis by (simp add: st32_def)
qed

lemma ld16_None [mem_simps]: "ld16 b p = None \<longleftrightarrow> length b \<le> p + 1"
  by (auto simp: ld16_def)

lemma ld32_None [mem_simps]: "ld32 b p = None \<longleftrightarrow> length b \<le> p + 3"
  by (auto simp: ld32_def ld16_def split: option.splits)

section \<open>Signed words as integers\<close>

lemma sint_s32: "-2147483648 \<le> sint (x :: s32)" "sint (x :: s32) < 2147483648"
  using sint_greater_eq [of x] sint_less [of x] by simp_all

lemma sint_s16: "-32768 \<le> sint (x :: s16)" "sint (x :: s16) < 32768"
  using sint_greater_eq [of x] sint_less [of x] by simp_all

lemma sint_eqD: "sint (x :: s32) = k \<Longrightarrow> x = word_of_int k"
  by auto

lemma sint_of_int32: "-2147483648 \<le> k \<Longrightarrow> k < 2147483648 \<Longrightarrow> sint (word_of_int k :: s32) = k"
  using signed_take_bit_int_eq_self [of 31 k] by (simp add: signed_of_int)

lemma sint_of_int16: "-32768 \<le> k \<Longrightarrow> k < 32768 \<Longrightarrow> sint (word_of_int k :: s16) = k"
  using signed_take_bit_int_eq_self [of 15 k] by (simp add: signed_of_int)

lemma signed_drop_of_int32:
  "-2147483648 \<le> k \<Longrightarrow> k < 2147483648 \<Longrightarrow>
   signed_drop_bit 16 (word_of_int k :: s32) = word_of_int (k div 65536)"
proof -
  assume k: "-2147483648 \<le> k" "k < 2147483648"
  have "sint (signed_drop_bit 16 (word_of_int k :: s32)) = k div 65536"
    by (simp add: sint_signed_drop_bit_eq sint_of_int32 [OF k] drop_bit_eq_div)
  then show ?thesis by (metis sint_eqD)
qed

lemma integral_of_int: "AuFixedPointIntegralAddend m = word_of_int (sint m div 65536)"
  unfolding AuFixedPointIntegralAddend_def
  using signed_drop_of_int32 [OF sint_s32, of m] by simp

lemma fractional_of_int: "AuFixedPointFractionalAddend m = word_of_int (sint m mod 65536)"
proof -
  have "(0xffff :: s32) = mask 16" by (simp add: mask_eq_exp_minus_1)
  then have "AuFixedPointFractionalAddend m = m AND mask 16"
    by (simp only: AuFixedPointFractionalAddend_def)
  also have "\<dots> = word_of_int (take_bit 16 (sint m))"
    by (rule bit_word_eqI) (auto simp: bit_simps)
  finally show ?thesis by (simp add: take_bit_eq_mod)
qed

text \<open>Multiplying integral and fractional parts apart.\<close>

lemma split_16_16:
  obtains h l :: int where "x = 65536 * h + l" "0 \<le> l" "l < 65536" "x div 65536 = h" "x mod 65536 = l"
proof
  show "x = 65536 * (x div 65536) + x mod 65536" by simp
qed simp_all

lemma split_mult_add:
  "s * (m div 65536) + a div 65536 + (s * (m mod 65536) + a mod 65536) div 65536 = (s * m + a) div (65536 :: int)"
proof -
  obtain mh ml where m: "m = 65536 * mh + ml" "m div 65536 = mh" "m mod 65536 = ml"
    using split_16_16 by metis
  obtain ah al where a: "a = 65536 * ah + al" "a div 65536 = ah" "a mod 65536 = al"
    using split_16_16 by metis
  have "s * m + a = (s * ml + al) + 65536 * (s * mh + ah)"
    unfolding m(1) a(1) by (simp add: distrib_left mult.left_commute)
  then have "(s * m + a) div 65536 = (s * ml + al) div 65536 + (s * mh + ah)" by simp
  then show ?thesis by (simp only: m(2,3) a(2,3))
qed

lemma split_mult:
  "(b mod 65536) * (a div 65536) + (a mod 65536) * (b mod 65536) div 65536 + b div 65536 * a = a * b div (65536 :: int)"
proof -
  obtain ah al where a: "a = 65536 * ah + al" "a div 65536 = ah" "a mod 65536 = al"
    using split_16_16 by metis
  obtain bh bl where b: "b = 65536 * bh + bl" "b div 65536 = bh" "b mod 65536 = bl"
    using split_16_16 by metis
  have "a * b = al * bl + 65536 * (bl * ah + bh * a)"
    unfolding a(1) b(1) by (simp add: distrib_left distrib_right)
  then have "a * b div 65536 = al * bl div 65536 + (bl * ah + bh * a)" by simp
  then show ?thesis by (simp only: a(2,3) b(2,3))
qed

text \<open>
  Mixing is exact: one sample contributes the floor of \<open>s * m + a\<close>, in 16.16 arithmetic, to the sum, with no
  overflow for any sample and constants, although the code multiplies integral and fractional parts apart.
\<close>

theorem mix_value_exact: "sint (mix_value m a s) = (sint s * sint m + sint a) div 65536"
proof -
  let ?S = "sint s" and ?M = "sint m" and ?A = "sint a"
  have v: "(scast s :: s32) = word_of_int ?S" by (simp add: signed_word_eqI)
  have mm: "0 \<le> ?M mod 65536" "?M mod 65536 < 65536" "0 \<le> ?A mod 65536" "?A mod 65536 < 65536" by simp_all
  have lo: "-32768 * (?M mod 65536) \<le> ?S * (?M mod 65536)" "?S * (?M mod 65536) \<le> 32767 * (?M mod 65536)"
    using sint_s16 [of s] mm by (intro mult_right_mono; simp)+
  have frac: "signed_drop_bit 16 (word_of_int ?S * word_of_int (?M mod 65536) + word_of_int (?A mod 65536) :: s32) =
      word_of_int ((?S * (?M mod 65536) + ?A mod 65536) div 65536)"
    using signed_drop_of_int32 [of "?S * (?M mod 65536) + ?A mod 65536"] lo mm by simp
  have eq: "?S * (?M div 65536) + ?A div 65536 + (?S * (?M mod 65536) + ?A mod 65536) div 65536 =
      (?S * ?M + ?A) div 65536"
    by (rule split_mult_add)
  have "mix_value m a s = word_of_int ((?S * ?M + ?A) div 65536)"
    unfolding mix_value_def Let_def v integral_of_int fractional_of_int frac eq [symmetric] by simp
  moreover have "-2147483648 \<le> (?S * ?M + ?A) div 65536 \<and> (?S * ?M + ?A) div 65536 < 2147483648"
  proof -
    have "\<bar>?S * ?M\<bar> \<le> 32768 * 2147483648"
      unfolding abs_mult using sint_s16 [of s] sint_s32 [of m] by (intro mult_mono) auto
    then show ?thesis using sint_s32 [of a] by linarith
  qed
  ultimately show ?thesis by (simp add: sint_of_int32)
qed

lemma low_product:
  assumes "0 \<le> d" "d < 65536" "0 \<le> b" "b < 65536"
  shows "signed_drop_bit 16 (word_of_int d * word_of_int b :: s32) =
    word_of_int (b * d div 65536 - (if 2 ^ 31 \<le> b * d then 65536 else 0))"
proof -
  have "b * d \<le> 65535 * 65535" using assms by (intro mult_mono) simp_all
  moreover have "0 \<le> b * d" using assms by simp
  moreover have "(word_of_int d * word_of_int b :: s32) = word_of_int (b * d)" by (simp add: mult.commute)
  moreover obtain p where p: "b * d = p" by simp
  ultimately have bd: "0 \<le> p" "p \<le> 65535 * 65535" and w: "(word_of_int d * word_of_int b :: s32) = word_of_int p"
    by simp_all
  have "signed_drop_bit 16 (word_of_int p :: s32) =
      word_of_int (p div 65536 - (if 2 ^ 31 \<le> p then 65536 else 0))"
  proof (cases "2 ^ 31 \<le> p")
    case True
    have e: "(word_of_int p :: s32) = word_of_int (p - 4294967296)" by simp
    have "(p - 4294967296) div 65536 = p div 65536 - 65536" by arith
    moreover have "signed_drop_bit 16 (word_of_int (p - 4294967296) :: s32) = word_of_int ((p - 4294967296) div 65536)"
      using True bd by (intro signed_drop_of_int32) simp_all
    ultimately show ?thesis using True by (simp only: e if_True)
  next
    case False
    with bd signed_drop_of_int32 [of p] show ?thesis by simp
  qed
  then show ?thesis by (simp only: w p)
qed

text \<open>
  \<open>AuFixedPointMultiply\<close> is the product of 16.16 numbers truncated towards zero, except that it is one less in
  magnitude (65536 in units of the last place) when the product of the two fractional parts reaches
  \<open>2 ^ 31\<close>: the partial product \<open>D * B\<close> overflows a signed 32-bit integer. Results are modulo \<open>2 ^ 32\<close>.
\<close>

theorem AuFixedPointMultiply_exact:
  assumes "m1 \<noteq> 0x80000000" "m2 \<noteq> 0x80000000"
  shows "AuFixedPointMultiply m1 m2 =
    (let p = \<bar>sint m1\<bar> * \<bar>sint m2\<bar> div 65536 -
             (if 2 ^ 31 \<le> (\<bar>sint m1\<bar> mod 65536) * (\<bar>sint m2\<bar> mod 65536) then 65536 else 0)
     in word_of_int (if (sint m1 < 0) \<noteq> (sint m2 < 0) then - p else p))"
proof -
  have abs: "sint (if sint m < 0 then - m else m) = \<bar>sint m\<bar>" if "m \<noteq> 0x80000000" for m :: s32
  proof (cases "sint m < 0")
    case True
    have "sint m \<noteq> -2147483648"
    proof
      assume "sint m = -2147483648"
      then have "m = word_of_int (-2147483648)" by (metis sint_eqD)
      with that show False by simp
    qed
    with True sint_s32 [of m] have "sint (word_of_int (- sint m) :: s32) = - sint m"
      by (intro sint_of_int32) linarith+
    with True show ?thesis by simp
  qed simp
  let ?a = "\<bar>sint m1\<bar>" and ?b = "\<bar>sint m2\<bar>"
  let ?B = "?a mod 65536" and ?D = "?b mod 65536"
  let ?o = "if 2 ^ 31 \<le> ?B * ?D then 65536 else 0 :: int"
  have DB: "signed_drop_bit 16 (word_of_int ?D * word_of_int ?B :: s32) = word_of_int (?B * ?D div 65536 - ?o)"
    by (rule low_product) simp_all
  have m1: "(if sint m1 < 0 then - m1 else m1) = word_of_int ?a"
    and m2: "(if sint m2 < 0 then - m2 else m2) = word_of_int ?b"
    by simp_all
  have s1: "sint (word_of_int ?a :: s32) = ?a" and s2: "sint (word_of_int ?b :: s32) = ?b"
    using abs [OF assms(1)] abs [OF assms(2)] by (simp_all only: m1 m2)
  have eq: "?D * (?a div 65536) + (?B * ?D div 65536 - ?o) + ?b div 65536 * ?a = ?a * ?b div 65536 - ?o"
    using split_mult [of ?b ?a] by linarith
  have "AuFixedPointMultiply m1 m2 =
      (let r = word_of_int (?a * ?b div 65536 - ?o) in if (sint m1 < 0) \<noteq> (sint m2 < 0) then - r else r)"
    unfolding AuFixedPointMultiply_def Let_def m1 m2 integral_of_int fractional_of_int s1 s2 DB eq [symmetric]
    by simp
  then show ?thesis by (simp add: Let_def)
qed

text \<open>Three quarters squared is negative: -7/16 where 9/16 is meant.\<close>

theorem AuFixedPointMultiply_exact_witness:
  "AuFixedPointMultiply 0xC000 0xC000 = word_of_int (0x9000 - 65536)"
  by (subst AuFixedPointMultiply_exact) simp_all

section \<open>The mixing loops\<close>

lemma acc1_spec:
  assumes "2 * ip + 1 < length inp" "4 * op + 3 < length out"
  shows "\<exists>out'. acc1 f ip inp op out = Some out' \<and> length out' = length out \<and>
    (\<forall>j. w32 out' j = w32 out j + (if j = op then f (w16 inp ip) else 0))"
  using st32_w32 [OF assms(2), of "w32 out op + f (w16 inp ip)"] assms
  by (auto simp: acc1_def mem_simps)

lemma acc_all_spec:
  "2 * (k + n) \<le> length inp \<Longrightarrow> 4 * (k + n) \<le> length out \<Longrightarrow>
   \<exists>out'. acc_all f n k inp out = Some out' \<and> length out' = length out \<and>
    (\<forall>j. w32 out' j = w32 out j + (if k \<le> j \<and> j < k + n then f (w16 inp j) else 0))"
proof (induction n arbitrary: k out)
  case (Suc n)
  obtain out1 where 1: "acc1 f k inp k out = Some out1" "length out1 = length out"
      "\<And>j. w32 out1 j = w32 out j + (if j = k then f (w16 inp k) else 0)"
    using acc1_spec [of k inp k out f] Suc.prems by auto
  obtain out2 where "acc_all f n (Suc k) inp out1 = Some out2" "length out2 = length out1"
      "\<And>j. w32 out2 j = w32 out1 j + (if Suc k \<le> j \<and> j < Suc k + n then f (w16 inp j) else 0)"
    using Suc.IH [of "Suc k" out1] Suc.prems 1(2) by auto
  with 1 show ?case by auto
qed auto

lemma acc_tracks_spec:
  "(\<forall>(it, ot) \<in> set ts. 2 * (ip + unat it) + 1 < length inp \<and> 4 * (op + unat ot) + 3 < length out) \<Longrightarrow>
   \<exists>out'. acc_tracks f ts ip inp op out = Some out' \<and> length out' = length out \<and>
    (\<forall>j. w32 out' j = w32 out j +
      sum_list (map (\<lambda>(it, ot). if j = op + unat ot then f (w16 inp (ip + unat it)) else 0) ts))"
proof (induction ts arbitrary: out)
  case (Cons p ts)
  obtain it ot where p: "p = (it, ot)" by (cases p)
  obtain out1 where 1: "acc1 f (ip + unat it) inp (op + unat ot) out = Some out1" "length out1 = length out"
      "\<And>j. w32 out1 j = w32 out j + (if j = op + unat ot then f (w16 inp (ip + unat it)) else 0)"
    using acc1_spec [of "ip + unat it" inp "op + unat ot" out f] Cons.prems p by auto
  obtain out2 where "acc_tracks f ts ip inp op out1 = Some out2" "length out2 = length out1"
      "\<And>j. w32 out2 j = w32 out1 j +
         sum_list (map (\<lambda>(it, ot). if j = op + unat ot then f (w16 inp (ip + unat it)) else 0) ts)"
    using Cons.IH [of out1] Cons.prems 1(2) by auto
  with 1 p show ?case by (simp add: add.assoc)
qed simp

definition track_sum :: "(s16 \<Rightarrow> s32) \<Rightarrow> (u8 \<times> u8) list \<Rightarrow> bytes \<Rightarrow> nat \<Rightarrow> nat \<Rightarrow> s32" where
  "track_sum f ts inp ip t = sum_list (map (\<lambda>(it, ot). if t = unat ot then f (w16 inp (ip + unat it)) else 0) ts)"

lemma acc_frames_spec:
  assumes T: "\<forall>(it, ot) \<in> set ts. unat it < inTracks \<and> unat ot < outTracks"
  shows "2 * (ip + n * inTracks) \<le> length inp \<Longrightarrow> 4 * (op + n * outTracks) \<le> length out \<Longrightarrow>
   \<exists>out'. acc_frames f ts inTracks outTracks n ip inp op out = Some out' \<and> length out' = length out \<and>
    (\<forall>i < n. \<forall>t < outTracks. w32 out' (op + i * outTracks + t) =
       w32 out (op + i * outTracks + t) + track_sum f ts inp (ip + i * inTracks) t) \<and>
    (\<forall>j. j < op \<or> op + n * outTracks \<le> j \<longrightarrow> w32 out' j = w32 out j)"
proof (induction n arbitrary: ip op out)
  case (Suc n)
  obtain out1 where 1: "acc_tracks f ts ip inp op out = Some out1" "length out1 = length out"
      "\<And>j. w32 out1 j = w32 out j +
         sum_list (map (\<lambda>(it, ot). if j = op + unat ot then f (w16 inp (ip + unat it)) else 0) ts)"
  proof -
    have "\<forall>(it, ot) \<in> set ts. 2 * (ip + unat it) + 1 < length inp \<and> 4 * (op + unat ot) + 3 < length out"
      using T Suc.prems by (fastforce simp: algebra_simps)
    from acc_tracks_spec [OF this] that show thesis by blast
  qed
  obtain out2 where 2: "acc_frames f ts inTracks outTracks n (ip + inTracks) inp (op + outTracks) out1 = Some out2"
      "length out2 = length out1"
      "\<And>i t. i < n \<Longrightarrow> t < outTracks \<Longrightarrow> w32 out2 (op + outTracks + i * outTracks + t) =
         w32 out1 (op + outTracks + i * outTracks + t) + track_sum f ts inp (ip + inTracks + i * inTracks) t"
      "\<And>j. j < op + outTracks \<or> op + outTracks + n * outTracks \<le> j \<Longrightarrow> w32 out2 j = w32 out1 j"
    using Suc.IH [of "ip + inTracks" "op + outTracks" out1] Suc.prems 1(2) by (auto simp: algebra_simps)
  have outside: "w32 out1 j = w32 out j" if "j < op \<or> op + outTracks \<le> j" for j
  proof -
    have "map (\<lambda>(it, ot). if j = op + unat ot then f (w16 inp (ip + unat it)) else 0) ts = map (\<lambda>_. 0) ts"
      using that T by (intro map_cong) auto
    with 1(3) [of j] show ?thesis by (simp add: sum_list_0)
  qed
  have first: "w32 out1 (op + t) = w32 out (op + t) + track_sum f ts inp ip t" for t
    using 1(3) [of "op + t"] by (simp add: track_sum_def)
  have "w32 out2 (op + i * outTracks + t) = w32 out (op + i * outTracks + t) + track_sum f ts inp (ip + i * inTracks) t"
    if "i < Suc n" "t < outTracks" for i t
  proof (cases i)
    case 0
    then show ?thesis using 2(4) [of "op + t"] first [of t] that by simp
  next
    case (Suc i')
    then show ?thesis
      using 2(3) [of i' t] outside [of "op + outTracks + i' * outTracks + t"] that by (simp add: add.assoc)
  qed
  moreover have "w32 out2 j = w32 out j" if "j < op \<or> op + Suc n * outTracks \<le> j" for j
    using 2(4) [of j] outside [of j] that by auto
  ultimately show ?case using 1 2 by (intro exI [of _ out2]) simp
qed simp

lemma accumulateOutput_spec:
  assumes T: "\<forall>(it, ot) \<in> set tracks. unat it < inTracks \<and> unat ot < outTracks"
    and direct: "tracks = [] \<Longrightarrow> inTracks = outTracks"
    and room: "2 * (n * inTracks) \<le> length inp" "4 * (n * outTracks) \<le> length out"
  shows "\<exists>out'. accumulateOutput m a tracks inTracks outTracks n inp out = Some out' \<and> length out' = length out \<and>
    (\<forall>i < n. \<forall>t < outTracks. w32 out' (i * outTracks + t) = w32 out (i * outTracks + t) +
      (if tracks = [] then mix_value m a (w16 inp (i * outTracks + t))
       else track_sum (mix_value m a) tracks inp (i * inTracks) t)) \<and>
    (\<forall>j \<ge> n * outTracks. w32 out' j = w32 out j)"
proof (cases "tracks = []")
  case True
  have "i * outTracks + t < n * outTracks" if "i < n" "t < outTracks" for i t
  proof -
    have "Suc i * outTracks \<le> n * outTracks" using that by (intro mult_le_mono1) simp
    with that show ?thesis by simp
  qed
  with True acc_all_spec [of 0 "n * outTracks" inp out "mix_value m a"] room direct show ?thesis
    by (auto simp: accumulateOutput_def)
next
  case False
  with acc_frames_spec [OF T, of 0 n inp 0 out "mix_value m a"] room show ?thesis
    by (simp add: accumulateOutput_def)
qed

text \<open>
  C14. Mixing one input into an output: every output sum gets the contributions of exactly the input tracks
  routed to it, frame by frame, and nothing else in the output changes. The block is never left, provided
  the tracks exist in both components.
\<close>

theorem accumulateOutput_correct:
  assumes T: "\<forall>(it, ot) \<in> set tracks. unat it < inTracks \<and> unat ot < outTracks"
    and direct: "tracks = [] \<Longrightarrow> inTracks = outTracks"
    and room: "2 * (n * inTracks) \<le> length inp" "4 * (n * outTracks) \<le> length out"
  shows "\<exists>out'. accumulateOutput m a tracks inTracks outTracks n inp out = Some out' \<and> length out' = length out \<and>
    (\<forall>i < n. \<forall>t < outTracks. w32 out' (i * outTracks + t) = w32 out (i * outTracks + t) +
      (if tracks = [] then mix_value m a (w16 inp (i * outTracks + t))
       else track_sum (mix_value m a) tracks inp (i * inTracks) t)) \<and>
    (\<forall>j \<ge> n * outTracks. w32 out' j = w32 out j)"
  by (rule accumulateOutput_spec [OF assms])

theorem accumulateOutput_correct_witness:
  "\<exists>out'. accumulateOutput 0x10000 0 [(0, 1), (0, 0)] 1 2 1 [1, 0] (replicate 8 0) = Some out' \<and> length out' = 8"
proof -
  have "\<forall>(it, ot) \<in> set [(0, 1), (0, 0 :: u8)]. unat (it :: u8) < 1 \<and> unat ot < 2" by simp
  from accumulateOutput_correct [OF this, of 1 "[1, 0]" "replicate 8 0" "0x10000" 0] show ?thesis by auto
qed

text \<open>The fast loops are the general one for inputs with neither added constant nor track list.\<close>

lemma simple_loops:
  "accumulateOutputSimpleMono m n inp out = accumulateOutput m 0 [] inTracks 1 n inp out"
  "accumulateOutputSimpleStereo m n inp out = accumulateOutput m 0 [] inTracks 2 n inp out"
  by (simp_all add: accumulateOutputSimpleMono_def accumulateOutputSimpleStereo_def accumulateOutput_def
      mix_value_def [abs_def] AuFixedPointIntegralAddend_def AuFixedPointFractionalAddend_def Let_def)

section \<open>The range check\<close>

lemma clip_sint: "sint (clip x) = max (-32768) (min 32767 (sint x))"
proof -
  have k: "sint (ucast (word_of_int k :: s32) :: s16) = k" if "-32768 \<le> k" "k < 32768" for k
  proof -
    have "(ucast (word_of_int k :: s32) :: s16) = word_of_int k"
      by (rule bit_word_eqI) (auto simp: bit_simps)
    then show ?thesis using sint_of_int16 [OF that] by (simp only:)
  qed
  have "clip x = ucast (word_of_int (max (-32768) (min 32767 (sint x))) :: s32)"
    unfolding clip_def by (rule arg_cong [where f = ucast]) (simp add: max_def min_def)
  then show ?thesis by (simp only:) (rule k; simp)
qed

lemma clip_loop_spec:
  "4 * (i + n) \<le> length b \<Longrightarrow>
   \<exists>b'. clip_loop i n b = Some b' \<and> length b' = length b \<and>
     (\<forall>j. w16 b' j = (if i \<le> j \<and> j < i + n then clip (w32 b j) else w16 b j))"
proof (induction n arbitrary: i b)
  case (Suc n)
  obtain b1 where 1: "st16 (clip (w32 b i)) (2 * i) b = Some b1" "length b1 = length b"
      "\<And>j. w16 b1 j = (if j = i then clip (w32 b i) else w16 b j)"
    using st16_w16 [of i b "clip (w32 b i)"] Suc.prems by auto
  obtain b2 where 2: "clip_loop (Suc i) n b1 = Some b2" "length b2 = length b1"
      "\<And>j. w16 b2 j = (if Suc i \<le> j \<and> j < Suc i + n then clip (w32 b1 j) else w16 b1 j)"
    using Suc.IH [of "Suc i" b1] Suc.prems 1(2) by auto
  have "w32 b1 j = w32 b j" if "Suc i \<le> j" for j
    using that by (simp add: w32_def 1(3))
  with 1 2 Suc.prems show ?case by (auto simp: mem_simps)
qed auto

text \<open>
  The range check narrows \<open>n\<close> sums in place: sample \<open>j\<close> of the result is sum \<open>j\<close> saturated to 16 bits, for
  every \<open>j < n\<close>, although the samples are written over the sums.
\<close>

theorem range_check_saturates:
  assumes "4 * n \<le> length b"
  shows "\<exists>b'. clip_loop 0 n b = Some b' \<and> length b' = length b \<and>
    (\<forall>j < n. sint (w16 b' j) = max (-32768) (min 32767 (sint (w32 b j))))"
  using clip_loop_spec [of 0 n b] assms clip_sint by auto

theorem range_check_saturates_witness:
  "\<exists>b'. clip_loop 0 1 [0, 0, 1, 0] = Some b' \<and> sint (w16 b' 0) = max (-32768) (min 32767 (sint (w32 [0, 0, 1, 0] 0)))"
  using range_check_saturates [of 1 "[0, 0, 1, 0]"] by auto

end
