(* ===== verification/Flow_Setup.thy ===== *)
theory Flow_Setup
  imports Server_State Mixer
begin

text \<open>
  Merging the started flows into the one compiled flow the audio interrupt runs: \<open>AuFreeComponent\<close>,
  \<open>freeCompiledFlow\<close>, \<open>AuProcessFlows\<close> and \<open>AuProcessClockedFlows\<close> of \<^verbatim>\<open>server/dia/auutil.c\<close>, \<open>doSetup\<close>,
  \<open>AuSetupCompiledFlow\<close> and \<open>AuStartFlow\<close> of \<^verbatim>\<open>server/dia/auprocess.c\<close>.

  Device private data of compiled flows is always null in the source and is not modelled.
\<close>

section \<open>Releasing\<close>

definition unlink_comp :: "nat option \<Rightarrow> nat \<Rightarrow> server \<Rightarrow> (nat option \<times> server) option" where
  "unlink_comp head r s =
     do { (head, L) \<leftarrow> RemoveFromLinkedList head r (sv_comp_links s); Some (head, s\<lparr>sv_comp_links := L\<rparr>) }"

definition AuFreeComponent :: "nat \<Rightarrow> server \<Rightarrow> server option" where
  "AuFreeComponent r s =
     do { c \<leftarrow> get_comp r s;
          let s1 = put_comp r (c\<lparr>c_refCnt := c_refCnt c - 1\<rparr>) s;
          if c_refCnt c = 0 then
            do { s2 \<leftarrow> (if c_kind c = AuComponentKindBucket then
                          do { (h, s) \<leftarrow> unlink_comp (sv_auBuckets s1) r s1; Some (s\<lparr>sv_auBuckets := h\<rparr>) }
                        else if c_kind c = AuComponentKindPhysicalInput \<or> c_kind c = AuComponentKindPhysicalOutput \<or>
                                c_kind c = AuComponentKindPhysicalFeedback then
                          do { (h, s) \<leftarrow> unlink_comp (sv_auDevices s1) r s1; Some (s\<lparr>sv_auDevices := h\<rparr>) }
                        else Some s1);
                 Some (s2\<lparr>sv_comps := (sv_comps s2)(r := None), sv_comp_links := (sv_comp_links s2)(r := None)\<rparr>) }
          else Some s1 }"

definition is_import_bucket :: "au_element \<Rightarrow> bool" where
  "is_import_bucket e = (case e of ImportBucket _ _ _ _ _ \<Rightarrow> True | _ \<Rightarrow> False)"

definition is_export_bucket :: "au_element \<Rightarrow> bool" where
  "is_export_bucket e = (case e of ExportBucket _ _ _ _ _ \<Rightarrow> True | _ \<Rightarrow> False)"

definition is_wave_form :: "au_element \<Rightarrow> bool" where
  "is_wave_form e = (case e of ImportWaveForm _ _ _ _ _ \<Rightarrow> True | _ \<Rightarrow> False)"

definition is_export_device :: "au_element \<Rightarrow> bool" where
  "is_export_device e = (case e of ExportDevice _ _ _ _ _ \<Rightarrow> True | _ \<Rightarrow> False)"

definition is_monitor :: "au_element \<Rightarrow> bool" where
  "is_monitor e = (case e of ExportMonitor _ _ _ _ \<Rightarrow> True | _ \<Rightarrow> False)"

text \<open>A freed mini-buffer is an empty block.\<close>

fun free_inputs :: "compiled_input list \<Rightarrow> server \<Rightarrow> server option" where
  "free_inputs [] s = Some s"
| "free_inputs (i # ins) s =
     do { el \<leftarrow> get_el (ci_flowEl i) s;
          let s = put_el (ci_flowEl i) (el\<lparr>e_refCnt := e_refCnt el - 1,
                e_minibuf := if e_refCnt el = 0 \<and> is_import_bucket (e_raw el) then Some [] else e_minibuf el\<rparr>) s;
          s \<leftarrow> AuFreeComponent (ci_component i) s;
          free_inputs ins s }"

fun free_outputs :: "bool \<Rightarrow> compiled_output list \<Rightarrow> server \<Rightarrow> server option" where
  "free_outputs freeComponents [] s = Some s"
| "free_outputs freeComponents (out # outs) s =
     do { s \<leftarrow> (if freeComponents then
                  do { s \<leftarrow> free_inputs (co_inputs out) s;
                       el \<leftarrow> get_el (co_flowEl out) s;
                       let s = (if is_export_bucket (e_raw el) then put_el (co_flowEl out) (el\<lparr>e_minibuf := Some []\<rparr>) s else s);
                       AuFreeComponent (co_component out) s }
                else Some s);
          free_outputs freeComponents outs s }"

text \<open>The caller also clears \<^verbatim>\<open>numOutputs\<close> and \<^verbatim>\<open>outputs\<close> of its flow.\<close>

definition freeCompiledFlow :: "compiled_flow \<Rightarrow> server \<Rightarrow> server option" where
  "freeCompiledFlow cmp s = free_outputs (cf_freeComponents cmp) (cf_outputs cmp) s"

section \<open>Rate conversion and formats\<close>

text \<open>A division by zero is \<open>None\<close>.\<close>

definition udiv :: "u32 \<Rightarrow> u32 \<Rightarrow> u32 option" where
  "udiv a b = (if b = 0 then None else Some (a div b))"

definition setup_formats :: "flow_element \<Rightarrow> component \<Rightarrow> flow_element option" where
  "setup_formats el c =
     (if e_setup el then Some el
      else do { sz \<leftarrow> sizeofFormat (c_format c);
                let el = el\<lparr>e_minibufChunk := c_minibufSize c, e_toNativeFormat := toNativeFormat (c_format c),
                            e_fromNativeFormat := fromNativeFormat (c_format c)\<rparr>;
                let el = (if is_monitor (e_raw el)
                          then el\<lparr>e_toNativeFormat := e_fromNativeFormat el, e_fromNativeFormat := None\<rparr>
                          else if sz = 1 then el\<lparr>e_minibufChunk := signed_drop_bit 1 (e_minibufChunk el)\<rparr> else el);
                Some (el\<lparr>e_setup := True\<rparr>) })"

definition element_rate :: "flow_element \<Rightarrow> component \<Rightarrow> u32" where
  "element_rate el c =
     (if is_import_bucket (e_raw el) \<or> is_export_device (e_raw el) then e_sampleRate el
      else if is_wave_form (e_raw el) then c_frequency c else c_sampleRate c)"

definition doSetup :: "nat \<times> nat \<Rightarrow> u32 \<Rightarrow> bool \<Rightarrow> server \<Rightarrow> (rate_converter \<times> server) option" where
  "doSetup p globalRate isInput s =
     do { el \<leftarrow> get_el p s;
          c \<leftarrow> el_comp el s;
          el \<leftarrow> setup_formats el c;
          let elementRate = element_rate el c;
          el \<leftarrow> (if is_wave_form (e_raw el) then
                   do { integ \<leftarrow> udiv elementRate globalRate;
                        fract \<leftarrow> udiv (push_bit 16 (elementRate - integ * globalRate)) globalRate;
                        Some (el\<lparr>e_nextSample := push_bit 16 integ OR fract\<rparr>) }
                 else Some el);
          let elementRate = (if elementRate = 0 then sv_minSampleRate s else elementRate);
          el \<leftarrow> (if \<not> is_wave_form (e_raw el) then
                   do { n \<leftarrow> (if isInput then udiv (push_bit 16 elementRate) globalRate
                              else udiv (push_bit 16 globalRate) elementRate);
                        Some (el\<lparr>e_nextSample := n\<rparr>) }
                 else Some el);
          Some (if is_monitor (e_raw el) then Rcm
                else if elementRate = globalRate then RcNull
                else if c_bytesPerSample c = 1 then Rc1
                else if c_bytesPerSample c = 2 then Rc2
                else if c_bytesPerSample c = 4 then Rc4
                else RcN,
                put_el p el s) }"

definition readInputTable :: "au_element \<Rightarrow> read_input option" where
  "readInputTable e = (case e of ImportClient _ _ _ _ _ _ _ \<Rightarrow> Some ReadClient | ImportDevice _ _ _ _ \<Rightarrow> Some ReadDevice
     | ImportBucket _ _ _ _ _ \<Rightarrow> Some ReadBucket | ImportWaveForm _ _ _ _ _ \<Rightarrow> Some ReadWaveForm | _ \<Rightarrow> None)"

definition writeOutputTable :: "au_element \<Rightarrow> write_output option" where
  "writeOutputTable e = (case e of ExportClient _ _ _ _ _ _ _ _ \<Rightarrow> Some WriteClient | ExportDevice _ _ _ _ _ \<Rightarrow> Some WriteDevice
     | ExportBucket _ _ _ _ _ \<Rightarrow> Some WriteBucket | ExportMonitor _ _ _ _ \<Rightarrow> Some WriteMonitor | _ \<Rightarrow> None)"

fun setup_inputs :: "u32 \<Rightarrow> compiled_input list \<Rightarrow> server \<Rightarrow> (compiled_input list \<times> server) option" where
  "setup_inputs rate [] s = Some ([], s)"
| "setup_inputs rate (i # ins) s =
     do { el \<leftarrow> get_el (ci_flowEl i) s;
          ri \<leftarrow> readInputTable (e_raw el);
          (rc, s) \<leftarrow> doSetup (ci_flowEl i) rate True s;
          (ins, s) \<leftarrow> setup_inputs rate ins s;
          Some (i\<lparr>ci_readInput := ri, ci_rateConvert := rc\<rparr> # ins, s) }"

fun setup_outputs :: "u32 \<Rightarrow> compiled_output list \<Rightarrow> server \<Rightarrow> (compiled_output list \<times> server) option" where
  "setup_outputs rate [] s = Some ([], s)"
| "setup_outputs rate (out # outs) s =
     do { (ins, s) \<leftarrow> setup_inputs rate (co_inputs out) s;
          el \<leftarrow> get_el (co_flowEl out) s;
          wo \<leftarrow> writeOutputTable (e_raw el);
          (rc, s) \<leftarrow> doSetup (co_flowEl out) rate False s;
          (outs, s) \<leftarrow> setup_outputs rate outs s;
          Some (out\<lparr>co_inputs := ins, co_writeOutput := wo, co_rateConvert := rc\<rparr> # outs, s) }"

text \<open>Which mixing loop is used: the flags \<^verbatim>\<open>simpleMono\<close> and \<^verbatim>\<open>simpleStereo\<close>.\<close>

definition no_routing :: "compiled_output \<Rightarrow> bool" where
  "no_routing out \<longleftrightarrow> list_all (\<lambda>i. ci_addConstant i = 0 \<and> ci_tracks i = []) (co_inputs out)"

fun simpleMono :: "compiled_output list \<Rightarrow> server \<Rightarrow> bool" where
  "simpleMono [] s = True"
| "simpleMono (out # outs) s =
     ((case get_comp (co_component out) s of None \<Rightarrow> False | Some c \<Rightarrow> unat (c_numTracks c) \<le> 1) \<and>
      no_routing out \<and> simpleMono outs s)"

fun simpleStereo :: "compiled_output list \<Rightarrow> server \<Rightarrow> bool" where
  "simpleStereo [] s = True"
| "simpleStereo (out # outs) s =
     ((case get_comp (co_component out) s of None \<Rightarrow> False | Some c \<Rightarrow> c_numTracks c = 2) \<and>
      no_routing out \<and> simpleStereo outs s)"

definition chosen_rate :: "u32 \<Rightarrow> server \<Rightarrow> u32 \<times> server" where
  "chosen_rate rate s =
     (let rate = (if sv_maxSampleRate s < rate then sv_maxSampleRate s else rate);
          rate = (if rate < sv_minSampleRate s then sv_minSampleRate s else rate)
      in if sv_auCurrentSampleRate s \<noteq> rate then
           (case sv_setSampleRate s of
              Some cb \<Rightarrow> (cb rate, AuCallback (SetSampleRate rate) (s\<lparr>sv_auCurrentSampleRate := cb rate\<rparr>))
            | None \<Rightarrow> (rate, s\<lparr>sv_auCurrentSampleRate := rate\<rparr>))
         else (rate, s))"

definition AuSetupCompiledFlow :: "compiled_flow \<Rightarrow> u32 \<Rightarrow> server \<Rightarrow> (compiled_flow \<times> server) option" where
  "AuSetupCompiledFlow fl rate s =
     do { let (rate, s) = chosen_rate rate s;
          (outs, s) \<leftarrow> setup_outputs rate (cf_outputs fl) s;
          Some (fl\<lparr>cf_outputs := outs,
                   cf_accumulateOutput := (if simpleMono outs s then AccumulateSimpleMono
                      else if simpleStereo outs s then AccumulateSimpleStereo else Accumulate)\<rparr>, s) }"

section \<open>Merging the started flows\<close>

text \<open>The loop that clears the \<^verbatim>\<open>processed\<close> flags, over the outputs of one flow and over the flows.\<close>

fun clear_outputs :: "compiled_output list \<Rightarrow> server \<Rightarrow> server option" where
  "clear_outputs [] s = Some s"
| "clear_outputs (out # outs) s =
     do { s \<leftarrow> upd_comp (co_component out) (\<lambda>c. c\<lparr>c_processed := False\<rparr>) s; clear_outputs outs s }"

fun clear_processed :: "nat list \<Rightarrow> server \<Rightarrow> server option" where
  "clear_processed [] s = Some s"
| "clear_processed (r # rs) s =
     do { f \<leftarrow> get_flow r s; s \<leftarrow> clear_outputs (cf_outputs (f_compiled f)) s; clear_processed rs s }"

text \<open>
  All outputs of the started flows that go to component \<open>r\<close>, in order. The inner \<open>None\<close> is an allocation
  failure, on which \<open>AuProcessFlows\<close> gives up.
\<close>

fun collect_outputs :: "nat \<Rightarrow> compiled_output list \<Rightarrow> compiled_output list \<Rightarrow> server \<Rightarrow>
    (compiled_output list option \<times> server) option" where
  "collect_outputs r [] groups s = Some (Some groups, s)"
| "collect_outputs r (out # outs) groups s =
     (if co_component out \<noteq> r then collect_outputs r outs groups s
      else (case aualloc s of
              (False, s) \<Rightarrow> Some (None, s)
            | (True, s) \<Rightarrow>
                do { s \<leftarrow> upd_comp r (\<lambda>c. c\<lparr>c_processed := True\<rparr>) s;
                     collect_outputs r outs (groups @ [out]) s }))"

fun collect_flows :: "nat \<Rightarrow> nat list \<Rightarrow> compiled_output list \<Rightarrow> server \<Rightarrow>
    (compiled_output list option \<times> server) option" where
  "collect_flows r [] groups s = Some (Some groups, s)"
| "collect_flows r (f # fs) groups s =
     do { fl \<leftarrow> get_flow f s;
          (if f_pendingState fl \<noteq> AuStateStart then collect_flows r fs groups s
           else do { (res, s) \<leftarrow> collect_outputs r (cf_outputs (f_compiled fl)) groups s;
                     (case res of None \<Rightarrow> Some (None, s) | Some groups \<Rightarrow> collect_flows r fs groups s) }) }"

text \<open>The inputs of the groups; with more than one group the constants are averaged if the server is told to.\<close>

definition group_inputs :: "bool \<Rightarrow> compiled_output list \<Rightarrow> compiled_input list" where
  "group_inputs average groups =
     (if length groups = 1 then co_inputs (hd groups)
      else let m = word_of_nat (65536 div length groups) in
        concat (map (\<lambda>g. if average
             then map (\<lambda>i. i\<lparr>ci_multiplyConstant := AuFixedPointMultiply (ci_multiplyConstant i) m\<rparr>) (co_inputs g)
             else co_inputs g) groups))"

text \<open>The loop over the inputs of a new output: read tags, device pmask and highest sample rate.\<close>

fun tag_inputs :: "compiled_input list \<Rightarrow> u32 \<Rightarrow> u32 \<Rightarrow> server \<Rightarrow> (compiled_input list \<times> u32 \<times> u32) option" where
  "tag_inputs [] pmask maxRate s = Some ([], pmask, maxRate)"
| "tag_inputs (i # ins) pmask maxRate s =
     do { c \<leftarrow> get_comp (ci_component i) s;
          el \<leftarrow> get_el (ci_flowEl i) s;
          let (tag, r) = (if is_import_bucket (e_raw el) then (TagElement, e_sampleRate el) else (TagComponent, c_sampleRate c));
          (ins, pmask, maxRate) \<leftarrow> tag_inputs ins (pmask OR c_physicalDeviceMask c) (max maxRate r) s;
          Some (i\<lparr>ci_preadTag := tag\<rparr> # ins, pmask, maxRate) }"

fun merge_outputs :: "nat list \<Rightarrow> compiled_output list \<Rightarrow> compiled_flow \<Rightarrow> u32 \<Rightarrow> server \<Rightarrow>
    ((compiled_flow \<times> u32) option \<times> server) option" where
  "merge_outputs fl [] new maxRate s = Some (Some (new, maxRate), s)"
| "merge_outputs fl (out # outs) new maxRate s =
     do { c \<leftarrow> get_comp (co_component out) s;
          (if c_processed c then merge_outputs fl outs new maxRate s
           else (case aualloc s of
              (False, s) \<Rightarrow> Some (None, s)
            | (True, s) \<Rightarrow>
                do { let pmask = cf_physicalDeviceMask new OR c_physicalDeviceMask c;
                     (res, s) \<leftarrow> collect_flows (co_component out) fl [] s;
                     (case res of None \<Rightarrow> Some (None, s)
                      | Some groups \<Rightarrow>
                          (case aualloc s of
                             (False, s) \<Rightarrow> Some (None, s)
                           | (True, s) \<Rightarrow>
                               do { (ins, pmask, maxRate) \<leftarrow> tag_inputs (group_inputs (sv_auAverageFlows s) groups) pmask maxRate s;
                                    el \<leftarrow> get_el (co_flowEl out) s;
                                    c \<leftarrow> get_comp (co_component out) s;
                                    let r = (if is_export_device (e_raw el) then e_sampleRate el else c_sampleRate c);
                                    s \<leftarrow> upd_comp (co_component out) (\<lambda>c. c\<lparr>c_processed := True\<rparr>) s;
                                    merge_outputs fl outs
                                      (new\<lparr>cf_outputs := cf_outputs new @ [out\<lparr>co_inputs := ins\<rparr>], cf_physicalDeviceMask := pmask\<rparr>)
                                      (max maxRate r) s })) })) }"

fun merge_flows :: "nat list \<Rightarrow> nat list \<Rightarrow> compiled_flow \<Rightarrow> u32 \<Rightarrow> server \<Rightarrow>
    ((compiled_flow \<times> u32) option \<times> server) option" where
  "merge_flows fl [] new maxRate s = Some (Some (new, maxRate), s)"
| "merge_flows fl (f # fs) new maxRate s =
     do { fw \<leftarrow> get_flow f s;
          (if f_pendingState fw \<noteq> AuStateStart then merge_flows fl fs new maxRate s
           else do { (res, s) \<leftarrow> merge_outputs fl (cf_outputs (f_compiled fw)) new maxRate s;
                     (case res of None \<Rightarrow> Some (None, s) | Some (new, maxRate) \<Rightarrow> merge_flows fl fs new maxRate s) }) }"

fun commit_states :: "nat list \<Rightarrow> server \<Rightarrow> server option" where
  "commit_states [] s = Some s"
| "commit_states (f # fs) s = do { s \<leftarrow> upd_flow f (\<lambda>f. f\<lparr>f_state := f_pendingState f\<rparr>) s; commit_states fs s }"

definition AuProcessFlows :: "nat list \<Rightarrow> server \<Rightarrow> (compiled_flow option \<times> server) option" where
  "AuProcessFlows fl s =
     (case aualloc s of
        (False, s) \<Rightarrow> Some (None, s)
      | (True, s) \<Rightarrow>
          do { s \<leftarrow> clear_processed fl s;
               (res, s) \<leftarrow> merge_flows fl fl compiled_flow0 0 s;
               (case res of None \<Rightarrow> Some (None, s)
                | Some (new, maxRate) \<Rightarrow>
                    do { s \<leftarrow> commit_states fl s;
                         (new, s) \<leftarrow> AuSetupCompiledFlow new maxRate s;
                         Some (Some new, s) }) })"

section \<open>Starting the merged flow\<close>

fun reset_tags :: "compiled_input list \<Rightarrow> server \<Rightarrow> server option" where
  "reset_tags [] s = Some s"
| "reset_tags (i # ins) s =
     do { s \<leftarrow> (case ci_preadTag i of
                  TagElement \<Rightarrow> upd_el (ci_flowEl i) (\<lambda>e. e\<lparr>e_readTag := 0\<rparr>) s
                | TagComponent \<Rightarrow> upd_comp (ci_component i) (\<lambda>c. c\<lparr>c_readTag := 0\<rparr>) s);
          reset_tags ins s }"

text \<open>The result is the status and the flow that was running.\<close>

definition AuStartFlow :: "compiled_flow option \<Rightarrow> server \<Rightarrow> (bool \<times> compiled_flow option \<times> server) option" where
  "AuStartFlow newFlow s =
     do { let s = (if newFlow \<noteq> None then AuCallback SetWritePhysicalOutputFunction s else s);
          let old = sv_auFlow s;
          (status, s) \<leftarrow> (case newFlow of
               Some new \<Rightarrow>
                 if cf_outputs new \<noteq> [] then
                   do { s \<leftarrow> reset_tags (concat (map co_inputs (cf_outputs new))) (s\<lparr>sv_auFlow := Some new, sv_readTag := 0\<rparr>);
                        Some (True, s) }
                 else Some (False, s\<lparr>sv_auFlow := None\<rparr>)
             | None \<Rightarrow> Some (False, s\<lparr>sv_auFlow := None\<rparr>));
          let s = (if status then
                     (if \<not> sv_processFlowEnabled s then (AuCallback EnableProcessFlow s)\<lparr>sv_processFlowEnabled := True\<rparr> else s)
                   else if sv_processFlowEnabled s then (AuCallback DisableProcessFlow s)\<lparr>sv_processFlowEnabled := False\<rparr>
                   else s);
          Some (status, old, s) }"

definition AuProcessClockedFlows :: "server \<Rightarrow> server option" where
  "AuProcessClockedFlows s =
     do { fl \<leftarrow> chain (sv_flow_links s) (sv_auClockedFlows s);
          (res, s) \<leftarrow> AuProcessFlows fl s;
          (case res of None \<Rightarrow> Some s
           | Some new \<Rightarrow>
               do { (status, old, s) \<leftarrow> AuStartFlow (Some new) s;
                    s \<leftarrow> (if \<not> status then freeCompiledFlow new s else Some s);
                    (case old of None \<Rightarrow> Some s | Some old \<Rightarrow> freeCompiledFlow old s) }) }"

text \<open>\<open>AuProcessUnclockedFlows\<close> is empty in the source.\<close>

definition AuProcessUnclockedFlows :: "server \<Rightarrow> server" where
  "AuProcessUnclockedFlows s = s"

section \<open>What the merged flow is\<close>

text \<open>The outputs of the started flows, and the first of them for each component.\<close>

definition started_outputs :: "nat list \<Rightarrow> server \<Rightarrow> compiled_output list" where
  "started_outputs fl s = concat (map (\<lambda>f. case get_flow f s of None \<Rightarrow> []
     | Some fw \<Rightarrow> if f_pendingState fw = AuStateStart then cf_outputs (f_compiled fw) else []) fl)"

fun firsts :: "nat set \<Rightarrow> compiled_output list \<Rightarrow> compiled_output list" where
  "firsts P [] = []"
| "firsts P (out # outs) = (if co_component out \<in> P then firsts P outs
     else out # firsts (insert (co_component out) P) outs)"

lemma firsts_components:
  "distinct (map co_component (firsts P outs))"
  "set (map co_component (firsts P outs)) = co_component ` set outs - P"
  by (induction P outs rule: firsts.induct) auto

text \<open>\<open>proc_eq s s'\<close>: at most the \<^verbatim>\<open>processed\<close> flags differ.\<close>

definition proc_eq :: "server \<Rightarrow> server \<Rightarrow> bool" where
  "proc_eq s s' \<longleftrightarrow> (\<exists>C. s' = s\<lparr>sv_comps := C\<rparr> \<and>
     (\<forall>r. map_option (\<lambda>c. c\<lparr>c_processed := False\<rparr>) (C r) = map_option (\<lambda>c. c\<lparr>c_processed := False\<rparr>) (sv_comps s r)))"

definition processed :: "server \<Rightarrow> nat set" where
  "processed s = {r. \<exists>c. get_comp r s = Some c \<and> c_processed c}"

lemma proc_eq_refl [simp]: "proc_eq s s"
  unfolding proc_eq_def by (intro exI [of _ "sv_comps s"]) simp

lemma proc_eq_trans: "proc_eq s s' \<Longrightarrow> proc_eq s' s'' \<Longrightarrow> proc_eq s s''"
  by (fastforce simp: proc_eq_def)

lemma proc_eq_frame:
  assumes "proc_eq s s'"
  shows "get_flow f s' = get_flow f s" "get_el p s' = get_el p s" "sv_mallocs s' = sv_mallocs s"
    "sv_auAverageFlows s' = sv_auAverageFlows s" "sv_flows s' = sv_flows s"
  using assms by (auto simp: proc_eq_def get_flow_def get_el_def)

lemma proc_eq_comp:
  assumes "proc_eq s s'" and "get_comp r s = Some c"
  shows "\<exists>b. get_comp r s' = Some (c\<lparr>c_processed := b\<rparr>)"
proof -
  obtain C where C: "s' = s\<lparr>sv_comps := C\<rparr>"
      "map_option (\<lambda>c. c\<lparr>c_processed := False\<rparr>) (C r) = map_option (\<lambda>c. c\<lparr>c_processed := False\<rparr>) (sv_comps s r)"
    using assms(1) unfolding proc_eq_def by blast
  have "map_option (\<lambda>c. c\<lparr>c_processed := False\<rparr>) (get_comp r s') = Some (c\<lparr>c_processed := False\<rparr>)"
    using C assms(2) by (simp add: get_comp_def)
  then obtain c' where c': "get_comp r s' = Some c'" "c'\<lparr>c_processed := False\<rparr> = c\<lparr>c_processed := False\<rparr>" by auto
  from c'(2) have "c'\<lparr>c_processed := False\<rparr>\<lparr>c_processed := c_processed c'\<rparr> = c\<lparr>c_processed := False\<rparr>\<lparr>c_processed := c_processed c'\<rparr>"
    by (rule arg_cong)
  then have "c' = c\<lparr>c_processed := c_processed c'\<rparr>" by simp
  with c'(1) show ?thesis by metis
qed

lemma started_outputs_cong: "(\<And>f. get_flow f s' = get_flow f s) \<Longrightarrow> started_outputs fl s' = started_outputs fl s"
  by (simp add: started_outputs_def)

lemma upd_processed:
  assumes "get_comp r s = Some c"
  shows "\<exists>s'. upd_comp r (\<lambda>c. c\<lparr>c_processed := b\<rparr>) s = Some s' \<and> proc_eq s s' \<and>
    processed s' = (if b then insert r (processed s) else processed s - {r})"
proof -
  let ?s = "put_comp r (c\<lparr>c_processed := b\<rparr>) s"
  have "proc_eq s ?s"
    using assms unfolding proc_eq_def put_comp_def get_comp_def by (intro exI) auto
  moreover have "processed ?s = (if b then insert r (processed s) else processed s - {r})"
    by (auto simp: processed_def put_comp_def get_comp_def)
  ultimately show ?thesis using assms by (simp add: upd_comp_def)
qed

lemma collect_outputs_spec:
  "sv_mallocs s = [] \<Longrightarrow> get_comp r s = Some c \<Longrightarrow>
   \<exists>s'. collect_outputs r outs groups s = Some (Some (groups @ filter (\<lambda>g. co_component g = r) outs), s') \<and>
     proc_eq s s' \<and> (processed s \<subseteq> processed s' \<and> processed s' \<subseteq> insert r (processed s))"
proof (induction outs arbitrary: s c groups)
  case (Cons out outs)
  show ?case
  proof (cases "co_component out = r")
    case True
    obtain s1 where s1: "upd_comp r (\<lambda>c. c\<lparr>c_processed := True\<rparr>) s = Some s1" "proc_eq s s1"
        "processed s1 = insert r (processed s)"
      using upd_processed [OF Cons.prems(2), of True] by auto
    obtain b where "get_comp r s1 = Some (c\<lparr>c_processed := b\<rparr>)"
      using proc_eq_comp [OF s1(2) Cons.prems(2)] by blast
    then obtain s2 where "collect_outputs r outs (groups @ [out]) s1 =
        Some (Some ((groups @ [out]) @ filter (\<lambda>g. co_component g = r) outs), s2)"
      "proc_eq s1 s2" "processed s1 \<subseteq> processed s2 \<and> processed s2 \<subseteq> insert r (processed s1)"
      using Cons.IH [of s1 _ "groups @ [out]"] Cons.prems(1) proc_eq_frame(3) [OF s1(2)] by auto
    with True s1 Cons.prems(1) show ?thesis
      by (auto simp: aualloc_def intro: proc_eq_trans)
  qed (use Cons in auto)
qed auto

lemma collect_flows_spec:
  "sv_mallocs s = [] \<Longrightarrow> get_comp r s = Some c \<Longrightarrow> (\<forall>f \<in> set fl. get_flow f s \<noteq> None) \<Longrightarrow>
   \<exists>s'. collect_flows r fl groups s = Some (Some (groups @ filter (\<lambda>g. co_component g = r) (started_outputs fl s)), s') \<and>
     proc_eq s s' \<and> (processed s \<subseteq> processed s' \<and> processed s' \<subseteq> insert r (processed s))"
proof (induction fl arbitrary: s c groups)
  case (Cons f fl)
  obtain fw where fw: "get_flow f s = Some fw" using Cons.prems(3) by auto
  show ?case
  proof (cases "f_pendingState fw = AuStateStart")
    case True
    obtain s1 where s1: "collect_outputs r (cf_outputs (f_compiled fw)) groups s =
        Some (Some (groups @ filter (\<lambda>g. co_component g = r) (cf_outputs (f_compiled fw))), s1)" (is "_ = Some (Some ?g, s1)")
      "proc_eq s s1" "processed s \<subseteq> processed s1" "processed s1 \<subseteq> insert r (processed s)"
      using collect_outputs_spec [OF Cons.prems(1,2)] by blast
    obtain b where c1: "get_comp r s1 = Some (c\<lparr>c_processed := b\<rparr>)"
      using proc_eq_comp [OF s1(2) Cons.prems(2)] by blast
    have st: "started_outputs fl s1 = started_outputs fl s"
      using started_outputs_cong proc_eq_frame(1) [OF s1(2)] by blast
    obtain s2 where "collect_flows r fl ?g s1 = Some (Some (?g @ filter (\<lambda>g. co_component g = r) (started_outputs fl s1)), s2)"
      "proc_eq s1 s2" "processed s1 \<subseteq> processed s2" "processed s2 \<subseteq> insert r (processed s1)"
      using Cons.IH [of s1 _ ?g] c1 Cons.prems proc_eq_frame(1,3) [OF s1(2)] by auto
    with True s1 fw st show ?thesis
      by (auto simp: started_outputs_def intro: proc_eq_trans)
  next
    case False
    with Cons fw show ?thesis by (auto simp: started_outputs_def)
  qed
qed (auto simp: started_outputs_def)

text \<open>The tag an input gets, and the new output for an output of a started flow.\<close>

definition tagged :: "server \<Rightarrow> compiled_input \<Rightarrow> compiled_input" where
  "tagged s i = i\<lparr>ci_preadTag := (case get_el (ci_flowEl i) s of None \<Rightarrow> TagComponent
     | Some el \<Rightarrow> if is_import_bucket (e_raw el) then TagElement else TagComponent)\<rparr>"

definition merged_output :: "nat list \<Rightarrow> server \<Rightarrow> compiled_output \<Rightarrow> compiled_output" where
  "merged_output fl s out = out\<lparr>co_inputs := map (tagged s) (group_inputs (sv_auAverageFlows s)
     (filter (\<lambda>g. co_component g = co_component out) (started_outputs fl s)))\<rparr>"

definition inputs_ok :: "server \<Rightarrow> compiled_input list \<Rightarrow> bool" where
  "inputs_ok s ins \<longleftrightarrow> (\<forall>i \<in> set ins. get_comp (ci_component i) s \<noteq> None \<and> get_el (ci_flowEl i) s \<noteq> None)"

definition outputs_ok :: "server \<Rightarrow> compiled_output list \<Rightarrow> bool" where
  "outputs_ok s outs \<longleftrightarrow> (\<forall>out \<in> set outs. get_comp (co_component out) s \<noteq> None \<and> get_el (co_flowEl out) s \<noteq> None \<and>
     inputs_ok s (co_inputs out))"

lemma inputs_ok_proc_eq: "proc_eq s s' \<Longrightarrow> inputs_ok s ins \<Longrightarrow> inputs_ok s' ins"
  by (fastforce simp: inputs_ok_def proc_eq_frame(2) dest: proc_eq_comp)

lemma outputs_ok_proc_eq: "proc_eq s s' \<Longrightarrow> outputs_ok s outs \<Longrightarrow> outputs_ok s' outs"
  by (fastforce simp: outputs_ok_def proc_eq_frame(2) dest: proc_eq_comp intro: inputs_ok_proc_eq)

lemma tagged_proc_eq: "proc_eq s s' \<Longrightarrow> tagged s' = tagged s"
  by (simp add: tagged_def fun_eq_iff proc_eq_frame(2))

lemma group_inputs_ok: "outputs_ok s groups \<Longrightarrow> inputs_ok s (group_inputs average groups)"
  by (cases groups) (fastforce simp: group_inputs_def outputs_ok_def inputs_ok_def Let_def split: if_splits)+

lemma tag_inputs_spec:
  "inputs_ok s ins \<Longrightarrow> \<exists>m r. tag_inputs ins pm mr s = Some (map (tagged s) ins, m, r) \<and> mr \<le> r"
proof (induction ins arbitrary: pm mr)
  case (Cons i ins)
  then obtain c el where c: "get_comp (ci_component i) s = Some c" "get_el (ci_flowEl i) s = Some el"
    by (auto simp: inputs_ok_def)
  have ok: "inputs_ok s ins" using Cons.prems by (simp add: inputs_ok_def)
  show ?case
    using Cons.IH [OF ok, of "pm OR c_physicalDeviceMask c"
        "max mr (if is_import_bucket (e_raw el) then e_sampleRate el else c_sampleRate c)"] c
    by (cases "is_import_bucket (e_raw el)") (auto simp: tagged_def)
qed auto

lemma merge_outputs_spec:
  assumes fl: "\<forall>f \<in> set fl. get_flow f s0 \<noteq> None" and ok: "outputs_ok s0 (started_outputs fl s0)"
  shows "proc_eq s0 s \<Longrightarrow> sv_mallocs s = [] \<Longrightarrow> outputs_ok s0 outs \<Longrightarrow>
   \<exists>new' m' s'. merge_outputs fl outs new m s = Some (Some (new', m'), s') \<and> proc_eq s s' \<and> m \<le> m' \<and>
     cf_outputs new' = cf_outputs new @ map (merged_output fl s0) (firsts (processed s) outs) \<and>
     cf_freeComponents new' = cf_freeComponents new \<and>
     processed s' = processed s \<union> co_component ` set outs"
proof (induction outs arbitrary: new m s)
  case (Cons out outs)
  have oks: "outputs_ok s0 [out]" "outputs_ok s0 outs" using Cons.prems(3) by (auto simp: outputs_ok_def)
  then obtain c0 el where "get_comp (co_component out) s0 = Some c0" and el0: "get_el (co_flowEl out) s0 = Some el"
    by (auto simp: outputs_ok_def)
  then obtain c where c: "get_comp (co_component out) s = Some c"
    using proc_eq_comp [OF Cons.prems(1)] by blast
  show ?case
  proof (cases "c_processed c")
    case True
    then have "co_component out \<in> processed s" using c by (auto simp: processed_def)
    with Cons.IH [OF Cons.prems(1,2) oks(2), of new m] c True show ?thesis by (auto simp: insert_absorb)
  next
    case False
    then have out: "co_component out \<notin> processed s" using c by (auto simp: processed_def)
    have fls: "\<forall>f \<in> set fl. get_flow f s \<noteq> None" using fl proc_eq_frame(1) [OF Cons.prems(1)] by simp
    let ?g = "filter (\<lambda>g. co_component g = co_component out) (started_outputs fl s)"
    have g0: "?g = filter (\<lambda>g. co_component g = co_component out) (started_outputs fl s0)"
      using started_outputs_cong [of s s0] proc_eq_frame(1) [OF Cons.prems(1)] by simp
    obtain s1 where s1: "collect_flows (co_component out) fl [] s = Some (Some ?g, s1)" "proc_eq s s1"
        "processed s \<subseteq> processed s1" "processed s1 \<subseteq> insert (co_component out) (processed s)"
      using collect_flows_spec [OF Cons.prems(2) c fls, of "[]"] by auto
    have p01: "proc_eq s0 s1" using Cons.prems(1) s1(2) by (rule proc_eq_trans)
    have "outputs_ok s0 ?g" unfolding g0 using ok by (auto simp: outputs_ok_def)
    then have ga: "outputs_ok s1 ?g" by (rule outputs_ok_proc_eq [OF p01])
    let ?ins = "group_inputs (sv_auAverageFlows s1) ?g"
    obtain pm mr where t: "tag_inputs ?ins (cf_physicalDeviceMask new OR c_physicalDeviceMask c) m s1 =
        Some (map (tagged s1) ?ins, pm, mr)" and mr: "m \<le> mr"
      using tag_inputs_spec [OF group_inputs_ok [OF ga]] by blast
    obtain b where c1: "get_comp (co_component out) s1 = Some (c\<lparr>c_processed := b\<rparr>)"
      using proc_eq_comp [OF s1(2) c] by blast
    obtain s2 where s2: "upd_comp (co_component out) (\<lambda>c. c\<lparr>c_processed := True\<rparr>) s1 = Some s2" "proc_eq s1 s2"
        "processed s2 = insert (co_component out) (processed s1)"
      using upd_processed [OF c1, of True] by auto
    have p02: "proc_eq s0 s2" using p01 s2(2) by (rule proc_eq_trans)
    have pr: "processed s2 = insert (co_component out) (processed s)" using s1(3,4) s2(3) by auto
    have mo: "out\<lparr>co_inputs := map (tagged s1) ?ins\<rparr> = merged_output fl s0 out"
      by (simp add: merged_output_def g0 tagged_proc_eq [OF p01] proc_eq_frame(4) [OF p01])
    let ?r = "if is_export_device (e_raw el) then e_sampleRate el else c_sampleRate (c\<lparr>c_processed := b\<rparr>)"
    let ?new = "new\<lparr>cf_outputs := cf_outputs new @ [merged_output fl s0 out], cf_physicalDeviceMask := pm\<rparr>"
    have m2: "sv_mallocs s2 = []" using Cons.prems(2) proc_eq_frame(3) s1(2) s2(2) by metis
    obtain new' m' s' where IH: "merge_outputs fl outs ?new (max mr ?r) s2 = Some (Some (new', m'), s')" "proc_eq s2 s'"
      "max mr ?r \<le> m'" "cf_outputs new' = cf_outputs ?new @ map (merged_output fl s0) (firsts (processed s2) outs)"
      "cf_freeComponents new' = cf_freeComponents ?new"
      "processed s' = processed s2 \<union> co_component ` set outs"
      using Cons.IH [OF p02 m2 oks(2), of ?new "max mr ?r"] by blast
    have al: "aualloc s = (True, s)" "aualloc s1 = (True, s1)"
      using Cons.prems(2) proc_eq_frame(3) [OF s1(2)] by (simp_all add: aualloc_def)
    have el1: "get_el (co_flowEl out) s1 = Some el" using el0 proc_eq_frame(2) [OF p01] by simp
    have "merge_outputs fl (out # outs) new m s = Some (Some (new', m'), s')"
      using c False al s1(1) t el1 c1 s2(1) IH(1) by (simp add: mo Let_def)
    moreover have "proc_eq s s'" using s1(2) s2(2) IH(2) proc_eq_trans by blast
    moreover have "m \<le> m'" using mr IH(3) by (meson max.boundedE order_trans)
    ultimately show ?thesis using IH(4-6) pr out by auto
  qed
qed auto

lemma merge_outputs_append:
  "merge_outputs fl (xs @ ys) new m s =
     do { (res, s) \<leftarrow> merge_outputs fl xs new m s;
          (case res of None \<Rightarrow> Some (None, s) | Some (new, m) \<Rightarrow> merge_outputs fl ys new m s) }"
  by (induction xs arbitrary: new m s)
    (auto simp: Let_def split: option.splits prod.splits bool.splits bind_splits if_splits)

lemma merge_flows_spec:
  assumes "\<forall>f \<in> set fl. get_flow f s0 \<noteq> None" and "outputs_ok s0 (started_outputs fl s0)"
  shows "proc_eq s0 s \<Longrightarrow> sv_mallocs s = [] \<Longrightarrow> outputs_ok s0 (started_outputs fs s0) \<Longrightarrow>
   (\<forall>f \<in> set fs. get_flow f s0 \<noteq> None) \<Longrightarrow>
   merge_flows fl fs new m s = merge_outputs fl (started_outputs fs s0) new m s"
proof (induction fs arbitrary: new m s)
  case (Cons f fs)
  obtain fw where fw: "get_flow f s0 = Some fw" using Cons.prems(4) by auto
  then have fw': "get_flow f s = Some fw" using proc_eq_frame(1) [OF Cons.prems(1)] by simp
  have ok2: "outputs_ok s0 (started_outputs fs s0)"
    using Cons.prems(3) by (auto simp: outputs_ok_def started_outputs_def)
  show ?case
  proof (cases "f_pendingState fw = AuStateStart")
    case True
    have ok1: "outputs_ok s0 (cf_outputs (f_compiled fw))"
      using Cons.prems(3) fw True by (auto simp: outputs_ok_def started_outputs_def)
    obtain new' m' s' where r: "merge_outputs fl (cf_outputs (f_compiled fw)) new m s = Some (Some (new', m'), s')"
        "proc_eq s s'"
      using merge_outputs_spec [OF assms Cons.prems(1,2) ok1] by blast
    have "proc_eq s0 s'" using Cons.prems(1) r(2) by (rule proc_eq_trans)
    moreover have "sv_mallocs s' = []" using Cons.prems(2) proc_eq_frame(3) [OF r(2)] by simp
    ultimately have "merge_flows fl fs new' m' s' = merge_outputs fl (started_outputs fs s0) new' m' s'"
      using Cons.IH ok2 Cons.prems(4) by simp
    then show ?thesis
      using fw fw' True r by (simp add: started_outputs_def merge_outputs_append)
  next
    case False
    with Cons.IH [OF Cons.prems(1,2) ok2] Cons.prems(4) fw fw' show ?thesis by (simp add: started_outputs_def)
  qed
qed (simp add: started_outputs_def)

lemma clear_outputs_spec:
  "outputs_ok s outs \<Longrightarrow> \<exists>s'. clear_outputs outs s = Some s' \<and> proc_eq s s' \<and>
     processed s' = processed s - co_component ` set outs"
proof (induction outs arbitrary: s)
  case (Cons out outs)
  then obtain c where c: "get_comp (co_component out) s = Some c" by (auto simp: outputs_ok_def)
  obtain s1 where s1: "upd_comp (co_component out) (\<lambda>c. c\<lparr>c_processed := False\<rparr>) s = Some s1" "proc_eq s s1"
      "processed s1 = processed s - {co_component out}"
    using upd_processed [OF c, of False] by auto
  have "outputs_ok s outs" using Cons.prems by (simp add: outputs_ok_def)
  then have "outputs_ok s1 outs" by (rule outputs_ok_proc_eq [OF s1(2)])
  then obtain s2 where s2: "clear_outputs outs s1 = Some s2" "proc_eq s1 s2"
      "processed s2 = processed s1 - co_component ` set outs"
    using Cons.IH by blast
  have "proc_eq s s2" using s1(2) s2(2) by (rule proc_eq_trans)
  with s1(1,3) s2(1,3) show ?case by auto
qed auto

definition all_outputs :: "nat list \<Rightarrow> server \<Rightarrow> compiled_output list" where
  "all_outputs fl s = concat (map (\<lambda>f. case get_flow f s of None \<Rightarrow> [] | Some fw \<Rightarrow> cf_outputs (f_compiled fw)) fl)"

lemma all_outputs_cong: "(\<And>f. get_flow f s' = get_flow f s) \<Longrightarrow> all_outputs fl s' = all_outputs fl s"
  by (simp add: all_outputs_def)

lemma started_all: "set (started_outputs fl s) \<subseteq> set (all_outputs fl s)"
  by (fastforce simp: started_outputs_def all_outputs_def split: option.splits if_splits)

lemma clear_processed_spec:
  "\<forall>f \<in> set fl. get_flow f s \<noteq> None \<Longrightarrow> outputs_ok s (all_outputs fl s) \<Longrightarrow>
   \<exists>s'. clear_processed fl s = Some s' \<and> proc_eq s s' \<and>
     processed s' = processed s - co_component ` set (all_outputs fl s)"
proof (induction fl arbitrary: s)
  case (Cons f fl)
  then obtain fw where fw: "get_flow f s = Some fw" by auto
  have "outputs_ok s (cf_outputs (f_compiled fw))"
    using Cons.prems fw by (simp add: outputs_ok_def all_outputs_def)
  then obtain s1 where s1: "clear_outputs (cf_outputs (f_compiled fw)) s = Some s1" "proc_eq s s1"
      "processed s1 = processed s - co_component ` set (cf_outputs (f_compiled fw))"
    using clear_outputs_spec by blast
  have al: "all_outputs fl s1 = all_outputs fl s"
    using all_outputs_cong proc_eq_frame(1) [OF s1(2)] by blast
  have "outputs_ok s (all_outputs fl s)" using Cons.prems by (simp add: outputs_ok_def all_outputs_def)
  then have "outputs_ok s1 (all_outputs fl s1)" using al outputs_ok_proc_eq [OF s1(2)] by simp
  then obtain s2 where s2: "clear_processed fl s1 = Some s2" "proc_eq s1 s2"
      "processed s2 = processed s1 - co_component ` set (all_outputs fl s)"
    using Cons.IH [of s1] Cons.prems proc_eq_frame(1) [OF s1(2)] al by auto
  have "proc_eq s s2" using s1(2) s2(2) by (rule proc_eq_trans)
  moreover have "all_outputs (f # fl) s = cf_outputs (f_compiled fw) @ all_outputs fl s"
    using fw by (simp add: all_outputs_def)
  ultimately show ?case using s1(1,3) s2(1,3) fw by auto
qed (auto simp: all_outputs_def)

section \<open>Setting up keeps the routing\<close>

text \<open>\<open>setup_eq s s'\<close>: the components are the same, and elements differ at most in what \<open>doSetup\<close> computes.\<close>

definition el_core :: "flow_element \<Rightarrow> flow_element" where
  "el_core e = e\<lparr>e_minibufChunk := 0, e_toNativeFormat := None, e_fromNativeFormat := None, e_setup := False,
     e_nextSample := 0\<rparr>"

definition setup_eq :: "server \<Rightarrow> server \<Rightarrow> bool" where
  "setup_eq s s' \<longleftrightarrow> (\<exists>F. s' = s\<lparr>sv_flows := F\<rparr> \<and>
     (\<forall>r. map_option (\<lambda>f. f\<lparr>f_elements := map_option (map el_core) (f_elements f)\<rparr>) (F r) =
          map_option (\<lambda>f. f\<lparr>f_elements := map_option (map el_core) (f_elements f)\<rparr>) (sv_flows s r)))"

lemma setup_eq_refl [simp]: "setup_eq s s"
  unfolding setup_eq_def by (intro exI [of _ "sv_flows s"]) simp

lemma setup_eq_trans: "setup_eq s s' \<Longrightarrow> setup_eq s' s'' \<Longrightarrow> setup_eq s s''"
  by (fastforce simp: setup_eq_def)

lemma setup_eq_frame:
  assumes "setup_eq s s'"
  shows "get_comp r s' = get_comp r s" "sv_minSampleRate s' = sv_minSampleRate s" "sv_mallocs s' = sv_mallocs s"
  using assms by (auto simp: setup_eq_def get_comp_def)

lemma setup_eq_el:
  assumes "setup_eq s s'" and "get_el p s = Some el"
  shows "\<exists>el'. get_el p s' = Some el' \<and> el_core el' = el_core el"
proof -
  obtain F where F: "s' = s\<lparr>sv_flows := F\<rparr>"
    "map_option (\<lambda>f. f\<lparr>f_elements := map_option (map el_core) (f_elements f)\<rparr>) (F (fst p)) =
     map_option (\<lambda>f. f\<lparr>f_elements := map_option (map el_core) (f_elements f)\<rparr>) (sv_flows s (fst p))"
    using assms(1) unfolding setup_eq_def by blast
  obtain f es where f: "sv_flows s (fst p) = Some f" "f_elements f = Some es" "snd p < length es" "es ! snd p = el"
    using assms(2) by (auto simp: get_el_def get_flow_def split: bind_splits if_splits)
  then obtain f' where f': "F (fst p) = Some f'"
      "f'\<lparr>f_elements := map_option (map el_core) (f_elements f')\<rparr> = f\<lparr>f_elements := map_option (map el_core) (f_elements f)\<rparr>"
    using F(2) by auto
  have "map_option (map el_core) (f_elements f') = map_option (map el_core) (f_elements f)"
    using arg_cong [OF f'(2), of f_elements] by simp
  then obtain es' where es': "f_elements f' = Some es'" "map el_core es' = map el_core es"
    using f(2) by auto
  then have "length es' = length es" "el_core (es' ! snd p) = el_core (es ! snd p)"
    using f(3) by (metis length_map, metis length_map nth_map)
  with F(1) f' es' f show ?thesis by (simp add: get_el_def get_flow_def)
qed

lemma setup_eq_put_el:
  assumes "get_el p s = Some el" and "el_core el' = el_core el"
  shows "setup_eq s (put_el p el' s)"
proof -
  obtain f es where f: "sv_flows s (fst p) = Some f" "f_elements f = Some es" "snd p < length es" "es ! snd p = el"
    using assms(1) by (auto simp: get_el_def get_flow_def split: bind_splits if_splits)
  let ?f = "f\<lparr>f_elements := Some (es[snd p := el'])\<rparr>"
  have "map el_core (es[snd p := el']) = map el_core es"
    using f(3,4) assms(2) by (simp add: map_update list_update_same_conv)
  with f show ?thesis
    unfolding setup_eq_def by (intro exI [of _ "(sv_flows s)(fst p \<mapsto> ?f)"]) (simp add: put_el_def put_flow_def get_flow_def)
qed

lemma el_core_cong:
  assumes "el_core a = el_core b"
  shows "e_raw a = e_raw b" "e_component a = e_component b" "e_state a = e_state b" "e_prevState a = e_prevState b"
    "e_actions a = e_actions b" "e_isComponent a = e_isComponent b" "e_stateChange a = e_stateChange b"
    "e_sampleRate a = e_sampleRate b" "e_compiled a = e_compiled b"
  using arg_cong [OF assms, of e_raw] arg_cong [OF assms, of e_component] arg_cong [OF assms, of e_state]
    arg_cong [OF assms, of e_prevState] arg_cong [OF assms, of e_actions] arg_cong [OF assms, of e_isComponent]
    arg_cong [OF assms, of e_stateChange] arg_cong [OF assms, of e_sampleRate] arg_cong [OF assms, of e_compiled]
  by (simp_all add: el_core_def)

text \<open>
  \<open>el_ready s p\<close>: the element is compiled, its component exists and has a format of the table.
\<close>

definition el_ready :: "server \<Rightarrow> nat \<times> nat \<Rightarrow> bool" where
  "el_ready s p \<longleftrightarrow> (\<exists>el c. get_el p s = Some el \<and> el_comp el s = Some c \<and> unat (c_format c) < 8)"

lemma el_ready_setup_eq: "setup_eq s s' \<Longrightarrow> el_ready s p \<Longrightarrow> el_ready s' p"
  unfolding el_ready_def
proof (elim exE conjE)
  fix el c assume a: "setup_eq s s'" "get_el p s = Some el" "el_comp el s = Some c" "unat (c_format c) < 8"
  obtain el' where "get_el p s' = Some el'" "el_core el' = el_core el" using setup_eq_el [OF a(1,2)] by blast
  with a show "\<exists>el c. get_el p s' = Some el \<and> el_comp el s' = Some c \<and> unat (c_format c) < 8"
    using el_core_cong(2) [of el' el] by (auto simp: el_comp_def setup_eq_frame(1) [OF a(1)])
qed

lemma setup_formats_total: "unat (c_format c) < 8 \<Longrightarrow> \<exists>el'. setup_formats el c = Some el' \<and> el_core el' = el_core el"
  by (auto simp: setup_formats_def sizeofFormat_def el_core_def Let_def)

lemma doSetup_total:
  assumes "el_ready s p" and "globalRate \<noteq> 0" and "sv_minSampleRate s \<noteq> 0"
  shows "\<exists>rc s'. doSetup p globalRate isInput s = Some (rc, s') \<and> setup_eq s s'"
proof -
  obtain el c where el: "get_el p s = Some el" "el_comp el s = Some c" "unat (c_format c) < 8"
    using assms(1) by (auto simp: el_ready_def)
  obtain el1 where el1: "setup_formats el c = Some el1" "el_core el1 = el_core el"
    using setup_formats_total [OF el(3)] by blast
  have core: "el_core (el1\<lparr>e_nextSample := n\<rparr>) = el_core el" for n
    using el1(2) by (simp add: el_core_def)
  let ?r = "if element_rate el1 c = 0 then sv_minSampleRate s else element_rate el1 c"
  have r: "?r \<noteq> 0" using assms(3) by simp
  show ?thesis
    using el el1(1) assms(2) r setup_eq_put_el [OF el(1) core]
    by (cases isInput) (auto simp: doSetup_def udiv_def Let_def)
qed

text \<open>What an input contributes, apart from the conversion functions.\<close>

definition route :: "compiled_input \<Rightarrow> nat \<times> (nat \<times> nat) \<times> s32 \<times> s32 \<times> (u8 \<times> u8) list" where
  "route i = (ci_component i, ci_flowEl i, ci_multiplyConstant i, ci_addConstant i, ci_tracks i)"

definition routing :: "compiled_output \<Rightarrow> nat \<times> (nat \<times> nat) \<times> (nat \<times> (nat \<times> nat) \<times> s32 \<times> s32 \<times> (u8 \<times> u8) list) list" where
  "routing out = (co_component out, co_flowEl out, map route (co_inputs out))"

lemma route_setup [simp]: "route (i\<lparr>ci_readInput := a, ci_rateConvert := b\<rparr>) = route i"
  "route (tagged s i) = route i"
  by (simp_all add: route_def tagged_def)

definition input_ready :: "server \<Rightarrow> compiled_input \<Rightarrow> bool" where
  "input_ready s i \<longleftrightarrow> el_ready s (ci_flowEl i) \<and> (\<forall>el. get_el (ci_flowEl i) s = Some el \<longrightarrow> readInputTable (e_raw el) \<noteq> None)"

definition output_ready :: "server \<Rightarrow> compiled_output \<Rightarrow> bool" where
  "output_ready s out \<longleftrightarrow> el_ready s (co_flowEl out) \<and>
     (\<forall>el. get_el (co_flowEl out) s = Some el \<longrightarrow> writeOutputTable (e_raw el) \<noteq> None) \<and> list_all (input_ready s) (co_inputs out)"

lemma raw_setup_eq:
  assumes "setup_eq s s'" and "el_ready s p" and "\<forall>el. get_el p s = Some el \<longrightarrow> P (e_raw el)"
  shows "\<forall>el. get_el p s' = Some el \<longrightarrow> P (e_raw el)"
proof -
  obtain el where el: "get_el p s = Some el" using assms(2) by (auto simp: el_ready_def)
  obtain el' where "get_el p s' = Some el'" "el_core el' = el_core el" using setup_eq_el [OF assms(1) el] by blast
  with el assms(3) show ?thesis using el_core_cong(1) [of el' el] by simp
qed

lemma input_ready_setup_eq:
  assumes "setup_eq s s'" and "input_ready s i"
  shows "input_ready s' i"
  using assms(2) el_ready_setup_eq [OF assms(1)]
    raw_setup_eq [OF assms(1), of "ci_flowEl i" "\<lambda>r. readInputTable r \<noteq> None"]
  by (simp add: input_ready_def)

lemma inputs_ready_setup_eq: "setup_eq s s' \<Longrightarrow> list_all (input_ready s) ins \<Longrightarrow> list_all (input_ready s') ins"
  by (auto simp: list_all_iff intro: input_ready_setup_eq)

lemma output_ready_setup_eq:
  assumes "setup_eq s s'" and "output_ready s out"
  shows "output_ready s' out"
  using assms(2) el_ready_setup_eq [OF assms(1)] inputs_ready_setup_eq [OF assms(1)]
    raw_setup_eq [OF assms(1), of "co_flowEl out" "\<lambda>r. writeOutputTable r \<noteq> None"]
  by (simp add: output_ready_def)

lemma setup_inputs_spec:
  "list_all (input_ready s) ins \<Longrightarrow> rate \<noteq> 0 \<Longrightarrow> sv_minSampleRate s \<noteq> 0 \<Longrightarrow>
   \<exists>ins' s'. setup_inputs rate ins s = Some (ins', s') \<and> setup_eq s s' \<and> map route ins' = map route ins"
proof (induction ins arbitrary: s)
  case (Cons i ins)
  then have i: "input_ready s i" by simp
  then obtain el ri where el: "get_el (ci_flowEl i) s = Some el" "readInputTable (e_raw el) = Some ri"
    by (auto simp: input_ready_def el_ready_def)
  obtain rc s1 where s1: "doSetup (ci_flowEl i) rate True s = Some (rc, s1)" "setup_eq s s1"
    using doSetup_total [of s "ci_flowEl i" rate True] i Cons.prems by (auto simp: input_ready_def)
  have "list_all (input_ready s1) ins" using Cons.prems(1) inputs_ready_setup_eq [OF s1(2)] by simp
  then obtain ins' s2 where "setup_inputs rate ins s1 = Some (ins', s2)" "setup_eq s1 s2" "map route ins' = map route ins"
    using Cons.IH [of s1] Cons.prems setup_eq_frame(2) [OF s1(2)] by auto
  with el s1 show ?case by (auto intro: setup_eq_trans)
qed auto

lemma setup_outputs_spec:
  "list_all (output_ready s) outs \<Longrightarrow> rate \<noteq> 0 \<Longrightarrow> sv_minSampleRate s \<noteq> 0 \<Longrightarrow>
   \<exists>outs' s'. setup_outputs rate outs s = Some (outs', s') \<and> setup_eq s s' \<and> map routing outs' = map routing outs"
proof (induction outs arbitrary: s)
  case (Cons out outs)
  then have o: "output_ready s out" by simp
  then obtain ins s1 where s1: "setup_inputs rate (co_inputs out) s = Some (ins, s1)" "setup_eq s s1"
      "map route ins = map route (co_inputs out)"
    using setup_inputs_spec [of s "co_inputs out" rate] Cons.prems by (auto simp: output_ready_def)
  have o1: "output_ready s1 out" using output_ready_setup_eq [OF s1(2) o] .
  then obtain el wo where el: "get_el (co_flowEl out) s1 = Some el" "writeOutputTable (e_raw el) = Some wo"
    by (auto simp: output_ready_def el_ready_def)
  have min1: "sv_minSampleRate s1 \<noteq> 0" using Cons.prems(3) setup_eq_frame(2) [OF s1(2)] by simp
  obtain rc s2 where s2: "doSetup (co_flowEl out) rate False s1 = Some (rc, s2)" "setup_eq s1 s2"
    using doSetup_total [of s1 "co_flowEl out" rate False] o1 Cons.prems(2) min1 by (auto simp: output_ready_def)
  have e02: "setup_eq s s2" using s1(2) s2(2) by (rule setup_eq_trans)
  have "list_all (output_ready s2) outs"
    using Cons.prems(1) output_ready_setup_eq [OF e02] by (auto simp: list_all_iff)
  then obtain outs' s3 where "setup_outputs rate outs s2 = Some (outs', s3)" "setup_eq s2 s3"
      "map routing outs' = map routing outs"
    using Cons.IH [of s2] Cons.prems setup_eq_frame(2) [OF e02] by auto
  moreover have "routing (out\<lparr>co_inputs := ins, co_writeOutput := wo, co_rateConvert := rc\<rparr>) = routing out"
    using s1(3) by (simp add: routing_def)
  ultimately show ?case using s1 s2 el e02 by (auto intro: setup_eq_trans)
qed auto

lemma chosen_rate_range:
  assumes "chosen_rate rate s = (r, s')" and "sv_setSampleRate s = None" and "sv_minSampleRate s \<le> sv_maxSampleRate s"
  shows "sv_minSampleRate s \<le> r" "r \<le> sv_maxSampleRate s"
    "sv_minSampleRate s \<le> rate \<Longrightarrow> rate \<le> sv_maxSampleRate s \<Longrightarrow> r = rate"
  using assms by (auto simp: chosen_rate_def Let_def not_less split: if_splits)

lemma chosen_rate_frame:
  assumes "chosen_rate rate s = (r, s')"
  shows "get_comp c s' = get_comp c s" "get_flow f s' = get_flow f s" "get_el p s' = get_el p s"
    "sv_minSampleRate s' = sv_minSampleRate s" "sv_comps s' = sv_comps s" "sv_flows s' = sv_flows s"
    "sv_auCurrentSampleRate s' = r"
  using assms
  by (auto simp: chosen_rate_def Let_def get_comp_def get_flow_def get_el_def AuCallback_def split: if_splits option.splits)

text \<open>The loop \<^verbatim>\<open>(*fl->accumulateOutput) (input, output)\<close> runs.\<close>

definition run_accumulate :: "accumulate \<Rightarrow> compiled_input \<Rightarrow> nat \<Rightarrow> nat \<Rightarrow> nat \<Rightarrow> bytes \<Rightarrow> bytes \<Rightarrow> bytes option" where
  "run_accumulate k i inTracks outTracks n inp out =
     (case k of
        Accumulate \<Rightarrow> accumulateOutput (ci_multiplyConstant i) (ci_addConstant i) (ci_tracks i) inTracks outTracks n inp out
      | AccumulateSimpleMono \<Rightarrow> accumulateOutputSimpleMono (ci_multiplyConstant i) n inp out
      | AccumulateSimpleStereo \<Rightarrow> accumulateOutputSimpleStereo (ci_multiplyConstant i) n inp out)"

lemma simpleMono_mem:
  "simpleMono outs s \<Longrightarrow> out \<in> set outs \<Longrightarrow>
   no_routing out \<and> (\<exists>c. get_comp (co_component out) s = Some c \<and> unat (c_numTracks c) \<le> 1)"
  by (induction outs) (auto split: option.splits)

lemma simpleStereo_mem:
  "simpleStereo outs s \<Longrightarrow> out \<in> set outs \<Longrightarrow>
   no_routing out \<and> (\<exists>c. get_comp (co_component out) s = Some c \<and> c_numTracks c = 2)"
  by (induction outs) (auto split: option.splits)


section \<open>The merged flow is complete\<close>

lemma commit_states_spec:
  "\<forall>f \<in> set fl. get_flow f s \<noteq> None \<Longrightarrow>
   \<exists>s'. commit_states fl s = Some s' \<and> sv_comps s' = sv_comps s \<and> sv_minSampleRate s' = sv_minSampleRate s \<and>
     sv_maxSampleRate s' = sv_maxSampleRate s \<and> sv_setSampleRate s' = sv_setSampleRate s \<and>
     (\<forall>f. get_flow f s' = map_option (\<lambda>fw. if f \<in> set fl then fw\<lparr>f_state := f_pendingState fw\<rparr> else fw) (get_flow f s))"
proof (induction fl arbitrary: s)
  case (Cons f fl)
  then obtain fw where fw: "get_flow f s = Some fw" by auto
  let ?s = "put_flow f (fw\<lparr>f_state := f_pendingState fw\<rparr>) s"
  have "\<forall>g \<in> set fl. get_flow g ?s \<noteq> None" using Cons.prems by (auto simp: get_flow_def put_flow_def)
  then obtain s' where "commit_states fl ?s = Some s'" "sv_comps s' = sv_comps ?s" "sv_minSampleRate s' = sv_minSampleRate ?s"
      "sv_maxSampleRate s' = sv_maxSampleRate ?s" "sv_setSampleRate s' = sv_setSampleRate ?s"
      "\<forall>g. get_flow g s' = map_option (\<lambda>fw. if g \<in> set fl then fw\<lparr>f_state := f_pendingState fw\<rparr> else fw) (get_flow g ?s)"
    using Cons.IH by blast
  with fw show ?case by (auto simp: upd_flow_def put_flow_def get_flow_def)
qed (auto simp: option.map_ident)

text \<open>
  A flow list ready for merging: the flows exist, and their outputs and inputs have components and elements of
  the right types.
\<close>

definition flows_ready :: "nat list \<Rightarrow> server \<Rightarrow> bool" where
  "flows_ready fl s \<longleftrightarrow> (\<forall>f \<in> set fl. get_flow f s \<noteq> None) \<and> outputs_ok s (all_outputs fl s) \<and>
     list_all (output_ready s) (all_outputs fl s) \<and> sv_minSampleRate s \<noteq> 0 \<and>
     sv_minSampleRate s \<le> sv_maxSampleRate s \<and> sv_setSampleRate s = None"

text \<open>The routing of the merged output for component \<open>r\<close>: the inputs of all started outputs there, in order.\<close>

definition scale_route :: "bool \<Rightarrow> nat \<Rightarrow> nat \<times> (nat \<times> nat) \<times> s32 \<times> s32 \<times> (u8 \<times> u8) list \<Rightarrow>
    nat \<times> (nat \<times> nat) \<times> s32 \<times> s32 \<times> (u8 \<times> u8) list" where
  "scale_route average n = (\<lambda>(r, p, m, a, tracks).
     (r, p, if average \<and> n \<noteq> 1 then AuFixedPointMultiply m (word_of_nat (65536 div n)) else m, a, tracks))"

definition merged_routes :: "nat list \<Rightarrow> server \<Rightarrow> nat \<Rightarrow> (nat \<times> (nat \<times> nat) \<times> s32 \<times> s32 \<times> (u8 \<times> u8) list) list" where
  "merged_routes fl s r =
     (let groups = filter (\<lambda>g. co_component g = r) (started_outputs fl s) in
      map (scale_route (sv_auAverageFlows s) (length groups)) (concat (map (map route \<circ> co_inputs) groups)))"

lemma group_routes:
  "map route (group_inputs average groups) = map (scale_route average (length groups)) (concat (map (map route \<circ> co_inputs) groups))"
proof (cases "length groups = 1")
  case True
  then obtain g where "groups = [g]" by (cases groups) auto
  then show ?thesis by (simp add: group_inputs_def scale_route_def route_def)
next
  case False
  have 1: "concat (map (\<lambda>g. map f (co_inputs g)) gs) = map f (concat (map co_inputs gs))" for f :: "compiled_input \<Rightarrow> compiled_input" and gs
    by (induction gs) auto
  have 2: "concat (map (map route \<circ> co_inputs) gs) = map route (concat (map co_inputs gs))" for gs
    by (induction gs) auto
  show ?thesis using False unfolding 2
    by (cases average) (simp_all add: group_inputs_def Let_def 1 scale_route_def route_def)
qed

lemma el_ready_cong:
  "get_el p s' = get_el p s \<Longrightarrow> (\<And>r c. get_comp r s = Some c \<Longrightarrow> \<exists>c'. get_comp r s' = Some c' \<and> c_format c' = c_format c) \<Longrightarrow>
   el_ready s p \<Longrightarrow> el_ready s' p"
  by (fastforce simp: el_ready_def el_comp_def split: bind_splits)

lemma output_ready_cong:
  assumes "\<And>p el. get_el p s = Some el \<Longrightarrow> get_el p s' = Some el"
    and "\<And>r c. get_comp r s = Some c \<Longrightarrow> \<exists>c'. get_comp r s' = Some c' \<and> c_format c' = c_format c"
  shows "output_ready s out \<Longrightarrow> output_ready s' out"
proof -
  have el: "el_ready s p \<Longrightarrow> get_el p s' = get_el p s" for p using assms(1) unfolding el_ready_def by metis
  have r: "el_ready s p \<Longrightarrow> el_ready s' p" for p using el_ready_cong el assms(2) by blast
  have i: "input_ready s i \<Longrightarrow> input_ready s' i" for i using r el by (auto simp: input_ready_def)
  show "output_ready s out \<Longrightarrow> output_ready s' out"
    using r el i by (auto simp: output_ready_def list_all_iff)
qed

lemma group_inputs_mem:
  "i \<in> set (group_inputs average groups) \<Longrightarrow>
   \<exists>g \<in> set groups. \<exists>j \<in> set (co_inputs g). \<exists>m. i = j\<lparr>ci_multiplyConstant := m\<rparr>"
proof (cases "length groups = 1")
  case True
  assume i: "i \<in> set (group_inputs average groups)"
  from True obtain g where "groups = [g]" by (cases groups) auto
  with i show ?thesis
    by (auto simp: group_inputs_def intro!: bexI exI [of _ "ci_multiplyConstant i"])
next
  case False
  assume i: "i \<in> set (group_inputs average groups)"
  show ?thesis
  proof (cases average)
    case True
    with i False show ?thesis by (auto simp: group_inputs_def Let_def)
  next
    case no: False
    with i False obtain g where "g \<in> set groups" "i \<in> set (co_inputs g)" by (auto simp: group_inputs_def Let_def)
    then show ?thesis by (intro bexI [of _ g] bexI [of _ i] exI [of _ "ci_multiplyConstant i"]) auto
  qed
qed

lemma merged_output_ready:
  assumes "list_all (output_ready s) (started_outputs fl s)" and "out \<in> set (started_outputs fl s)"
  shows "output_ready s (merged_output fl s out)"
proof -
  have "input_ready s (tagged s i)" if "i \<in> set (group_inputs (sv_auAverageFlows s)
     (filter (\<lambda>g. co_component g = co_component out) (started_outputs fl s)))" for i
  proof -
    note i = that
    obtain g j m where "g \<in> set (started_outputs fl s)" "j \<in> set (co_inputs g)" "i = j\<lparr>ci_multiplyConstant := m\<rparr>"
      using group_inputs_mem [OF i] by auto
    then have "input_ready s j" "ci_flowEl (tagged s i) = ci_flowEl j"
      using assms(1) by (auto simp: list_all_iff output_ready_def tagged_def)
    then show ?thesis by (simp add: input_ready_def)
  qed
  with assms show ?thesis by (auto simp: output_ready_def merged_output_def list_all_iff)
qed

lemma firsts_subset: "set (firsts P outs) \<subseteq> set outs"
  by (induction P outs rule: firsts.induct) auto

lemma firsts_cong:
  "(\<And>out. out \<in> set outs \<Longrightarrow> co_component out \<in> P \<longleftrightarrow> co_component out \<in> Q) \<Longrightarrow> firsts P outs = firsts Q outs"
proof (induction P outs arbitrary: Q rule: firsts.induct)
  case (2 P out outs)
  show ?case
  proof (cases "co_component out \<in> P")
    case True
    with 2(1) [OF True, of Q] 2(3) show ?thesis by simp
  next
    case False
    with 2(2) [OF False, of "insert (co_component out) Q"] 2(3) show ?thesis by simp
  qed
qed simp

lemma AuProcessFlows_spec:
  assumes ready: "flows_ready fl s" and mallocs: "sv_mallocs s = []"
  shows "\<exists>new s1 s2 s3 rate r s4 outs.
    AuProcessFlows fl s = Some (Some new, s4) \<and> proc_eq s s1 \<and> commit_states fl s1 = Some s2 \<and>
    chosen_rate rate s2 = (r, s3) \<and> setup_eq s3 s4 \<and> cf_outputs new = outs \<and> cf_freeComponents new = False \<and>
    map routing outs = map (\<lambda>x. (co_component x, co_flowEl x, merged_routes fl s (co_component x)))
      (firsts {} (started_outputs fl s))"
proof -
  have ex: "\<forall>f \<in> set fl. get_flow f s \<noteq> None" and ok: "outputs_ok s (all_outputs fl s)"
    and rdy: "list_all (output_ready s) (all_outputs fl s)"
    using ready by (simp_all add: flows_ready_def)
  have al: "aualloc s = (True, s)" using mallocs by (simp add: aualloc_def)
  obtain s0 where s0: "clear_processed fl s = Some s0" "proc_eq s s0"
      "processed s0 = processed s - co_component ` set (all_outputs fl s)"
    using clear_processed_spec [OF ex ok] by blast
  have st0: "started_outputs fl s0 = started_outputs fl s"
    using started_outputs_cong proc_eq_frame(1) [OF s0(2)] by blast
  have ex0: "\<forall>f \<in> set fl. get_flow f s0 \<noteq> None" using ex proc_eq_frame(1) [OF s0(2)] by simp
  have "outputs_ok s (started_outputs fl s)" using ok started_all by (fastforce simp: outputs_ok_def)
  then have ok0: "outputs_ok s0 (started_outputs fl s0)" unfolding st0 by (rule outputs_ok_proc_eq [OF s0(2)])
  have m0: "sv_mallocs s0 = []" using mallocs proc_eq_frame(3) [OF s0(2)] by simp
  obtain new m s1 where mo: "merge_outputs fl (started_outputs fl s0) compiled_flow0 0 s0 = Some (Some (new, m), s1)"
      "proc_eq s0 s1" "cf_freeComponents new = cf_freeComponents compiled_flow0"
      "cf_outputs new = cf_outputs compiled_flow0 @ map (merged_output fl s0) (firsts (processed s0) (started_outputs fl s0))"
    using merge_outputs_spec [OF ex0 ok0 proc_eq_refl m0 ok0, of compiled_flow0 0] by blast
  have mf: "merge_flows fl fl compiled_flow0 0 s0 = Some (Some (new, m), s1)"
    using merge_flows_spec [OF ex0 ok0 proc_eq_refl m0 ok0 ex0] mo(1) by simp
  have e1: "proc_eq s s1" using s0(2) mo(2) by (rule proc_eq_trans)
  have fi: "firsts (processed s0) (started_outputs fl s) = firsts {} (started_outputs fl s)"
    by (rule firsts_cong) (use s0(3) started_all in blast)
  have mout: "merged_output fl s0 = merged_output fl s"
    by (simp add: merged_output_def fun_eq_iff st0 tagged_proc_eq [OF s0(2)] proc_eq_frame(4) [OF s0(2)])
  have outs: "cf_outputs new = map (merged_output fl s) (firsts {} (started_outputs fl s))"
    using mo(4) by (simp add: st0 fi mout compiled_flow0_def)
  obtain s2 where s2: "commit_states fl s1 = Some s2" "sv_comps s2 = sv_comps s1" "sv_minSampleRate s2 = sv_minSampleRate s1"
      "sv_maxSampleRate s2 = sv_maxSampleRate s1" "sv_setSampleRate s2 = sv_setSampleRate s1"
      "\<forall>f. get_flow f s2 = map_option (\<lambda>fw. if f \<in> set fl then fw\<lparr>f_state := f_pendingState fw\<rparr> else fw) (get_flow f s1)"
    using commit_states_spec [of fl s1] ex proc_eq_frame(1) [OF e1] by auto
  obtain r s3 where s3: "chosen_rate m s2 = (r, s3)" by (cases "chosen_rate m s2")
  have same: "sv_minSampleRate s1 = sv_minSampleRate s" "sv_maxSampleRate s1 = sv_maxSampleRate s"
      "sv_setSampleRate s1 = sv_setSampleRate s"
    using e1 by (auto simp: proc_eq_def)
  have min: "sv_minSampleRate s3 \<noteq> 0" using chosen_rate_frame(4) [OF s3] s2(3) same ready by (simp add: flows_ready_def)
  have "sv_minSampleRate s2 \<le> r"
    using chosen_rate_range(1) [OF s3] s2(3-5) same ready by (simp add: flows_ready_def)
  then have r: "r \<noteq> 0"
    using s2(3) same ready by (auto simp: flows_ready_def word_le_nat_alt unat_eq_0)
  have el: "get_el p s = Some e \<Longrightarrow> get_el p s3 = Some e" for p e
    using s2(6) proc_eq_frame(1) [OF e1] chosen_rate_frame(3) [OF s3]
    by (auto simp: get_el_def [of _ s2] get_el_def [of _ s] split: bind_splits if_splits)
  have cp: "get_comp q s = Some c \<Longrightarrow> \<exists>c'. get_comp q s3 = Some c' \<and> c_format c' = c_format c" for q c
    using proc_eq_comp [OF e1, of q c] s2(2) chosen_rate_frame(1) [OF s3] by (auto simp: get_comp_def)
  have "list_all (output_ready s) (started_outputs fl s)"
    using rdy started_all by (fastforce simp: list_all_iff)
  then have "list_all (output_ready s) (cf_outputs new)"
    unfolding outs using merged_output_ready firsts_subset by (fastforce simp: list_all_iff)
  then have "list_all (output_ready s3) (cf_outputs new)"
    using output_ready_cong [OF el cp] by (auto simp: list_all_iff)
  then obtain outs' s4 where s4: "setup_outputs r (cf_outputs new) s3 = Some (outs', s4)" "setup_eq s3 s4"
      "map routing outs' = map routing (cf_outputs new)"
    using setup_outputs_spec r min by blast
  let ?new = "new\<lparr>cf_outputs := outs', cf_accumulateOutput := (if simpleMono outs' s4 then AccumulateSimpleMono
     else if simpleStereo outs' s4 then AccumulateSimpleStereo else Accumulate)\<rparr>"
  have "AuProcessFlows fl s = Some (Some ?new, s4)"
    using al s0(1) mf s2(1) s3 s4(1) by (simp add: AuProcessFlows_def AuSetupCompiledFlow_def Let_def)
  moreover have "map routing outs' = map (\<lambda>x. (co_component x, co_flowEl x, merged_routes fl s (co_component x)))
      (firsts {} (started_outputs fl s))"
    unfolding s4(3) outs by (simp add: routing_def merged_output_def merged_routes_def Let_def flip: group_routes)
  moreover have "cf_freeComponents ?new = False" using mo(3) by (simp add: compiled_flow0_def)
  moreover have "cf_outputs ?new = outs'" by simp
  ultimately show ?thesis using e1 s2(1) s3 s4(2) by blast
qed

lemma setup_eq_flow:
  assumes "setup_eq s s'"
  shows "map_option f_state (get_flow f s') = map_option f_state (get_flow f s)"
    "map_option f_pendingState (get_flow f s') = map_option f_pendingState (get_flow f s)"
proof -
  obtain F where F: "s' = s\<lparr>sv_flows := F\<rparr>"
    "map_option (\<lambda>f. f\<lparr>f_elements := map_option (map el_core) (f_elements f)\<rparr>) (F f) =
     map_option (\<lambda>f. f\<lparr>f_elements := map_option (map el_core) (f_elements f)\<rparr>) (sv_flows s f)"
    using assms unfolding setup_eq_def by blast
  show "map_option f_state (get_flow f s') = map_option f_state (get_flow f s)"
    using arg_cong [OF F(2), of "map_option f_state"] F(1) by (simp add: option.map_comp o_def get_flow_def)
  show "map_option f_pendingState (get_flow f s') = map_option f_pendingState (get_flow f s)"
    using arg_cong [OF F(2), of "map_option f_pendingState"] F(1) by (simp add: option.map_comp o_def get_flow_def)
qed



text \<open>A server with one started flow from an import port to a device.\<close>

definition demo_input :: compiled_input where
  "demo_input = \<lparr>ci_component = 1, ci_flowEl = (0, 0), ci_multiplyConstant = 0x10000, ci_addConstant = 0, ci_tracks = [],
     ci_rateConvert = RcNull, ci_preadTag = TagComponent, ci_readInput = ReadClient\<rparr>"

definition demo_output :: compiled_output where
  "demo_output = \<lparr>co_component = 2, co_flowEl = (0, 1), co_firstInput = 0, co_inputs = [demo_input],
     co_rateConvert = RcNull, co_writeOutput = WriteDevice\<rparr>"

definition demo_flow :: flow where
  "demo_flow = flow0\<lparr>f_pendingState := AuStateStart, f_clocked := True,
     f_compiled := compiled_flow0\<lparr>cf_outputs := [demo_output]\<rparr>,
     f_elements := Some [element0\<lparr>e_raw := ImportClient 8000 6 1 False 8 0 [], e_component := Some 1, e_compiled := True,
          e_isComponent := True, e_state := AuStateStart\<rparr>,
        element0\<lparr>e_raw := ExportDevice 8000 0 0 7 [], e_component := Some 2, e_compiled := True,
          e_isComponent := True, e_state := AuStateStart, e_elementNum := 1\<rparr>]\<rparr>"

definition demo_server :: server where
  "demo_server = (server_init 4)\<lparr>
     sv_comps := [1 \<mapsto> component0\<lparr>c_format := 6, c_numTracks := 1, c_bytesPerSample := 2, c_sampleRate := 8000\<rparr>,
                  2 \<mapsto> component0\<lparr>c_format := 6, c_numTracks := 1, c_bytesPerSample := 2\<rparr>],
     sv_flows := [0 \<mapsto> demo_flow]\<rparr>"

lemma demo_lookup:
  "get_flow 0 demo_server = Some demo_flow"
  "get_comp (Suc 0) demo_server = Some (component0\<lparr>c_format := 6, c_numTracks := 1, c_bytesPerSample := 2, c_sampleRate := 8000\<rparr>)"
  "get_comp 2 demo_server = Some (component0\<lparr>c_format := 6, c_numTracks := 1, c_bytesPerSample := 2\<rparr>)"
  "get_el (0, 0) demo_server = Some (element0\<lparr>e_raw := ImportClient 8000 6 1 False 8 0 [], e_component := Some 1,
     e_compiled := True, e_isComponent := True, e_state := AuStateStart\<rparr>)"
  "get_el (0, Suc 0) demo_server = Some (element0\<lparr>e_raw := ExportDevice 8000 0 0 7 [], e_component := Some 2,
     e_compiled := True, e_isComponent := True, e_state := AuStateStart, e_elementNum := 1\<rparr>)"
  "sv_mallocs demo_server = []" "sv_minSampleRate demo_server = 4000" "sv_maxSampleRate demo_server = 44100"
  "sv_setSampleRate demo_server = None" "sv_auAverageFlows demo_server = False"
  by (simp_all add: demo_server_def get_flow_def get_comp_def get_el_def demo_flow_def server_init_def)

lemma demo_outputs: "started_outputs [0] demo_server = [demo_output]" "all_outputs [0] demo_server = [demo_output]"
  by (simp_all add: started_outputs_def all_outputs_def demo_lookup) (simp_all add: demo_flow_def compiled_flow0_def)

lemma demo_ready: "flows_ready [0] demo_server"
  by (simp add: flows_ready_def demo_outputs demo_lookup outputs_ok_def inputs_ok_def)
    (simp add: demo_output_def demo_input_def output_ready_def input_ready_def el_ready_def el_comp_def demo_lookup
      element0_def component0_def readInputTable_def writeOutputTable_def)



end
