(* ===== verification/Events.thy ===== *)
theory Events
  imports Server_State
begin

text \<open>
  The event queue of \<^verbatim>\<open>server/dia/auevents.c\<close>: the flow code posts events, possibly at interrupt level, and
  \<^verbatim>\<open>ProcessAudioEvents\<close> sends them to the clients. The queue is a doubly linked list with a tail
  pointer. Times are not modelled, and neither is the signal that wakes the server (\<^verbatim>\<open>WAKEUP_SERVER\<close>).
\<close>

section \<open>The queue\<close>

text \<open>A new node is allocated as \<open>sv_next\<close>; \<^verbatim>\<open>AddToEventQueue\<close> links it behind the tail.\<close>

definition AddToEventQueue :: "nat \<Rightarrow> server \<Rightarrow> server option" where
  "AddToEventQueue e s =
     do { (L, head) \<leftarrow> (case sv_AuEventQueueTail s of
            Some t \<Rightarrow> do { L \<leftarrow> set_next t (Some e) (sv_event_links s);
                            L \<leftarrow> set_prev e (Some t) L; Some (L, sv_AuEventQueue s) }
          | None \<Rightarrow> do { L \<leftarrow> set_prev e None (sv_event_links s); Some (L, Some e) });
          L \<leftarrow> set_next e None L;
          Some (s\<lparr>sv_event_links := L, sv_AuEventQueue := head, sv_AuEventQueueTail := Some e\<rparr>) }"

definition new_event :: "queued \<Rightarrow> server \<Rightarrow> nat \<times> server" where
  "new_event q s = (sv_next s, s\<lparr>sv_events := (sv_events s)(sv_next s \<mapsto> q),
     sv_event_links := (sv_event_links s)(sv_next s \<mapsto> \<lparr>l_prev = None, l_next = None\<rparr>),
     sv_next := Suc (sv_next s)\<rparr>)"

definition free_event :: "nat \<Rightarrow> server \<Rightarrow> server" where
  "free_event p s = s\<lparr>sv_events := (sv_events s)(p := None), sv_event_links := (sv_event_links s)(p := None)\<rparr>"

text \<open>Unlinking a node, in \<open>ProcessAudioEvents\<close> and \<open>AuDequeueEvents\<close>: the tail is reset when the queue is empty.\<close>

definition unlink_event :: "nat \<Rightarrow> server \<Rightarrow> server option" where
  "unlink_event p s =
     do { (head, L) \<leftarrow> RemoveFromLinkedList (sv_AuEventQueue s) p (sv_event_links s);
          let s = s\<lparr>sv_AuEventQueue := head, sv_event_links := L\<rparr>;
          Some (if head = None then s\<lparr>sv_AuEventQueueTail := None\<rparr> else s) }"

section \<open>Posting\<close>

text \<open>For a port the event says how much the client may send or fetch, and the port counts it as in transit.\<close>

definition fillInEvent :: "u8 \<Rightarrow> u8 \<Rightarrow> nat \<times> nat \<Rightarrow> server \<Rightarrow> (au_event \<times> server) option" where
  "fillInEvent kind reason p s =
     do { el \<leftarrow> get_el p s;
          f \<leftarrow> get_flow (fst p) s;
          (numBytes, s) \<leftarrow> (case e_raw el of
              ImportClient _ _ _ _ _ _ _ \<Rightarrow>
                do { r \<leftarrow> e_component el; c \<leftarrow> get_comp r s;
                     let numBytes = c_dataSize c - c_currentSize c - c_incoming c;
                     Some (numBytes, if e_state el \<noteq> AuStateStop
                        then put_comp r (c\<lparr>c_incoming := c_incoming c + numBytes\<rparr>) s else s) }
            | ExportClient _ _ _ _ _ _ _ _ \<Rightarrow>
                do { r \<leftarrow> e_component el; c \<leftarrow> get_comp r s;
                     let numBytes = c_currentSize c - c_outgoing c;
                     Some (numBytes, put_comp r (c\<lparr>c_outgoing := c_outgoing c + numBytes\<rparr>) s) }
            | _ \<Rightarrow> Some (0, s));
          Some (ElementNotify (f_flowId f) (e_elementNum el) kind reason (e_prevState el) (e_state el) numBytes, s) }"

text \<open>\<open>p\<close> is not used for a special event, for which the code passes no element.\<close>

definition AuRequestElementNotifyEvent :: "u8 \<Rightarrow> u8 \<Rightarrow> nat \<times> nat \<Rightarrow> server \<Rightarrow> server option" where
  "AuRequestElementNotifyEvent kind reason p s =
     (case aualloc s of
        (False, s) \<Rightarrow> Some s
      | (True, s) \<Rightarrow>
          do { (q, s) \<leftarrow> (if kind = AuElementNotifyKindSpecial
                 then Some (\<lparr>q_event = None, q_flow = fst p, q_client = 0\<rparr>, s)
                 else do { el \<leftarrow> get_el p s; (ev, s) \<leftarrow> fillInEvent kind reason p s;
                           Some (\<lparr>q_event = Some ev, q_flow = fst p, q_client = e_client el\<rparr>, s) });
               let (e, s) = new_event q s;
               s \<leftarrow> AddToEventQueue e s;
               Some (AuCallback EventPosted s) })"

text \<open>\<^verbatim>\<open>data\<close> is the offset \<open>d\<close> in the block \<open>blk\<close>; each event carries 12 bytes.\<close>

fun post_monitor :: "nat \<Rightarrow> nat \<times> nat \<Rightarrow> bytes \<Rightarrow> nat \<Rightarrow> server \<Rightarrow> (bool \<times> server) option" where
  "post_monitor 0 p blk d s = Some (True, s)"
| "post_monitor (Suc count) p blk d s =
     (case aualloc s of
        (False, s) \<Rightarrow> Some (False, s)
      | (True, s) \<Rightarrow>
          do { el \<leftarrow> get_el p s; f \<leftarrow> get_flow (fst p) s; c \<leftarrow> el_comp el s;
               x \<leftarrow> load blk d 12;
               let (e, s) = new_event \<lparr>q_event = Some (MonitorNotify (f_flowId f) (e_elementNum el) (c_format c)
                     (c_numTracks c) (word_of_nat count) x), q_flow = fst p, q_client = e_client el\<rparr> s;
               s \<leftarrow> AddToEventQueue e s;
               post_monitor count p blk (d + 12) s })"

definition AuRequestMonitorNotifyEvent :: "nat \<times> nat \<Rightarrow> bytes \<Rightarrow> nat \<Rightarrow> server \<Rightarrow> server option" where
  "AuRequestMonitorNotifyEvent p blk d s =
     do { el \<leftarrow> get_el p s; c \<leftarrow> el_comp el s;
          let numBytes = c_bytesPerSample c * 2;
          let count = (numBytes + 11) div 12;
          (done, s) \<leftarrow> post_monitor (unat count) p blk d s;
          Some (if done then AuCallback EventPosted s else s) }"

section \<open>Removing the events of a flow\<close>

text \<open>The loop at node \<open>p\<close>, with \<open>next\<close> read before the node is freed.\<close>

partial_function (option) dequeue_loop :: "nat \<Rightarrow> nat option \<Rightarrow> server \<Rightarrow> server option" where
  "dequeue_loop flow p s =
     (case p of None \<Rightarrow> Some s
      | Some e \<Rightarrow>
          do { lk \<leftarrow> sv_event_links s e; q \<leftarrow> sv_events s e;
               s \<leftarrow> (if q_flow q = flow then do { s \<leftarrow> unlink_event e s; Some (free_event e s) } else Some s);
               dequeue_loop flow (l_next lk) s })"

definition AuDequeueEvents :: "nat \<Rightarrow> server \<Rightarrow> server option" where
  "AuDequeueEvents flow s = dequeue_loop flow (sv_AuEventQueue s) s"

section \<open>The queue as a list\<close>

text \<open>
  \<open>evq s xs\<close>: the queue is well-formed and holds the nodes \<open>xs\<close>; \<open>pending s\<close> is the list of queued events,
  oldest first.
\<close>

definition evq :: "server \<Rightarrow> nat list \<Rightarrow> bool" where
  "evq s xs \<longleftrightarrow> dll (sv_event_links s) (sv_AuEventQueue s) xs \<and>
     sv_AuEventQueueTail s = (if xs = [] then None else Some (last xs)) \<and>
     dom (sv_events s) = set xs \<and> dom (sv_event_links s) = set xs \<and> (\<forall>x \<in> set xs. x < sv_next s)"

definition pending :: "server \<Rightarrow> queued list" where
  "pending s = (case chain (sv_event_links s) (sv_AuEventQueue s) of None \<Rightarrow> []
     | Some xs \<Rightarrow> map (\<lambda>x. the (sv_events s x)) xs)"

lemma pending_evq: "evq s xs \<Longrightarrow> pending s = map (\<lambda>x. the (sv_events s x)) xs"
  by (auto simp: pending_def evq_def dest!: chain_dll)

lemma evq_det: "evq s xs \<Longrightarrow> evq s ys \<Longrightarrow> xs = ys"
  by (auto simp: evq_def dest: dll_det)

lemma post_spec:
  assumes "evq s xs" and "new_event q s = (e, s1)"
  shows "\<exists>s2. AddToEventQueue e s1 = Some s2 \<and> evq s2 (xs @ [e]) \<and> pending s2 = pending s @ [q] \<and>
    (\<exists>L h t. s2 = s1\<lparr>sv_event_links := L, sv_AuEventQueue := h, sv_AuEventQueueTail := t\<rparr>)"
proof -
  have e: "e = sv_next s" and fresh: "e \<notin> set xs" and evs: "sv_events s1 = (sv_events s)(e \<mapsto> q)"
    and links: "sv_event_links s1 = (sv_event_links s)(e \<mapsto> \<lparr>l_prev = None, l_next = None\<rparr>)"
    and nxt: "sv_next s1 = Suc e" and hd: "sv_AuEventQueue s1 = sv_AuEventQueue s"
    and tl: "sv_AuEventQueueTail s1 = sv_AuEventQueueTail s"
    using assms by (auto simp: new_event_def evq_def)
  have dl: "dll (sv_event_links s) (sv_AuEventQueue s) xs" using assms(1) by (simp add: evq_def)
  have "\<exists>s2. AddToEventQueue e s1 = Some s2 \<and> evq s2 (xs @ [e]) \<and> sv_events s2 = sv_events s1 \<and>
    (\<exists>L h t. s2 = s1\<lparr>sv_event_links := L, sv_AuEventQueue := h, sv_AuEventQueueTail := t\<rparr>)"
  proof (cases "xs = []")
    case True
    with assms(1) show ?thesis
      by (simp add: AddToEventQueue_def evq_def set_prev_def set_next_def tl links evs nxt dll_def)
        (intro exI conjI; (rule refl)?)
  next
    case False
    then obtain lk where lk: "sv_event_links s (last xs) = Some lk"
      using dll_dom [OF dl, of "last xs"] by auto
    have ne: "last xs \<noteq> e" using False fresh by auto
    let ?L = "(sv_event_links s)(last xs \<mapsto> lk\<lparr>l_next := Some e\<rparr>, e \<mapsto> \<lparr>l_prev = Some (last xs), l_next = None\<rparr>)"
    have "AddToEventQueue e s1 = Some (s1\<lparr>sv_event_links := ?L, sv_AuEventQueue := sv_AuEventQueue s,
        sv_AuEventQueueTail := Some e\<rparr>)"
      using assms(1) False lk ne
      by (simp add: AddToEventQueue_def evq_def set_prev_def set_next_def tl links hd fun_upd_twist)
    moreover have "evq (s1\<lparr>sv_event_links := ?L, sv_AuEventQueue := sv_AuEventQueue s,
        sv_AuEventQueueTail := Some e\<rparr>) (xs @ [e])"
      using assms(1) dll_snoc [OF dl False fresh lk] False lk e
      by (auto simp: evq_def evs nxt)
    ultimately show ?thesis by (intro exI conjI) (assumption, assumption, simp, rule refl)
  qed
  then obtain s2 where s2: "AddToEventQueue e s1 = Some s2" "evq s2 (xs @ [e])" "sv_events s2 = sv_events s1"
    and fr: "\<exists>L h t. s2 = s1\<lparr>sv_event_links := L, sv_AuEventQueue := h, sv_AuEventQueueTail := t\<rparr>"
    by blast
  have "pending s2 = pending s @ [q]"
    using pending_evq [OF s2(2)] pending_evq [OF assms(1)] s2(3) evs fresh by (auto simp: map_eq_conv)
  with s2 fr show ?thesis by blast
qed

text \<open>
  The events left in the queue when those of a flow are removed. \<open>dequeue_loop\<close> keeps the list intact, but
  moves the tail pointer only when the list becomes empty.
\<close>

definition of_other :: "nat \<Rightarrow> server \<Rightarrow> nat \<Rightarrow> bool" where
  "of_other flow s x \<longleftrightarrow> (case sv_events s x of None \<Rightarrow> True | Some q \<Rightarrow> q_flow q \<noteq> flow)"

lemma dequeue_loop_spec:
  "dll (sv_event_links s) (sv_AuEventQueue s) (ys @ zs) \<Longrightarrow>
   set (ys @ zs) = dom (sv_events s) \<Longrightarrow> dom (sv_event_links s) = set (ys @ zs) \<Longrightarrow>
   p = (case zs of [] \<Rightarrow> None | z # _ \<Rightarrow> Some z) \<Longrightarrow>
   \<exists>L h. dequeue_loop flow p s = Some (s\<lparr>sv_events := (sv_events s) |` set (ys @ filter (of_other flow s) zs),
       sv_event_links := L, sv_AuEventQueue := h,
       sv_AuEventQueueTail := (if zs \<noteq> filter (of_other flow s) zs \<and> ys @ filter (of_other flow s) zs = []
          then None else sv_AuEventQueueTail s)\<rparr>) \<and>
     dll L h (ys @ filter (of_other flow s) zs) \<and> dom L = set (ys @ filter (of_other flow s) zs)"
proof (induction zs arbitrary: s ys p)
  case Nil
  have "sv_events s |` set ys = sv_events s"
    using Nil.prems by (auto simp: restrict_map_def fun_eq_iff dom_def)
  then have "s\<lparr>sv_events := sv_events s |` set ys, sv_event_links := sv_event_links s,
      sv_AuEventQueue := sv_AuEventQueue s, sv_AuEventQueueTail := sv_AuEventQueueTail s\<rparr> = s" by simp
  with Nil.prems show ?case
    by (intro exI [of _ "sv_event_links s"] exI [of _ "sv_AuEventQueue s"]) (simp add: dequeue_loop.simps)
next
  case (Cons z zs)
  obtain lk where lk: "sv_event_links s z = Some lk" "l_next lk = (case zs of [] \<Rightarrow> None | y # _ \<Rightarrow> Some y)"
    using dll_next [OF Cons.prems(1)] by auto
  have "z \<in> dom (sv_events s)" using Cons.prems(2) by auto
  then obtain q where q: "sv_events s z = Some q" by auto
  have d: "distinct (ys @ z # zs)" using Cons.prems(1) by (simp add: dll_def)
  show ?case
  proof (cases "q_flow q = flow")
    case False
    then have keep: "of_other flow s z" using q by (simp add: of_other_def)
    have "dequeue_loop flow p s = dequeue_loop flow (l_next lk) s"
      using Cons.prems(4) lk q False by (subst dequeue_loop.simps) simp
    with Cons.IH [of s "ys @ [z]" "l_next lk"] Cons.prems lk keep show ?thesis by simp
  next
    case True
    then have drop: "\<not> of_other flow s z" using q by (simp add: of_other_def)
    have "remove1 z (ys @ z # zs) = ys @ zs" using d by (simp add: remove1_append)
    then obtain h' L' where rm: "RemoveFromLinkedList (sv_AuEventQueue s) z (sv_event_links s) = Some (h', L')"
      and dl: "dll L' h' (ys @ zs)" and dom': "dom L' = dom (sv_event_links s)"
      using RemoveFromLinkedList_dll [OF Cons.prems(1), of z] by auto
    define t where "t = (if ys @ zs = [] then None else sv_AuEventQueueTail s)"
    define s1 where "s1 = s\<lparr>sv_events := (sv_events s)(z := None), sv_event_links := L'(z := None),
       sv_AuEventQueue := h', sv_AuEventQueueTail := t\<rparr>"
    have h': "h' = None \<longleftrightarrow> ys @ zs = []"
      using dll_head [OF dl] by (auto split: list.splits)
    have "do { s \<leftarrow> unlink_event z s; Some (free_event z s) } = Some s1"
      using h' by (simp add: unlink_event_def rm free_event_def s1_def t_def Let_def)
    then have step: "dequeue_loop flow p s = dequeue_loop flow (l_next lk) s1"
      using Cons.prems(4) lk q True by (subst dequeue_loop.simps) simp
    have other: "filter (of_other flow s1) zs = filter (of_other flow s) zs"
      using d by (intro filter_cong) (auto simp: of_other_def s1_def)
    have "dll (sv_event_links s1) (sv_AuEventQueue s1) (ys @ zs)"
      using dll_free [OF dl, of z None] d by (simp add: s1_def)
    moreover have "set (ys @ zs) = dom (sv_events s1)"
      using Cons.prems(2) d by (auto simp: s1_def)
    moreover have "dom (sv_event_links s1) = set (ys @ zs)"
      using Cons.prems(3) dom' d by (auto simp: s1_def)
    ultimately obtain L h where IH: "dequeue_loop flow (l_next lk) s1 =
        Some (s1\<lparr>sv_events := (sv_events s1) |` set (ys @ filter (of_other flow s) zs),
          sv_event_links := L, sv_AuEventQueue := h,
          sv_AuEventQueueTail := (if zs \<noteq> filter (of_other flow s) zs \<and> ys @ filter (of_other flow s) zs = []
             then None else sv_AuEventQueueTail s1)\<rparr>)"
      "dll L h (ys @ filter (of_other flow s) zs)" "dom L = set (ys @ filter (of_other flow s) zs)"
      using Cons.IH [of s1 ys "l_next lk"] lk(2) unfolding other by blast
    have ev: "sv_events s1 |` set (ys @ filter (of_other flow s) zs) = sv_events s |` set (ys @ filter (of_other flow s) zs)"
      using d by (auto simp: s1_def restrict_map_def fun_eq_iff)
    have ne: "z # zs \<noteq> filter (of_other flow s) (z # zs)"
      using drop by (metis filter_eq_Cons_iff filter.simps(2) list.inject filter_id_conv list.set_intros(1))
    have tail: "(if zs \<noteq> filter (of_other flow s) zs \<and> ys @ filter (of_other flow s) zs = []
        then None else sv_AuEventQueueTail s1) =
        (if ys @ filter (of_other flow s) zs = [] then None else sv_AuEventQueueTail s)"
      by (auto simp: s1_def t_def)
    show ?thesis
      using IH drop ne unfolding step IH(1) ev tail by (intro exI [of _ L] exI [of _ h]) (simp add: s1_def)
  qed
qed

lemma AuDequeueEvents_spec:
  assumes "evq s xs"
  shows "\<exists>L h. AuDequeueEvents flow s = Some (s\<lparr>sv_events := (sv_events s) |` set (filter (of_other flow s) xs),
       sv_event_links := L, sv_AuEventQueue := h,
       sv_AuEventQueueTail := (if filter (of_other flow s) xs = [] then None else Some (last xs))\<rparr>) \<and>
     dll L h (filter (of_other flow s) xs) \<and> dom L = set (filter (of_other flow s) xs)"
proof -
  have "sv_AuEventQueue s = (case xs of [] \<Rightarrow> None | z # _ \<Rightarrow> Some z)"
    using assms dll_head by (auto simp: evq_def)
  then obtain L h where "AuDequeueEvents flow s = Some (s\<lparr>sv_events := (sv_events s) |` set (filter (of_other flow s) xs),
       sv_event_links := L, sv_AuEventQueue := h,
       sv_AuEventQueueTail := (if xs \<noteq> filter (of_other flow s) xs \<and> filter (of_other flow s) xs = []
          then None else sv_AuEventQueueTail s)\<rparr>)"
     "dll L h (filter (of_other flow s) xs)" "dom L = set (filter (of_other flow s) xs)"
    using dequeue_loop_spec [of s "[]" xs _ flow] assms by (auto simp: evq_def AuDequeueEvents_def)
  moreover have "(if xs \<noteq> filter (of_other flow s) xs \<and> filter (of_other flow s) xs = []
          then None else sv_AuEventQueueTail s) = (if filter (of_other flow s) xs = [] then None else Some (last xs))"
    using assms by (auto simp: evq_def)
  ultimately show ?thesis by auto
qed

lemma last_filter: "filter P xs \<noteq> [] \<Longrightarrow> P (last xs) \<Longrightarrow> last (filter P xs) = last xs"
  by (cases xs rule: rev_cases) simp_all

text \<open>
  C15. Destroying a flow removes exactly its events, in place, and leaves the queue well-formed: the other
  events stay in their order. This needs the newest event to be another flow's, or all events to be
  this flow's.
\<close>

theorem AuDequeueEvents_filters:
  assumes "evq s xs" and "xs \<noteq> []"
    and "q_flow (the (sv_events s (last xs))) \<noteq> flow \<or> (\<forall>q \<in> set (pending s). q_flow q = flow)"
  shows "\<exists>s'. AuDequeueEvents flow s = Some s' \<and> pending s' = filter (\<lambda>q. q_flow q \<noteq> flow) (pending s) \<and>
    (\<exists>ys. evq s' ys)"
proof -
  obtain L h where res: "AuDequeueEvents flow s = Some (s\<lparr>sv_events := (sv_events s) |` set (filter (of_other flow s) xs),
       sv_event_links := L, sv_AuEventQueue := h,
       sv_AuEventQueueTail := (if filter (of_other flow s) xs = [] then None else Some (last xs))\<rparr>)" (is "_ = Some ?s")
     and dl: "dll L h (filter (of_other flow s) xs)" "dom L = set (filter (of_other flow s) xs)"
    using AuDequeueEvents_spec [OF assms(1)] by blast
  have ev: "x \<in> set xs \<Longrightarrow> \<exists>q. sv_events s x = Some q" for x using assms(1) by (auto simp: evq_def)
  have fl: "filter (of_other flow s) xs = filter (\<lambda>x. q_flow (the (sv_events s x)) \<noteq> flow) xs"
    by (intro filter_cong) (auto simp: of_other_def dest: ev)
  have last: "filter (of_other flow s) xs \<noteq> [] \<Longrightarrow> last (filter (of_other flow s) xs) = last xs"
    unfolding fl using assms(3) pending_evq [OF assms(1)] by (intro last_filter) (auto simp: filter_empty_conv)
  have wf: "evq ?s (filter (of_other flow s) xs)"
    using dl last assms(1) by (auto simp: evq_def)
  have "pending ?s = filter (\<lambda>q. q_flow q \<noteq> flow) (pending s)"
    using pending_evq [OF wf] pending_evq [OF assms(1)] fl
    by (auto simp: filter_map o_def intro!: map_cong)
  with res wf show ?thesis by blast
qed

text \<open>Two pending events, of flows 1 and 2.\<close>

definition two_events :: server where
  "two_events = (server_init 4)\<lparr>sv_events := [7 \<mapsto> \<lparr>q_event = None, q_flow = 1, q_client = 0\<rparr>,
       8 \<mapsto> \<lparr>q_event = None, q_flow = 2, q_client = 0\<rparr>],
     sv_event_links := [7 \<mapsto> \<lparr>l_prev = None, l_next = Some 8\<rparr>, 8 \<mapsto> \<lparr>l_prev = Some 7, l_next = None\<rparr>],
     sv_AuEventQueue := Some 7, sv_AuEventQueueTail := Some 8, sv_next := 9\<rparr>"

lemma two_events: "evq two_events [7, 8]"
  "pending two_events = [\<lparr>q_event = None, q_flow = 1, q_client = 0\<rparr>, \<lparr>q_event = None, q_flow = 2, q_client = 0\<rparr>]"
  "sv_events two_events 8 = Some \<lparr>q_event = None, q_flow = 2, q_client = 0\<rparr>"
proof -
  show 1: "evq two_events [7, 8]" by (auto simp: two_events_def evq_def dll_def)
  show "pending two_events = [\<lparr>q_event = None, q_flow = 1, q_client = 0\<rparr>, \<lparr>q_event = None, q_flow = 2, q_client = 0\<rparr>]"
    using pending_evq [OF 1] by (simp add: two_events_def)
  show "sv_events two_events 8 = Some \<lparr>q_event = None, q_flow = 2, q_client = 0\<rparr>" by (simp add: two_events_def)
qed

theorem AuDequeueEvents_filters_witness:
  "\<exists>s'. AuDequeueEvents 1 two_events = Some s' \<and> pending s' = [\<lparr>q_event = None, q_flow = 2, q_client = 0\<rparr>]"
  using AuDequeueEvents_filters [OF two_events(1), of 1] by (auto simp: two_events(2,3))

text \<open>
  C30. Otherwise the tail pointer is left at the freed node: the next event posted is linked behind freed
  memory.
\<close>

theorem AuDequeueEvents_dangling_tail:
  assumes "evq s xs" and "xs \<noteq> []" and "q_flow (the (sv_events s (last xs))) = flow"
    and "\<exists>q \<in> set (pending s). q_flow q \<noteq> flow"
  shows "\<exists>s'. AuDequeueEvents flow s = Some s' \<and>
    (\<forall>q e s''. new_event q s' = (e, s'') \<longrightarrow> AddToEventQueue e s'' = None)"
proof -
  obtain L h where res: "AuDequeueEvents flow s = Some (s\<lparr>sv_events := (sv_events s) |` set (filter (of_other flow s) xs),
       sv_event_links := L, sv_AuEventQueue := h,
       sv_AuEventQueueTail := (if filter (of_other flow s) xs = [] then None else Some (last xs))\<rparr>)" (is "_ = Some ?s")
     and dl: "dom L = set (filter (of_other flow s) xs)"
    using AuDequeueEvents_spec [OF assms(1)] by blast
  have ev: "x \<in> set xs \<Longrightarrow> \<exists>q. sv_events s x = Some q" for x using assms(1) by (auto simp: evq_def)
  have fl: "filter (of_other flow s) xs = filter (\<lambda>x. q_flow (the (sv_events s x)) \<noteq> flow) xs"
    by (intro filter_cong) (auto simp: of_other_def dest: ev)
  have "filter (of_other flow s) xs \<noteq> []"
    unfolding fl using assms(4) pending_evq [OF assms(1)] by (auto simp: filter_empty_conv)
  moreover have "last xs \<notin> dom L" using assms(3) ev [of "last xs"] assms(2) dl by (auto simp: of_other_def)
  moreover have "last xs < sv_next s" using assms(1) last_in_set [OF assms(2)] by (simp add: evq_def)
  ultimately have f: "filter (of_other flow s) xs \<noteq> []" "L (last xs) = None" "last xs \<noteq> sv_next s"
    by (auto simp: domIff)
  have "AddToEventQueue e s'' = None" if "new_event q ?s = (e, s'')" for q e s''
    using that f by (auto simp: new_event_def AddToEventQueue_def set_next_def)
  with res show ?thesis by blast
qed

theorem AuDequeueEvents_dangling_tail_witness:
  "\<exists>s'. AuDequeueEvents 2 two_events = Some s' \<and>
    (\<forall>q e s''. new_event q s' = (e, s'') \<longrightarrow> AddToEventQueue e s'' = None)"
  using AuDequeueEvents_dangling_tail [OF two_events(1), of 2] by (simp add: two_events(2,3))

section \<open>Posting keeps the order and the flow control\<close>

text \<open>\<open>same_queue s s'\<close>: the event queue is the same.\<close>

definition same_queue :: "server \<Rightarrow> server \<Rightarrow> bool" where
  "same_queue s s' \<longleftrightarrow> sv_events s' = sv_events s \<and> sv_event_links s' = sv_event_links s \<and>
     sv_AuEventQueue s' = sv_AuEventQueue s \<and> sv_AuEventQueueTail s' = sv_AuEventQueueTail s \<and> sv_next s' = sv_next s"

lemma same_queue_refl [simp]: "same_queue s s"
  by (simp add: same_queue_def)

lemma same_queue_put_comp [simp]: "same_queue s (put_comp r c s)"
  by (simp add: same_queue_def put_comp_def)

lemma same_queue_put_flow [simp]: "same_queue s (put_flow r c s)"
  by (simp add: same_queue_def put_flow_def)

lemma same_queue_put_el [simp]: "same_queue s (put_el p e s)"
  by (simp add: put_el_def split: option.splits)

lemma same_queue_trans: "same_queue s s' \<Longrightarrow> same_queue s' s'' \<Longrightarrow> same_queue s s''"
  by (simp add: same_queue_def)

lemma same_queue_evq: "same_queue s s' \<Longrightarrow> evq s' xs = evq s xs"
  by (simp add: same_queue_def evq_def)

lemma same_queue_pending: "same_queue s s' \<Longrightarrow> pending s' = pending s"
  by (simp add: same_queue_def pending_def cong: option.case_cong)

lemma fillInEvent_queue: "fillInEvent kind reason p s = Some (ev, s') \<Longrightarrow> same_queue s s'"
  by (auto simp: fillInEvent_def Let_def split: au_element.splits bind_splits if_splits)

text \<open>The state components that posting does not touch, except for the component of a port.\<close>

lemma AddToEventQueue_frame:
  assumes "AddToEventQueue e s = Some s'"
  shows "sv_comps s' = sv_comps s" "sv_flows s' = sv_flows s"
  using assms by (auto simp: AddToEventQueue_def split: bind_splits option.splits)

lemma new_event_frame:
  assumes "new_event q s = (e, s')"
  shows "sv_comps s' = sv_comps s" "sv_flows s' = sv_flows s"
  using assms by (auto simp: new_event_def)

lemma AuRequestElementNotifyEvent_posts:
  assumes "evq s xs" and "aualloc s = (True, s0)" and "kind \<noteq> AuElementNotifyKindSpecial"
    and "get_el p s0 = Some el" and "fillInEvent kind reason p s0 = Some (ev, s1)"
  shows "\<exists>s' e. AuRequestElementNotifyEvent kind reason p s = Some s' \<and> evq s' (xs @ [e]) \<and>
    pending s' = pending s @ [\<lparr>q_event = Some ev, q_flow = fst p, q_client = e_client el\<rparr>] \<and>
    sv_comps s' = sv_comps s1 \<and> sv_flows s' = sv_flows s1"
proof -
  let ?q = "\<lparr>q_event = Some ev, q_flow = fst p, q_client = e_client el\<rparr>"
  have "same_queue s s0" using assms(2) by (auto simp: aualloc_def same_queue_def split: list.splits)
  then have same: "same_queue s s1" using fillInEvent_queue [OF assms(5)] same_queue_trans by blast
  obtain e s2 where n: "new_event ?q s1 = (e, s2)" by (cases "new_event ?q s1")
  obtain s3 where s3: "AddToEventQueue e s2 = Some s3" "evq s3 (xs @ [e])" "pending s3 = pending s1 @ [?q]"
    using post_spec [OF _ n, of xs] assms(1) same_queue_evq [OF same] by blast
  have "AuRequestElementNotifyEvent kind reason p s = Some (AuCallback EventPosted s3)"
    using assms(2-5) n s3(1) by (simp add: AuRequestElementNotifyEvent_def)
  moreover have "evq (AuCallback EventPosted s3) (xs @ [e])" using s3(2) by (simp add: evq_def AuCallback_def)
  moreover have "pending (AuCallback EventPosted s3) = pending s @ [?q]"
    using s3(3) same_queue_pending [OF same] same_queue_pending [of s3 "AuCallback EventPosted s3"]
    by (simp add: same_queue_def AuCallback_def)
  ultimately show ?thesis
    using AddToEventQueue_frame [OF s3(1)] new_event_frame [OF n] by (auto simp: AuCallback_def)
qed

text \<open>
  Flow control of an import port: the notification posted for an active element goes to the end of the queue
  and asks the client for exactly the room that is neither filled nor already asked for; from then on
  what is in the port and what is in transit add up to its size, so that the client is never asked for more
  than fits.
\<close>

theorem import_request_fills_port:
  assumes "evq s xs" and "sv_mallocs s = []" and "kind \<noteq> AuElementNotifyKindSpecial"
    and "get_el p s = Some el" and "e_raw el = ImportClient a b c' d e f g" and "e_state el \<noteq> AuStateStop"
    and "get_flow (fst p) s = Some fl" and "e_component el = Some r" and "get_comp r s = Some c"
    and room: "unat (c_currentSize c) + unat (c_incoming c) \<le> unat (c_dataSize c)"
  shows "\<exists>s' n. AuRequestElementNotifyEvent kind reason p s = Some s' \<and>
    pending s' = pending s @ [\<lparr>q_event = Some (ElementNotify (f_flowId fl) (e_elementNum el) kind reason
        (e_prevState el) (e_state el) n), q_flow = fst p, q_client = e_client el\<rparr>] \<and>
    unat n = unat (c_dataSize c) - unat (c_currentSize c) - unat (c_incoming c) \<and>
    get_comp r s' = Some (c\<lparr>c_incoming := c_incoming c + n\<rparr>) \<and>
    unat (c_currentSize c) + unat (c_incoming c + n) = unat (c_dataSize c)"
proof -
  let ?n = "c_dataSize c - c_currentSize c - c_incoming c"
  have "unat (c_dataSize c - c_currentSize c) = unat (c_dataSize c) - unat (c_currentSize c)"
    using room by (intro unat_sub) (simp add: word_le_nat_alt)
  moreover have "unat ?n = unat (c_dataSize c - c_currentSize c) - unat (c_incoming c)"
    using room calculation by (intro unat_sub) (simp add: word_le_nat_alt)
  ultimately have n: "unat ?n = unat (c_dataSize c) - unat (c_currentSize c) - unat (c_incoming c)" by simp
  have "unat (c_incoming c + ?n) = unat (c_incoming c) + unat ?n"
    using room n unat_u32_less [of "c_dataSize c"] by (subst unat_add_lem [symmetric]) simp
  then have sum: "unat (c_currentSize c) + unat (c_incoming c + ?n) = unat (c_dataSize c)"
    using n room by simp
  have al: "aualloc s = (True, s)" using assms(2) by (simp add: aualloc_def)
  have fill: "fillInEvent kind reason p s = Some (ElementNotify (f_flowId fl) (e_elementNum el) kind reason
        (e_prevState el) (e_state el) ?n, put_comp r (c\<lparr>c_incoming := c_incoming c + ?n\<rparr>) s)"
    using assms by (simp add: fillInEvent_def)
  show ?thesis
    using AuRequestElementNotifyEvent_posts [OF assms(1) al assms(3,4) fill] n sum
    by (auto simp: get_comp_def put_comp_def)
qed

text \<open>An import of 8 bytes with 3 bytes in it.\<close>

definition import_element :: flow_element where
  "import_element = element0\<lparr>e_raw := ImportClient 8000 2 1 True 8 0 [], e_component := Some 1, e_state := AuStateStart\<rparr>"

definition import_port :: server where
  "import_port = (server_init 4)\<lparr>
     sv_comps := [1 \<mapsto> component0\<lparr>c_dataSize := 8, c_data := replicate 8 0, c_currentSize := 3\<rparr>],
     sv_flows := [2 \<mapsto> flow0\<lparr>f_elements := Some [import_element]\<rparr>]\<rparr>"

theorem import_request_fills_port_witness:
  "\<exists>s' n. AuRequestElementNotifyEvent AuElementNotifyKindLowWater AuReasonWatermark (2, 0) import_port = Some s' \<and>
     unat (n :: u32) = 5 \<and>
     get_comp 1 s' = Some (component0\<lparr>c_dataSize := 8, c_data := replicate 8 0, c_currentSize := 3, c_incoming := n\<rparr>)"
proof -
  have 1: "evq import_port []" "sv_mallocs import_port = []" "AuElementNotifyKindLowWater \<noteq> AuElementNotifyKindSpecial"
    "get_el (2, 0) import_port = Some import_element"
    by (simp_all add: import_port_def evq_def server_init_def get_el_def get_flow_def flow0_def)
  have 2: "e_raw import_element = ImportClient 8000 2 1 True 8 0 []" "e_state import_element \<noteq> AuStateStop"
    "get_flow (fst (2, 0)) import_port = Some (flow0\<lparr>f_elements := Some [import_element]\<rparr>)"
    "e_component import_element = Some 1"
    "get_comp 1 import_port = Some (component0\<lparr>c_dataSize := 8, c_data := replicate 8 0, c_currentSize := 3\<rparr>)"
    by (simp_all add: import_port_def import_element_def get_flow_def get_comp_def element0_def)
  let ?c = "component0\<lparr>c_dataSize := 8, c_data := replicate 8 0, c_currentSize := 3\<rparr>"
  have 3: "unat (c_currentSize ?c) + unat (c_incoming ?c) \<le> unat (c_dataSize ?c)"
    by (simp add: component0_def)
  from import_request_fills_port [OF 1 2 3, of AuReasonWatermark] obtain s' n where
    "AuRequestElementNotifyEvent AuElementNotifyKindLowWater AuReasonWatermark (2, 0) import_port = Some s'"
    "unat n = 8 - 3" "get_comp 1 s' = Some (?c\<lparr>c_incoming := n\<rparr>)"
    by (auto simp: component0_def)
  then show ?thesis by auto
qed

end
