(* ===== verification/Element_State.thy ===== *)
theory Element_State
  imports Flow_Setup Events
begin

text \<open>
  The state machine of flow elements (\<^verbatim>\<open>server/dia/auutil.c\<close>): \<open>AuChangeElementState\<close> moves elements between
  stopped, started and paused, prepares what they need when they start, runs the actions their state
  changes trigger, which may change the state of other elements, and derives the flow's pending state.

  The recursion through triggered actions has no bound in the source. The model takes it from the
  argument \<open>fuel\<close>, the depth of nested calls the stack can hold; \<open>None\<close> is a crash: an access through a bad
  pointer, or a recursion deeper than that.
\<close>

section \<open>Starting an element\<close>

text \<open>
  A monitor's area is preset to the words 0x7fff8001, two samples each. On a little-endian machine the first
  of them, the minimum, is then 0x8001 and the second, the maximum, 0x7fff.
\<close>

definition reset_monitor :: "u32 \<Rightarrow> component \<Rightarrow> component option" where
  "reset_monitor n c =
     do { b \<leftarrow> store (concat (replicate (unat (ucast (c_numTracks c) * n)) [0x01, 0x80, 0xff, 0x7f])) (c_read c) (c_data c);
          Some (c\<lparr>c_data := b\<rparr>) }"

text \<open>What the \<^verbatim>\<open>switch\<close> on the element type does to the element and its component.\<close>

definition start_element :: "u32 \<Rightarrow> flow_element \<Rightarrow> component \<Rightarrow> (flow_element \<times> component) option" where
  "start_element n el c = (let el = el\<lparr>e_currentSample := 0\<rparr> in
     case e_raw el of
       ImportWaveForm _ num _ freq _ \<Rightarrow>
         let el = el\<lparr>e_countSamples := num \<noteq> AuUnlimitedSamples\<rparr>;
             el = (if e_countSamples el then el\<lparr>e_numBytes := num * auNativeBytesPerSample\<rparr> else el)
         in Some (el\<lparr>e_read := 0\<rparr>, c\<lparr>c_frequency := freq * c_waveSamples c\<rparr>)
     | ImportDevice _ num _ _ \<Rightarrow>
         let el = el\<lparr>e_countSamples := num \<noteq> AuUnlimitedSamples\<rparr>
         in Some (if e_countSamples el then el\<lparr>e_numBytes := num * c_bytesPerSample c\<rparr> else el, c)
     | ExportDevice _ _ num _ _ \<Rightarrow>
         let el = el\<lparr>e_countSamples := num \<noteq> AuUnlimitedSamples\<rparr>
         in Some (if e_countSamples el then el\<lparr>e_numBytes := num * c_bytesPerSample c\<rparr> else el, c)
     | ImportClient _ _ _ _ _ _ _ \<Rightarrow>
         let c = (if c_discard c then c\<lparr>c_read := 0, c_write := 0, c_incoming := 0, c_currentSize := 0\<rparr> else c)
         in Some (el, c\<lparr>c_eof := False\<rparr>)
     | ExportClient _ _ _ _ _ _ _ _ \<Rightarrow>
         Some (el, if c_discard c then c\<lparr>c_read := 0, c_write := 0, c_outgoing := 0, c_currentSize := 0\<rparr> else c)
     | ImportBucket _ num _ off _ \<Rightarrow>
         let el = el\<lparr>e_read := unat (off * c_bytesPerSample c), e_countSamples := num \<noteq> AuUnlimitedSamples\<rparr>
         in Some (if e_countSamples el then el\<lparr>e_numBytes := num * c_bytesPerSample c\<rparr> else el, c)
     | ExportBucket _ num _ off _ \<Rightarrow>
         let el = el\<lparr>e_write := unat (off * c_bytesPerSample c), e_countSamples := num \<noteq> AuUnlimitedSamples\<rparr>
         in Some (if e_countSamples el then el\<lparr>e_numBytes := num * c_bytesPerSample c\<rparr> else el, c)
     | ExportMonitor _ _ _ _ \<Rightarrow>
         do { c \<leftarrow> reset_monitor n c; Some (el, c\<lparr>c_write := c_read c\<rparr>) }
     | _ \<Rightarrow> Some (el, c))"

text \<open>The body of the first loop, for one element.\<close>

definition change_element :: "nat \<times> nat \<Rightarrow> u8 \<Rightarrow> server \<Rightarrow> (bool \<times> server) option" where
  "change_element p newState s =
     do { el \<leftarrow> get_el p s;
          (if newState = e_state el then Some (False, s)
           else if newState = AuStatePause \<and> e_state el = AuStateStop then Some (False, s)
           else do { (el, s) \<leftarrow> (if e_compiled el \<and> newState = AuStateStart \<and> e_state el = AuStateStop then
                         do { r \<leftarrow> e_component el; c \<leftarrow> get_comp r s;
                              (el, c) \<leftarrow> start_element (sv_auMinibufSamples s) el c;
                              Some (el, put_comp r c s) }
                       else Some (el, s));
                     Some (True, put_el p (el\<lparr>e_prevState := e_state el, e_state := newState, e_stateChange := True\<rparr>) s) }) }"

fun change_elements :: "nat \<Rightarrow> nat list \<Rightarrow> u8 \<Rightarrow> server \<Rightarrow> (bool \<times> server) option" where
  "change_elements flow [] newState s = Some (False, s)"
| "change_elements flow (i # is) newState s =
     do { (b, s) \<leftarrow> change_element (flow, i) newState s;
          (b', s) \<leftarrow> change_elements flow is newState s;
          Some (b \<or> b', s) }"

section \<open>Triggered actions\<close>

definition CHECK_STATE :: "u8 \<Rightarrow> u8 \<Rightarrow> bool" where
  "CHECK_STATE t s \<longleftrightarrow> t = AuStateAny \<or> t = s"

definition CHECK_REASON :: "u8 \<Rightarrow> u8 \<Rightarrow> bool" where
  "CHECK_REASON t r \<longleftrightarrow> t = AuReasonAny \<or> t = r"

text \<open>\<open>change\<close> is the nested call of \<open>AuChangeElementState\<close>: flow, element, new state, \<^verbatim>\<open>processFlow\<close> and reason.\<close>

type_synonym change = "nat \<Rightarrow> u32 \<Rightarrow> u8 \<Rightarrow> bool \<Rightarrow> u8 \<Rightarrow> server \<Rightarrow> (bool \<times> server) option"

fun run_actions :: "change \<Rightarrow> action list \<Rightarrow> u8 \<Rightarrow> u8 \<Rightarrow> nat \<times> nat \<Rightarrow> bool \<Rightarrow> u8 \<Rightarrow> server \<Rightarrow> server option" where
  "run_actions change [] state prevState p processFlow reason s = Some s"
| "run_actions change (a # as) state prevState p processFlow reason s =
     do { s \<leftarrow> (if CHECK_STATE (a_triggerState a) state \<and> CHECK_STATE (a_triggerPrevState a) prevState \<and>
                   CHECK_REASON (a_triggerReason a) reason then
                  (if a_action a = AuElementActionChangeState then
                     map_option snd (change (a_flow a) (ucast (a_elementNum a)) (a_newState a) processFlow reason s)
                   else if a_action a = AuElementActionSendNotify then
                     AuRequestElementNotifyEvent AuElementNotifyKindState reason p s
                   else Some s)
                else Some s);
          run_actions change as state prevState p processFlow reason s }"

definition checkForTriggeredActions :: "change \<Rightarrow> nat \<times> nat \<Rightarrow> bool \<Rightarrow> u8 \<Rightarrow> server \<Rightarrow> server option" where
  "checkForTriggeredActions change p processFlow reason s =
     do { el \<leftarrow> get_el p s; run_actions change (e_actions el) (e_state el) (e_prevState el) p processFlow reason s }"

section \<open>Changing states\<close>

definition is_import_client :: "au_element \<Rightarrow> bool" where
  "is_import_client e = (case e of ImportClient _ _ _ _ _ _ _ \<Rightarrow> True | _ \<Rightarrow> False)"

text \<open>The body of the second loop.\<close>

definition trigger_element :: "change \<Rightarrow> nat \<times> nat \<Rightarrow> bool \<Rightarrow> u8 \<Rightarrow> server \<Rightarrow> server option" where
  "trigger_element change p processFlow reason s =
     do { el \<leftarrow> get_el p s;
          (if e_stateChange el then
             do { s \<leftarrow> upd_el p (\<lambda>e. e\<lparr>e_stateChange := False\<rparr>) s;
                  discards \<leftarrow> (if is_import_client (e_raw el) then map_option c_discard (el_comp el s) else Some False);
                  (if discards \<and> e_prevState el = AuStateStop \<and> e_state el = AuStateStart then
                     do { s \<leftarrow> upd_el p (\<lambda>e. e\<lparr>e_state := AuStatePause, e_prevState := AuStateStart\<rparr>) s;
                          checkForTriggeredActions change p processFlow AuReasonUnderrun s }
                   else checkForTriggeredActions change p processFlow reason s) }
           else Some s) }"

fun trigger_elements :: "change \<Rightarrow> nat \<Rightarrow> nat list \<Rightarrow> bool \<Rightarrow> u8 \<Rightarrow> server \<Rightarrow> server option" where
  "trigger_elements change flow [] processFlow reason s = Some s"
| "trigger_elements change flow (i # is) processFlow reason s =
     do { s \<leftarrow> trigger_element change (flow, i) processFlow reason s;
          trigger_elements change flow is processFlow reason s }"

definition flow_state_of :: "flow_element list \<Rightarrow> u8" where
  "flow_state_of es =
     (let cs = filter e_isComponent es;
          stop = length (filter (\<lambda>e. e_state e = AuStateStop) cs);
          start = length (filter (\<lambda>e. e_state e = AuStateStart) cs);
          pause = length (filter (\<lambda>e. e_state e \<noteq> AuStateStop \<and> e_state e \<noteq> AuStateStart) cs)
      in if start \<noteq> 0 then AuStateStart else if pause \<noteq> 0 then AuStatePause else AuStateStop)"

definition setFlowState :: "nat \<Rightarrow> server \<Rightarrow> server option" where
  "setFlowState flow s =
     upd_flow flow (\<lambda>f. f\<lparr>f_pendingState := flow_state_of (case f_elements f of None \<Rightarrow> [] | Some es \<Rightarrow> es)\<rparr>) s"

fun AuChangeElementState :: "nat \<Rightarrow> change" where
  "AuChangeElementState 0 flow elementNum newState processFlow reason s = None"
| "AuChangeElementState (Suc fuel) flow elementNum newState processFlow reason s =
     do { f \<leftarrow> get_flow flow s;
          let range = (if elementNum = AuElementAll then [0..<f_numElements f] else [unat elementNum]);
          (stateChange, s) \<leftarrow> change_elements flow range newState s;
          s \<leftarrow> trigger_elements (AuChangeElementState fuel) flow range processFlow reason s;
          s \<leftarrow> (if stateChange then setFlowState flow s else Some s);
          f \<leftarrow> get_flow flow s;
          s \<leftarrow> (if processFlow \<and> f_state f \<noteq> f_pendingState f then
                  (if f_clocked f then AuProcessClockedFlows s else Some (AuProcessUnclockedFlows s))
                else Some s);
          f \<leftarrow> get_flow flow s;
          Some (f_state f \<noteq> f_pendingState f, s) }"

text \<open>The requested states: flow, element and state of each (\<^verbatim>\<open>auElementState\<close>, with its flow looked up).\<close>

fun change_states :: "nat \<Rightarrow> (nat \<times> u8 \<times> u8) list \<Rightarrow> server \<Rightarrow> server option" where
  "change_states fuel [] s = Some s"
| "change_states fuel ((flow, element_num, state) # sts) s =
     do { (_, s) \<leftarrow> AuChangeElementState fuel flow (ucast element_num) state False AuReasonUser s;
          change_states fuel sts s }"

definition AuProcessStateChanges :: "nat \<Rightarrow> (nat \<times> u8 \<times> u8) list \<Rightarrow> server \<Rightarrow> server option" where
  "AuProcessStateChanges fuel states s =
     do { s \<leftarrow> change_states fuel states s; AuProcessClockedFlows (AuProcessUnclockedFlows s) }"

section \<open>What merging leaves alone\<close>

text \<open>
  The control part of a flow: everything but its state, and of its elements everything but the fields that serve
  conversion and read tags.
\<close>

definition el_ctl :: "flow_element \<Rightarrow> flow_element" where
  "el_ctl e = (el_core e)\<lparr>e_readTag := 0\<rparr>"

definition flow_ctl :: "flow \<Rightarrow> flow" where
  "flow_ctl f = f\<lparr>f_state := 0, f_elements := map_option (map el_ctl) (f_elements f)\<rparr>"

definition ctl :: "server \<Rightarrow> (nat \<Rightarrow> flow option) \<times> links \<times> nat option \<times> nat option" where
  "ctl s = (\<lambda>r. map_option flow_ctl (get_flow r s), sv_flow_links s, sv_auClockedFlows s, sv_auUnclockedFlows s)"

definition same_ctl :: "server \<Rightarrow> server \<Rightarrow> bool" where
  "same_ctl s s' \<longleftrightarrow> ctl s' = ctl s \<and> sv_auFlow s' = sv_auFlow s"

lemma same_ctl_refl [simp]: "same_ctl s s"
  by (simp add: same_ctl_def)

lemma same_ctl_trans: "same_ctl s s' \<Longrightarrow> same_ctl s' s'' \<Longrightarrow> same_ctl s s''"
  by (simp add: same_ctl_def)

lemma same_ctl_flows:
  "sv_flows s' = sv_flows s \<Longrightarrow> sv_flow_links s' = sv_flow_links s \<Longrightarrow> sv_auClockedFlows s' = sv_auClockedFlows s \<Longrightarrow>
   sv_auUnclockedFlows s' = sv_auUnclockedFlows s \<Longrightarrow> sv_auFlow s' = sv_auFlow s \<Longrightarrow> same_ctl s s'"
  by (simp add: same_ctl_def ctl_def get_flow_def)

lemma same_ctl_put_comp [simp]: "same_ctl s (put_comp r c s)"
  by (rule same_ctl_flows) (simp_all add: put_comp_def)

lemma same_ctl_upd_comp: "upd_comp r g s = Some s' \<Longrightarrow> same_ctl s s'"
  by (auto simp: upd_comp_def split: bind_splits)

lemma same_ctl_AuCallback [simp]: "same_ctl s (AuCallback c s)"
  by (rule same_ctl_flows) (simp_all add: AuCallback_def)

lemma same_ctl_aualloc: "aualloc s = (b, s') \<Longrightarrow> same_ctl s s'"
  by (rule same_ctl_flows) (auto simp: aualloc_def split: list.splits)

lemma same_ctl_put_el:
  assumes "get_el p s = Some el" and "el_ctl el' = el_ctl el"
  shows "same_ctl s (put_el p el' s)"
proof -
  obtain f es where f: "get_flow (fst p) s = Some f" "f_elements f = Some es" "snd p < length es" "es ! snd p = el"
    using assms(1) by (auto simp: get_el_def split: bind_splits if_splits)
  have "map el_ctl (es[snd p := el']) = map el_ctl es"
    using f(3,4) assms(2) by (simp add: map_update list_update_same_conv)
  with f show ?thesis
    by (simp add: same_ctl_def ctl_def fun_eq_iff put_el_def put_flow_def get_flow_def flow_ctl_def)
qed

lemma setup_formats_core: "setup_formats el c = Some el' \<Longrightarrow> el_core el' = el_core el"
  by (auto simp: setup_formats_def Let_def el_core_def split: if_splits bind_splits)

lemma doSetup_ctl: "doSetup p rate b s = Some (rc, s') \<Longrightarrow> same_ctl s s'"
proof -
  assume a: "doSetup p rate b s = Some (rc, s')"
  then obtain el c el1 n where el: "get_el p s = Some el" "setup_formats el c = Some el1"
      and s': "s' = put_el p (el1\<lparr>e_nextSample := n\<rparr>) s"
    by (auto simp: doSetup_def Let_def split: bind_splits if_splits)
  have "el_ctl (el1\<lparr>e_nextSample := n\<rparr>) = el_ctl el"
    using setup_formats_core [OF el(2)] by (simp add: el_ctl_def el_core_def)
  then show ?thesis unfolding s' by (rule same_ctl_put_el [OF el(1)])
qed

lemma setup_inputs_ctl: "setup_inputs rate ins s = Some (ins', s') \<Longrightarrow> same_ctl s s'"
  by (induction ins arbitrary: s ins' s')
    (fastforce split: bind_splits dest!: doSetup_ctl intro: same_ctl_trans)+

lemma setup_outputs_ctl: "setup_outputs rate outs s = Some (outs', s') \<Longrightarrow> same_ctl s s'"
  by (induction outs arbitrary: s outs' s')
    (fastforce split: bind_splits dest!: doSetup_ctl setup_inputs_ctl intro: same_ctl_trans)+

lemma chosen_rate_ctl: "chosen_rate rate s = (r, s') \<Longrightarrow> same_ctl s s'"
  by (rule same_ctl_flows) (auto simp: chosen_rate_def Let_def AuCallback_def split: if_splits option.splits)

lemma AuSetupCompiledFlow_ctl: "AuSetupCompiledFlow fl rate s = Some (fl', s') \<Longrightarrow> same_ctl s s' \<and> cf_freeComponents fl' = cf_freeComponents fl"
  by (auto simp: AuSetupCompiledFlow_def Let_def split: prod.splits bind_splits
      dest!: setup_outputs_ctl chosen_rate_ctl intro: same_ctl_trans)

lemma clear_outputs_ctl: "clear_outputs outs s = Some s' \<Longrightarrow> same_ctl s s'"
  by (induction outs arbitrary: s) (auto split: bind_splits dest!: same_ctl_upd_comp intro: same_ctl_trans)

lemma clear_processed_ctl: "clear_processed fl s = Some s' \<Longrightarrow> same_ctl s s'"
  by (induction fl arbitrary: s) (auto split: bind_splits dest!: clear_outputs_ctl intro: same_ctl_trans)

lemma collect_outputs_ctl: "collect_outputs r outs g s = Some (res, s') \<Longrightarrow> same_ctl s s'"
  by (induction outs arbitrary: s g)
    (auto split: bind_splits if_splits prod.splits bool.splits dest!: same_ctl_upd_comp same_ctl_aualloc
      intro: same_ctl_trans)

lemma collect_flows_ctl: "collect_flows r fl g s = Some (res, s') \<Longrightarrow> same_ctl s s'"
  by (induction fl arbitrary: s g)
    (fastforce split: bind_splits if_splits option.splits dest!: collect_outputs_ctl intro: same_ctl_trans)+

lemma merge_outputs_ctl:
  "merge_outputs fl outs new m s = Some (res, s') \<Longrightarrow> same_ctl s s' \<and>
   (\<forall>new' m'. res = Some (new', m') \<longrightarrow> cf_freeComponents new' = cf_freeComponents new)"
proof (induction outs arbitrary: new m s)
  case (Cons out outs)
  show ?case
    using Cons.prems
    by (auto simp: Let_def split: bind_splits if_splits prod.splits bool.splits option.splits
        dest!: same_ctl_upd_comp same_ctl_aualloc collect_flows_ctl Cons.IH)
      (simp_all add: same_ctl_def)
qed auto

lemma merge_flows_ctl:
  "merge_flows fl fs new m s = Some (res, s') \<Longrightarrow> same_ctl s s' \<and>
   (\<forall>new' m'. res = Some (new', m') \<longrightarrow> cf_freeComponents new' = cf_freeComponents new)"
  by (induction fs arbitrary: new m s)
    (fastforce split: bind_splits if_splits option.splits dest!: merge_outputs_ctl intro: same_ctl_trans)+

lemma commit_states_ctl: "commit_states fl s = Some s' \<Longrightarrow> same_ctl s s'"
proof (induction fl arbitrary: s)
  case (Cons f fl)
  then obtain fw where fw: "get_flow f s = Some fw" "commit_states fl (put_flow f (fw\<lparr>f_state := f_pendingState fw\<rparr>) s) = Some s'"
    by (auto simp: upd_flow_def split: bind_splits)
  have "same_ctl s (put_flow f (fw\<lparr>f_state := f_pendingState fw\<rparr>) s)"
    using fw(1) by (auto simp: same_ctl_def ctl_def fun_eq_iff put_flow_def get_flow_def flow_ctl_def)
  with Cons.IH [OF fw(2)] show ?case by (blast intro: same_ctl_trans)
qed auto

lemma AuProcessFlows_ctl:
  "AuProcessFlows fl s = Some (res, s') \<Longrightarrow> same_ctl s s' \<and> (\<forall>new. res = Some new \<longrightarrow> \<not> cf_freeComponents new)"
  by (auto simp: AuProcessFlows_def compiled_flow0_def split: bind_splits prod.splits bool.splits option.splits
      dest!: same_ctl_aualloc clear_processed_ctl merge_flows_ctl commit_states_ctl AuSetupCompiledFlow_ctl)
    (simp_all add: same_ctl_def)

lemma reset_tags_ctl: "reset_tags ins s = Some s' \<Longrightarrow> same_ctl s s'"
proof (induction ins arbitrary: s)
  case (Cons i ins)
  then obtain s1 where s1: "(case ci_preadTag i of
                  TagElement \<Rightarrow> upd_el (ci_flowEl i) (\<lambda>e. e\<lparr>e_readTag := 0\<rparr>) s
                | TagComponent \<Rightarrow> upd_comp (ci_component i) (\<lambda>c. c\<lparr>c_readTag := 0\<rparr>) s) = Some s1"
      "reset_tags ins s1 = Some s'"
    by (auto split: bind_splits)
  have "same_ctl s s1"
  proof (cases "ci_preadTag i")
    case TagElement
    then obtain el where el: "get_el (ci_flowEl i) s = Some el" "s1 = put_el (ci_flowEl i) (el\<lparr>e_readTag := 0\<rparr>) s"
      using s1(1) by (auto simp: upd_el_def split: bind_splits)
    show ?thesis unfolding el(2) by (rule same_ctl_put_el [OF el(1)]) (simp add: el_ctl_def el_core_def)
  qed (use s1(1) same_ctl_upd_comp in auto)
  with Cons.IH [OF s1(2)] show ?case by (blast intro: same_ctl_trans)
qed auto

lemma free_not_components: "\<not> cf_freeComponents fl \<Longrightarrow> freeCompiledFlow fl s = Some s' \<Longrightarrow> s' = s"
proof -
  have "free_outputs False outs s = Some s" for outs by (induction outs) auto
  then show "\<not> cf_freeComponents fl \<Longrightarrow> freeCompiledFlow fl s = Some s' \<Longrightarrow> s' = s"
    by (simp add: freeCompiledFlow_def)
qed

text \<open>The running flow never owns components: it is always one \<open>AuProcessFlows\<close> made.\<close>

definition auFlow_borrows :: "server \<Rightarrow> bool" where
  "auFlow_borrows s \<longleftrightarrow> (\<forall>fl. sv_auFlow s = Some fl \<longrightarrow> \<not> cf_freeComponents fl)"

lemma AuStartFlow_ctl:
  assumes "AuStartFlow nf s = Some (b, old, s')"
  shows "ctl s' = ctl s \<and> old = sv_auFlow s \<and> (sv_auFlow s' = nf \<or> sv_auFlow s' = None)"
  using assms
  by (auto simp: AuStartFlow_def Let_def same_ctl_def ctl_def get_flow_def AuCallback_def
      split: bind_splits option.splits if_splits dest!: reset_tags_ctl)

lemma AuProcessClockedFlows_ctl:
  assumes "AuProcessClockedFlows s = Some s'" and "auFlow_borrows s"
  shows "ctl s' = ctl s \<and> auFlow_borrows s'"
proof -
  obtain fl res s1 where s1: "AuProcessFlows fl s = Some (res, s1)"
    and rest: "(case res of None \<Rightarrow> Some s1
           | Some new \<Rightarrow>
               do { (status, old, s) \<leftarrow> AuStartFlow (Some new) s1;
                    s \<leftarrow> (if \<not> status then freeCompiledFlow new s else Some s);
                    (case old of None \<Rightarrow> Some s | Some old \<Rightarrow> freeCompiledFlow old s) }) = Some s'"
    using assms(1) by (auto simp: AuProcessClockedFlows_def split: bind_splits)
  note c1 = AuProcessFlows_ctl [OF s1]
  show ?thesis
  proof (cases res)
    case None
    with rest c1 assms(2) show ?thesis by (simp add: same_ctl_def auFlow_borrows_def)
  next
    case (Some new)
    with rest obtain status old s2 s3 where s2: "AuStartFlow (Some new) s1 = Some (status, old, s2)"
      and s3: "(if \<not> status then freeCompiledFlow new s2 else Some s2) = Some s3"
      and s': "(case old of None \<Rightarrow> Some s3 | Some old \<Rightarrow> freeCompiledFlow old s3) = Some s'"
      by (auto split: bind_splits)
    have new: "\<not> cf_freeComponents new" using c1 Some by blast
    have e3: "s3 = s2" using s3 free_not_components [OF new] by (auto split: if_splits)
    have old: "old = sv_auFlow s" using AuStartFlow_ctl [OF s2] c1 by (simp add: same_ctl_def)
    have "s' = s3"
    proof (cases old)
      case None
      with s' show ?thesis by simp
    next
      case (Some fl)
      with old assms(2) have "\<not> cf_freeComponents fl" by (simp add: auFlow_borrows_def)
      with s' Some free_not_components show ?thesis by simp
    qed
    with e3 AuStartFlow_ctl [OF s2] c1 new show ?thesis by (auto simp: same_ctl_def auFlow_borrows_def)
  qed
qed

section \<open>The pending state follows the elements\<close>

definition f_els :: "flow \<Rightarrow> flow_element list" where
  "f_els f = (case f_elements f of None \<Rightarrow> [] | Some es \<Rightarrow> es)"

text \<open>The elements of flow \<open>r\<close> whose \<^verbatim>\<open>stateChange\<close> is set, and whether its pending state is derived from its elements.\<close>

definition flags :: "server \<Rightarrow> nat \<Rightarrow> nat set" where
  "flags s r = (case get_flow r s of None \<Rightarrow> {} | Some f \<Rightarrow> {i. i < length (f_els f) \<and> e_stateChange (f_els f ! i)})"

definition derived :: "server \<Rightarrow> nat \<Rightarrow> bool" where
  "derived s r \<longleftrightarrow> (case get_flow r s of None \<Rightarrow> True | Some f \<Rightarrow> f_pendingState f = flow_state_of (f_els f))"

lemma el_ctl_fields [simp]:
  "e_state (el_ctl e) = e_state e" "e_isComponent (el_ctl e) = e_isComponent e" "e_stateChange (el_ctl e) = e_stateChange e"
  by (simp_all add: el_ctl_def el_core_def)

lemma flow_state_of_ctl: "flow_state_of (map el_ctl es) = flow_state_of es"
  by (simp add: flow_state_of_def filter_map o_def Let_def)

lemma f_els_ctl: "f_els (flow_ctl f) = map el_ctl (f_els f)"
  by (auto simp: f_els_def flow_ctl_def split: option.splits)

lemma derived_ctl: "ctl s' = ctl s \<Longrightarrow> derived s' r = derived s r"
proof -
  have "derived s r = (case map_option flow_ctl (get_flow r s) of None \<Rightarrow> True
      | Some f \<Rightarrow> f_pendingState f = flow_state_of (f_els f))" for s
    by (auto simp: derived_def f_els_ctl flow_state_of_ctl split: option.splits) (simp_all add: flow_ctl_def)
  note eq = this
  assume "ctl s' = ctl s"
  then have "map_option flow_ctl (get_flow r s') = map_option flow_ctl (get_flow r s)"
    by (simp add: ctl_def fun_eq_iff)
  then show ?thesis by (simp only: eq)
qed

lemma flags_ctl: "ctl s' = ctl s \<Longrightarrow> flags s' r = flags s r"
proof -
  have "flags s r = (case map_option flow_ctl (get_flow r s) of None \<Rightarrow> {}
      | Some f \<Rightarrow> {i. i < length (f_els f) \<and> e_stateChange (f_els f ! i)})" for s
    by (auto simp: flags_def f_els_ctl split: option.splits)
  note eq = this
  assume "ctl s' = ctl s"
  then have "map_option flow_ctl (get_flow r s') = map_option flow_ctl (get_flow r s)"
    by (simp add: ctl_def fun_eq_iff)
  then show ?thesis by (simp only: eq)
qed

lemma put_el_views:
  assumes "get_el p s = Some el"
  shows "r \<noteq> fst p \<Longrightarrow> flags (put_el p e s) r = flags s r" "r \<noteq> fst p \<Longrightarrow> derived (put_el p e s) r = derived s r"
    "flags (put_el p e s) (fst p) = (if e_stateChange e then insert (snd p) (flags s (fst p)) else flags s (fst p) - {snd p})"
    "sv_auFlow (put_el p e s) = sv_auFlow s"
  using assms
  by (auto simp: put_el_def put_flow_def get_flow_def flags_def derived_def get_el_def f_els_def nth_list_update
      split: bind_splits if_splits option.splits)

lemma put_comp_views [simp]:
  "flags (put_comp r c s) = flags s" "derived (put_comp r c s) = derived s" "sv_auFlow (put_comp r c s) = sv_auFlow s"
  "get_el p (put_comp r c s) = get_el p s"
  by (simp_all add: fun_eq_iff flags_def derived_def put_comp_def get_flow_def get_el_def)

lemma change_element_views:
  assumes "change_element p newState s = Some (b, s')"
  shows "flags s' (fst p) \<subseteq> insert (snd p) (flags s (fst p))" "r \<noteq> fst p \<Longrightarrow> flags s' r = flags s r"
    "r \<noteq> fst p \<Longrightarrow> derived s' r = derived s r" "sv_auFlow s' = sv_auFlow s" "\<not> b \<Longrightarrow> s' = s"
  using assms
  by (auto simp: change_element_def put_el_views split: bind_splits if_splits)

lemma change_elements_views:
  "change_elements flow is newState s = Some (b, s') \<Longrightarrow>
   flags s' flow \<subseteq> set is \<union> flags s flow \<and> (\<forall>r. r \<noteq> flow \<longrightarrow> flags s' r = flags s r \<and> derived s' r = derived s r) \<and>
   sv_auFlow s' = sv_auFlow s \<and> (\<not> b \<longrightarrow> s' = s)"
proof (induction "is" arbitrary: s b)
  case (Cons i "is")
  obtain b1 s1 where 1: "change_element (flow, i) newState s = Some (b1, s1)"
    using Cons.prems by (cases "change_element (flow, i) newState s") auto
  obtain b2 s2 where 2: "change_elements flow is newState s1 = Some (b2, s2)"
    using Cons.prems 1 by (cases "change_elements flow is newState s1") auto
  have s1: "change_element (flow, i) newState s = Some (b1, s1)" "change_elements flow is newState s1 = Some (b2, s')"
      "b = (b1 \<or> b2)"
    using Cons.prems 1 2 by auto
  with Cons.IH [OF s1(2)] change_element_views [OF s1(1)] show ?case by auto
qed auto

text \<open>\<open>keeps s s'\<close>: no new \<^verbatim>\<open>stateChange\<close> flags, and flows that were settled still are.\<close>

definition keeps :: "server \<Rightarrow> server \<Rightarrow> bool" where
  "keeps s s' \<longleftrightarrow> auFlow_borrows s' \<and>
     (\<forall>r. flags s' r \<subseteq> flags s r \<and> (flags s r = {} \<and> derived s r \<longrightarrow> derived s' r))"

lemma keeps_trans: "keeps s s' \<Longrightarrow> keeps s' s'' \<Longrightarrow> keeps s s''"
  unfolding keeps_def by blast

lemma keeps_ctl:
  assumes "ctl s' = ctl s" and "auFlow_borrows s'"
  shows "keeps s s'"
  using assms(2) unfolding keeps_def flags_ctl [OF assms(1)] derived_ctl [OF assms(1)] by simp

lemma fillInEvent_flows:
  assumes "fillInEvent kind reason p s = Some (ev, s')"
  shows "same_ctl s s'"
proof -
  obtain el where "get_el p s = Some el" using assms by (cases "get_el p s") (auto simp: fillInEvent_def)
  then have "s' = s \<or> (\<exists>r c. s' = put_comp r c s)"
    using assms by (cases "e_raw el") (auto simp: fillInEvent_def Let_def split: bind_splits if_splits)
  then show ?thesis by auto
qed

lemma new_event_ctl: "new_event q s = (e, s') \<Longrightarrow> same_ctl s s'"
  by (rule same_ctl_flows) (auto simp: new_event_def)

lemma AddToEventQueue_ctl: "AddToEventQueue e s = Some s' \<Longrightarrow> same_ctl s s'"
  by (rule same_ctl_flows) (auto simp: AddToEventQueue_def split: bind_splits option.splits)

lemma AuRequestElementNotifyEvent_ctl:
  assumes "AuRequestElementNotifyEvent kind reason p s = Some s'"
  shows "same_ctl s s'"
proof -
  obtain ok s0 where s0: "aualloc s = (ok, s0)" by (cases "aualloc s")
  show ?thesis
  proof (cases ok)
    case True
    then obtain q s1 e s2 s3 where s1: "(if kind = AuElementNotifyKindSpecial
                 then Some (\<lparr>q_event = None, q_flow = fst p, q_client = 0\<rparr>, s0)
                 else do { el \<leftarrow> get_el p s0; (ev, s) \<leftarrow> fillInEvent kind reason p s0;
                           Some (\<lparr>q_event = Some ev, q_flow = fst p, q_client = e_client el\<rparr>, s) }) = Some (q, s1)"
      and s2: "new_event q s1 = (e, s2)" and s3: "AddToEventQueue e s2 = Some s3" and s': "s' = AuCallback EventPosted s3"
      using assms s0 by (auto simp: AuRequestElementNotifyEvent_def Let_def split: bind_splits prod.splits)
    have "same_ctl s0 s1" using s1 by (auto split: if_splits bind_splits dest!: fillInEvent_flows)
    with same_ctl_aualloc [OF s0] new_event_ctl [OF s2] AddToEventQueue_ctl [OF s3] s'
      same_ctl_AuCallback [of s3 EventPosted]
    show ?thesis by (metis same_ctl_trans)
  qed (use assms s0 same_ctl_aualloc in \<open>auto simp: AuRequestElementNotifyEvent_def\<close>)
qed

definition change_keeps :: "change \<Rightarrow> bool" where
  "change_keeps change \<longleftrightarrow> (\<forall>flow n st pf reason s b s'. auFlow_borrows s \<longrightarrow>
     change flow n st pf reason s = Some (b, s') \<longrightarrow> keeps s s')"

lemma run_actions_keeps:
  "change_keeps change \<Longrightarrow> auFlow_borrows s \<Longrightarrow> run_actions change as st pst p pf reason s = Some s' \<Longrightarrow> keeps s s'"
proof (induction "as" arbitrary: s)
  case (Cons a "as")
  then obtain s1 where s1: "(if CHECK_STATE (a_triggerState a) st \<and> CHECK_STATE (a_triggerPrevState a) pst \<and>
                   CHECK_REASON (a_triggerReason a) reason then
                  (if a_action a = AuElementActionChangeState then
                     map_option snd (change (a_flow a) (ucast (a_elementNum a)) (a_newState a) pf reason s)
                   else if a_action a = AuElementActionSendNotify then
                     AuRequestElementNotifyEvent AuElementNotifyKindState reason p s
                   else Some s)
                else Some s) = Some s1" and rest: "run_actions change as st pst p pf reason s1 = Some s'"
    by (auto split: bind_splits)
  have "keeps s s1"
  proof -
    have "keeps s s" using Cons.prems(2) by (simp add: keeps_def)
    moreover have "keeps s s1" if "AuRequestElementNotifyEvent AuElementNotifyKindState reason p s = Some s1"
      using AuRequestElementNotifyEvent_ctl [OF that] Cons.prems(2)
      by (intro keeps_ctl) (simp_all add: same_ctl_def auFlow_borrows_def)
    moreover have "keeps s s1" if "change (a_flow a) (ucast (a_elementNum a)) (a_newState a) pf reason s = Some (b, s1)" for b
      using that Cons.prems(1,2) unfolding change_keeps_def by blast
    ultimately show ?thesis using s1 by (auto split: if_splits)
  qed
  moreover from this have "auFlow_borrows s1" by (simp add: keeps_def)
  ultimately show ?case using Cons.IH [OF Cons.prems(1) _ rest] keeps_trans by blast
qed (simp add: keeps_def)

lemma checkForTriggeredActions_keeps:
  "change_keeps change \<Longrightarrow> auFlow_borrows s \<Longrightarrow> checkForTriggeredActions change p pf reason s = Some s' \<Longrightarrow> keeps s s'"
  by (auto simp: checkForTriggeredActions_def split: bind_splits dest: run_actions_keeps)

lemma upd_el_views:
  assumes "upd_el p g s = Some s'" and "\<And>e. e_stateChange (g e) = False"
  shows "flags s' (fst p) = flags s (fst p) - {snd p}" "r \<noteq> fst p \<Longrightarrow> flags s' r = flags s r"
    "r \<noteq> fst p \<Longrightarrow> derived s' r = derived s r" "sv_auFlow s' = sv_auFlow s"
  using assms by (auto simp: upd_el_def put_el_views split: bind_splits)

lemma get_el_put_el:
  "get_el p s = Some el \<Longrightarrow> get_el p (put_el p e s) = Some e"
  by (auto simp: get_el_def put_el_def put_flow_def get_flow_def split: bind_splits if_splits)

lemma trigger_element_views:
  assumes "change_keeps change" and "auFlow_borrows s" and "trigger_element change (flow, i) pf reason s = Some s'"
  shows "auFlow_borrows s' \<and> flags s' flow \<subseteq> flags s flow - {i} \<and>
    (\<forall>r. r \<noteq> flow \<longrightarrow> flags s' r \<subseteq> flags s r \<and> (flags s r = {} \<and> derived s r \<longrightarrow> derived s' r)) \<and>
    (i \<notin> flags s flow \<longrightarrow> s' = s)"
proof -
  obtain el where el: "get_el (flow, i) s = Some el"
    using assms(3) by (auto simp: trigger_element_def split: bind_splits)
  then have mem: "i \<in> flags s flow \<longleftrightarrow> e_stateChange el"
    by (auto simp: get_el_def flags_def f_els_def split: bind_splits if_splits option.splits)
  show ?thesis
  proof (cases "e_stateChange el")
    case False
    with assms(2,3) el mem show ?thesis by (auto simp: trigger_element_def)
  next
    case True
    define s1 where "s1 = put_el (flow, i) (el\<lparr>e_stateChange := False\<rparr>) s"
    have v1: "flags s1 flow = flags s flow - {i}" "\<And>r. r \<noteq> flow \<Longrightarrow> flags s1 r = flags s r"
      "\<And>r. r \<noteq> flow \<Longrightarrow> derived s1 r = derived s r" "sv_auFlow s1 = sv_auFlow s"
      using put_el_views [OF el] by (simp_all add: s1_def)
    have b1: "auFlow_borrows s1" using assms(2) v1(4) by (simp add: auFlow_borrows_def)
    have el1: "get_el (flow, i) s1 = Some (el\<lparr>e_stateChange := False\<rparr>)"
      unfolding s1_def by (rule get_el_put_el [OF el])
    define s2 where "s2 = put_el (flow, i) (el\<lparr>e_stateChange := False, e_state := AuStatePause, e_prevState := AuStateStart\<rparr>) s1"
    have v2: "flags s2 flow = flags s flow - {i}" "\<And>r. r \<noteq> flow \<Longrightarrow> flags s2 r = flags s r"
      "\<And>r. r \<noteq> flow \<Longrightarrow> derived s2 r = derived s r" "sv_auFlow s2 = sv_auFlow s"
      using put_el_views [OF el1] v1 by (simp_all add: s2_def)
    have b2: "auFlow_borrows s2" using assms(2) v2(4) by (simp add: auFlow_borrows_def)
    have "checkForTriggeredActions change (flow, i) pf reason s1 = Some s' \<or>
        checkForTriggeredActions change (flow, i) pf AuReasonUnderrun s2 = Some s'"
      using assms(3) el True el1
      by (auto simp: trigger_element_def upd_el_def s1_def [symmetric] s2_def [symmetric] split: bind_splits if_splits)
    then have "keeps s1 s' \<or> keeps s2 s'"
      using checkForTriggeredActions_keeps [OF assms(1)] b1 b2 by blast
    then show ?thesis using v1 v2 mem True unfolding keeps_def by blast
  qed
qed

lemma trigger_elements_views:
  "change_keeps change \<Longrightarrow> auFlow_borrows s \<Longrightarrow> trigger_elements change flow is pf reason s = Some s' \<Longrightarrow>
   auFlow_borrows s' \<and> flags s' flow \<subseteq> flags s flow - set is \<and>
    (\<forall>r. r \<noteq> flow \<longrightarrow> flags s' r \<subseteq> flags s r \<and> (flags s r = {} \<and> derived s r \<longrightarrow> derived s' r)) \<and>
    (flags s flow = {} \<longrightarrow> s' = s)"
proof (induction "is" arbitrary: s)
  case (Cons i "is")
  then obtain s1 where s1: "trigger_element change (flow, i) pf reason s = Some s1"
      "trigger_elements change flow is pf reason s1 = Some s'"
    by (auto split: bind_splits)
  note v1 = trigger_element_views [OF Cons.prems(1,2) s1(1)]
  then have "auFlow_borrows s1" by blast
  note v2 = Cons.IH [OF Cons.prems(1) this s1(2)]
  show ?case
  proof (intro conjI allI impI)
    show "flags s' flow \<subseteq> flags s flow - set (i # is)" using v1 v2 by auto
    fix r assume r: "r \<noteq> flow"
    then show "flags s' r \<subseteq> flags s r" using v1 v2 by blast
    assume "flags s r = {} \<and> derived s r"
    then show "derived s' r" using v1 v2 r by (metis subset_empty)
  next
    assume "flags s flow = {}"
    then show "s' = s" using v1 v2 by auto
  qed (use v2 in blast)
qed auto

lemma setFlowState_views:
  assumes "setFlowState flow s = Some s'"
  shows "derived s' flow" "flags s' r = flags s r" "r \<noteq> flow \<Longrightarrow> derived s' r = derived s r" "sv_auFlow s' = sv_auFlow s"
proof -
  obtain f where f: "get_flow flow s = Some f" "s' = put_flow flow (f\<lparr>f_pendingState := flow_state_of (f_els f)\<rparr>) s"
    using assms by (auto simp: setFlowState_def upd_flow_def f_els_def split: bind_splits)
  show "derived s' flow" "flags s' r = flags s r" "r \<noteq> flow \<Longrightarrow> derived s' r = derived s r" "sv_auFlow s' = sv_auFlow s"
    using f by (auto simp: derived_def flags_def f_els_def put_flow_def get_flow_def)
qed

lemma AuChangeElementState_keeps: "change_keeps (AuChangeElementState fuel)"
proof (induction fuel)
  case 0
  then show ?case by (simp add: change_keeps_def)
next
  case (Suc fuel)
  show ?case
    unfolding change_keeps_def
  proof (intro allI impI)
    fix flow n st pf reason s b s'
    assume borrows: "auFlow_borrows s" and run: "AuChangeElementState (Suc fuel) flow n st pf reason s = Some (b, s')"
    from run obtain f where f: "get_flow flow s = Some f" by (auto split: bind_splits)
    define ran where "ran = (if n = AuElementAll then [0..<f_numElements f] else [unat n])"
    from run f obtain ch s1 where s1: "change_elements flow ran st s = Some (ch, s1)"
      by (cases "change_elements flow ran st s") (auto simp: Let_def ran_def)
    from run f s1 obtain s2 where s2: "trigger_elements (AuChangeElementState fuel) flow ran pf reason s1 = Some s2"
      by (cases "trigger_elements (AuChangeElementState fuel) flow ran pf reason s1") (auto simp: Let_def ran_def)
    from run f s1 s2 obtain s3 where s3: "(if ch then setFlowState flow s2 else Some s2) = Some s3"
      by (cases "if ch then setFlowState flow s2 else Some s2") (auto simp: Let_def ran_def)
    from run f s1 s2 s3 obtain f3 where f3: "get_flow flow s3 = Some f3"
      by (cases "get_flow flow s3") (auto simp: Let_def ran_def)
    define pr where "pr = (if pf \<and> f_state f3 \<noteq> f_pendingState f3 then
                  (if f_clocked f3 then AuProcessClockedFlows s3 else Some (AuProcessUnclockedFlows s3))
                else Some s3)"
    from run f s1 s2 s3 f3 have s': "pr = Some s'"
      by (cases pr) (auto simp: Let_def ran_def pr_def split: bind_splits)
    note v1 = change_elements_views [OF s1]
    have b1: "auFlow_borrows s1" using borrows v1 by (simp add: auFlow_borrows_def)
    note v2 = trigger_elements_views [OF Suc b1 s2]
    have b3: "auFlow_borrows s3" and k3: "\<forall>r. flags s3 r \<subseteq> flags s r \<and> (flags s r = {} \<and> derived s r \<longrightarrow> derived s3 r)"
    proof -
      show "auFlow_borrows s3"
        using s3 v2 setFlowState_views(4) by (auto simp: auFlow_borrows_def split: if_splits)
      have fl: "flags s3 r = flags s2 r" and de: "r \<noteq> flow \<Longrightarrow> derived s3 r = derived s2 r" for r
        using s3 setFlowState_views(2,3) by (auto split: if_splits)
      show "\<forall>r. flags s3 r \<subseteq> flags s r \<and> (flags s r = {} \<and> derived s r \<longrightarrow> derived s3 r)"
      proof (intro allI conjI impI)
        fix r
        show "flags s3 r \<subseteq> flags s r" using fl [of r] v1 v2 by (cases "r = flow") blast+
        assume r: "flags s r = {} \<and> derived s r"
        show "derived s3 r"
        proof (cases "r = flow")
          case False
          with r v1 v2 de show ?thesis by simp
        next
          case True
          show ?thesis
          proof (cases ch)
            case True
            with s3 \<open>r = flow\<close> setFlowState_views(1) show ?thesis by auto
          next
            case False
            then have "s1 = s" using v1 by simp
            with False s3 v2 r \<open>r = flow\<close> show ?thesis by simp
          qed
        qed
      qed
    qed
    have "keeps s3 s'"
    proof -
      have "keeps s3 s3" using b3 by (simp add: keeps_def)
      moreover have "keeps s3 s'" if "AuProcessClockedFlows s3 = Some s'"
        using AuProcessClockedFlows_ctl [OF that b3] keeps_ctl by blast
      ultimately show ?thesis using s' by (auto simp: pr_def AuProcessUnclockedFlows_def split: if_splits)
    qed
    moreover have "keeps s s3" using b3 k3 by (simp add: keeps_def)
    ultimately show "keeps s s'" by (blast intro: keeps_trans)
  qed
qed

text \<open>
  A settled server: no state change is left to be acted on, every flow's pending state is what its elements
  say, and the running flow is one made by merging.
\<close>

definition settled :: "server \<Rightarrow> bool" where
  "settled s \<longleftrightarrow> auFlow_borrows s \<and> (\<forall>r f. get_flow r s = Some f \<longrightarrow>
     f_pendingState f = flow_state_of (f_els f) \<and> list_all (\<lambda>e. \<not> e_stateChange e) (f_els f))"

lemma settled_views: "settled s \<longleftrightarrow> auFlow_borrows s \<and> (\<forall>r. flags s r = {} \<and> derived s r)"
  by (auto simp: settled_def flags_def derived_def list_all_length split: option.splits)


lemma demo_settled: "settled demo_server"
  by (auto simp: settled_def auFlow_borrows_def demo_server_def get_flow_def f_els_def demo_flow_def
      flow_state_of_def element0_def server_init_def)


section \<open>Actions that trigger each other\<close>

text \<open>An element that stops itself when it is started and starts itself when it is stopped.\<close>

definition flip_flop :: "nat \<Rightarrow> u8 \<Rightarrow> action list" where
  "flip_flop flow i =
    [\<lparr>a_flow = flow, a_triggerState = AuStateStart, a_triggerPrevState = AuStateAny, a_triggerReason = AuReasonAny,
      a_action = AuElementActionChangeState, a_elementNum = i, a_newState = AuStateStop\<rparr>,
     \<lparr>a_flow = flow, a_triggerState = AuStateStop, a_triggerPrevState = AuStateAny, a_triggerReason = AuReasonAny,
      a_action = AuElementActionChangeState, a_elementNum = i, a_newState = AuStateStart\<rparr>]"

definition flip_flop_element :: "nat \<Rightarrow> u8 \<Rightarrow> u8 \<Rightarrow> server \<Rightarrow> bool" where
  "flip_flop_element flow i st s \<longleftrightarrow> (\<exists>el c. get_el (flow, unat i) s = Some el \<and> e_actions el = flip_flop flow i \<and>
     is_export_device (e_raw el) \<and> el_comp el s = Some c \<and> e_state el = st)"

lemma flip_flop_change:
  assumes "flip_flop_element flow i st s" and "st \<noteq> st'" "st = AuStateStop \<or> st = AuStateStart" "st' = AuStateStop \<or> st' = AuStateStart"
  shows "\<exists>s1 el. change_elements flow [unat i] st' s = Some (True, s1) \<and> get_el (flow, unat i) s1 = Some el \<and>
    e_stateChange el \<and> e_actions el = flip_flop flow i \<and> is_export_device (e_raw el) \<and> e_state el = st' \<and>
    (\<exists>c. el_comp el s1 = Some c)"
proof -
  obtain el c where el: "get_el (flow, unat i) s = Some el" "e_actions el = flip_flop flow i"
      "is_export_device (e_raw el)" "el_comp el s = Some c" "e_state el = st"
    using assms(1) by (auto simp: flip_flop_element_def)
  then obtain r where r: "e_component el = Some r" "get_comp r s = Some c"
    by (auto simp: el_comp_def split: bind_splits)
  obtain sr inp num dev acts where raw: "e_raw el = ExportDevice sr inp num dev acts"
    using el(3) by (auto simp: is_export_device_def split: au_element.splits)
  define el1 where "el1 = (let e = el\<lparr>e_currentSample := 0, e_countSamples := num \<noteq> AuUnlimitedSamples\<rparr>
     in if num \<noteq> AuUnlimitedSamples then e\<lparr>e_numBytes := num * c_bytesPerSample c\<rparr> else e)"
  have el1: "start_element (sv_auMinibufSamples s) el c = Some (el1, c)"
      "e_actions el1 = e_actions el" "e_raw el1 = e_raw el" "e_component el1 = e_component el" "e_state el1 = e_state el"
    by (simp_all add: start_element_def raw el1_def Let_def)
  let ?e = "if e_compiled el \<and> st' = AuStateStart \<and> e_state el = AuStateStop then el1 else el"
  let ?s = "if e_compiled el \<and> st' = AuStateStart \<and> e_state el = AuStateStop then put_comp r c s else s"
  let ?e' = "?e\<lparr>e_prevState := e_state ?e, e_state := st', e_stateChange := True\<rparr>"
  have elS: "get_el (flow, unat i) ?s = Some el" using el(1) by simp
  have "change_element (flow, unat i) st' s = Some (True, put_el (flow, unat i) ?e' ?s)"
    using el r el1 assms(2-4) by (auto simp: change_element_def)
  moreover have "get_el (flow, unat i) (put_el (flow, unat i) ?e' ?s) = Some ?e'" using get_el_put_el [OF elS] .
  moreover have "\<exists>c. el_comp ?e' (put_el (flow, unat i) ?e' ?s) = Some c"
    using r el1(4) by (auto simp: el_comp_def put_el_def put_flow_def get_comp_def put_comp_def split: option.splits)
  ultimately show ?thesis
    using el el1 by (intro exI [of _ "put_el (flow, unat i) ?e' ?s"] exI [of _ ?e']) simp
qed

lemma flip_flop_trigger:
  assumes "get_el (flow, unat i) s = Some el" "e_stateChange el" "e_actions el = flip_flop flow i"
    "is_export_device (e_raw el)" "e_state el = st" "el_comp el s = Some c" "st = AuStateStop \<or> st = AuStateStart"
  shows "\<exists>s1. flip_flop_element flow i st s1 \<and>
    (\<forall>change. trigger_elements change flow [unat i] pf reason s =
      map_option snd (change flow (ucast i) (if st = AuStateStart then AuStateStop else AuStateStart) pf reason s1))"
proof -
  let ?e = "el\<lparr>e_stateChange := False\<rparr>"
  let ?s = "put_el (flow, unat i) ?e s"
  have el1: "get_el (flow, unat i) ?s = Some ?e" by (rule get_el_put_el [OF assms(1)])
  have nic: "\<not> is_import_client (e_raw el)"
    using assms(4) by (auto simp: is_import_client_def is_export_device_def split: au_element.splits)
  have "el_comp ?e ?s = Some c"
    using assms(6) by (auto simp: el_comp_def put_el_def put_flow_def get_comp_def split: option.splits bind_splits)
  then have "flip_flop_element flow i st ?s"
    using el1 assms by (auto simp: flip_flop_element_def)
  moreover have "trigger_elements change flow [unat i] pf reason s =
      map_option snd (change flow (ucast i) (if st = AuStateStart then AuStateStop else AuStateStart) pf reason ?s)" for change
    using assms(1-3,5,7) el1 nic
    by (cases "change flow (ucast i) (if st = AuStateStart then AuStateStop else AuStateStart) pf reason ?s")
      (auto simp: trigger_element_def upd_el_def checkForTriggeredActions_def flip_flop_def CHECK_STATE_def CHECK_REASON_def)
  ultimately show ?thesis by blast
qed

text \<open>
  C32. Actions that a client may attach to an element can trigger each other without end: no depth of recursion
  is enough for the state change to complete. It is only the recursion that fails: were the nested
  call to return, the element's triggers would complete.
\<close>

theorem triggers_without_end:
  assumes "flip_flop_element flow i st s" and "i \<noteq> 255" and "st \<noteq> st'"
    and "st = AuStateStop \<or> st = AuStateStart" and "st' = AuStateStop \<or> st' = AuStateStart"
  shows "AuChangeElementState fuel flow (ucast i) st' pf reason s = None \<and>
    (\<exists>s1. change_elements flow [unat i] st' s = Some (True, s1) \<and>
      trigger_elements (\<lambda>_ _ _ _ _ s. Some (False, s)) flow [unat i] pf reason s1 \<noteq> None)"
proof -
  have i: "ucast i \<noteq> (255 :: u32)" "unat (ucast i :: u32) = unat i"
  proof -
    show u: "unat (ucast i :: u32) = unat i" using unat_u8_less [of i] by (simp add: unsigned_ucast_eq take_bit_nat_eq_self)
    have "unat i \<noteq> 255" using assms(2) by (simp add: word_unat_eq_iff)
    then show "ucast i \<noteq> (255 :: u32)" using u by auto
  qed
  have none: "AuChangeElementState fuel flow (ucast i) st' pf reason s = None"
    using assms(1,3-5)
  proof (induction fuel arbitrary: s st st')
    case (Suc fuel)
    obtain s1 el c where s1: "change_elements flow [unat i] st' s = Some (True, s1)" "get_el (flow, unat i) s1 = Some el"
      "e_stateChange el" "e_actions el = flip_flop flow i" "is_export_device (e_raw el)" "e_state el = st'" "el_comp el s1 = Some c"
      using flip_flop_change [OF Suc.prems] by blast
    obtain s2 where s2: "flip_flop_element flow i st' s2" and tr: "\<And>change. trigger_elements change flow [unat i] pf reason s1 =
      map_option snd (change flow (ucast i) (if st' = AuStateStart then AuStateStop else AuStateStart) pf reason s2)"
      using flip_flop_trigger [OF s1(2-7) Suc.prems(4)] by blast
    have "AuChangeElementState fuel flow (ucast i) (if st' = AuStateStart then AuStateStop else AuStateStart) pf reason s2 = None"
      using Suc.prems(4) by (intro Suc.IH [OF s2]) auto
    then have "trigger_elements (AuChangeElementState fuel) flow [unat i] pf reason s1 = None"
      using tr [of "AuChangeElementState fuel"] by simp
    then show ?case using s1(1) i
      by (cases "get_flow flow s") (simp_all add: Let_def del: trigger_elements.simps change_elements.simps)
  qed simp
  obtain s1 el c where s1: "change_elements flow [unat i] st' s = Some (True, s1)" "get_el (flow, unat i) s1 = Some el"
      "e_stateChange el" "e_actions el = flip_flop flow i" "is_export_device (e_raw el)" "e_state el = st'" "el_comp el s1 = Some c"
    using flip_flop_change [OF assms(1,3-5)] by blast
  have "trigger_elements (\<lambda>_ _ _ _ _ s. Some (False, s)) flow [unat i] pf reason s1 \<noteq> None"
    using flip_flop_trigger [OF s1(2-7) assms(5), of pf reason] by force
  with none s1(1) show ?thesis by blast
qed

text \<open>The flow of \<open>demo_server\<close> with such actions on its device.\<close>

definition flip_flop_server :: server where
  "flip_flop_server = put_el (0, 1) (element0\<lparr>e_raw := ExportDevice 8000 0 0 7 [], e_component := Some 2,
     e_compiled := True, e_isComponent := True, e_actions := flip_flop 0 1, e_elementNum := 1\<rparr>) demo_server"

theorem triggers_without_end_witness:
  "AuChangeElementState 1000 0 (ucast (1 :: u8)) AuStateStart True AuReasonUser flip_flop_server = None"
proof -
  have get: "get_el (0, unat (1 :: u8)) flip_flop_server = Some (element0\<lparr>e_raw := ExportDevice 8000 0 0 7 [],
     e_component := Some 2, e_compiled := True, e_isComponent := True, e_actions := flip_flop 0 1, e_elementNum := 1\<rparr>)"
    unfolding flip_flop_server_def using get_el_put_el [OF demo_lookup(5)] by simp
  have comp: "get_comp 2 flip_flop_server = get_comp 2 demo_server"
    by (simp add: flip_flop_server_def get_comp_def put_el_def put_flow_def demo_lookup(1))
  have "flip_flop_element 0 1 AuStateStop flip_flop_server"
    unfolding flip_flop_element_def get using comp demo_lookup(3)
    by (simp add: el_comp_def is_export_device_def element0_def)
  from triggers_without_end [OF this, of AuStateStart 1000 True AuReasonUser] show ?thesis by simp
qed

end
