(* ===== verification/Flow_Compile.thy ===== *)
theory Flow_Compile
  imports Element_State
begin

text \<open>
  Compiling a flow (\<^verbatim>\<open>createPort\<close>, \<^verbatim>\<open>createMonitor\<close>, \<^verbatim>\<open>createWaveForm\<close>, \<open>compileInputs\<close>, \<open>AuCompileFlow\<close> of
  \<^verbatim>\<open>server/dia/auutil.c\<close>): the graph of elements a client sends becomes, for every export, the list of imports
  that reach it, each with the constants and the tracks met on the way. Then the release of a flow.

  The source does not look for loops in the graph; \<open>fuel\<close> is the depth of nested calls of \<open>compileInputs\<close> the
  stack can hold, and \<open>None\<close> a crash, as in the other theories.
\<close>

section \<open>Statuses\<close>

abbreviation (input) AuBadValue :: u8 where "AuBadValue \<equiv> 2"
abbreviation (input) AuBadDevice :: u8 where "AuBadDevice \<equiv> 3"
abbreviation (input) AuBadBucket :: u8 where "AuBadBucket \<equiv> 4"
abbreviation (input) AuBadFlow :: u8 where "AuBadFlow \<equiv> 5"
abbreviation (input) AuBadElement :: u8 where "AuBadElement \<equiv> 6"
abbreviation (input) AuBadAlloc :: u8 where "AuBadAlloc \<equiv> 11"

text \<open>The second part of a failure is what \<^verbatim>\<open>AU_ERROR\<close> stores in \<^verbatim>\<open>client->errorValue\<close>, if the macro is used.\<close>

datatype au_status = AuSuccess | AuFailure u8 "u32 option"

section \<open>Creating components\<close>

text \<open>
  What the compiler is given: the components by their resource number (\<^verbatim>\<open>LookupIDByType\<close> for \<^verbatim>\<open>auComponentType\<close>),
  and what fresh memory happens to contain, as \<^verbatim>\<open>aualloc\<close> does not clear it.
\<close>

record compile_env =
  v_lookup :: "u32 \<Rightarrow> nat option"
  v_junk :: component
  v_bytes :: "nat \<Rightarrow> u8"
  v_input :: compiled_input
  v_output :: compiled_output

definition fresh_bytes :: "compile_env \<Rightarrow> nat \<Rightarrow> bytes" where
  "fresh_bytes env n = map (v_bytes env) [0..<n]"

definition new_comp :: "component \<Rightarrow> server \<Rightarrow> nat \<times> server" where
  "new_comp c s = (sv_next s, put_comp (sv_next s) c (s\<lparr>sv_next := Suc (sv_next s)\<rparr>))"

text \<open>The size of a \<^verbatim>\<open>ComponentRec\<close> on LP64. Sums with it have 64 bits.\<close>

abbreviation (input) sizeof_ComponentRec :: nat where "sizeof_ComponentRec \<equiv> 216"

definition createPort :: "compile_env \<Rightarrow> u8 \<Rightarrow> u8 \<Rightarrow> u32 \<Rightarrow> u32 \<Rightarrow> u32 \<Rightarrow> bool \<Rightarrow> server \<Rightarrow> (nat option \<times> server) option" where
  "createPort env fmt numTracks numSamples lowWater highWater discard s =
     do { sz \<leftarrow> sizeofFormat fmt;
          let dataSize = numSamples * sz * ucast numTracks;
          let minibufSize = auNativeBytesPerSample * sv_auMinibufSamples s * ucast numTracks;
          (if sizeof_ComponentRec + unat (PAD4 dataSize) + unat (PAD4 minibufSize * 2) < unat dataSize then Some (None, s)
           else (case aualloc s of
              (False, s) \<Rightarrow> Some (None, s)
            | (True, s) \<Rightarrow>
                let (r, s) = new_comp ((v_junk env)\<lparr>c_numSamples := numSamples, c_format := fmt, c_numTracks := numTracks,
                   c_lowWaterMark := lowWater * sz * ucast numTracks, c_highWaterMark := highWater * sz * ucast numTracks,
                   c_dataSize := dataSize, c_data := fresh_bytes env (unat dataSize), c_refCnt := 0, c_read := 0, c_write := 0,
                   c_currentSize := 0, c_discard := discard, c_minibuf := fresh_bytes env (unat (PAD4 minibufSize * 2)),
                   c_minibufSize := minibufSize, c_kind := AuComponentKindOther, c_bytesPerSample := ucast numTracks * sz,
                   c_physicalDeviceMask := 0\<rparr>) s
                in Some (Some r, s))) }"

text \<open>Behind the mini-buffer lies the area from \<^verbatim>\<open>read\<close> on, here \<open>c_data\<close> with \<open>c_read = 0\<close>.\<close>

definition createMonitor :: "compile_env \<Rightarrow> u8 \<Rightarrow> u8 \<Rightarrow> server \<Rightarrow> (nat option \<times> server) option" where
  "createMonitor env fmt numTracks s =
     (let minibufSize = auNativeBytesPerSample * sv_auMinibufSamples s * ucast numTracks;
          minibuf = unat (PAD4 minibufSize * 2);
          area = unat (PAD4 minibufSize * 4) - minibuf
      in case aualloc s of
           (False, s) \<Rightarrow> Some (None, s)
         | (True, s) \<Rightarrow>
             do { sz \<leftarrow> sizeofFormat fmt;
                  let (r, s) = new_comp ((v_junk env)\<lparr>c_format := fmt, c_numTracks := numTracks, c_refCnt := 0,
                     c_minibuf := fresh_bytes env minibuf, c_data := fresh_bytes env area, c_read := 0, c_minibufSize := minibufSize,
                     c_physicalDeviceMask := 0, c_kind := AuComponentKindOther, c_bytesPerSample := ucast numTracks * sz\<rparr>) s;
                  Some (Some r, s) })"

definition squareWave :: "u16 list" where
  "squareWave = [0x7fff, 0x8001]"

definition sineWave :: "u16 list" where
  "sineWave = [
     0x0000, 0x0324, 0x0647, 0x096a, 0x0c8b, 0x0fab, 0x12c7, 0x15e1, 0x18f8, 0x1c0b, 0x1f19, 0x2223, 0x2527, 0x2826,
     0x2b1e, 0x2e10, 0x30fb, 0x33de, 0x36b9, 0x398c, 0x3c56, 0x3f16, 0x41cd, 0x447a, 0x471c, 0x49b3, 0x4c3f, 0x4ebf,
     0x5133, 0x539a, 0x55f4, 0x5842, 0x5a81, 0x5cb3, 0x5ed6, 0x60eb, 0x62f1, 0x64e7, 0x66ce, 0x68a5, 0x6a6c, 0x6c23,
     0x6dc9, 0x6f5e, 0x70e1, 0x7254, 0x73b5, 0x7503, 0x7640, 0x776b, 0x7883, 0x7989, 0x7a7c, 0x7b5c, 0x7c29, 0x7ce2,
     0x7d89, 0x7e1c, 0x7e9c, 0x7f08, 0x7f61, 0x7fa6, 0x7fd7, 0x7ff5, 0x7fff, 0x7ff5, 0x7fd7, 0x7fa6, 0x7f61, 0x7f08,
     0x7e9c, 0x7e1c, 0x7d89, 0x7ce2, 0x7c29, 0x7b5c, 0x7a7c, 0x7989, 0x7883, 0x776b, 0x7640, 0x7503, 0x73b5, 0x7254,
     0x70e1, 0x6f5e, 0x6dc9, 0x6c23, 0x6a6c, 0x68a5, 0x66ce, 0x64e7, 0x62f1, 0x60eb, 0x5ed6, 0x5cb3, 0x5a81, 0x5842,
     0x55f4, 0x539a, 0x5133, 0x4ebf, 0x4c3f, 0x49b3, 0x471c, 0x447a, 0x41cd, 0x3f16, 0x3c56, 0x398c, 0x36b9, 0x33de,
     0x30fb, 0x2e10, 0x2b1e, 0x2826, 0x2527, 0x2223, 0x1f19, 0x1c0b, 0x18f8, 0x15e1, 0x12c7, 0x0fab, 0x0c8b, 0x096a,
     0x0647, 0x0324, 0x0000, 0xfcdc, 0xf9b9, 0xf696, 0xf375, 0xf055, 0xed39, 0xea1f, 0xe708, 0xe3f5, 0xe0e7, 0xdddd,
     0xdad9, 0xd7da, 0xd4e2, 0xd1f0, 0xcf05, 0xcc22, 0xc947, 0xc674, 0xc3aa, 0xc0ea, 0xbe33, 0xbb86, 0xb8e4, 0xb64d,
     0xb3c1, 0xb141, 0xaecd, 0xac66, 0xaa0c, 0xa7be, 0xa57f, 0xa34d, 0xa12a, 0x9f15, 0x9d0f, 0x9b19, 0x9932, 0x975b,
     0x9594, 0x93dd, 0x9237, 0x90a2, 0x8f1f, 0x8dac, 0x8c4b, 0x8afd, 0x89c0, 0x8895, 0x877d, 0x8677, 0x8584, 0x84a4,
     0x83d7, 0x831e, 0x8277, 0x81e4, 0x8164, 0x80f8, 0x809f, 0x805a, 0x8029, 0x800b, 0x8001, 0x800b, 0x8029, 0x805a,
     0x809f, 0x80f8, 0x8164, 0x81e4, 0x8277, 0x831e, 0x83d7, 0x84a4, 0x8584, 0x8677, 0x877d, 0x8895, 0x89c0, 0x8afd,
     0x8c4b, 0x8dac, 0x8f1f, 0x90a2, 0x9237, 0x93dd, 0x9594, 0x975b, 0x9932, 0x9b19, 0x9d0f, 0x9f15, 0xa12a, 0xa34d,
     0xa57f, 0xa7be, 0xaa0c, 0xac66, 0xaecd, 0xb141, 0xb3c1, 0xb64d, 0xb8e4, 0xbb86, 0xbe33, 0xc0ea, 0xc3aa, 0xc674,
     0xc947, 0xcc22, 0xcf05, 0xd1f0, 0xd4e2, 0xd7da, 0xdad9, 0xdddd, 0xe0e7, 0xe3f5, 0xe708, 0xea1f, 0xed39, 0xf055,
     0xf375, 0xf696, 0xf9b9, 0xfcdc]"

text \<open>Another form than the two leaves \<^verbatim>\<open>data\<close> and \<^verbatim>\<open>n\<close> without a value.\<close>

definition createWaveForm :: "compile_env \<Rightarrow> u8 \<Rightarrow> server \<Rightarrow> (nat option \<times> server) option" where
  "createWaveForm env form s =
     (let minibufSize = auNativeBytesPerSample * sv_auMinibufSamples s
      in case aualloc s of
           (False, s) \<Rightarrow> Some (None, s)
         | (True, s) \<Rightarrow>
             do { wave \<leftarrow> (if form = 0 then Some squareWave else if form = 1 then Some sineWave else None);
                  let (r, s) = new_comp ((v_junk env)\<lparr>c_format := auNativeFormat, c_numTracks := 1, c_refCnt := 0,
                     c_minibuf := fresh_bytes env (unat (PAD4 minibufSize)), c_minibufSize := minibufSize,
                     c_physicalDeviceMask := 0, c_kind := AuComponentKindOther, c_bytesPerSample := 2,
                     c_data := concat (map bytes16 wave), c_waveSamples := word_of_nat (length wave)\<rparr>) s;
                  Some (Some r, s) })"

section \<open>The inputs of an output\<close>

text \<open>
  What a call of \<open>compileInputs\<close> changes: the output (\<^verbatim>\<open>*output\<close>, of which only the inputs), \<^verbatim>\<open>*inputCnt\<close> and, in the
  server, components and elements of the flow.
\<close>

record compiling =
  k_output :: compiled_output
  k_inputCnt :: nat
  k_server :: server

text \<open>The component of an import that has none yet. \<open>Inl\<close> is the status returned.\<close>

definition import_component :: "compile_env \<Rightarrow> nat \<times> nat \<Rightarrow> au_element \<Rightarrow> server \<Rightarrow> ((au_status + nat) \<times> server) option" where
  "import_component env p raw s =
     (case raw of
        ImportClient rate fmt tracks discard numSamples low _ \<Rightarrow>
          do { (c, s) \<leftarrow> createPort env fmt tracks numSamples low 0 discard s;
               (case c of None \<Rightarrow> Some (Inl (AuFailure AuBadAlloc (Some 0)), s)
                | Some r \<Rightarrow> do { s \<leftarrow> upd_comp r (\<lambda>c. c\<lparr>c_sampleRate := ucast rate\<rparr>) s; Some (Inr r, s) }) }
      | ImportWaveForm rate _ form _ _ \<Rightarrow>
          do { (c, s) \<leftarrow> createWaveForm env form s;
               (case c of None \<Rightarrow> Some (Inl (AuFailure AuBadAlloc (Some 0)), s)
                | Some r \<Rightarrow> do { s \<leftarrow> upd_comp r (\<lambda>c. c\<lparr>c_sampleRate := ucast rate\<rparr>) s; Some (Inr r, s) }) }
      | ImportDevice rate _ dev _ \<Rightarrow>
          (case v_lookup env dev of None \<Rightarrow> Some (Inl (AuFailure AuBadDevice (Some dev)), s)
           | Some r \<Rightarrow> do { s \<leftarrow> upd_comp r (\<lambda>c. c\<lparr>c_refCnt := c_refCnt c + 1, c_sampleRate := ucast rate\<rparr>) s; Some (Inr r, s) })
      | ImportBucket rate _ bucket _ _ \<Rightarrow>
          (case v_lookup env bucket of None \<Rightarrow> Some (Inl (AuFailure AuBadBucket (Some bucket)), s)
           | Some r \<Rightarrow> do { s \<leftarrow> upd_el p (\<lambda>e. e\<lparr>e_sampleRate := ucast rate\<rparr>) s; Some (Inr r, s) })
      | _ \<Rightarrow> None)"

text \<open>The mini-buffer of the element: its own for a bucket, the component's otherwise.\<close>

definition import_minibuf :: "compile_env \<Rightarrow> nat \<times> nat \<Rightarrow> au_element \<Rightarrow> nat \<Rightarrow> server \<Rightarrow> (bool \<times> server) option" where
  "import_minibuf env p raw r s =
     (if is_import_bucket raw then
        do { c \<leftarrow> get_comp r s;
             (case aualloc s of
                (False, s) \<Rightarrow> do { s \<leftarrow> upd_el p (\<lambda>e. e\<lparr>e_minibuf := None\<rparr>) s; Some (False, s) }
              | (True, s) \<Rightarrow>
                  do { s \<leftarrow> upd_el p (\<lambda>e. e\<lparr>e_minibuf := Some (fresh_bytes env (unat (c_minibufSize c)))\<rparr>) s;
                       s \<leftarrow> upd_comp r (\<lambda>c. c\<lparr>c_refCnt := c_refCnt c + 1\<rparr>) s;
                       Some (True, s) }) }
      else do { s \<leftarrow> upd_el p (\<lambda>e. e\<lparr>e_minibuf := None\<rparr>) s; Some (True, s) })"

text \<open>
  The case of an import. \<open>inTracks\<close> are the first \<^verbatim>\<open>numTracks\<close> entries of the array of that name; the output tracks count
  up from \<open>firstOutTrack\<close>. An import that was compiled before, for this or another output, keeps its component.
\<close>

definition compile_import :: "compile_env \<Rightarrow> nat \<times> nat \<Rightarrow> bool \<Rightarrow> au_element \<Rightarrow> bool \<Rightarrow> s32 \<Rightarrow> s32 \<Rightarrow> u8 list \<Rightarrow> u8 \<Rightarrow>
    compiling \<Rightarrow> (au_status \<times> compiling) option" where
  "compile_import env p recompile raw compiled multiplyConstant addConstant inTracks firstOutTrack k =
     (if recompile then
        (let ins = co_inputs (k_output k); n = k_inputCnt k in
         if n < length ins then
           Some (AuSuccess, k\<lparr>k_output := (k_output k)\<lparr>co_inputs :=
               ins[n := (ins ! n)\<lparr>ci_multiplyConstant := multiplyConstant, ci_addConstant := addConstant\<rparr>]\<rparr>, k_inputCnt := Suc n\<rparr>)
         else None)
      else (case aualloc (k_server k) of
          (False, s) \<Rightarrow> Some (AuFailure AuBadAlloc (Some 0), k\<lparr>k_server := s\<rparr>)
        | (True, s) \<Rightarrow>
            let k = k\<lparr>k_inputCnt := Suc (k_inputCnt k)\<rparr>;
                tracks = zip inTracks (map (\<lambda>i. firstOutTrack + word_of_nat i) [0..<length inTracks]);
                input = (\<lambda>r. (v_input env)\<lparr>ci_component := r, ci_flowEl := p, ci_multiplyConstant := multiplyConstant,
                           ci_addConstant := addConstant, ci_tracks := tracks\<rparr>);
                add_input = (\<lambda>r s. k\<lparr>k_output := (k_output k)\<lparr>co_inputs := co_inputs (k_output k) @ [input r]\<rparr>, k_server := s\<rparr>)
            in (if compiled then
                  do { el \<leftarrow> get_el p s;
                       r \<leftarrow> e_component el;
                       s \<leftarrow> upd_el p (\<lambda>e. e\<lparr>e_refCnt := e_refCnt e + 1\<rparr>) s;
                       s \<leftarrow> upd_comp r (\<lambda>c. c\<lparr>c_refCnt := c_refCnt c + 1\<rparr>) s;
                       Some (AuSuccess, add_input r s) }
                else
                  do { (res, s) \<leftarrow> import_component env p raw s;
                       (case res of
                          Inl status \<Rightarrow> Some (status, k\<lparr>k_server := s\<rparr>)
                        | Inr r \<Rightarrow>
                            do { (ok, s) \<leftarrow> import_minibuf env p raw r s;
                                 (if \<not> ok then Some (AuFailure AuBadAlloc (Some 0), k\<lparr>k_server := s\<rparr>)
                                  else do { s \<leftarrow> upd_el p (\<lambda>e. e\<lparr>e_component := Some r\<rparr>) s;
                                            Some (AuSuccess, add_input r s) }) }) })))"

text \<open>
  The loop over the tracks of a bundle: consecutive tracks of one element are compiled together. The last group is left to
  the caller: \<open>nextInput\<close>, its tracks (at most 32 fit the array) and its first output track.
\<close>

fun bundle_loop :: "(u32 \<Rightarrow> u8 list \<Rightarrow> u8 \<Rightarrow> compiling \<Rightarrow> (au_status \<times> compiling) option) \<Rightarrow> (u8 \<times> u8) list \<Rightarrow> u32 \<Rightarrow>
    u8 list \<Rightarrow> u8 \<Rightarrow> compiling \<Rightarrow> (au_status \<times> u32 \<times> u8 list \<times> u8 \<times> compiling) option" where
  "bundle_loop rec [] nextInput inTracks firstOutTrack k = Some (AuSuccess, nextInput, inTracks, firstOutTrack, k)"
| "bundle_loop rec ((element_num, track) # tracks) nextInput inTracks firstOutTrack k =
     do { (status, inTracks, firstOutTrack, k) \<leftarrow>
            (if inTracks \<noteq> [] \<and> ucast element_num \<noteq> nextInput then
               do { (status, k) \<leftarrow> rec nextInput inTracks firstOutTrack k;
                    Some (status, [], firstOutTrack + word_of_nat (length inTracks), k) }
             else Some (AuSuccess, inTracks, firstOutTrack, k));
          (if status \<noteq> AuSuccess then Some (status, nextInput, inTracks, firstOutTrack, k)
           else if auMaxTracks \<le> length inTracks then None
           else bundle_loop rec tracks (ucast element_num) (inTracks @ [track]) firstOutTrack k) }"

fun sum_loop :: "(u32 \<Rightarrow> compiling \<Rightarrow> (au_status \<times> compiling) option) \<Rightarrow> u16 list \<Rightarrow> compiling \<Rightarrow> (au_status \<times> compiling) option" where
  "sum_loop rec [] k = Some (AuSuccess, k)"
| "sum_loop rec (i # is) k =
     do { (status, k) \<leftarrow> rec (ucast i) k; (if status = AuSuccess then sum_loop rec is k else Some (status, k)) }"

fun compileInputs :: "nat \<Rightarrow> compile_env \<Rightarrow> nat \<Rightarrow> bool \<Rightarrow> u32 \<Rightarrow> s32 \<Rightarrow> s32 \<Rightarrow> u8 list \<Rightarrow> u8 \<Rightarrow> compiling \<Rightarrow>
    (au_status \<times> compiling) option" where
  "compileInputs 0 env flow recompile inputNum multiplyConstant addConstant inTracks firstOutTrack k = None"
| "compileInputs (Suc fuel) env flow recompile inputNum multiplyConstant addConstant inTracks firstOutTrack k =
     do { let p = (flow, unat inputNum);
          el \<leftarrow> get_el p (k_server k);
          s \<leftarrow> upd_el p (\<lambda>e. e\<lparr>e_compiled := True\<rparr>) (k_server k);
          let k = k\<lparr>k_server := s\<rparr>;
          (case e_raw el of
             Bundle tracks \<Rightarrow>
               do { (status, nextInput, inTracks, firstOutTrack, k) \<leftarrow>
                      bundle_loop (\<lambda>i. compileInputs fuel env flow recompile i multiplyConstant addConstant) tracks (- 1) [] firstOutTrack k;
                    (if status \<noteq> AuSuccess then Some (status, k)
                     else compileInputs fuel env flow recompile nextInput multiplyConstant addConstant inTracks firstOutTrack k) }
           | MultiplyConstant input c \<Rightarrow>
               compileInputs fuel env flow recompile (ucast input) (AuFixedPointMultiply multiplyConstant c) addConstant
                 inTracks firstOutTrack k
           | AddConstant input c \<Rightarrow>
               compileInputs fuel env flow recompile (ucast input) multiplyConstant (addConstant + c) inTracks firstOutTrack k
           | Sum inputs \<Rightarrow>
               sum_loop (\<lambda>i. compileInputs fuel env flow recompile i multiplyConstant addConstant inTracks firstOutTrack) inputs k
           | raw \<Rightarrow>
               if readInputTable raw = None then Some (AuFailure AuBadElement (Some inputNum), k)
               else compile_import env p recompile raw (e_compiled el) multiplyConstant addConstant inTracks firstOutTrack k) }"

section \<open>The outputs of a flow\<close>

text \<open>The component of an export and its first input.\<close>

definition export_component :: "compile_env \<Rightarrow> nat \<times> nat \<Rightarrow> au_element \<Rightarrow> server \<Rightarrow> ((au_status + nat \<times> u16) \<times> server) option" where
  "export_component env p raw s =
     (case raw of
        ExportClient rate input fmt tracks discard numSamples high _ \<Rightarrow>
          do { (c, s) \<leftarrow> createPort env fmt tracks numSamples 0 high discard s;
               (case c of None \<Rightarrow> Some (Inl (AuFailure AuBadAlloc (Some 0)), s)
                | Some r \<Rightarrow> do { s \<leftarrow> upd_comp r (\<lambda>c. c\<lparr>c_sampleRate := ucast rate\<rparr>) s; Some (Inr (r, input), s) }) }
      | ExportDevice rate input _ dev _ \<Rightarrow>
          (case v_lookup env dev of None \<Rightarrow> Some (Inl (AuFailure AuBadDevice (Some dev)), s)
           | Some r \<Rightarrow> do { s \<leftarrow> upd_comp r (\<lambda>c. c\<lparr>c_refCnt := c_refCnt c + 1\<rparr>) s;
                           s \<leftarrow> upd_el p (\<lambda>e. e\<lparr>e_sampleRate := ucast rate\<rparr>) s;
                           Some (Inr (r, input), s) })
      | ExportBucket input _ bucket _ _ \<Rightarrow>
          (case v_lookup env bucket of None \<Rightarrow> Some (Inl (AuFailure AuBadBucket (Some bucket)), s)
           | Some r \<Rightarrow> Some (Inr (r, input), s))
      | ExportMonitor rate input fmt tracks \<Rightarrow>
          do { (c, s) \<leftarrow> createMonitor env fmt tracks s;
               (case c of None \<Rightarrow> Some (Inl (AuFailure AuBadAlloc (Some 0)), s)
                | Some r \<Rightarrow> do { s \<leftarrow> upd_comp r (\<lambda>c. c\<lparr>c_sampleRate := ucast rate\<rparr>) s; Some (Inr (r, input), s) }) }
      | _ \<Rightarrow> None)"

definition export_minibuf :: "compile_env \<Rightarrow> nat \<times> nat \<Rightarrow> au_element \<Rightarrow> nat \<Rightarrow> server \<Rightarrow> (bool \<times> server) option" where
  "export_minibuf env p raw r s =
     (if is_export_bucket raw then
        do { c \<leftarrow> get_comp r s;
             (case aualloc s of
                (False, s) \<Rightarrow> do { s \<leftarrow> upd_el p (\<lambda>e. e\<lparr>e_minibuf := None\<rparr>) s; Some (False, s) }
              | (True, s) \<Rightarrow>
                  do { s \<leftarrow> upd_el p (\<lambda>e. e\<lparr>e_minibuf := Some (fresh_bytes env (unat (c_minibufSize c * 2)))\<rparr>) s;
                       s \<leftarrow> upd_comp r (\<lambda>c. c\<lparr>c_refCnt := c_refCnt c + 1\<rparr>) s;
                       Some (True, s) }) }
      else do { s \<leftarrow> upd_el p (\<lambda>e. e\<lparr>e_minibuf := None\<rparr>) s; Some (True, s) })"

definition add_output :: "nat \<Rightarrow> compiled_output \<Rightarrow> server \<Rightarrow> server option" where
  "add_output flow out s = upd_flow flow (\<lambda>f. f\<lparr>f_compiled := (f_compiled f)\<lparr>cf_outputs := cf_outputs (f_compiled f) @ [out]\<rparr>\<rparr>) s"

text \<open>A new output for the export \<open>p\<close>, with no inputs yet.\<close>

definition new_output :: "compile_env \<Rightarrow> nat \<times> nat \<Rightarrow> au_element \<Rightarrow> server \<Rightarrow> (au_status \<times> server) option" where
  "new_output env p raw s =
     (case aualloc s of
        (False, s) \<Rightarrow> Some (AuFailure AuBadAlloc (Some 0), s)
      | (True, s) \<Rightarrow>
          do { (res, s) \<leftarrow> export_component env p raw s;
               (case res of
                  Inl status \<Rightarrow> Some (status, s)
                | Inr (r, input) \<Rightarrow>
                    do { (ok, s) \<leftarrow> export_minibuf env p raw r s;
                         (if \<not> ok then Some (AuFailure AuBadAlloc (Some 0), s)
                          else do { s \<leftarrow> upd_el p (\<lambda>e. e\<lparr>e_component := Some r, e_compiled := True\<rparr>) s;
                                    s \<leftarrow> add_output (fst p) ((v_output env)\<lparr>co_component := r, co_flowEl := p,
                                           co_firstInput := input, co_inputs := []\<rparr>) s;
                                    Some (AuSuccess, s) }) }) })"

text \<open>The inputs of output \<open>n\<close>, compiled or compiled again. The bound on the first input lets \<^verbatim>\<open>numElements\<close> itself pass.\<close>

definition compile_output :: "nat \<Rightarrow> compile_env \<Rightarrow> nat \<Rightarrow> bool \<Rightarrow> nat \<Rightarrow> server \<Rightarrow> (au_status \<times> server) option" where
  "compile_output fuel env flow recompile n s =
     do { f \<leftarrow> get_flow flow s;
          let outs = cf_outputs (f_compiled f);
          (if length outs \<le> n then None
           else if f_numElements f < unat (co_firstInput (outs ! n)) then Some (AuFailure AuBadElement None, s)
           else do { (status, k) \<leftarrow> compileInputs fuel env flow recompile (ucast (co_firstInput (outs ! n))) 0x10000 0 [] 0
                       \<lparr>k_output = outs ! n, k_inputCnt = 0, k_server = s\<rparr>;
                     s \<leftarrow> upd_flow flow (\<lambda>f. f\<lparr>f_compiled := (f_compiled f)\<lparr>cf_outputs := (cf_outputs (f_compiled f))[n := k_output k]\<rparr>\<rparr>)
                            (k_server k);
                     Some (status, s) }) }"

fun compile_exports :: "nat \<Rightarrow> compile_env \<Rightarrow> nat \<Rightarrow> bool \<Rightarrow> nat list \<Rightarrow> nat \<Rightarrow> server \<Rightarrow> (au_status \<times> server) option" where
  "compile_exports fuel env flow recompile [] outputCnt s = Some (AuSuccess, s)"
| "compile_exports fuel env flow recompile (i # is) outputCnt s =
     do { el \<leftarrow> get_el (flow, i) s;
          (if writeOutputTable (e_raw el) = None then compile_exports fuel env flow recompile is outputCnt s
           else do { (status, s) \<leftarrow> (if recompile then Some (AuSuccess, s) else new_output env (flow, i) (e_raw el) s);
                     (if status \<noteq> AuSuccess then Some (status, s)
                      else do { (status, s) \<leftarrow> compile_output fuel env flow recompile outputCnt s;
                                (if status \<noteq> AuSuccess then Some (status, s)
                                 else compile_exports fuel env flow recompile is (Suc outputCnt) s) }) }) }"

definition AuCompileFlow :: "nat \<Rightarrow> compile_env \<Rightarrow> nat \<Rightarrow> server \<Rightarrow> (au_status \<times> server) option" where
  "AuCompileFlow fuel env flow s =
     do { f \<leftarrow> get_flow flow s;
          compile_exports fuel env flow (cf_outputs (f_compiled f) \<noteq> []) [0..<f_numElements f] 0 s }"

section \<open>Releasing a flow\<close>

definition unlink_flow :: "nat option \<Rightarrow> nat \<Rightarrow> server \<Rightarrow> (nat option \<times> server) option" where
  "unlink_flow head r s =
     do { (head, L) \<leftarrow> RemoveFromLinkedList head r (sv_flow_links s); Some (head, s\<lparr>sv_flow_links := L\<rparr>) }"

definition AuFreeFlowElements :: "nat \<Rightarrow> nat \<Rightarrow> server \<Rightarrow> server option" where
  "AuFreeFlowElements fuel flow s =
     do { f \<leftarrow> get_flow flow s;
          s \<leftarrow> (if f_state f \<noteq> AuStateStop
                then map_option snd (AuChangeElementState fuel flow AuElementAll AuStateStop True AuReasonUser s) else Some s);
          f \<leftarrow> get_flow flow s;
          s \<leftarrow> (if f_clocked f then do { (h, s) \<leftarrow> unlink_flow (sv_auClockedFlows s) flow s; Some (s\<lparr>sv_auClockedFlows := h\<rparr>) }
                else do { (h, s) \<leftarrow> unlink_flow (sv_auUnclockedFlows s) flow s; Some (s\<lparr>sv_auUnclockedFlows := h\<rparr>) });
          s \<leftarrow> freeCompiledFlow (f_compiled f) s;
          upd_flow flow (\<lambda>f. f\<lparr>f_compiled := (f_compiled f)\<lparr>cf_outputs := []\<rparr>, f_elements := None\<rparr>) s }"

definition freeFlow :: "nat \<Rightarrow> nat \<Rightarrow> server \<Rightarrow> server option" where
  "freeFlow fuel flow s =
     do { f \<leftarrow> get_flow flow s;
          s \<leftarrow> (if f_elements f \<noteq> None then AuFreeFlowElements fuel flow s else Some s);
          s \<leftarrow> AuDequeueEvents flow s;
          Some (s\<lparr>sv_flows := (sv_flows s)(flow := None), sv_flow_links := (sv_flow_links s)(flow := None)\<rparr>) }"

end
