(* ===== verification/Compile_Routes.thy ===== *)
theory Compile_Routes
  imports Flow_Compile "HOL-Library.Multiset"
begin

text \<open>
  What \<open>AuCompileFlow\<close> computes. The reference is the relation \<open>routes\<close> on the graph of elements, free of memory and
  reference counts; the counts are compared with the multiset of references in the compiled flow (\<open>balanced\<close>), so that
  \<open>freeCompiledFlow\<close> is seen to undo a compilation, complete or not. Flows without loops always compile.
\<close>

section \<open>What a compilation leaves alone\<close>

text \<open>The flows, of their elements only what the client sent.\<close>

definition fview :: "server \<Rightarrow> nat \<Rightarrow> (flow \<times> au_element list option) option" where
  "fview s r = map_option (\<lambda>f. (f\<lparr>f_elements := None\<rparr>, map_option (map e_raw) (f_elements f))) (get_flow r s)"

lemma fview_cong: "sv_flows s' = sv_flows s \<Longrightarrow> fview s' = fview s"
  by (simp add: fview_def get_flow_def fun_eq_iff)

lemma fview_put_comp [simp]: "fview (put_comp r c s) = fview s"
  by (rule fview_cong) (simp add: put_comp_def)

lemma fview_upd_comp: "upd_comp r g s = Some s' \<Longrightarrow> fview s' = fview s"
  by (auto simp: upd_comp_def split: bind_splits)

lemma fview_aualloc: "aualloc s = (b, s') \<Longrightarrow> fview s' = fview s"
  by (rule fview_cong) (auto simp: aualloc_def split: list.splits)

lemma fview_new_comp: "new_comp c s = (r, s') \<Longrightarrow> fview s' = fview s"
  by (rule fview_cong) (auto simp: new_comp_def put_comp_def)

lemma fview_upd_el:
  assumes "upd_el p g s = Some s'" and "\<And>e. e_raw (g e) = e_raw e"
  shows "fview s' = fview s"
proof -
  obtain el where el: "get_el p s = Some el" "s' = put_el p (g el) s"
    using assms(1) by (auto simp: upd_el_def split: bind_splits)
  obtain f es where f: "get_flow (fst p) s = Some f" "f_elements f = Some es" "snd p < length es" "es ! snd p = el"
    using el(1) by (auto simp: get_el_def split: bind_splits if_splits)
  have "map e_raw (es[snd p := g el]) = map e_raw es"
    using f(3,4) assms(2) by (simp add: map_update list_update_same_conv)
  with f el(2) show ?thesis
    by (simp add: fview_def fun_eq_iff put_el_def put_flow_def get_flow_def)
qed

definition raw_at :: "server \<Rightarrow> nat \<times> nat \<Rightarrow> au_element option" where
  "raw_at s p = map_option e_raw (get_el p s)"

lemma raw_at_fview: "fview s' = fview s \<Longrightarrow> raw_at s' p = raw_at s p"
proof -
  have "raw_at t p = (case fview t (fst p) of Some (_, Some rs) \<Rightarrow> if snd p < length rs then Some (rs ! snd p) else None | _ \<Rightarrow> None)" for t
    by (auto simp: raw_at_def fview_def get_el_def split: option.splits)
  then show "fview s' = fview s \<Longrightarrow> raw_at s' p = raw_at s p" by simp
qed

lemma raw_at_Some [simp]: "raw_at s p = None \<longleftrightarrow> get_el p s = None"
  by (simp add: raw_at_def)

lemma fview_flow:
  "fview s' = fview s \<Longrightarrow> get_flow r s = Some f \<Longrightarrow>
   \<exists>f'. get_flow r s' = Some f' \<and> f_compiled f' = f_compiled f \<and> f_numElements f' = f_numElements f"
proof -
  assume a: "fview s' = fview s" "get_flow r s = Some f"
  then obtain f' where f': "get_flow r s' = Some f'"
      "f'\<lparr>f_elements := None\<rparr> = f\<lparr>f_elements := None\<rparr>" "map_option (map e_raw) (f_elements f') = map_option (map e_raw) (f_elements f)"
    by (auto simp: fview_def fun_eq_iff dest!: spec [of _ r])
  have "f_compiled f' = f_compiled f" using arg_cong [OF f'(2), of f_compiled] by simp
  moreover have "f_numElements f' = f_numElements f"
    using f'(3) by (cases "f_elements f"; cases "f_elements f'") (auto simp: f_numElements_def dest: map_eq_imp_length_eq)
  ultimately show ?thesis using f'(1) by blast
qed

section \<open>Reference counts\<close>

text \<open>
  \<open>balanced s0 R s\<close>: compared with \<open>s0\<close>, the components of \<open>s\<close> carry exactly the references in the multiset \<open>R\<close>. The
  old components have been counted up once for each; the new ones, all of which are referenced, count one less.
\<close>

fun counted :: "component option \<Rightarrow> nat \<Rightarrow> component option \<Rightarrow> bool" where
  "counted (Some c0) n (Some c) \<longleftrightarrow> c_refCnt c = c_refCnt c0 + word_of_nat n"
| "counted (Some c0) n None \<longleftrightarrow> False"
| "counted None n (Some c) \<longleftrightarrow> 0 < n \<and> c_kind c = AuComponentKindOther \<and> c_refCnt c + 1 = word_of_nat n"
| "counted None n None \<longleftrightarrow> n = 0"

definition balanced :: "server \<Rightarrow> nat multiset \<Rightarrow> server \<Rightarrow> bool" where
  "balanced s0 R s \<longleftrightarrow> (\<forall>r \<ge> sv_next s. get_comp r s = None \<and> get_comp r s0 = None) \<and>
     (\<forall>r. counted (get_comp r s0) (count R r) (get_comp r s))"

lemma balanced_cong:
  "balanced s0 R s \<Longrightarrow> sv_comps s' = sv_comps s \<Longrightarrow> sv_next s' = sv_next s \<Longrightarrow> balanced s0 R s'"
  by (simp add: balanced_def get_comp_def)

lemma balanced_update:
  assumes "balanced s0 R s" and "sv_comps s' = (sv_comps s)(r \<mapsto> c')" "sv_next s \<le> sv_next s'" "r < sv_next s'"
    and "\<And>r'. r' \<noteq> r \<Longrightarrow> count R' r' = count R r'" "counted (get_comp r s0) (count R' r) (Some c')"
  shows "balanced s0 R' s'"
  unfolding balanced_def
proof (intro conjI allI impI)
  fix r' assume "sv_next s' \<le> r'"
  with assms(1-4) show "get_comp r' s' = None" "get_comp r' s0 = None" by (auto simp: balanced_def get_comp_def)
next
  fix r'
  show "counted (get_comp r' s0) (count R' r') (get_comp r' s')"
    using assms by (cases "r' = r") (auto simp: balanced_def get_comp_def)
qed

lemma balanced_lookup:
  assumes "balanced s0 R s" "get_comp r s = Some c"
  shows "r < sv_next s" "counted (get_comp r s0) (count R r) (Some c)"
proof -
  show "r < sv_next s" using assms by (metis balanced_def not_le option.distinct(1))
  have "counted (get_comp r s0) (count R r) (get_comp r s)" using assms(1) by (simp add: balanced_def)
  with assms(2) show "counted (get_comp r s0) (count R r) (Some c)" by simp
qed

lemma counted_same: "counted o0 n (Some c) \<Longrightarrow> c_refCnt c' = c_refCnt c \<Longrightarrow> c_kind c' = c_kind c \<Longrightarrow> counted o0 n (Some c')"
  by (cases o0) auto

lemma counted_Suc:
  "counted o0 n (Some c) \<Longrightarrow> c_refCnt c' = c_refCnt c + 1 \<Longrightarrow> c_kind c' = c_kind c \<Longrightarrow> counted o0 (Suc n) (Some c')"
  by (cases o0) (auto simp: add_ac)

lemma balanced_put:
  assumes "balanced s0 R s" "get_comp r s = Some c" "c_refCnt c' = c_refCnt c" "c_kind c' = c_kind c"
  shows "balanced s0 R (put_comp r c' s)"
  by (rule balanced_update [OF assms(1), of _ r c'])
    (use balanced_lookup [OF assms(1,2)] counted_same assms(3,4) in \<open>auto simp: put_comp_def\<close>)

lemma balanced_ref:
  assumes "balanced s0 R s" "get_comp r s = Some c" "c_refCnt c' = c_refCnt c + 1" "c_kind c' = c_kind c"
  shows "balanced s0 (add_mset r R) (put_comp r c' s)"
  by (rule balanced_update [OF assms(1), of _ r c'])
    (use balanced_lookup [OF assms(1,2)] counted_Suc assms(3,4) in \<open>auto simp: put_comp_def\<close>)

lemma balanced_new:
  assumes "balanced s0 R s" "new_comp c s = (r, s')" "c_refCnt c = 0" "c_kind c = AuComponentKindOther"
  shows "balanced s0 (add_mset r R) s'"
proof -
  have r: "r = sv_next s" "s' = put_comp r c (s\<lparr>sv_next := Suc (sv_next s)\<rparr>)" using assms(2) by (auto simp: new_comp_def)
  have n: "get_comp r s = None" "get_comp r s0 = None" using assms(1) r(1) by (auto simp: balanced_def)
  moreover have "counted (get_comp r s0) (count R r) (get_comp r s)" using assms(1) by (simp add: balanced_def)
  ultimately have "count R r = 0" by simp
  with n(2) show ?thesis
    by (intro balanced_update [OF assms(1), of _ r c]) (use r assms(3,4) in \<open>auto simp: put_comp_def\<close>)
qed

section \<open>What the inputs of an output should be\<close>

text \<open>
  A route of a flow: an import, the constants its samples meet on the way, and the pairs of an input and an output track
  (none if all tracks go through). \<open>runs f e us ts\<close> splits the tracks of a bundle into the longest runs of one element, here
  with \<open>us\<close> collected for \<open>e\<close>, each with its first output track.
\<close>

type_synonym route = "nat \<times> s32 \<times> s32 \<times> (u8 \<times> u8) list"

fun runs :: "u8 \<Rightarrow> u8 \<Rightarrow> u8 list \<Rightarrow> (u8 \<times> u8) list \<Rightarrow> (u8 \<times> u8 \<times> u8 list) list" where
  "runs f e us [] = [(f, e, us)]"
| "runs f e us ((e', t) # ts) = (if e' = e then runs f e (us @ [t]) ts
     else (f, e, us) # runs (f + word_of_nat (length us)) e' [t] ts)"

definition track_map :: "u8 list \<Rightarrow> u8 \<Rightarrow> (u8 \<times> u8) list" where
  "track_map us f = zip us (map (\<lambda>i. f + word_of_nat i) [0..<length us])"

text \<open>
  The routes from element \<open>i\<close> of the graph \<open>G\<close>, reached with the constants \<open>m\<close> and \<open>a\<close> and the tracks \<open>us\<close> to be put into
  the output from track \<open>f\<close> on: those of its inputs, in order. (An empty bundle makes the code compile element \<^verbatim>\<open>-1\<close>.)
\<close>

inductive routes :: "(nat \<Rightarrow> au_element option) \<Rightarrow> nat \<Rightarrow> s32 \<Rightarrow> s32 \<Rightarrow> u8 list \<Rightarrow> u8 \<Rightarrow> route list \<Rightarrow> bool" for G where
  import_route: "G i = Some raw \<Longrightarrow> readInputTable raw \<noteq> None \<Longrightarrow> routes G i m a us f [(i, m, a, track_map us f)]"
| multiply_route: "G i = Some (MultiplyConstant j c) \<Longrightarrow> routes G (unat j) (AuFixedPointMultiply m c) a us f rs \<Longrightarrow> routes G i m a us f rs"
| add_route: "G i = Some (AddConstant j c) \<Longrightarrow> routes G (unat j) m (a + c) us f rs \<Longrightarrow> routes G i m a us f rs"
| sum_route: "G i = Some (Sum js) \<Longrightarrow> list_all2 (\<lambda>j rs. routes G (unat j) m a us f rs) js rss \<Longrightarrow> routes G i m a us f (concat rss)"
| bundle_route: "G i = Some (Bundle ((e, t) # ts)) \<Longrightarrow>
    list_all2 (\<lambda>x rs. routes G (unat (fst (snd x))) m a (snd (snd x)) (fst x) rs) (runs f e [t] ts) rss \<Longrightarrow> routes G i m a us f (concat rss)"
| empty_route: "G i = Some (Bundle []) \<Longrightarrow> routes G (2 ^ 32 - 1) m a [] f rs \<Longrightarrow> routes G i m a us f rs"

definition input_route :: "compiled_input \<Rightarrow> route" where
  "input_route i = (snd (ci_flowEl i), ci_multiplyConstant i, ci_addConstant i, ci_tracks i)"

section \<open>A compilation finds the routes and counts the references\<close>

text \<open>\<open>extends flow k k' rs\<close>: from \<open>k\<close> to \<open>k'\<close> the output has gained the routes \<open>rs\<close>, and the reference counts have followed.\<close>

definition output_refs :: "compiled_output \<Rightarrow> nat multiset" where
  "output_refs out = mset (map ci_component (co_inputs out))"

definition extends :: "nat \<Rightarrow> compiling \<Rightarrow> compiling \<Rightarrow> route list \<Rightarrow> bool" where
  "extends flow k k' rs \<longleftrightarrow> fview (k_server k') = fview (k_server k) \<and>
     (\<exists>new. k_output k' = (k_output k)\<lparr>co_inputs := co_inputs (k_output k) @ new\<rparr> \<and> map input_route new = rs \<and>
        (\<forall>i \<in> set new. fst (ci_flowEl i) = flow \<and> raw_at (k_server k) (ci_flowEl i) \<noteq> None)) \<and>
     (\<forall>s0 R. balanced s0 (output_refs (k_output k) + R) (k_server k) \<longrightarrow> balanced s0 (output_refs (k_output k') + R) (k_server k'))"

lemma extends_refl: "extends flow k k []"
  by (simp add: extends_def)

lemma extends_trans:
  assumes "extends flow k k' rs" "extends flow k' k'' rs'"
  shows "extends flow k k'' (rs @ rs')"
proof -
  obtain new where 1: "fview (k_server k') = fview (k_server k)" "k_output k' = (k_output k)\<lparr>co_inputs := co_inputs (k_output k) @ new\<rparr>"
      "map input_route new = rs" "\<forall>i \<in> set new. fst (ci_flowEl i) = flow \<and> raw_at (k_server k) (ci_flowEl i) \<noteq> None"
    using assms(1) unfolding extends_def by blast
  obtain new' where 2: "fview (k_server k'') = fview (k_server k')" "k_output k'' = (k_output k')\<lparr>co_inputs := co_inputs (k_output k') @ new'\<rparr>"
      "map input_route new' = rs'" "\<forall>i \<in> set new'. fst (ci_flowEl i) = flow \<and> raw_at (k_server k') (ci_flowEl i) \<noteq> None"
    using assms(2) unfolding extends_def by blast
  have "k_output k'' = (k_output k)\<lparr>co_inputs := co_inputs (k_output k) @ (new @ new')\<rparr>" using 1(2) 2(2) by simp
  moreover have "map input_route (new @ new') = rs @ rs'" using 1(3) 2(3) by simp
  moreover have "\<forall>i \<in> set (new @ new'). fst (ci_flowEl i) = flow \<and> raw_at (k_server k) (ci_flowEl i) \<noteq> None"
    using 1(4) 2(4) raw_at_fview [OF 1(1)] by auto
  moreover have "fview (k_server k'') = fview (k_server k)" using 1(1) 2(1) by simp
  moreover have "\<forall>s0 R. balanced s0 (output_refs (k_output k) + R) (k_server k) \<longrightarrow> balanced s0 (output_refs (k_output k'') + R) (k_server k'')"
    using assms unfolding extends_def by blast
  ultimately show ?thesis unfolding extends_def by blast
qed

text \<open>Steps that only touch the server, and the step that adds an input.\<close>

definition keeps_counts :: "server \<Rightarrow> server \<Rightarrow> nat multiset \<Rightarrow> bool" where
  "keeps_counts s s' A \<longleftrightarrow> fview s' = fview s \<and> (\<forall>s0 R. balanced s0 R s \<longrightarrow> balanced s0 (A + R) s')"

lemma keeps_counts_refl: "keeps_counts s s {#}"
  by (simp add: keeps_counts_def)

lemma keeps_counts_trans: "keeps_counts s s' A \<Longrightarrow> keeps_counts s' s'' B \<Longrightarrow> C = B + A \<Longrightarrow> keeps_counts s s'' C"
  by (simp add: keeps_counts_def union_assoc)

lemma keeps_counts_cong:
  "fview s' = fview s \<Longrightarrow> sv_comps s' = sv_comps s \<Longrightarrow> sv_next s' = sv_next s \<Longrightarrow> keeps_counts s s' {#}"
  by (auto simp: keeps_counts_def intro: balanced_cong)

lemma keeps_counts_upd_el:
  "upd_el p g s = Some s' \<Longrightarrow> (\<And>e. e_raw (g e) = e_raw e) \<Longrightarrow> keeps_counts s s' {#}"
  by (rule keeps_counts_cong [OF fview_upd_el [of p g]])
    (auto simp: upd_el_def put_el_def put_flow_def split: bind_splits option.splits)

lemma keeps_counts_aualloc: "aualloc s = (b, s') \<Longrightarrow> keeps_counts s s' {#}"
  by (rule keeps_counts_cong) (auto intro: fview_aualloc simp: aualloc_def split: list.splits)

lemma keeps_counts_upd_comp:
  "upd_comp r g s = Some s' \<Longrightarrow> (\<And>c. c_refCnt (g c) = c_refCnt c) \<Longrightarrow> (\<And>c. c_kind (g c) = c_kind c) \<Longrightarrow> keeps_counts s s' {#}"
  by (auto simp: keeps_counts_def upd_comp_def intro: balanced_put split: bind_splits)

lemma keeps_counts_ref:
  "upd_comp r g s = Some s' \<Longrightarrow> (\<And>c. c_refCnt (g c) = c_refCnt c + 1) \<Longrightarrow> (\<And>c. c_kind (g c) = c_kind c) \<Longrightarrow> keeps_counts s s' {#r#}"
  by (auto simp: keeps_counts_def upd_comp_def intro: balanced_ref split: bind_splits)

lemma keeps_counts_new:
  "new_comp c s = (r, s') \<Longrightarrow> c_refCnt c = 0 \<Longrightarrow> c_kind c = AuComponentKindOther \<Longrightarrow> keeps_counts s s' {#r#}"
  by (auto simp: keeps_counts_def fview_new_comp intro: balanced_new)

lemma createPort_keeps:
  "createPort env fmt n ns lo hi d s = Some (res, s') \<Longrightarrow>
   keeps_counts s s' (case res of None \<Rightarrow> {#} | Some r \<Rightarrow> {#r#})"
  unfolding createPort_def Let_def
  by (auto simp: keeps_counts_refl split: bind_splits if_splits prod.splits bool.splits
      intro: keeps_counts_aualloc keeps_counts_trans [OF keeps_counts_aualloc keeps_counts_new])

lemma createMonitor_keeps:
  "createMonitor env fmt n s = Some (res, s') \<Longrightarrow> keeps_counts s s' (case res of None \<Rightarrow> {#} | Some r \<Rightarrow> {#r#})"
  unfolding createMonitor_def Let_def
  by (auto split: bind_splits prod.splits bool.splits
      intro: keeps_counts_aualloc keeps_counts_trans [OF keeps_counts_aualloc keeps_counts_new])

lemma createWaveForm_keeps:
  "createWaveForm env form s = Some (res, s') \<Longrightarrow> keeps_counts s s' (case res of None \<Rightarrow> {#} | Some r \<Rightarrow> {#r#})"
  unfolding createWaveForm_def Let_def
  by (auto split: bind_splits prod.splits bool.splits
      intro: keeps_counts_aualloc keeps_counts_trans [OF keeps_counts_aualloc keeps_counts_new])

lemma set_rate_keeps:
  "keeps_counts s s1 A \<Longrightarrow> upd_comp r (\<lambda>c. c\<lparr>c_sampleRate := x\<rparr>) s1 = Some s' \<Longrightarrow> keeps_counts s s' A"
  by (rule keeps_counts_trans [OF _ keeps_counts_upd_comp [where g = "\<lambda>c. c\<lparr>c_sampleRate := x\<rparr>"]]) auto

lemma import_component_keeps:
  assumes "import_component env p raw s = Some (res, s')"
  shows "case res of Inl st \<Rightarrow> st \<noteq> AuSuccess \<and> keeps_counts s s' {#}
    | Inr r \<Rightarrow> keeps_counts s s' (if is_import_bucket raw then {#} else {#r#})"
proof (cases raw)
  case (ImportClient x1 x2 x3 x4 x5 x6 x7)
  with assms show ?thesis
    by (auto simp: import_component_def is_import_bucket_def split: bind_splits option.splits prod.splits
        dest!: createPort_keeps intro: set_rate_keeps)
next
  case (ImportWaveForm x1 x2 x3 x4 x5)
  with assms show ?thesis
    by (auto simp: import_component_def is_import_bucket_def split: bind_splits option.splits prod.splits
        dest!: createWaveForm_keeps intro: set_rate_keeps)
next
  case (ImportDevice x1 x2 x3 x4)
  have "keeps_counts s t {#r#}"
    if "upd_comp r (\<lambda>c. c\<lparr>c_refCnt := c_refCnt c + 1, c_sampleRate := ucast x1\<rparr>) s = Some t" for r t
    by (rule keeps_counts_ref [OF that]) simp_all
  with ImportDevice assms show ?thesis
    by (auto simp: import_component_def is_import_bucket_def keeps_counts_refl split: bind_splits option.splits)
next
  case (ImportBucket x1 x2 x3 x4 x5)
  have "keeps_counts s t {#}" if "upd_el p (\<lambda>e. e\<lparr>e_sampleRate := ucast x1\<rparr>) s = Some t" for t
    by (rule keeps_counts_upd_el [OF that]) simp
  with ImportBucket assms show ?thesis
    by (auto simp: import_component_def is_import_bucket_def keeps_counts_refl split: bind_splits option.splits)
qed (use assms in \<open>auto simp: import_component_def\<close>)

lemma import_minibuf_keeps:
  "import_minibuf env p raw r s = Some (ok, s') \<Longrightarrow> 
   keeps_counts s s' (if ok \<and> is_import_bucket raw then {#r#} else {#}) \<and> (ok \<or> is_import_bucket raw)"
  unfolding import_minibuf_def
  by (auto split: bind_splits if_splits prod.splits bool.splits
      intro: keeps_counts_upd_el keeps_counts_trans [OF keeps_counts_aualloc keeps_counts_upd_el]
        keeps_counts_trans [OF keeps_counts_trans [OF keeps_counts_aualloc keeps_counts_upd_el refl] keeps_counts_ref])

lemma extends_server: "keeps_counts (k_server k) s {#} \<Longrightarrow> extends flow k (k\<lparr>k_server := s\<rparr>) []"
  by (auto simp: extends_def keeps_counts_def)

lemma extends_cnt [simp]:
  "extends flow k (k'\<lparr>k_inputCnt := n\<rparr>) rs = extends flow k k' rs" "extends flow (k\<lparr>k_inputCnt := n\<rparr>) k' rs = extends flow k k' rs"
  by (simp_all add: extends_def)

lemma extends_input:
  assumes "keeps_counts (k_server k) s {#ci_component i#}" "fst (ci_flowEl i) = flow" "raw_at (k_server k) (ci_flowEl i) \<noteq> None"
  shows "extends flow k (k\<lparr>k_output := (k_output k)\<lparr>co_inputs := co_inputs (k_output k) @ [i]\<rparr>, k_server := s\<rparr>) [input_route i]"
  using assms unfolding extends_def keeps_counts_def output_refs_def
  by (intro conjI) (auto intro: exI [of _ "[i]"])

lemma compile_import_extends:
  assumes "compile_import env (flow, i) False raw cmp m a us f k = Some (st, k')" and "raw_at (k_server k) (flow, i) \<noteq> None"
  shows "\<exists>rs. extends flow k k' rs \<and> (st = AuSuccess \<longrightarrow> rs = [(i, m, a, track_map us f)])"
proof -
  let ?k = "k\<lparr>k_inputCnt := Suc (k_inputCnt k)\<rparr>"
  let ?in = "\<lambda>r. (v_input env)\<lparr>ci_component := r, ci_flowEl := (flow, i), ci_multiplyConstant := m, ci_addConstant := a,
      ci_tracks := track_map us f\<rparr>"
  let ?add = "\<lambda>r s. ?k\<lparr>k_output := (k_output k)\<lparr>co_inputs := co_inputs (k_output k) @ [?in r]\<rparr>, k_server := s\<rparr>"
  have added: "extends flow k (?add r s) [(i, m, a, track_map us f)]"
    if "keeps_counts (k_server k) s {#r#}" for r s
  proof -
    have "extends flow ?k (?k\<lparr>k_output := (k_output ?k)\<lparr>co_inputs := co_inputs (k_output ?k) @ [?in r]\<rparr>, k_server := s\<rparr>) [input_route (?in r)]"
      using that assms(2) by (intro extends_input) simp_all
    then show ?thesis by (auto simp: input_route_def)
  qed
  have fail: "\<exists>rs. extends flow k (?k\<lparr>k_server := s\<rparr>) rs \<and> (st = AuSuccess \<longrightarrow> rs = [(i, m, a, track_map us f)])"
    if "keeps_counts (k_server k) s {#}" "st \<noteq> AuSuccess" for s
    using extends_server [of ?k s flow] that by auto
  obtain b s1 where al: "aualloc (k_server k) = (b, s1)" by (cases "aualloc (k_server k)")
  note k1 = keeps_counts_aualloc [OF al]
  show ?thesis
  proof (cases b)
    case False
    with assms(1) al extends_server [OF k1, of flow] show ?thesis by (auto simp: compile_import_def)
  next
    case True
    show ?thesis
    proof (cases cmp)
      case True
      with \<open>b\<close> assms(1) al show ?thesis
        by (auto simp: compile_import_def Let_def track_map_def [symmetric] split: bind_splits
            intro!: added keeps_counts_trans [OF keeps_counts_trans [OF k1 keeps_counts_upd_el refl] keeps_counts_ref])
    next
      case False
      with \<open>b\<close> assms(1) al obtain res s2 where ic: "import_component env (flow, i) raw s1 = Some (res, s2)"
        by (auto simp: compile_import_def Let_def split: bind_splits)
      show ?thesis
      proof (cases res)
        case (Inl st')
        with import_component_keeps [OF ic] have "st' \<noteq> AuSuccess" "keeps_counts s1 s2 {#}" by auto
        with Inl ic False \<open>b\<close> assms(1) al k1 fail show ?thesis
          by (auto simp: compile_import_def Let_def intro: keeps_counts_trans)
      next
        case (Inr r)
        with import_component_keeps [OF ic] have c: "keeps_counts s1 s2 (if is_import_bucket raw then {#} else {#r#})" by simp
        with Inr ic False \<open>b\<close> assms(1) al obtain ok s3 where im: "import_minibuf env (flow, i) raw r s2 = Some (ok, s3)"
          by (auto simp: compile_import_def Let_def split: bind_splits)
        have k3: "keeps_counts (k_server k) s3 (if ok then {#r#} else {#})"
          using keeps_counts_trans [OF keeps_counts_trans [OF k1 c refl]] import_minibuf_keeps [OF im] by (auto split: if_splits)
        show ?thesis
        proof (cases ok)
          case True
          with Inr ic im False \<open>b\<close> assms(1) al k3 show ?thesis
            by (auto simp: compile_import_def Let_def track_map_def [symmetric] split: bind_splits
                intro!: added keeps_counts_trans [OF k3 keeps_counts_upd_el])
        next
          case notok: False
          with Inr ic im False \<open>b\<close> assms(1) al k3 fail show ?thesis
            by (auto simp: compile_import_def Let_def)
        qed
      qed
    qed
  qed
qed

lemma unat_ucast_u16 [simp]: "unat (ucast (j :: u16) :: u32) = unat j"
  using unat_u16_less [of j] by (simp add: unsigned_ucast_eq take_bit_nat_eq_self)

lemma unat_ucast_u8 [simp]: "unat (ucast (j :: u8) :: u32) = unat j"
  using unat_u8_less [of j] by (simp add: unsigned_ucast_eq take_bit_nat_eq_self)

lemma ucast_u8_inject: "(ucast (i :: u8) = (ucast j :: u32)) = (i = j)"
  by (metis unat_ucast_u8 word_unat_eq_iff)

lemma extends_graph:
  "extends flow k k' rs \<Longrightarrow> (\<lambda>i. raw_at (k_server k') (flow, i)) = (\<lambda>i. raw_at (k_server k) (flow, i))"
  by (auto simp: extends_def fun_eq_iff intro: raw_at_fview)

lemma sum_loop_extends:
  assumes rec: "\<And>j k st k'. rec j k = Some (st, k') \<Longrightarrow> \<exists>rs. extends flow k k' rs \<and>
      (st = AuSuccess \<longrightarrow> routes (\<lambda>i. raw_at (k_server k) (flow, i)) (unat j) m a us f rs)"
  shows "sum_loop rec js k = Some (st, k') \<Longrightarrow> \<exists>rss. extends flow k k' (concat rss) \<and>
    (st = AuSuccess \<longrightarrow> list_all2 (\<lambda>j rs. routes (\<lambda>i. raw_at (k_server k) (flow, i)) (unat j) m a us f rs) js rss)"
proof (induction js arbitrary: k)
  case Nil
  then show ?case by (auto intro!: exI [of _ "[]"] extends_refl)
next
  case (Cons j js)
  obtain st1 k1 where 1: "rec (ucast j) k = Some (st1, k1)" using Cons.prems by (auto split: bind_splits)
  obtain rs where rs: "extends flow k k1 rs" "st1 = AuSuccess \<longrightarrow> routes (\<lambda>i. raw_at (k_server k) (flow, i)) (unat j) m a us f rs"
    using rec [OF 1] by auto
  show ?case
  proof (cases "st1 = AuSuccess")
    case True
    with 1 Cons.prems have "sum_loop rec js k1 = Some (st, k')" by simp
    from Cons.IH [OF this] obtain rss where rss: "extends flow k1 k' (concat rss)"
        "st = AuSuccess \<longrightarrow> list_all2 (\<lambda>j rs. routes (\<lambda>i. raw_at (k_server k) (flow, i)) (unat j) m a us f rs) js rss"
      unfolding extends_graph [OF rs(1)] by blast
    with rs True extends_trans [OF rs(1) rss(1)] show ?thesis by (intro exI [of _ "rs # rss"]) auto
  next
    case False
    with 1 Cons.prems rs(1) show ?thesis by (intro exI [of _ "[rs]"]) auto
  qed
qed

text \<open>The loop leaves the last run to its caller.\<close>

lemma bundle_loop_extends:
  assumes rec: "\<And>j us f k st k'. rec j us f k = Some (st, k') \<Longrightarrow> \<exists>rs. extends flow k k' rs \<and>
      (st = AuSuccess \<longrightarrow> routes (\<lambda>i. raw_at (k_server k) (flow, i)) (unat j) m a us f rs)"
  shows "bundle_loop rec ts (ucast e) us f k = Some (st, e', us', f', k') \<Longrightarrow> us \<noteq> [] \<Longrightarrow>
    \<exists>rss. extends flow k k' (concat rss) \<and> (st = AuSuccess \<longrightarrow> (\<exists>e'' xs. e' = ucast e'' \<and> runs f e us ts = xs @ [(f', e'', us')] \<and>
      list_all2 (\<lambda>x rs. routes (\<lambda>i. raw_at (k_server k) (flow, i)) (unat (fst (snd x))) m a (snd (snd x)) (fst x) rs) xs rss))"
proof (induction ts arbitrary: e us f k)
  case Nil
  then show ?case by (auto intro!: exI [of _ "[]"] extends_refl)
next
  case (Cons et ts)
  obtain e1 t where et: "et = (e1, t)" by (cases et)
  have eq: "(ucast e1 = (ucast e :: u32)) = (e1 = e)"
    by (rule ucast_u8_inject)
  show ?case
  proof (cases "e1 = e")
    case True
    with Cons.prems et have "bundle_loop rec ts (ucast e) (us @ [t]) f k = Some (st, e', us', f', k')"
      by (auto split: if_splits)
    from Cons.IH [OF this] et True show ?thesis by auto
  next
    case False
    obtain st1 k1 where 1: "rec (ucast e) us f k = Some (st1, k1)"
      using Cons.prems et False eq by (auto split: bind_splits)
    obtain rs where rs: "extends flow k k1 rs"
        "st1 = AuSuccess \<longrightarrow> routes (\<lambda>i. raw_at (k_server k) (flow, i)) (unat e) m a us f rs"
      using rec [OF 1] by auto
    show ?thesis
    proof (cases "st1 = AuSuccess")
      case True
      with 1 Cons.prems et False eq
      have "bundle_loop rec ts (ucast e1) [t] (f + word_of_nat (length us)) k1 = Some (st, e', us', f', k')"
        by (auto split: bind_splits if_splits)
      from Cons.IH [OF this] obtain rss where rss: "extends flow k1 k' (concat rss)" "st = AuSuccess \<longrightarrow> (\<exists>e'' xs. e' = ucast e'' \<and>
          runs (f + word_of_nat (length us)) e1 [t] ts = xs @ [(f', e'', us')] \<and>
          list_all2 (\<lambda>x rs. routes (\<lambda>i. raw_at (k_server k) (flow, i)) (unat (fst (snd x))) m a (snd (snd x)) (fst x) rs) xs rss)"
        unfolding extends_graph [OF rs(1)] by auto
      have "extends flow k k' (concat (rs # rss))" using extends_trans [OF rs(1) rss(1)] by simp
      moreover have "st = AuSuccess \<longrightarrow> (\<exists>e'' xs. e' = ucast e'' \<and> runs f e us (et # ts) = xs @ [(f', e'', us')] \<and>
          list_all2 (\<lambda>x rs. routes (\<lambda>i. raw_at (k_server k) (flow, i)) (unat (fst (snd x))) m a (snd (snd x)) (fst x) rs) xs (rs # rss))"
      proof
        assume "st = AuSuccess"
        with rss(2) obtain e'' xs where x: "e' = ucast e''" "runs (f + word_of_nat (length us)) e1 [t] ts = xs @ [(f', e'', us')]"
          "list_all2 (\<lambda>x rs. routes (\<lambda>i. raw_at (k_server k) (flow, i)) (unat (fst (snd x))) m a (snd (snd x)) (fst x) rs) xs rss" by blast
        with et False rs(2) True show "\<exists>e'' xs. e' = ucast e'' \<and> runs f e us (et # ts) = xs @ [(f', e'', us')] \<and>
          list_all2 (\<lambda>x rs. routes (\<lambda>i. raw_at (k_server k) (flow, i)) (unat (fst (snd x))) m a (snd (snd x)) (fst x) rs) xs (rs # rss)"
          by (intro exI [of _ e''] exI [of _ "(f, e, us) # xs"]) auto
      qed
      ultimately show ?thesis by blast
    next
      case st1: False
      with 1 Cons.prems et False eq rs(1) show ?thesis by (intro exI [of _ "[rs]"]) auto
    qed
  qed
qed

lemma unat_minus_1: "unat (- 1 :: u32) = 2 ^ 32 - 1"
  by (simp add: unsigned_minus_1_eq_mask mask_eq_exp_minus_1)

lemma compileInputs_extends:
  "compileInputs fuel env flow False i m a us f k = Some (st, k') \<Longrightarrow>
   \<exists>rs. extends flow k k' rs \<and> (st = AuSuccess \<longrightarrow> routes (\<lambda>i. raw_at (k_server k) (flow, i)) (unat i) m a us f rs)"
proof (induction fuel arbitrary: i m a us f k st k')
  case 0
  then show ?case by simp
next
  case (Suc fuel)
  define G where "G = (\<lambda>i. raw_at (k_server k) (flow, i))"
  obtain el s where el: "get_el (flow, unat i) (k_server k) = Some el"
      and s: "upd_el (flow, unat i) (\<lambda>e. e\<lparr>e_compiled := True\<rparr>) (k_server k) = Some s"
    using Suc.prems by (auto simp: Let_def upd_el_def split: bind_splits)
  let ?k = "k\<lparr>k_server := s\<rparr>"
  have raw: "G (unat i) = Some (e_raw el)" using el by (simp add: G_def raw_at_def)
  have k0: "extends flow k ?k []" by (rule extends_server [OF keeps_counts_upd_el [OF s]]) simp
  then have fv: "fview s = fview (k_server k)" by (simp add: extends_def)
  have G: "(\<lambda>i. raw_at s (flow, i)) = G" unfolding G_def using raw_at_fview [OF fv] by simp
  have step: "extends flow k k'' rs" if "extends flow ?k k'' rs" for k'' rs
    using extends_trans [OF k0 that] by simp
  have rec: "\<exists>rs. extends flow k1 k2 rs \<and> (st' = AuSuccess \<longrightarrow> routes (\<lambda>i. raw_at (k_server k1) (flow, i)) (unat j) m' a' us' f' rs)"
    if "compileInputs fuel env flow False j m' a' us' f' k1 = Some (st', k2)"
    for j m' a' us' f' k1 st' k2
    using that by (rule Suc.IH)
  have leaf: "\<exists>rs. extends flow k k' rs \<and> (st = AuSuccess \<longrightarrow> routes G (unat i) m a us f rs)" if "readInputTable (e_raw el) \<noteq> None"
  proof -
    have "compile_import env (flow, unat i) False (e_raw el) (e_compiled el) m a us f ?k = Some (st, k')"
      using Suc.prems el s that by (cases "e_raw el") (auto simp: readInputTable_def)
    from compile_import_extends [OF this] obtain rs where "extends flow ?k k' rs" "st = AuSuccess \<longrightarrow> rs = [(unat i, m, a, track_map us f)]"
      using raw fun_cong [OF G, of "unat i"] by auto
    with that raw step routes.import_route [of G "unat i"] show ?thesis by blast
  qed
  have "\<exists>rs. extends flow k k' rs \<and> (st = AuSuccess \<longrightarrow> routes G (unat i) m a us f rs)"
  proof (cases "e_raw el")
    case (MultiplyConstant j c)
    then have "compileInputs fuel env flow False (ucast j) (AuFixedPointMultiply m c) a us f ?k = Some (st, k')"
      using Suc.prems el s by simp
    from rec [OF this] obtain rs where "extends flow ?k k' rs" "st = AuSuccess \<longrightarrow> routes G (unat j) (AuFixedPointMultiply m c) a us f rs"
      by (auto simp: G)
    with routes.multiply_route [of G "unat i", OF raw [unfolded MultiplyConstant]] step show ?thesis by blast
  next
    case (AddConstant j c)
    then have "compileInputs fuel env flow False (ucast j) m (a + c) us f ?k = Some (st, k')"
      using Suc.prems el s by simp
    from rec [OF this] obtain rs where "extends flow ?k k' rs" "st = AuSuccess \<longrightarrow> routes G (unat j) m (a + c) us f rs"
      by (auto simp: G)
    with routes.add_route [of G "unat i", OF raw [unfolded AddConstant]] step show ?thesis by blast
  next
    case (Sum js)
    then have "sum_loop (\<lambda>j. compileInputs fuel env flow False j m a us f) js ?k = Some (st, k')"
      using Suc.prems el s by simp
    then have "\<exists>rss. extends flow ?k k' (concat rss) \<and>
        (st = AuSuccess \<longrightarrow> list_all2 (\<lambda>j rs. routes (\<lambda>i. raw_at (k_server ?k) (flow, i)) (unat j) m a us f rs) js rss)"
      by (rule sum_loop_extends [rotated]) (rule rec)
    then obtain rss where "extends flow ?k k' (concat rss)"
        "st = AuSuccess \<longrightarrow> list_all2 (\<lambda>j rs. routes G (unat j) m a us f rs) js rss"
      by (auto simp: G)
    with routes.sum_route [of G "unat i", OF raw [unfolded Sum]] step show ?thesis by blast
  next
    case (Bundle ts)
    let ?rec = "\<lambda>i. compileInputs fuel env flow False i m a"
    obtain st1 j us1 f1 k1 where l: "bundle_loop ?rec ts (- 1) [] f ?k = Some (st1, j, us1, f1, k1)"
        and e: "(if st1 \<noteq> AuSuccess then Some (st1, k1) else ?rec j us1 f1 k1) = Some (st, k')"
      using Suc.prems el s Bundle by (auto split: bind_splits)
    show ?thesis
    proof (cases ts)
      case Nil
      with l e have "?rec (- 1) [] f ?k = Some (st, k')" by auto
      from rec [OF this] obtain rs where "extends flow ?k k' rs" "st = AuSuccess \<longrightarrow> routes G (2 ^ 32 - 1) m a [] f rs"
        by (auto simp: G unat_minus_1)
      with routes.empty_route [of G "unat i", OF raw [unfolded Bundle Nil]] step show ?thesis by blast
    next
      case (Cons et ts')
      obtain e1 t where et: "et = (e1, t)" by (cases et)
      with l Cons have "bundle_loop ?rec ts' (ucast e1) [t] f ?k = Some (st1, j, us1, f1, k1)" by simp
      then have "\<exists>rss. extends flow ?k k1 (concat rss) \<and> (st1 = AuSuccess \<longrightarrow>
          (\<exists>e'' xs. j = ucast e'' \<and> runs f e1 [t] ts' = xs @ [(f1, e'', us1)] \<and>
          list_all2 (\<lambda>x rs. routes (\<lambda>i. raw_at (k_server ?k) (flow, i)) (unat (fst (snd x))) m a (snd (snd x)) (fst x) rs) xs rss))"
        by (rule bundle_loop_extends [rotated]) (simp, rule rec)
      then obtain rss where rss: "extends flow ?k k1 (concat rss)"
          "st1 = AuSuccess \<longrightarrow> (\<exists>e'' xs. j = ucast e'' \<and> runs f e1 [t] ts' = xs @ [(f1, e'', us1)] \<and>
            list_all2 (\<lambda>x rs. routes G (unat (fst (snd x))) m a (snd (snd x)) (fst x) rs) xs rss)"
        by (auto simp: G)
      show ?thesis
      proof (cases "st1 = AuSuccess")
        case True
        with rss(2) obtain e'' xs where x: "j = ucast e''" "runs f e1 [t] ts' = xs @ [(f1, e'', us1)]"
            "list_all2 (\<lambda>x rs. routes G (unat (fst (snd x))) m a (snd (snd x)) (fst x) rs) xs rss" by blast
        from True e have "?rec j us1 f1 k1 = Some (st, k')" by simp
        from rec [OF this] obtain rs where rs: "extends flow k1 k' rs"
            "st = AuSuccess \<longrightarrow> routes G (unat e'') m a us1 f1 rs"
          using extends_graph [OF rss(1)] x(1) by (auto simp: G)
        have "list_all2 (\<lambda>x rs. routes G (unat (fst (snd x))) m a (snd (snd x)) (fst x) rs) (runs f e1 [t] ts') (rss @ [rs])"
          if "st = AuSuccess" using x rs(2) that by (auto intro: list_all2_appendI)
        with routes.bundle_route [of G "unat i", OF raw [unfolded Bundle Cons et]]
        have "routes G (unat i) m a us f (concat (rss @ [rs]))" if "st = AuSuccess" using that by blast
        then show ?thesis using step [OF extends_trans [OF rss(1) rs(1)]] by (intro exI [of _ "concat (rss @ [rs])"]) simp
      next
        case False
        with e rss(1) step show ?thesis by auto
      qed
    qed
  qed (use Suc.prems el s k0 leaf in \<open>fastforce simp: readInputTable_def\<close>)+
  then show ?case by (simp add: G_def)
qed

section \<open>The compiled flow\<close>

definition flow_refs :: "compiled_output list \<Rightarrow> nat multiset" where
  "flow_refs outs = (\<Sum>out \<leftarrow> outs. add_mset (co_component out) (output_refs out))"

lemma flow_refs_simps [simp]:
  "flow_refs [] = {#}" "flow_refs (outs @ outs') = flow_refs outs + flow_refs outs'"
  "flow_refs (out # outs) = add_mset (co_component out) (output_refs out) + flow_refs outs"
  by (simp_all add: flow_refs_def)

text \<open>The elements the outputs and inputs of a compiled flow name exist; an output has the routes of its first input.\<close>

definition placed :: "nat \<Rightarrow> (nat \<Rightarrow> au_element option) \<Rightarrow> compiled_output \<Rightarrow> bool" where
  "placed flow G out \<longleftrightarrow> fst (co_flowEl out) = flow \<and> G (snd (co_flowEl out)) \<noteq> None \<and>
     (\<forall>i \<in> set (co_inputs out). fst (ci_flowEl i) = flow \<and> G (snd (ci_flowEl i)) \<noteq> None)"

definition export_input :: "au_element \<Rightarrow> u16" where
  "export_input raw = (case raw of ExportClient _ input _ _ _ _ _ _ \<Rightarrow> input | ExportDevice _ input _ _ _ \<Rightarrow> input
     | ExportBucket input _ _ _ _ \<Rightarrow> input | ExportMonitor _ input _ _ \<Rightarrow> input | _ \<Rightarrow> 0)"

definition routed :: "(nat \<Rightarrow> au_element option) \<Rightarrow> compiled_output \<Rightarrow> bool" where
  "routed G out \<longleftrightarrow> (\<exists>raw. G (snd (co_flowEl out)) = Some raw \<and>
     routes G (unat (export_input raw)) 0x10000 0 [] 0 (map input_route (co_inputs out)))"

definition graph :: "nat \<Rightarrow> server \<Rightarrow> nat \<Rightarrow> au_element option" where
  "graph flow s i = raw_at s (flow, i)"

lemma upd_flow_compiled:
  assumes "upd_flow flow (\<lambda>f. f\<lparr>f_compiled := g (f_compiled f)\<rparr>) s = Some s'"
  shows "\<exists>f. get_flow flow s = Some f \<and> get_flow flow s' = Some (f\<lparr>f_compiled := g (f_compiled f)\<rparr>)"
    and "graph flow s' = graph flow s" and "sv_comps s' = sv_comps s" and "sv_next s' = sv_next s"
proof -
  obtain f where f: "get_flow flow s = Some f" "s' = put_flow flow (f\<lparr>f_compiled := g (f_compiled f)\<rparr>) s"
    using assms by (auto simp: upd_flow_def split: bind_splits)
  then show "\<exists>f. get_flow flow s = Some f \<and> get_flow flow s' = Some (f\<lparr>f_compiled := g (f_compiled f)\<rparr>)"
    "sv_comps s' = sv_comps s" "sv_next s' = sv_next s"
    by (auto simp: get_flow_def put_flow_def)
  show "graph flow s' = graph flow s"
    using f by (simp add: graph_def fun_eq_iff raw_at_def get_el_def get_flow_def put_flow_def)
qed

lemma graph_fview: "fview s' = fview s \<Longrightarrow> graph flow s' = graph flow s"
  by (simp add: graph_def fun_eq_iff raw_at_fview)

lemma export_component_keeps:
  assumes "export_component env p raw s = Some (res, s')"
  shows "case res of Inl st \<Rightarrow> st \<noteq> AuSuccess \<and> keeps_counts s s' {#}
    | Inr (r, input) \<Rightarrow> input = export_input raw \<and> keeps_counts s s' (if is_export_bucket raw then {#} else {#r#})"
proof (cases raw)
  case (ExportClient x1 x2 x3 x4 x5 x6 x7 x8)
  with assms show ?thesis
    by (auto simp: export_component_def is_export_bucket_def export_input_def split: bind_splits option.splits prod.splits
        dest!: createPort_keeps intro: set_rate_keeps)
next
  case (ExportMonitor x1 x2 x3 x4)
  with assms show ?thesis
    by (auto simp: export_component_def is_export_bucket_def export_input_def split: bind_splits option.splits prod.splits
        dest!: createMonitor_keeps intro: set_rate_keeps)
next
  case (ExportDevice x1 x2 x3 x4 x5)
  have "keeps_counts s t {#r#}"
    if "upd_comp r (\<lambda>c. c\<lparr>c_refCnt := c_refCnt c + 1\<rparr>) s = Some s1" "upd_el p (\<lambda>e. e\<lparr>e_sampleRate := ucast x1\<rparr>) s1 = Some t" for r s1 t
    by (rule keeps_counts_trans [OF keeps_counts_ref [OF that(1)] keeps_counts_upd_el [OF that(2)]]) simp_all
  with ExportDevice assms show ?thesis
    by (auto simp: export_component_def is_export_bucket_def export_input_def keeps_counts_refl split: bind_splits option.splits)
next
  case (ExportBucket x1 x2 x3 x4 x5)
  with assms show ?thesis
    by (auto simp: export_component_def is_export_bucket_def export_input_def keeps_counts_refl split: bind_splits option.splits)
qed (use assms in \<open>auto simp: export_component_def\<close>)

lemma export_minibuf_keeps:
  "export_minibuf env p raw r s = Some (ok, s') \<Longrightarrow>
   keeps_counts s s' (if ok \<and> is_export_bucket raw then {#r#} else {#}) \<and> (ok \<or> is_export_bucket raw)"
  unfolding export_minibuf_def
  by (auto split: bind_splits if_splits prod.splits bool.splits
      intro: keeps_counts_upd_el keeps_counts_trans [OF keeps_counts_aualloc keeps_counts_upd_el]
        keeps_counts_trans [OF keeps_counts_trans [OF keeps_counts_aualloc keeps_counts_upd_el refl] keeps_counts_ref])

lemma new_output_keeps:
  assumes "new_output env (flow, i) raw s = Some (st, s')"
  shows "if st = AuSuccess then \<exists>r s1 out. keeps_counts s s1 {#r#} \<and> add_output flow out s1 = Some s' \<and>
       co_component out = r \<and> co_flowEl out = (flow, i) \<and> co_firstInput out = export_input raw \<and> co_inputs out = []
     else keeps_counts s s' {#}"
proof -
  obtain b s1 where al: "aualloc s = (b, s1)" by (cases "aualloc s")
  note k1 = keeps_counts_aualloc [OF al]
  show ?thesis
  proof (cases b)
    case False
    with assms al k1 show ?thesis by (auto simp: new_output_def)
  next
    case True
    with assms al obtain res s2 where ec: "export_component env (flow, i) raw s1 = Some (res, s2)"
      by (auto simp: new_output_def split: bind_splits)
    note k2 = export_component_keeps [OF ec]
    show ?thesis
    proof (cases res)
      case (Inl st')
      with ec True assms al k2 k1 show ?thesis
        by (auto simp: new_output_def intro: keeps_counts_trans)
    next
      case (Inr ri)
      obtain r input where ri: "ri = (r, input)" by (cases ri)
      with Inr ec True assms al obtain ok s3 where em: "export_minibuf env (flow, i) raw r s2 = Some (ok, s3)"
        by (auto simp: new_output_def split: bind_splits)
      have c: "keeps_counts s1 s2 (if is_export_bucket raw then {#} else {#r#})" using k2 Inr ri by simp
      have k3: "keeps_counts s s3 (if ok then {#r#} else {#})"
        using keeps_counts_trans [OF keeps_counts_trans [OF k1 c refl]] export_minibuf_keeps [OF em] by (auto split: if_splits)
      show ?thesis
      proof (cases ok)
        case False
        with em ri Inr ec True assms al k3 show ?thesis by (auto simp: new_output_def)
      next
        case ok: True
        let ?out = "(v_output env)\<lparr>co_component := r, co_flowEl := (flow, i), co_firstInput := input, co_inputs := []\<rparr>"
        obtain s4 where s4: "upd_el (flow, i) (\<lambda>e. e\<lparr>e_component := Some r, e_compiled := True\<rparr>) s3 = Some s4"
            "add_output flow ?out s4 = Some s'" "st = AuSuccess"
          using ok em ri Inr ec True assms al by (auto simp: new_output_def split: bind_splits)
        have "keeps_counts s s4 {#r#}"
          using k3 ok by (intro keeps_counts_trans [OF _ keeps_counts_upd_el [OF s4(1)]]) auto
        moreover have "input = export_input raw" using k2 Inr ri by simp
        ultimately show ?thesis using s4(2,3)
          by (auto intro!: exI [of _ s4] exI [of _ ?out])
      qed
    qed
  qed
qed

definition compiled_inv :: "server \<Rightarrow> nat \<Rightarrow> (nat \<Rightarrow> au_element option) \<Rightarrow> bool \<Rightarrow> compiled_output list \<Rightarrow> server \<Rightarrow> bool" where
  "compiled_inv s0 flow G b outs s \<longleftrightarrow> graph flow s = G \<and> balanced s0 (flow_refs outs) s \<and> (\<forall>out \<in> set outs. placed flow G out) \<and>
     (\<exists>f. get_flow flow s = Some f \<and> cf_outputs (f_compiled f) = outs \<and> cf_freeComponents (f_compiled f) = b)"

lemma compile_output_inv:
  assumes "compiled_inv s0 flow G b (outs @ [out]) s" and "co_inputs out = []"
    and "compile_output fuel env flow False (length outs) s = Some (st, s')"
  shows "\<exists>out'. compiled_inv s0 flow G b (outs @ [out']) s' \<and> co_flowEl out' = co_flowEl out \<and>
    (st = AuSuccess \<longrightarrow> routes G (unat (co_firstInput out)) 0x10000 0 [] 0 (map input_route (co_inputs out')))"
proof -
  obtain f where f: "get_flow flow s = Some f" "cf_outputs (f_compiled f) = outs @ [out]" "cf_freeComponents (f_compiled f) = b"
    using assms(1) by (auto simp: compiled_inv_def)
  show ?thesis
  proof (cases "f_numElements f < unat (co_firstInput out)")
    case True
    with assms f show ?thesis by (auto simp: compile_output_def Let_def)
  next
    case False
    let ?k = "\<lparr>k_output = out, k_inputCnt = 0, k_server = s\<rparr>"
    obtain k where k: "compileInputs fuel env flow False (ucast (co_firstInput out)) 0x10000 0 [] 0 ?k = Some (st, k)"
      and s': "upd_flow flow (\<lambda>f. f\<lparr>f_compiled := (f_compiled f)\<lparr>cf_outputs := (cf_outputs (f_compiled f))[length outs := k_output k]\<rparr>\<rparr>)
          (k_server k) = Some s'"
      using assms(3) f False by (auto simp: compile_output_def Let_def split: bind_splits)
    obtain rs where rs: "extends flow ?k k rs"
        "st = AuSuccess \<longrightarrow> routes (\<lambda>i. raw_at s (flow, i)) (unat (co_firstInput out)) 0x10000 0 [] 0 rs"
      using compileInputs_extends [OF k] by auto
    then obtain new where new: "fview (k_server k) = fview s" "k_output k = out\<lparr>co_inputs := new\<rparr>" "map input_route new = rs"
        "\<forall>i \<in> set new. fst (ci_flowEl i) = flow \<and> raw_at s (ci_flowEl i) \<noteq> None"
      using assms(2) by (auto simp: extends_def)
    have bal: "balanced s0 (output_refs out + R) s \<Longrightarrow> balanced s0 (output_refs (k_output k) + R) (k_server k)" for R
      using rs(1) by (simp add: extends_def)
    obtain f1 where f1: "get_flow flow (k_server k) = Some f1" "f_compiled f1 = f_compiled f"
      using fview_flow [OF new(1) f(1)] by auto
    obtain f2 where f2: "get_flow flow s' = Some f2"
        "f_compiled f2 = (f_compiled f)\<lparr>cf_outputs := (cf_outputs (f_compiled f))[length outs := k_output k]\<rparr>"
      using upd_flow_compiled(1) [OF s'] f1 by auto
    have gs: "graph flow s = G" using assms(1) by (simp add: compiled_inv_def)
    have G: "graph flow s' = G" "(\<lambda>i. raw_at s (flow, i)) = G"
      using upd_flow_compiled(2) [OF s'] graph_fview [OF new(1), of flow] gs by (simp, auto simp add: graph_def fun_eq_iff)
    have "balanced s0 (flow_refs (outs @ [out\<lparr>co_inputs := new\<rparr>])) (k_server k)"
      using assms(1) bal [of "add_mset (co_component out) (flow_refs outs)"]
      by (simp add: compiled_inv_def new(2) union_commute)
    then have "balanced s0 (flow_refs (outs @ [out\<lparr>co_inputs := new\<rparr>])) s'"
      by (rule balanced_cong [OF _ upd_flow_compiled(3,4) [OF s']])
    moreover have "placed flow G (out\<lparr>co_inputs := new\<rparr>)"
    proof -
      have "placed flow G out" using assms(1) by (simp add: compiled_inv_def)
      moreover have "G (snd p) = raw_at s p" if "fst p = flow" for p
        using fun_cong [OF G(2), of "snd p"] that by (cases p) simp
      ultimately show ?thesis using new(4) by (auto simp: placed_def simp del: raw_at_Some not_None_eq)
    qed
    ultimately have "compiled_inv s0 flow G b (outs @ [out\<lparr>co_inputs := new\<rparr>]) s'"
      using assms(1) f f2 G(1) new(2) by (auto simp: compiled_inv_def)
    with rs(2) new(3) G(2) show ?thesis by (intro exI [of _ "out\<lparr>co_inputs := new\<rparr>"]) simp
  qed
qed

lemma new_output_inv:
  assumes "compiled_inv s0 flow G b outs s" and "new_output env (flow, i) raw s = Some (st, s')" and "G i = Some raw"
  shows "if st = AuSuccess then \<exists>out. compiled_inv s0 flow G b (outs @ [out]) s' \<and> co_flowEl out = (flow, i) \<and>
       co_firstInput out = export_input raw \<and> co_inputs out = []
     else compiled_inv s0 flow G b outs s'"
proof -
  obtain f where f: "get_flow flow s = Some f" "cf_outputs (f_compiled f) = outs" "cf_freeComponents (f_compiled f) = b"
    using assms(1) by (auto simp: compiled_inv_def)
  have keep: "graph flow s1 = G \<and> (\<exists>f1. get_flow flow s1 = Some f1 \<and> f_compiled f1 = f_compiled f) \<and>
      balanced s0 (A + flow_refs outs) s1" if "keeps_counts s s1 A" for s1 A
  proof -
    have fv: "fview s1 = fview s" and b: "balanced s0 (A + flow_refs outs) s1"
      using that assms(1) by (auto simp: keeps_counts_def compiled_inv_def)
    have "graph flow s1 = G" using graph_fview [OF fv, of flow] assms(1) by (simp add: compiled_inv_def)
    with fview_flow [OF fv f(1)] b show ?thesis by blast
  qed
  show ?thesis
  proof (cases "st = AuSuccess")
    case False
    then have "keeps_counts s s' {#}" using new_output_keeps [OF assms(2)] by simp
    from keep [OF this] f assms(1) False show ?thesis by (auto simp: compiled_inv_def)
  next
    case True
    then obtain r s1 out where s1: "keeps_counts s s1 {#r#}" "add_output flow out s1 = Some s'" and out: "co_component out = r"
        "co_flowEl out = (flow, i)" "co_firstInput out = export_input raw" "co_inputs out = []"
      using new_output_keeps [OF assms(2)] by auto
    note u = upd_flow_compiled [OF s1(2) [unfolded add_output_def]]
    from keep [OF s1(1)] have "balanced s0 (flow_refs (outs @ [out])) s1" by (simp add: out output_refs_def)
    then have "balanced s0 (flow_refs (outs @ [out])) s'" by (rule balanced_cong [OF _ u(3,4)])
    moreover have "\<exists>f'. get_flow flow s' = Some f' \<and> cf_outputs (f_compiled f') = outs @ [out] \<and> cf_freeComponents (f_compiled f') = b"
      using u(1) keep [OF s1(1)] f by auto
    moreover have "graph flow s' = G" using u(2) keep [OF s1(1)] by simp
    moreover have "placed flow G out" using out assms(3) by (simp add: placed_def)
    ultimately have "compiled_inv s0 flow G b (outs @ [out]) s'" using assms(1) by (auto simp: compiled_inv_def)
    with True out show ?thesis by auto
  qed
qed

definition is_export :: "(nat \<Rightarrow> au_element option) \<Rightarrow> nat \<Rightarrow> bool" where
  "is_export G i \<longleftrightarrow> (case G i of None \<Rightarrow> False | Some raw \<Rightarrow> writeOutputTable raw \<noteq> None)"

lemma compile_exports_inv:
  "compile_exports fuel env flow False is (length outs) s = Some (st, s') \<Longrightarrow> compiled_inv s0 flow G b outs s \<Longrightarrow>
   \<exists>new. compiled_inv s0 flow G b (outs @ new) s' \<and>
     (st = AuSuccess \<longrightarrow> map co_flowEl new = map (\<lambda>i. (flow, i)) (filter (is_export G) is) \<and> (\<forall>out \<in> set new. routed G out))"
proof (induction "is" arbitrary: outs s)
  case Nil
  then show ?case by (intro exI [of _ "[]"]) auto
next
  case (Cons i "is")
  obtain el where el: "get_el (flow, i) s = Some el" using Cons.prems(1) by (auto split: bind_splits)
  have G: "G i = Some (e_raw el)" using Cons.prems(2) el by (auto simp: compiled_inv_def graph_def raw_at_def)
  show ?case
  proof (cases "writeOutputTable (e_raw el) = None")
    case True
    with Cons el G show ?thesis by (auto simp: is_export_def)
  next
    case False
    then have ex: "is_export G i" using G by (simp add: is_export_def)
    obtain st1 s1 where 1: "new_output env (flow, i) (e_raw el) s = Some (st1, s1)"
      using Cons.prems(1) el False by (auto split: bind_splits)
    note n = new_output_inv [OF Cons.prems(2) 1 G]
    show ?thesis
    proof (cases "st1 = AuSuccess")
      case st1: False
      with n 1 Cons.prems(1) el False show ?thesis by (intro exI [of _ "[]"]) auto
    next
      case True
      with n obtain out where out: "compiled_inv s0 flow G b (outs @ [out]) s1" "co_flowEl out = (flow, i)"
          "co_firstInput out = export_input (e_raw el)" "co_inputs out = []" by auto
      obtain st2 s2 where 2: "compile_output fuel env flow False (length outs) s1 = Some (st2, s2)"
        using Cons.prems(1) el False 1 True by (auto split: bind_splits)
      from compile_output_inv [OF out(1,4) 2] obtain out' where out': "compiled_inv s0 flow G b (outs @ [out']) s2"
          "co_flowEl out' = (flow, i)" "st2 = AuSuccess \<longrightarrow> routes G (unat (export_input (e_raw el))) 0x10000 0 [] 0 (map input_route (co_inputs out'))"
        using out(2,3) by auto
      show ?thesis
      proof (cases "st2 = AuSuccess")
        case st2: False
        with out'(1) Cons.prems(1) el False 1 True 2 show ?thesis by (intro exI [of _ "[out']"]) auto
      next
        case st2: True
        then have "compile_exports fuel env flow False is (length (outs @ [out'])) s2 = Some (st, s')"
          using Cons.prems(1) el False 1 True 2 by simp
        from Cons.IH [OF this out'(1)] obtain new where new: "compiled_inv s0 flow G b ((outs @ [out']) @ new) s'"
          "st = AuSuccess \<longrightarrow> map co_flowEl new = map (\<lambda>i. (flow, i)) (filter (is_export G) is) \<and> (\<forall>out \<in> set new. routed G out)" by blast
        moreover have "routed G out'" using out'(2,3) st2 G by (auto simp: routed_def)
        ultimately show ?thesis using ex out'(2) by (intro exI [of _ "out' # new"]) auto
      qed
    qed
  qed
qed

section \<open>Releasing a compiled flow\<close>

text \<open>The reference counts have 32 bits.\<close>

definition counts_fit :: "server \<Rightarrow> nat multiset \<Rightarrow> bool" where
  "counts_fit s0 R \<longleftrightarrow> (\<forall>r. (case get_comp r s0 of None \<Rightarrow> 0 | Some c \<Rightarrow> unat (c_refCnt c)) + count R r < 2 ^ 32)"

lemma counts_fit_mono: "counts_fit s0 R \<Longrightarrow> R' \<subseteq># R \<Longrightarrow> counts_fit s0 R'"
  unfolding counts_fit_def by (meson add_le_mono1 le_less_trans mset_subset_eq_count nat_add_left_cancel_le)

lemma AuFreeComponent_balanced:
  assumes "balanced s0 (add_mset r R) s" "counts_fit s0 (add_mset r R)"
  shows "\<exists>s'. AuFreeComponent r s = Some s' \<and> balanced s0 R s' \<and> fview s' = fview s"
proof -
  have ct: "counted (get_comp r s0) (Suc (count R r)) (get_comp r s)"
    using assms(1) unfolding balanced_def by (metis count_add_mset)
  have fit: "(case get_comp r s0 of None \<Rightarrow> 0 | Some c \<Rightarrow> unat (c_refCnt c)) + Suc (count R r) < 2 ^ 32"
    using assms(2) unfolding counts_fit_def by (metis count_add_mset)
  obtain c where c: "get_comp r s = Some c" using ct by (cases "get_comp r s0"; cases "get_comp r s") auto
  have other: "counted (get_comp r' s0) (count R r') (get_comp r' s)" if "r' \<noteq> r" for r'
    using assms(1) that unfolding balanced_def by (metis count_add_mset)
  have next': "\<forall>r \<ge> sv_next s. get_comp r s = None \<and> get_comp r s0 = None" using assms(1) by (simp add: balanced_def)
  show ?thesis
  proof (cases "c_refCnt c = 0")
    case False
    let ?s = "put_comp r (c\<lparr>c_refCnt := c_refCnt c - 1\<rparr>) s"
    have "counted (get_comp r s0) (count R r) (Some (c\<lparr>c_refCnt := c_refCnt c - 1\<rparr>))"
    proof (cases "get_comp r s0")
      case None
      then have "c_refCnt c = word_of_nat (count R r)" "c_kind c = AuComponentKindOther" using ct c by auto
      with None False show ?thesis by (cases "count R r") auto
    next
      case (Some c0)
      then show ?thesis using ct c by (simp add: algebra_simps)
    qed
    then have "balanced s0 R ?s"
      using next' other c unfolding balanced_def by (auto simp: put_comp_def get_comp_def)
    moreover have "AuFreeComponent r s = Some ?s" using c False by (simp add: AuFreeComponent_def)
    ultimately show ?thesis by simp
  next
    case True
    have "get_comp r s0 = None"
    proof (rule ccontr)
      assume "get_comp r s0 \<noteq> None"
      then obtain c0 where c0: "get_comp r s0 = Some c0" by auto
      with ct c True have "c_refCnt c0 + word_of_nat (Suc (count R r)) = 0" by simp
      then have "unat (c_refCnt c0 + word_of_nat (Suc (count R r))) = 0" by simp
      moreover have "unat (word_of_nat (Suc (count R r)) :: u32) = Suc (count R r)"
        using fit by (simp add: unsigned_of_nat take_bit_nat_eq_self del: of_nat_Suc)
      ultimately show False using fit c0 by (simp add: unat_word_ariths del: of_nat_Suc)
    qed
    moreover from this ct c True have "(1 :: u32) = word_of_nat (Suc (count R r))" "c_kind c = AuComponentKindOther" by auto
    moreover from this(1) have "count R r = 0"
    proof -
      have "unat (word_of_nat (Suc (count R r)) :: u32) = Suc (count R r)"
        using fit by (simp add: unsigned_of_nat take_bit_nat_eq_self del: of_nat_Suc)
      with \<open>(1 :: u32) = word_of_nat (Suc (count R r))\<close> show ?thesis by (metis Suc_inject One_nat_def unsigned_1)
    qed
    ultimately have b: "balanced s0 R (s\<lparr>sv_comps := (sv_comps s)(r := None), sv_comp_links := (sv_comp_links s)(r := None)\<rparr>)"
        (is "balanced s0 R ?s") and kind: "c_kind c = AuComponentKindOther"
      using next' other unfolding balanced_def by (auto simp: get_comp_def)
    have "AuFreeComponent r s = Some ?s" using c True kind by (simp add: AuFreeComponent_def put_comp_def)
    with b show ?thesis by (auto intro: fview_cong)
  qed
qed

lemma free_inputs_balanced:
  "balanced s0 (mset (map ci_component ins) + R) s \<Longrightarrow> counts_fit s0 (mset (map ci_component ins) + R) \<Longrightarrow>
   (\<forall>i \<in> set ins. raw_at s (ci_flowEl i) \<noteq> None) \<Longrightarrow>
   \<exists>s'. free_inputs ins s = Some s' \<and> balanced s0 R s' \<and> fview s' = fview s"
proof (induction ins arbitrary: s)
  case (Cons i ins)
  obtain el where el: "get_el (ci_flowEl i) s = Some el" using Cons.prems(3) by auto
  let ?g = "\<lambda>el. el\<lparr>e_refCnt := e_refCnt el - 1,
      e_minibuf := if e_refCnt el = 0 \<and> is_import_bucket (e_raw el) then Some [] else e_minibuf el\<rparr>"
  let ?s = "put_el (ci_flowEl i) (?g el) s"
  have u: "upd_el (ci_flowEl i) ?g s = Some ?s" using el by (simp add: upd_el_def)
  have fv: "fview ?s = fview s" by (rule fview_upd_el [OF u]) simp
  have "keeps_counts s ?s {#}" by (rule keeps_counts_upd_el [OF u]) simp
  then have "balanced s0 (add_mset (ci_component i) (mset (map ci_component ins) + R)) ?s"
    using Cons.prems(1) by (simp add: keeps_counts_def)
  from AuFreeComponent_balanced [OF this] Cons.prems(2)
  obtain s1 where s1: "AuFreeComponent (ci_component i) ?s = Some s1" "balanced s0 (mset (map ci_component ins) + R) s1" "fview s1 = fview ?s"
    by auto
  have "\<forall>i \<in> set ins. raw_at s1 (ci_flowEl i) \<noteq> None"
    using Cons.prems(3) raw_at_fview [of s1 s] s1(3) fv by (simp del: raw_at_Some not_None_eq)
  moreover have "counts_fit s0 (mset (map ci_component ins) + R)"
    using Cons.prems(2) by (auto elim: counts_fit_mono)
  ultimately obtain s' where "free_inputs ins s1 = Some s'" "balanced s0 R s'" "fview s' = fview s1"
    using Cons.IH [OF s1(2)] by blast
  with el s1 fv show ?case by (simp add: Let_def)
qed auto

lemma placed_raw:
  assumes "placed flow (graph flow s) out"
  shows "\<forall>i \<in> set (co_inputs out). raw_at s (ci_flowEl i) \<noteq> None" "raw_at s (co_flowEl out) \<noteq> None"
proof -
  have "graph flow s (snd p) = raw_at s p" if "fst p = flow" for p using that by (cases p) (simp add: graph_def)
  with assms show "\<forall>i \<in> set (co_inputs out). raw_at s (ci_flowEl i) \<noteq> None" "raw_at s (co_flowEl out) \<noteq> None"
    unfolding placed_def by metis+
qed

lemma free_outputs_balanced:
  "balanced s0 (flow_refs outs + R) s \<Longrightarrow> counts_fit s0 (flow_refs outs + R) \<Longrightarrow>
   (\<forall>out \<in> set outs. placed flow (graph flow s) out) \<Longrightarrow>
   \<exists>s'. free_outputs True outs s = Some s' \<and> balanced s0 R s' \<and> fview s' = fview s"
proof (induction outs arbitrary: s)
  case (Cons out outs)
  have pl: "\<forall>i \<in> set (co_inputs out). raw_at s (ci_flowEl i) \<noteq> None" "raw_at s (co_flowEl out) \<noteq> None"
    using placed_raw Cons.prems(3) by (meson list.set_intros(1))+
  let ?R = "add_mset (co_component out) (flow_refs outs + R)"
  have "balanced s0 (mset (map ci_component (co_inputs out)) + ?R) s" "counts_fit s0 (mset (map ci_component (co_inputs out)) + ?R)"
    using Cons.prems(1,2) by (simp_all add: output_refs_def union_assoc)
  from free_inputs_balanced [OF this pl(1)] obtain s1 where s1: "free_inputs (co_inputs out) s = Some s1" "balanced s0 ?R s1" "fview s1 = fview s"
    by blast
  obtain el where el: "get_el (co_flowEl out) s1 = Some el" using pl(2) raw_at_fview [OF s1(3), of "co_flowEl out"] by (metis not_None_eq raw_at_Some)
  let ?s = "if is_export_bucket (e_raw el) then put_el (co_flowEl out) (el\<lparr>e_minibuf := Some []\<rparr>) s1 else s1"
  have k: "keeps_counts s1 ?s {#}"
  proof (cases "is_export_bucket (e_raw el)")
    case True
    have "upd_el (co_flowEl out) (\<lambda>el. el\<lparr>e_minibuf := Some []\<rparr>) s1 = Some ?s" using el True by (simp add: upd_el_def)
    then show ?thesis by (rule keeps_counts_upd_el) simp
  qed (simp add: keeps_counts_refl)
  then have "balanced s0 ?R ?s" using s1(2) by (simp add: keeps_counts_def)
  moreover have fit: "counts_fit s0 ?R" "counts_fit s0 (flow_refs outs + R)" using Cons.prems(2) by (auto elim!: counts_fit_mono)
  ultimately obtain s2 where s2: "AuFreeComponent (co_component out) ?s = Some s2" "balanced s0 (flow_refs outs + R) s2" "fview s2 = fview ?s"
    using AuFreeComponent_balanced by blast
  have fv: "fview s2 = fview s" using s2(3) k s1(3) by (simp add: keeps_counts_def)
  have "\<forall>out \<in> set outs. placed flow (graph flow s2) out" using Cons.prems(3) graph_fview [OF fv] by simp
  from Cons.IH [OF s2(2) fit(2) this] obtain s' where "free_outputs True outs s2 = Some s'" "balanced s0 R s'" "fview s' = fview s2" by blast
  with s1(1) el s2(1) fv show ?case by simp
qed auto

text \<open>Every compilation, whether it succeeds or not, in terms of the invariant.\<close>

lemma AuCompileFlow_inv:
  assumes "AuCompileFlow fuel env flow s = Some (st, s')" and "get_flow flow s = Some f" "cf_outputs (f_compiled f) = []"
    and "\<forall>r \<ge> sv_next s. get_comp r s = None"
  shows "\<exists>outs. compiled_inv s flow (graph flow s) (cf_freeComponents (f_compiled f)) outs s' \<and>
     (st = AuSuccess \<longrightarrow> map co_flowEl outs = map (\<lambda>i. (flow, i)) (filter (is_export (graph flow s)) [0..<f_numElements f]) \<and>
        (\<forall>out \<in> set outs. routed (graph flow s) out))"
proof -
  have "counted (get_comp r s) 0 (get_comp r s)" for r by (cases "get_comp r s") auto
  then have "compiled_inv s flow (graph flow s) (cf_freeComponents (f_compiled f)) [] s"
    using assms(2-4) by (simp add: compiled_inv_def balanced_def)
  from compile_exports_inv [OF _ this, of fuel env "[0..<f_numElements f]"] assms(1-3) show ?thesis
    by (auto simp: AuCompileFlow_def)
qed

section \<open>Flows without loops compile\<close>

definition element_inputs :: "au_element \<Rightarrow> nat list" where
  "element_inputs raw = (case raw of Bundle ts \<Rightarrow> map (unat \<circ> fst) ts | MultiplyConstant j _ \<Rightarrow> [unat j]
     | AddConstant j _ \<Rightarrow> [unat j] | Sum js \<Rightarrow> map unat js | _ \<Rightarrow> [])"

definition track_count_ok :: "au_element \<Rightarrow> bool" where
  "track_count_ok raw = (case raw of Bundle ts \<Rightarrow> ts \<noteq> [] \<and> length ts \<le> auMaxTracks | _ \<Rightarrow> True)"

text \<open>The inputs of an element exist, are no exports and have a smaller rank.\<close>

definition loop_free :: "(nat \<Rightarrow> au_element option) \<Rightarrow> (nat \<Rightarrow> nat) \<Rightarrow> bool" where
  "loop_free G rank \<longleftrightarrow> (\<forall>i raw. G i = Some raw \<longrightarrow> track_count_ok raw \<and>
     (\<forall>j \<in> set (element_inputs raw). rank j < rank i \<and> (\<exists>raw'. G j = Some raw' \<and> writeOutputTable raw' = None)))"

text \<open>The devices and buckets exist, the formats and wave forms are known, the sizes do not overflow.\<close>

definition port_fits :: "server \<Rightarrow> u8 \<Rightarrow> u8 \<Rightarrow> u32 \<Rightarrow> bool" where
  "port_fits s fmt tracks ns \<longleftrightarrow> (case sizeofFormat fmt of None \<Rightarrow> False | Some sz \<Rightarrow>
     unat (ns * sz * ucast tracks) \<le> sizeof_ComponentRec + unat (PAD4 (ns * sz * ucast tracks)) +
       unat (PAD4 (auNativeBytesPerSample * sv_auMinibufSamples s * ucast tracks) * 2))"

definition known :: "compile_env \<Rightarrow> server \<Rightarrow> u32 \<Rightarrow> bool" where
  "known env s n \<longleftrightarrow> (\<exists>r. v_lookup env n = Some r \<and> get_comp r s \<noteq> None)"

definition parts_ok :: "compile_env \<Rightarrow> server \<Rightarrow> au_element \<Rightarrow> bool" where
  "parts_ok env s raw = (case raw of ImportClient _ fmt tracks _ ns _ _ \<Rightarrow> port_fits s fmt tracks ns
     | ImportWaveForm _ _ form _ _ \<Rightarrow> form = 0 \<or> form = 1 | ImportDevice _ _ dev _ \<Rightarrow> known env s dev
     | ImportBucket _ _ bucket _ _ \<Rightarrow> known env s bucket
     | ExportClient _ _ fmt tracks _ ns _ _ \<Rightarrow> port_fits s fmt tracks ns | ExportDevice _ _ _ dev _ \<Rightarrow> known env s dev
     | ExportBucket _ _ bucket _ _ \<Rightarrow> known env s bucket | ExportMonitor _ _ fmt _ \<Rightarrow> sizeofFormat fmt \<noteq> None | _ \<Rightarrow> True)"

text \<open>Compiled imports have a component, and memory does not run out.\<close>

definition linked :: "nat \<times> nat \<Rightarrow> server \<Rightarrow> bool" where
  "linked p s \<longleftrightarrow> (\<forall>el. get_el p s = Some el \<and> e_compiled el \<and> readInputTable (e_raw el) \<noteq> None \<longrightarrow>
     (\<exists>r. e_component el = Some r \<and> get_comp r s \<noteq> None))"

definition compilable :: "compile_env \<Rightarrow> nat \<Rightarrow> (nat \<Rightarrow> au_element option) \<Rightarrow> server \<Rightarrow> bool" where
  "compilable env flow G s \<longleftrightarrow> graph flow s = G \<and> sv_mallocs s = [] \<and> (\<forall>i raw. G i = Some raw \<longrightarrow> parts_ok env s raw) \<and>
     (\<forall>i. linked (flow, i) s)"

definition grown :: "server \<Rightarrow> server \<Rightarrow> bool" where
  "grown s s' \<longleftrightarrow> fview s' = fview s \<and> sv_mallocs s' = sv_mallocs s \<and> sv_auMinibufSamples s' = sv_auMinibufSamples s \<and>
     (\<forall>r. get_comp r s \<noteq> None \<longrightarrow> get_comp r s' \<noteq> None)"

lemma grown_refl [simp]: "grown s s"
  by (simp add: grown_def)

lemma grown_trans: "grown s s' \<Longrightarrow> grown s' s'' \<Longrightarrow> grown s s''"
  by (simp add: grown_def)

lemma grown_upd_comp: "get_comp r s \<noteq> None \<Longrightarrow> \<exists>s'. upd_comp r g s = Some s' \<and> grown s s' \<and> sv_flows s' = sv_flows s"
proof -
  assume "get_comp r s \<noteq> None"
  then obtain c where "get_comp r s = Some c" by auto
  moreover have "grown s (put_comp r (g c) s)"
    unfolding grown_def by (intro conjI fview_put_comp) (auto simp: put_comp_def get_comp_def)
  moreover have "sv_flows (put_comp r (g c) s) = sv_flows s" by (simp add: put_comp_def)
  ultimately show ?thesis by (simp add: upd_comp_def)
qed

lemma grown_new_comp:
  "new_comp c s = (r, s') \<Longrightarrow> grown s s' \<and> get_comp r s' = Some c \<and> sv_flows s' = sv_flows s"
  by (auto simp: new_comp_def grown_def put_comp_def get_comp_def intro: fview_cong)

lemma grown_upd_el:
  assumes "get_el p s = Some el" "e_raw (g el) = e_raw el"
  shows "\<exists>s'. upd_el p g s = Some s' \<and> grown s s' \<and> sv_comps s' = sv_comps s \<and>
    (\<forall>q. get_el q s' = (if q = p then Some (g el) else get_el q s))"
proof -
  obtain f es where f: "get_flow (fst p) s = Some f" "f_elements f = Some es" "snd p < length es" "es ! snd p = el"
    using assms(1) by (auto simp: get_el_def split: bind_splits if_splits)
  let ?s = "put_el p (g el) s"
  have u: "upd_el p (\<lambda>e. if e = el then g el else e) s = Some ?s" "upd_el p g s = Some ?s"
    using assms(1) by (simp_all add: upd_el_def)
  have "fview ?s = fview s" by (rule fview_upd_el [OF u(1)]) (simp add: assms(2))
  moreover have "sv_comps ?s = sv_comps s" "sv_mallocs ?s = sv_mallocs s" "sv_auMinibufSamples ?s = sv_auMinibufSamples s"
    by (simp_all add: put_el_def put_flow_def split: option.splits)
  moreover have "get_el q ?s = (if q = p then Some (g el) else get_el q s)" for q
    using f by (cases p; cases q) (auto simp: get_el_def put_el_def put_flow_def get_flow_def)
  ultimately show ?thesis using u(2) by (auto simp: grown_def get_comp_def)
qed

lemma parts_ok_grown: "grown s s' \<Longrightarrow> parts_ok env s raw \<Longrightarrow> parts_ok env s' raw"
  by (auto simp: parts_ok_def grown_def port_fits_def known_def split: au_element.splits option.splits)

text \<open>\<open>grown_at p s s'\<close>: of the elements at most the one at \<open>p\<close> has changed.\<close>

definition grown_at :: "nat \<times> nat \<Rightarrow> server \<Rightarrow> server \<Rightarrow> bool" where
  "grown_at p s s' \<longleftrightarrow> grown s s' \<and> (\<forall>q. q \<noteq> p \<longrightarrow> get_el q s' = get_el q s)"

lemma grown_at_trans: "grown_at p s s' \<Longrightarrow> grown_at p s' s'' \<Longrightarrow> grown_at p s s''"
  by (auto simp: grown_at_def intro: grown_trans)

lemma grown_at_refl [simp]: "grown_at p s s"
  by (simp add: grown_at_def)

lemma grown_at_flows: "grown s s' \<Longrightarrow> sv_flows s' = sv_flows s \<Longrightarrow> grown_at p s s'"
  by (simp add: grown_at_def get_el_def get_flow_def)

lemma grown_el: "grown s s' \<Longrightarrow> get_el p s = Some el \<Longrightarrow> \<exists>el'. get_el p s' = Some el'"
  by (metis grown_def not_None_eq raw_at_Some raw_at_fview)

lemma createPort_total:
  assumes "port_fits s fmt tracks ns" "sv_mallocs s = []"
  shows "\<exists>r s'. createPort env fmt tracks ns lo hi d s = Some (Some r, s') \<and> grown_at p s s' \<and> get_comp r s' \<noteq> None"
  using assms
  by (auto simp: createPort_def port_fits_def Let_def aualloc_def dest!: grown_new_comp intro: grown_at_flows
      split: option.splits prod.splits)

lemma createMonitor_total:
  assumes "sizeofFormat fmt \<noteq> None" "sv_mallocs s = []"
  shows "\<exists>r s'. createMonitor env fmt tracks s = Some (Some r, s') \<and> grown_at p s s' \<and> get_comp r s' \<noteq> None"
  using assms
  by (auto simp: createMonitor_def Let_def aualloc_def dest!: grown_new_comp intro: grown_at_flows split: prod.splits)

lemma createWaveForm_total:
  assumes "form = 0 \<or> form = 1" "sv_mallocs s = []"
  shows "\<exists>r s'. createWaveForm env form s = Some (Some r, s') \<and> grown_at p s s' \<and> get_comp r s' \<noteq> None"
  using assms
  by (auto simp: createWaveForm_def Let_def aualloc_def dest!: grown_new_comp intro: grown_at_flows split: prod.splits)

lemma upd_comp_total:
  "get_comp r s \<noteq> None \<Longrightarrow> \<exists>s'. upd_comp r g s = Some s' \<and> grown_at p s s' \<and> get_comp r s' \<noteq> None"
proof -
  assume a: "get_comp r s \<noteq> None"
  from grown_upd_comp [OF this] obtain s' where s': "upd_comp r g s = Some s'" "grown s s'" "sv_flows s' = sv_flows s" by blast
  moreover from a s'(2) have "get_comp r s' \<noteq> None" by (simp add: grown_def)
  ultimately show ?thesis using grown_at_flows by blast
qed

lemma upd_el_total:
  "get_el p s = Some el \<Longrightarrow> e_raw (g el) = e_raw el \<Longrightarrow>
   \<exists>s'. upd_el p g s = Some s' \<and> grown_at p s s' \<and> get_el p s' = Some (g el) \<and> sv_comps s' = sv_comps s"
  using grown_upd_el [of p s el g] by (metis grown_at_def)

lemma import_component_total:
  assumes "parts_ok env s raw" "sv_mallocs s = []" "readInputTable raw \<noteq> None" "get_el p s \<noteq> None"
  shows "\<exists>r s'. import_component env p raw s = Some (Inr r, s') \<and> grown_at p s s' \<and> get_comp r s' \<noteq> None"
proof -
  have rate: "\<exists>s'. upd_comp r g s1 = Some s' \<and> grown_at p s s' \<and> get_comp r s' \<noteq> None"
    if "grown_at p s s1" "get_comp r s1 \<noteq> None" for r s1 g
    using upd_comp_total [OF that(2), of g p] grown_at_trans [OF that(1)] by blast
  show ?thesis
  proof (cases raw)
    case (ImportClient x1 x2 x3 x4 x5 x6 x7)
    then have "port_fits s x2 x3 x5" using assms(1) by (simp add: parts_ok_def)
    from createPort_total [OF this assms(2), of env x6 0 x4 p] obtain r s1 where
      "createPort env x2 x3 x5 x6 0 x4 s = Some (Some r, s1)" "grown_at p s s1" "get_comp r s1 \<noteq> None" by blast
    with ImportClient rate [of s1 r "\<lambda>c. c\<lparr>c_sampleRate := ucast x1\<rparr>"] show ?thesis by (auto simp: import_component_def)
  next
    case (ImportWaveForm x1 x2 x3 x4 x5)
    then have "x3 = 0 \<or> x3 = 1" using assms(1) by (simp add: parts_ok_def)
    from createWaveForm_total [OF this assms(2), of env p] obtain r s1 where
      "createWaveForm env x3 s = Some (Some r, s1)" "grown_at p s s1" "get_comp r s1 \<noteq> None" by blast
    with ImportWaveForm rate [of s1 r "\<lambda>c. c\<lparr>c_sampleRate := ucast x1\<rparr>"] show ?thesis by (auto simp: import_component_def)
  next
    case (ImportDevice x1 x2 x3 x4)
    then obtain r where "v_lookup env x3 = Some r" "get_comp r s \<noteq> None" using assms(1) by (auto simp: parts_ok_def known_def)
    with ImportDevice rate [of s r "\<lambda>c. c\<lparr>c_refCnt := c_refCnt c + 1, c_sampleRate := ucast x1\<rparr>"] show ?thesis
      by (auto simp: import_component_def)
  next
    case (ImportBucket x1 x2 x3 x4 x5)
    then obtain r where r: "v_lookup env x3 = Some r" "get_comp r s \<noteq> None" using assms(1) by (auto simp: parts_ok_def known_def)
    obtain el where "get_el p s = Some el" using assms(4) by auto
    from upd_el_total [OF this, of "\<lambda>e. e\<lparr>e_sampleRate := ucast x1\<rparr>"] obtain s' where
      "upd_el p (\<lambda>e. e\<lparr>e_sampleRate := ucast x1\<rparr>) s = Some s'" "grown_at p s s'" by auto
    with ImportBucket r show ?thesis by (auto simp: import_component_def grown_at_def grown_def)
  qed (use assms in \<open>auto simp: readInputTable_def\<close>)
qed

text \<open>The two functions that set the element's mini-buffer succeed alike.\<close>

lemma minibuf_total:
  assumes "get_comp r s \<noteq> None" "sv_mallocs s = []" "get_el p s \<noteq> None"
  shows "\<exists>s'. import_minibuf env p raw r s = Some (True, s') \<and> grown_at p s s'"
    and "\<exists>s'. export_minibuf env p raw r s = Some (True, s') \<and> grown_at p s s'"
proof -
  obtain el c where el: "get_el p s = Some el" and c: "get_comp r s = Some c" using assms(1,3) by auto
  have set: "\<exists>s1 s2. upd_el p (\<lambda>e. e\<lparr>e_minibuf := m\<rparr>) s = Some s1 \<and> grown_at p s s1 \<and> upd_comp r g s1 = Some s2 \<and> grown_at p s s2" for m g
  proof -
    obtain s1 where s1: "upd_el p (\<lambda>e. e\<lparr>e_minibuf := m\<rparr>) s = Some s1" "grown_at p s s1"
      using upd_el_total [OF el, of "\<lambda>e. e\<lparr>e_minibuf := m\<rparr>"] by auto
    moreover have "get_comp r s1 \<noteq> None" using s1(2) assms(1) by (simp add: grown_at_def grown_def)
    from upd_comp_total [OF this, of g p] obtain s2 where "upd_comp r g s1 = Some s2" "grown_at p s1 s2" by blast
    ultimately show ?thesis using grown_at_trans by blast
  qed
  have al: "aualloc s = (True, s)" using assms(2) by (simp add: aualloc_def)
  show "\<exists>s'. import_minibuf env p raw r s = Some (True, s') \<and> grown_at p s s'"
    using set [of "Some (fresh_bytes env (unat (c_minibufSize c)))" "\<lambda>c. c\<lparr>c_refCnt := c_refCnt c + 1\<rparr>"]
      set [of None "\<lambda>c. c"] c al
    by (auto simp: import_minibuf_def)
  show "\<exists>s'. export_minibuf env p raw r s = Some (True, s') \<and> grown_at p s s'"
    using set [of "Some (fresh_bytes env (unat (c_minibufSize c * 2)))" "\<lambda>c. c\<lparr>c_refCnt := c_refCnt c + 1\<rparr>"]
      set [of None "\<lambda>c. c"] c al
    by (auto simp: export_minibuf_def)
qed

lemma grown_facts:
  assumes "grown s s'"
  shows "sv_mallocs s' = sv_mallocs s" "graph flow s' = graph flow s" "get_comp r s \<noteq> None \<Longrightarrow> get_comp r s' \<noteq> None"
  using assms graph_fview [of s' s flow] by (simp_all add: grown_def)

text \<open>A step that changes one element keeps the state compilable, if that element is fine afterwards.\<close>

lemma compilable_linked: "compilable env flow G s \<Longrightarrow> linked (flow, i) s"
  by (simp add: compilable_def)

lemma compilable_step:
  assumes "compilable env flow G s" "grown_at (flow, i) s s'" "linked (flow, i) s'"
  shows "compilable env flow G s'"
proof -
  have g: "grown s s'" "\<And>j. j \<noteq> i \<Longrightarrow> get_el (flow, j) s' = get_el (flow, j) s" using assms(2) by (auto simp: grown_at_def)
  have "linked (flow, j) s'" for j
  proof (cases "j = i")
    case False
    with compilable_linked [OF assms(1), of j] show ?thesis
      unfolding linked_def g(2) [OF False] using grown_facts(3) [OF g(1)] by blast
  qed (use assms(3) in simp)
  moreover have "graph flow s' = G" "sv_mallocs s' = []" "\<forall>i raw. G i = Some raw \<longrightarrow> parts_ok env s' raw"
    using assms(1) grown_facts(1,2) [OF g(1)] parts_ok_grown [OF g(1)] by (auto simp: compilable_def)
  ultimately show ?thesis by (simp add: compilable_def)
qed

lemma compile_import_total:
  assumes "compilable env flow G s" and "get_el (flow, i) s = Some el" "readInputTable (e_raw el) \<noteq> None"
    and "upd_el (flow, i) (\<lambda>e. e\<lparr>e_compiled := True\<rparr>) s = Some s1"
  shows "\<exists>k'. compile_import env (flow, i) False (e_raw el) (e_compiled el) m a us f (k\<lparr>k_server := s1\<rparr>) = Some (AuSuccess, k') \<and>
    compilable env flow G (k_server k')"
proof -
  obtain s1' where s1': "upd_el (flow, i) (\<lambda>e. e\<lparr>e_compiled := True\<rparr>) s = Some s1'" "grown_at (flow, i) s s1'"
      "get_el (flow, i) s1' = Some (el\<lparr>e_compiled := True\<rparr>)" "sv_comps s1' = sv_comps s"
    using upd_el_total [OF assms(2), of "\<lambda>e. e\<lparr>e_compiled := True\<rparr>"] by auto
  then have s1: "grown_at (flow, i) s s1" "get_el (flow, i) s1 = Some (el\<lparr>e_compiled := True\<rparr>)" "sv_comps s1 = sv_comps s"
    using assms(4) by auto
  have m: "sv_mallocs s1 = []" "aualloc s1 = (True, s1)"
    using assms(1) s1(1) by (auto simp: compilable_def grown_at_def grown_def aualloc_def)
  show ?thesis
  proof (cases "e_compiled el")
    case True
    then obtain r where r: "e_component el = Some r" "get_comp r s \<noteq> None"
      using compilable_linked [OF assms(1), of i] assms(2,3) by (auto simp: linked_def)
    obtain s2 where s2: "upd_el (flow, i) (\<lambda>e. e\<lparr>e_refCnt := e_refCnt e + 1\<rparr>) s1 = Some s2" "grown_at (flow, i) s1 s2"
        "get_el (flow, i) s2 = Some (el\<lparr>e_compiled := True, e_refCnt := e_refCnt el + 1\<rparr>)" "sv_comps s2 = sv_comps s1"
      using upd_el_total [OF s1(2), of "\<lambda>e. e\<lparr>e_refCnt := e_refCnt e + 1\<rparr>"] by auto
    have "get_comp r s2 \<noteq> None" using r(2) s1(3) s2(4) by (simp add: get_comp_def)
    from grown_upd_comp [OF this, of "\<lambda>c. c\<lparr>c_refCnt := c_refCnt c + 1\<rparr>"] obtain s3 where
      s3: "upd_comp r (\<lambda>c. c\<lparr>c_refCnt := c_refCnt c + 1\<rparr>) s2 = Some s3" "grown s2 s3" "sv_flows s3 = sv_flows s2" by blast
    have "get_el (flow, i) s3 = get_el (flow, i) s2" using s3(3) by (simp add: get_el_def get_flow_def)
    then have "linked (flow, i) s3"
      using s2(3) r(1) grown_facts(3) [OF s3(2) \<open>get_comp r s2 \<noteq> None\<close>] by (auto simp: linked_def)
    moreover have "grown_at (flow, i) s s3"
      using s1(1) s2(2) grown_at_flows [OF s3(2,3)] grown_at_trans by blast
    ultimately have "compilable env flow G s3" using assms(1) compilable_step by blast
    with True m s1(2) r(1) s2(1) s3(1) show ?thesis by (simp add: compile_import_def Let_def)
  next
    case False
    have "parts_ok env s1 (e_raw el)"
    proof -
      have "G i = Some (e_raw el)" using assms(1,2) by (auto simp: compilable_def graph_def raw_at_def)
      then show ?thesis using assms(1) s1(1) parts_ok_grown by (auto simp: compilable_def grown_at_def)
    qed
    from import_component_total [OF this m(1) assms(3)] s1(2) obtain r s2 where
      s2: "import_component env (flow, i) (e_raw el) s1 = Some (Inr r, s2)" "grown_at (flow, i) s1 s2" "get_comp r s2 \<noteq> None"
      by fastforce
    have m2: "sv_mallocs s2 = []" "get_el (flow, i) s2 \<noteq> None"
      using s2(2) m(1) s1(2) grown_el [of s1 s2 "(flow, i)"] by (auto simp: grown_at_def grown_def simp del: split_paired_All)
    from minibuf_total(1) [OF s2(3) m2] obtain s3 where
      s3: "import_minibuf env (flow, i) (e_raw el) r s2 = Some (True, s3)" "grown_at (flow, i) s2 s3" by blast
    have r3: "get_comp r s3 \<noteq> None" using s2(3) s3(2) by (simp add: grown_at_def grown_def)
    obtain el3 where "get_el (flow, i) s3 = Some el3" 
      using m2(2) s3(2) grown_el [of s2 s3 "(flow, i)"] by (auto simp: grown_at_def simp del: split_paired_All)
    from upd_el_total [OF this, of "\<lambda>e. e\<lparr>e_component := Some r\<rparr>"] obtain s4 where
      s4: "upd_el (flow, i) (\<lambda>e. e\<lparr>e_component := Some r\<rparr>) s3 = Some s4" "grown_at (flow, i) s3 s4"
        "get_el (flow, i) s4 = Some (el3\<lparr>e_component := Some r\<rparr>)" "sv_comps s4 = sv_comps s3" by auto
    have "linked (flow, i) s4" using s4(3,4) r3 by (auto simp: linked_def get_comp_def)
    moreover have "grown_at (flow, i) s s4"
      using s1(1) s2(2) s3(2) s4(2) grown_at_trans by blast
    ultimately have "compilable env flow G s4" using assms(1) compilable_step by blast
    with False m s2(1) s3(1) s4(1) show ?thesis by (simp add: compile_import_def Let_def)
  qed
qed

lemma sum_loop_total:
  "(\<And>j k. j \<in> set js \<Longrightarrow> C k \<Longrightarrow> \<exists>k'. rec (ucast j) k = Some (AuSuccess, k') \<and> C k') \<Longrightarrow> C k \<Longrightarrow>
   \<exists>k'. sum_loop rec js k = Some (AuSuccess, k') \<and> C k'"
proof (induction js arbitrary: k)
  case (Cons j js)
  obtain k1 where "rec (ucast j) k = Some (AuSuccess, k1)" "C k1" using Cons.prems(1) [of j k] Cons.prems(2) by auto
  with Cons.IH [of k1] Cons.prems(1) show ?case by auto
qed auto

lemma bundle_loop_total:
  assumes rec: "\<And>j us f k. j \<in> J \<Longrightarrow> C k \<Longrightarrow> \<exists>k'. rec (ucast j) us f k = Some (AuSuccess, k') \<and> C k'"
  shows "fst ` set ts \<subseteq> J \<Longrightarrow> e \<in> J \<Longrightarrow> us \<noteq> [] \<Longrightarrow> length us + length ts \<le> auMaxTracks \<Longrightarrow> C k \<Longrightarrow>
    \<exists>e' us' f' k'. bundle_loop rec ts (ucast (e :: u8)) us f k = Some (AuSuccess, ucast e', us', f', k') \<and> e' \<in> J \<and> C k'"
proof (induction ts arbitrary: e us f k)
  case (Cons et ts)
  obtain e1 t where et: "et = (e1, t)" by (cases et)
  have eq: "(ucast e1 = (ucast e :: u32)) = (e1 = e)" by (rule ucast_u8_inject)
  show ?case
  proof (cases "e1 = e")
    case True
    with Cons.IH [of e "us @ [t]" k f] Cons.prems et show ?thesis by auto
  next
    case False
    obtain k1 where "rec (ucast e) us f k = Some (AuSuccess, k1)" "C k1" using rec Cons.prems(2,5) by blast
    with Cons.IH [of e1 "[t]" k1 "f + word_of_nat (length us)"] Cons.prems et False eq show ?thesis by auto
  qed
qed auto

lemma compileInputs_total:
  assumes lf: "loop_free G rank"
  shows "rank (unat i) < fuel \<Longrightarrow> compilable env flow G (k_server k) \<Longrightarrow> G (unat i) = Some raw \<Longrightarrow> writeOutputTable raw = None \<Longrightarrow>
    \<exists>k'. compileInputs fuel env flow False i m a us f k = Some (AuSuccess, k') \<and> compilable env flow G (k_server k')"
proof (induction fuel arbitrary: i m a us f k raw)
  case (Suc fuel)
  let ?C = "\<lambda>k :: compiling. compilable env flow G (k_server k)"
  obtain el where el: "get_el (flow, unat i) (k_server k) = Some el" "e_raw el = raw"
    using Suc.prems(2,3) by (auto simp: compilable_def graph_def raw_at_def)
  obtain s where s: "upd_el (flow, unat i) (\<lambda>e. e\<lparr>e_compiled := True\<rparr>) (k_server k) = Some s" "grown_at (flow, unat i) (k_server k) s"
      "get_el (flow, unat i) s = Some (el\<lparr>e_compiled := True\<rparr>)"
    using upd_el_total [OF el(1), of "\<lambda>e. e\<lparr>e_compiled := True\<rparr>"] by auto
  let ?k = "k\<lparr>k_server := s\<rparr>"
  have tc: "track_count_ok raw" and inp: "\<forall>j \<in> set (element_inputs raw). rank j < rank (unat i) \<and> (\<exists>raw'. G j = Some raw' \<and> writeOutputTable raw' = None)"
    using lf Suc.prems(3) by (simp_all add: loop_free_def)
  have rec: "\<exists>k'. compileInputs fuel env flow False j m' a' us' f' k1 = Some (AuSuccess, k') \<and> ?C k'"
    if j: "unat j \<in> set (element_inputs raw)" "?C k1" for j m' a' us' f' k1
  proof -
    obtain raw' where "rank (unat j) < rank (unat i)" "G (unat j) = Some raw'" "writeOutputTable raw' = None"
      using bspec [OF inp j(1)] by blast
    with Suc.IH [of j k1 raw' m' a' us' f'] Suc.prems(1) j(2) show ?thesis by simp
  qed
  show ?case
  proof (cases "readInputTable raw = None")
    case False
    have "compileInputs (Suc fuel) env flow False i m a us f k =
        compile_import env (flow, unat i) False (e_raw el) (e_compiled el) m a us f ?k"
      using False el s(1) by (cases raw) (simp_all add: readInputTable_def)
    with compile_import_total [OF Suc.prems(2) el(1) _ s(1), of m a us f k] False el(2) show ?thesis by simp
  next
    case True
    then have "linked (flow, unat i) s" using s(3) el(2) by (simp add: linked_def)
    then have C: "?C ?k" using compilable_step [OF Suc.prems(2) s(2)] by simp
    show ?thesis
    proof (cases raw)
      case (MultiplyConstant j c)
      with rec [of "ucast j" ?k "AuFixedPointMultiply m c" a us f] C el s(1) show ?thesis by (simp add: element_inputs_def)
    next
      case (AddConstant j c)
      with rec [of "ucast j" ?k m "a + c" us f] C el s(1) show ?thesis by (simp add: element_inputs_def)
    next
      case (Sum js)
      have "\<exists>k'. sum_loop (\<lambda>i. compileInputs fuel env flow False i m a us f) js ?k = Some (AuSuccess, k') \<and> ?C k'"
      proof (rule sum_loop_total [where C = ?C, OF _ C])
        fix j and k1 :: compiling assume "j \<in> set js" "?C k1"
        then show "\<exists>k'. compileInputs fuel env flow False (ucast j) m a us f k1 = Some (AuSuccess, k') \<and> ?C k'"
          using rec [of "ucast j" k1 m a us f] Sum by (simp add: element_inputs_def)
      qed
      with Sum el s(1) show ?thesis by simp
    next
      case (Bundle ts)
      with tc obtain e t ts' where ts: "ts = (e, t) # ts'" "length ts' < auMaxTracks"
        by (cases ts) (auto simp: track_count_ok_def)
      let ?rec = "\<lambda>i. compileInputs fuel env flow False i m a"
      have r: "\<exists>k'. ?rec (ucast j) us' f' k1 = Some (AuSuccess, k') \<and> ?C k'" if "j \<in> fst ` set ts" "?C k1" for j us' f' k1
        using rec [of "ucast j" k1 m a us' f'] that Bundle by (force simp: element_inputs_def)
      have "\<exists>e' us' f' k'. bundle_loop ?rec ts' (ucast e) [t] f ?k = Some (AuSuccess, ucast e', us', f', k') \<and> e' \<in> fst ` set ts \<and> ?C k'"
        by (rule bundle_loop_total [where C = ?C and J = "fst ` set ts"]) (use r ts C in auto)
      then obtain e' us' f' k1 where b: "bundle_loop ?rec ts' (ucast e) [t] f ?k = Some (AuSuccess, ucast e', us', f', k1)"
          "e' \<in> fst ` set ts" "?C k1" by blast
      from r [OF b(2,3), of us' f'] b(1) Bundle ts(1) el s(1) show ?thesis by auto
    qed (use True Suc.prems(4) in \<open>auto simp: readInputTable_def writeOutputTable_def\<close>)
  qed
qed simp

lemma export_component_total:
  assumes "parts_ok env s raw" "sv_mallocs s = []" "writeOutputTable raw \<noteq> None" "get_el p s \<noteq> None"
  shows "\<exists>r input s'. export_component env p raw s = Some (Inr (r, input), s') \<and> grown_at p s s' \<and> get_comp r s' \<noteq> None"
proof -
  have rate: "\<exists>s'. upd_comp r g s1 = Some s' \<and> grown_at p s s' \<and> get_comp r s' \<noteq> None"
    if "grown_at p s s1" "get_comp r s1 \<noteq> None" for r s1 g
    using upd_comp_total [OF that(2), of g p] grown_at_trans [OF that(1)] by blast
  show ?thesis
  proof (cases raw)
    case (ExportClient x1 x2 x3 x4 x5 x6 x7 x8)
    then have "port_fits s x3 x4 x6" using assms(1) by (simp add: parts_ok_def)
    from createPort_total [OF this assms(2), of env 0 x7 x5 p] obtain r s1 where
      "createPort env x3 x4 x6 0 x7 x5 s = Some (Some r, s1)" "grown_at p s s1" "get_comp r s1 \<noteq> None" by blast
    with ExportClient rate [of s1 r "\<lambda>c. c\<lparr>c_sampleRate := ucast x1\<rparr>"] show ?thesis by (auto simp: export_component_def)
  next
    case (ExportMonitor x1 x2 x3 x4)
    then have "sizeofFormat x3 \<noteq> None" using assms(1) by (simp add: parts_ok_def)
    from createMonitor_total [OF this assms(2), of env x4 p] obtain r s1 where
      "createMonitor env x3 x4 s = Some (Some r, s1)" "grown_at p s s1" "get_comp r s1 \<noteq> None" by blast
    with ExportMonitor rate [of s1 r "\<lambda>c. c\<lparr>c_sampleRate := ucast x1\<rparr>"] show ?thesis by (auto simp: export_component_def)
  next
    case (ExportDevice x1 x2 x3 x4 x5)
    then obtain r where r: "v_lookup env x4 = Some r" "get_comp r s \<noteq> None" using assms(1) by (auto simp: parts_ok_def known_def)
    obtain s1 where s1: "upd_comp r (\<lambda>c. c\<lparr>c_refCnt := c_refCnt c + 1\<rparr>) s = Some s1" "grown_at p s s1" "get_comp r s1 \<noteq> None"
      using upd_comp_total [OF r(2), of "\<lambda>c. c\<lparr>c_refCnt := c_refCnt c + 1\<rparr>" p] by blast
    obtain el where "get_el p s1 = Some el" using s1(2) assms(4) grown_el [of s s1 p] by (auto simp: grown_at_def simp del: split_paired_All)
    from upd_el_total [OF this, of "\<lambda>e. e\<lparr>e_sampleRate := ucast x1\<rparr>"] obtain s2 where
      s2: "upd_el p (\<lambda>e. e\<lparr>e_sampleRate := ucast x1\<rparr>) s1 = Some s2" "grown_at p s1 s2" by auto
    with s1(3) have "get_comp r s2 \<noteq> None" by (simp add: grown_at_def grown_def)
    with ExportDevice r(1) s1 s2 grown_at_trans [OF s1(2) s2(2)] show ?thesis by (auto simp: export_component_def)
  next
    case (ExportBucket x1 x2 x3 x4 x5)
    then show ?thesis using assms(1) by (auto simp: parts_ok_def known_def export_component_def)
  qed (use assms in \<open>auto simp: writeOutputTable_def\<close>)
qed

text \<open>Changes of the compiled flow only.\<close>

lemma compilable_compiled:
  assumes "compilable env flow G s" "upd_flow flow (\<lambda>f. f\<lparr>f_compiled := g (f_compiled f)\<rparr>) s = Some s'"
  shows "compilable env flow G s'"
proof -
  obtain f where f: "get_flow flow s = Some f" "s' = put_flow flow (f\<lparr>f_compiled := g (f_compiled f)\<rparr>) s"
    using assms(2) by (auto simp: upd_flow_def split: bind_splits)
  have same: "get_el p s' = get_el p s" "get_comp r s' = get_comp r s" for p r
    using f by (simp_all add: get_el_def get_flow_def put_flow_def get_comp_def)
  have s': "sv_auMinibufSamples s' = sv_auMinibufSamples s" "sv_mallocs s' = sv_mallocs s" using f(2) by (simp_all add: put_flow_def)
  have "port_fits s' = port_fits s" using s'(1) by (intro ext) (simp add: port_fits_def split: option.split)
  moreover have "known env s' = known env s" by (simp add: known_def fun_eq_iff same)
  ultimately have "parts_ok env s' raw = parts_ok env s raw" for raw by (cases raw) (simp_all add: parts_ok_def)
  moreover have "linked p s' = linked p s" for p by (simp add: linked_def same)
  ultimately show ?thesis
    using assms(1) upd_flow_compiled(2) [OF assms(2)] s'(2) by (simp add: compilable_def)
qed

lemma graph_bound: "graph flow s i \<noteq> None \<Longrightarrow> get_flow flow s = Some f \<Longrightarrow> i < f_numElements f"
  by (auto simp: graph_def raw_at_def get_el_def f_numElements_def split: bind_splits if_splits option.splits)

lemma new_output_total:
  assumes "compilable env flow G s" "G i = Some raw" "writeOutputTable raw \<noteq> None"
  shows "\<exists>s'. new_output env (flow, i) raw s = Some (AuSuccess, s') \<and> compilable env flow G s'"
proof -
  have m: "sv_mallocs s = []" "aualloc s = (True, s)" and po: "parts_ok env s raw" and el: "get_el (flow, i) s \<noteq> None"
    using assms(1,2) by (auto simp: compilable_def aualloc_def graph_def raw_at_def)
  obtain r input s1 where s1: "export_component env (flow, i) raw s = Some (Inr (r, input), s1)" "grown_at (flow, i) s s1" "get_comp r s1 \<noteq> None"
    using export_component_total [OF po m(1) assms(3) el] by blast
  have g: "grown s s1" using s1(2) by (simp add: grown_at_def)
  have m1: "sv_mallocs s1 = []" "get_el (flow, i) s1 \<noteq> None" using g m(1) el grown_el [OF g, of "(flow, i)"] by (auto simp: grown_def)
  obtain s2 where s2: "export_minibuf env (flow, i) raw r s1 = Some (True, s2)" "grown_at (flow, i) s1 s2"
    using minibuf_total(2) [OF s1(3) m1] by blast
  obtain el2 where el2: "get_el (flow, i) s2 = Some el2"
    using m1(2) s2(2) grown_el [of s1 s2 "(flow, i)"] by (auto simp: grown_at_def simp del: split_paired_All)
  from upd_el_total [OF this, of "\<lambda>e. e\<lparr>e_component := Some r, e_compiled := True\<rparr>"] obtain s3 where
    s3: "upd_el (flow, i) (\<lambda>e. e\<lparr>e_component := Some r, e_compiled := True\<rparr>) s2 = Some s3" "grown_at (flow, i) s2 s3"
      "get_el (flow, i) s3 = Some (el2\<lparr>e_component := Some r, e_compiled := True\<rparr>)" by auto
  have ga: "grown_at (flow, i) s s3" using s1(2) s2(2) s3(2) grown_at_trans by blast
  have "raw_at s3 (flow, i) = Some raw"
    using ga assms(1,2) raw_at_fview [of s3 s] by (auto simp: grown_at_def grown_def compilable_def graph_def)
  then have "e_raw el2 = raw" using s3(3) by (simp add: raw_at_def)
  then have "linked (flow, i) s3"
    using s3(3) assms(3) by (cases raw) (auto simp: linked_def readInputTable_def writeOutputTable_def)
  with assms(1) ga have c3: "compilable env flow G s3" using compilable_step by blast
  have "get_flow flow s3 \<noteq> None" using s3(3) by (auto simp: get_el_def split: bind_splits)
  then obtain s4 where s4: "add_output flow ((v_output env)\<lparr>co_component := r, co_flowEl := (flow, i), co_firstInput := input, co_inputs := []\<rparr>) s3 = Some s4"
    by (auto simp: add_output_def upd_flow_def)
  have "compilable env flow G s4" by (rule compilable_compiled [OF c3 s4 [unfolded add_output_def]])
  with m(2) s1(1) s2(1) s3(1) s4 show ?thesis by (simp add: new_output_def)
qed

lemma compile_output_total:
  assumes "compilable env flow G s" "loop_free G rank" "\<forall>i. rank i < fuel"
    and "get_flow flow s = Some f" "n < length (cf_outputs (f_compiled f))"
    and "G (unat (co_firstInput (cf_outputs (f_compiled f) ! n))) = Some raw" "writeOutputTable raw = None"
  shows "\<exists>s'. compile_output fuel env flow False n s = Some (AuSuccess, s') \<and> compilable env flow G s'"
proof -
  let ?out = "cf_outputs (f_compiled f) ! n"
  have "graph flow s (unat (co_firstInput ?out)) \<noteq> None" using assms(1,6) by (simp add: compilable_def)
  from graph_bound [OF this assms(4)] have b: "\<not> f_numElements f < unat (co_firstInput ?out)" by simp
  have "\<exists>k. compileInputs fuel env flow False (ucast (co_firstInput ?out)) 0x10000 0 [] 0
      \<lparr>k_output = ?out, k_inputCnt = 0, k_server = s\<rparr> = Some (AuSuccess, k) \<and> compilable env flow G (k_server k)"
    by (rule compileInputs_total [OF assms(2) _ _ _ assms(7)]) (use assms in simp_all)
  then obtain k where k: "compileInputs fuel env flow False (ucast (co_firstInput ?out)) 0x10000 0 [] 0
      \<lparr>k_output = ?out, k_inputCnt = 0, k_server = s\<rparr> = Some (AuSuccess, k)" "compilable env flow G (k_server k)" by blast
  have "graph flow (k_server k) (unat (co_firstInput ?out)) \<noteq> None" using k(2) assms(6) by (simp add: compilable_def)
  then have "get_flow flow (k_server k) \<noteq> None" by (auto simp: graph_def raw_at_def get_el_def split: bind_splits)
  then obtain s' where s': "upd_flow flow (\<lambda>f. f\<lparr>f_compiled := (f_compiled f)\<lparr>cf_outputs := (cf_outputs (f_compiled f))[n := k_output k]\<rparr>\<rparr>)
      (k_server k) = Some s'" by (auto simp: upd_flow_def)
  have "compilable env flow G s'" by (rule compilable_compiled [OF k(2) s'])
  with assms(4,5) b k(1) s' show ?thesis by (simp add: compile_output_def Let_def)
qed

text \<open>The first inputs of the exports.\<close>

definition exports_fed :: "(nat \<Rightarrow> au_element option) \<Rightarrow> bool" where
  "exports_fed G \<longleftrightarrow> (\<forall>i raw. G i = Some raw \<longrightarrow> writeOutputTable raw \<noteq> None \<longrightarrow>
     (\<exists>raw'. G (unat (export_input raw)) = Some raw' \<and> writeOutputTable raw' = None))"

lemma compile_exports_total:
  "loop_free G rank \<Longrightarrow> \<forall>i. rank i < fuel \<Longrightarrow> exports_fed G \<Longrightarrow> \<forall>i \<in> set is. G i \<noteq> None \<Longrightarrow>
   compilable env flow G s \<Longrightarrow> compiled_inv s0 flow G b outs s \<Longrightarrow>
   \<exists>s'. compile_exports fuel env flow False is (length outs) s = Some (AuSuccess, s')"
proof (induction "is" arbitrary: outs s)
  case (Cons i "is")
  obtain raw where raw: "G i = Some raw" using Cons.prems(4) by auto
  then obtain el where el: "get_el (flow, i) s = Some el" "e_raw el = raw"
    using Cons.prems(5) by (auto simp: compilable_def graph_def raw_at_def)
  show ?case
  proof (cases "writeOutputTable raw = None")
    case True
    with Cons.IH [OF Cons.prems(1-3) _ Cons.prems(5,6)] Cons.prems(4) el show ?thesis by simp
  next
    case False
    obtain s1 where s1: "new_output env (flow, i) raw s = Some (AuSuccess, s1)" "compilable env flow G s1"
      using new_output_total [OF Cons.prems(5) raw False] by blast
    obtain out where out: "compiled_inv s0 flow G b (outs @ [out]) s1" "co_firstInput out = export_input raw" "co_inputs out = []"
      using new_output_inv [OF Cons.prems(6) s1(1) raw] by auto
    obtain f where f: "get_flow flow s1 = Some f" "cf_outputs (f_compiled f) = outs @ [out]" using out(1) by (auto simp: compiled_inv_def)
    obtain raw' where raw': "G (unat (export_input raw)) = Some raw'" "writeOutputTable raw' = None"
      using Cons.prems(3) raw False unfolding exports_fed_def by blast
    obtain s2 where s2: "compile_output fuel env flow False (length outs) s1 = Some (AuSuccess, s2)" "compilable env flow G s2"
      using compile_output_total [OF s1(2) Cons.prems(1,2) f(1), of "length outs" raw'] f(2) out(2) raw' by auto
    obtain out' where "compiled_inv s0 flow G b (outs @ [out']) s2"
      using compile_output_inv [OF out(1,3) s2(1)] by blast
    from Cons.IH [OF Cons.prems(1-3) _ s2(2) this] Cons.prems(4)
    obtain s' where "compile_exports fuel env flow False is (Suc (length outs)) s2 = Some (AuSuccess, s')" by auto
    with el s1(1) s2(1) False show ?thesis by auto
  qed
qed simp

lemma AuCompileFlow_total:
  assumes "loop_free (graph flow s) rank" "\<forall>i. rank i < fuel" "exports_fed (graph flow s)" "compilable env flow (graph flow s) s"
    and "get_flow flow s = Some f" "cf_outputs (f_compiled f) = []" "\<forall>r \<ge> sv_next s. get_comp r s = None"
  shows "\<exists>s'. AuCompileFlow fuel env flow s = Some (AuSuccess, s')"
proof -
  have "counted (get_comp r s) 0 (get_comp r s)" for r by (cases "get_comp r s") auto
  then have inv: "compiled_inv s flow (graph flow s) (cf_freeComponents (f_compiled f)) [] s"
    using assms(5-7) by (simp add: compiled_inv_def balanced_def)
  have "graph flow s i \<noteq> None" if "i < f_numElements f" for i
    using that assms(5) by (auto simp: graph_def raw_at_def get_el_def f_numElements_def split: option.splits)
  then have "\<forall>i \<in> set [0..<f_numElements f]. graph flow s i \<noteq> None" by simp
  from compile_exports_total [OF assms(1-3) this assms(4) inv] assms(5,6) show ?thesis
    by (simp add: AuCompileFlow_def)
qed

section \<open>The theorems\<close>

text \<open>
  C23. What compiling means: if \<open>AuCompileFlow\<close> succeeds on a new flow, the compiled flow has one output for each export, in
  the order of the elements, and the inputs of each output are exactly the routes from the export's input: every path to
  an import, in order, with the product and the sum of the constants on it and the tracks of the bundle it passes.
\<close>

theorem AuCompileFlow_routes:
  assumes "AuCompileFlow fuel env flow s = Some (AuSuccess, s')" and "get_flow flow s = Some f" "cf_outputs (f_compiled f) = []"
    and "\<forall>r \<ge> sv_next s. get_comp r s = None"
  shows "\<exists>f'. get_flow flow s' = Some f' \<and>
    map co_flowEl (cf_outputs (f_compiled f')) = map (\<lambda>i. (flow, i)) (filter (is_export (graph flow s)) [0..<f_numElements f]) \<and>
    (\<forall>out \<in> set (cf_outputs (f_compiled f')). routed (graph flow s) out)"
  using AuCompileFlow_inv [OF assms] by (auto simp: compiled_inv_def)

definition demo_graph :: "au_element list" where
  "demo_graph = [ImportClient 8000 6 1 False 2 0 [], MultiplyConstant 0 0x20000, ExportClient 8000 1 6 1 False 2 0 []]"

definition demo_env :: compile_env where
  "demo_env = \<lparr>v_lookup = (\<lambda>_. None), v_junk = component0, v_bytes = (\<lambda>_. 0),
     v_input = \<lparr>ci_component = 0, ci_flowEl = (0, 0), ci_multiplyConstant = 0, ci_addConstant = 0, ci_tracks = [],
       ci_rateConvert = RcNull, ci_preadTag = TagComponent, ci_readInput = ReadClient\<rparr>,
     v_output = \<lparr>co_component = 0, co_flowEl = (0, 0), co_firstInput = 0, co_inputs = [], co_rateConvert = RcNull,
       co_writeOutput = WriteClient\<rparr>\<rparr>"

definition graph_server :: "au_element list \<Rightarrow> server" where
  "graph_server raws = (server_init 1)\<lparr>sv_flows := [0 \<mapsto> flow0\<lparr>f_compiled := compiled_flow0\<lparr>cf_freeComponents := True\<rparr>,
     f_elements := Some (map (\<lambda>raw. element0\<lparr>e_raw := raw\<rparr>) raws)\<rparr>], sv_next := 1\<rparr>"

lemma demo_get:
  "get_el p (graph_server raws) = (if fst p = 0 \<and> snd p < length raws then Some (element0\<lparr>e_raw := raws ! snd p\<rparr>) else None)"
  "graph 0 (graph_server raws) i = (if i < length raws then Some (raws ! i) else None)"
  "get_comp r (graph_server raws) = None"
  by (auto simp: graph_server_def graph_def raw_at_def get_el_def get_flow_def get_comp_def server_init_def)

lemma demo_flow:
  "get_flow 0 (graph_server raws) = Some (flow0\<lparr>f_compiled := compiled_flow0\<lparr>cf_freeComponents := True\<rparr>,
     f_elements := Some (map (\<lambda>raw. element0\<lparr>e_raw := raw\<rparr>) raws)\<rparr>)"
  by (simp add: graph_server_def get_flow_def)

lemma demo_compilable:
  "loop_free (graph 0 (graph_server demo_graph)) (\<lambda>i. min i 3)" "exports_fed (graph 0 (graph_server demo_graph))"
  "compilable demo_env 0 (graph 0 (graph_server demo_graph)) (graph_server demo_graph)"
proof -
  have g: "graph 0 (graph_server demo_graph) = (\<lambda>i. if i = 0 then Some (ImportClient 8000 6 1 False 2 0 [])
      else if i = 1 then Some (MultiplyConstant 0 0x20000)
      else if i = 2 then Some (ExportClient 8000 1 6 1 False 2 0 []) else None)"
    by (auto simp: fun_eq_iff demo_get demo_graph_def nth_Cons split: nat.splits)
  show "loop_free (graph 0 (graph_server demo_graph)) (\<lambda>i. min i 3)" "exports_fed (graph 0 (graph_server demo_graph))"
    unfolding g by (auto simp: loop_free_def track_count_ok_def element_inputs_def exports_fed_def writeOutputTable_def export_input_def)
  have "port_fits (graph_server demo_graph) 6 1 2"
    by (simp add: port_fits_def sizeofFormat_def auBytesPerSample_def PAD4_def)
  then have "\<forall>i raw. graph 0 (graph_server demo_graph) i = Some raw \<longrightarrow> parts_ok demo_env (graph_server demo_graph) raw"
    unfolding g by (auto simp: parts_ok_def)
  moreover have "linked (0, i) (graph_server demo_graph)" for i by (auto simp: linked_def demo_get element0_def)
  ultimately show "compilable demo_env 0 (graph 0 (graph_server demo_graph)) (graph_server demo_graph)"
    by (auto simp: compilable_def) (simp add: graph_server_def server_init_def)
qed

lemma demo_rank: "\<forall>i. min i 3 < (4 :: nat)"
  by auto

lemma demo_exports:
  "filter (is_export (graph 0 (graph_server demo_graph))) [0..<f_numElements (flow0\<lparr>f_compiled := compiled_flow0\<lparr>cf_freeComponents := True\<rparr>,
     f_elements := Some (map (\<lambda>raw. element0\<lparr>e_raw := raw\<rparr>) demo_graph)\<rparr>)] = [2]"
  by (simp add: f_numElements_def demo_graph_def upt_rec is_export_def demo_get writeOutputTable_def)

lemma demo_compiles:
  "\<exists>s' f' out i. AuCompileFlow 4 demo_env 0 (graph_server demo_graph) = Some (AuSuccess, s') \<and> get_flow 0 s' = Some f' \<and>
     cf_outputs (f_compiled f') = [out] \<and> co_inputs out = [i] \<and> ci_multiplyConstant i = 0x20000"
proof -
  let ?s = "graph_server demo_graph"
  obtain s' where s': "AuCompileFlow 4 demo_env 0 ?s = Some (AuSuccess, s')"
    using AuCompileFlow_total [OF demo_compilable(1) demo_rank demo_compilable(2,3) demo_flow] by (auto simp: demo_get compiled_flow0_def)
  from AuCompileFlow_inv [OF this demo_flow, unfolded demo_exports] obtain f' outs where f': "get_flow 0 s' = Some f'"
      "cf_outputs (f_compiled f') = outs" "map co_flowEl outs = [(0, 2)]" "\<forall>out \<in> set outs. routed (graph 0 ?s) out"
    by (auto simp: demo_get compiled_flow0_def compiled_inv_def)
  then obtain out where out: "outs = [out]" "co_flowEl out = (0, 2)" by auto
  have mul: "AuFixedPointMultiply 0x10000 0x20000 = 0x20000" by code_simp
  from out obtain i where "co_inputs out = [i]" "ci_multiplyConstant i = 0x20000"
    using f'(4) by (auto simp: routed_def demo_get demo_graph_def export_input_def routes.simps [of _ "Suc 0"] routes.simps [of _ 0]
      input_route_def readInputTable_def mul)
  with s' f'(1,2) out show ?thesis by blast
qed

theorem AuCompileFlow_routes_witness:
  "\<exists>s' f'. AuCompileFlow 4 demo_env 0 (graph_server demo_graph) = Some (AuSuccess, s') \<and> get_flow 0 s' = Some f' \<and>
     map co_flowEl (cf_outputs (f_compiled f')) = [(0, 2)] \<and> routed (graph 0 (graph_server demo_graph)) (hd (cf_outputs (f_compiled f')))"
proof -
  obtain s' where s': "AuCompileFlow 4 demo_env 0 (graph_server demo_graph) = Some (AuSuccess, s')" using demo_compiles by blast
  from AuCompileFlow_routes [OF this demo_flow] obtain f' where f': "get_flow 0 s' = Some f'"
      "map co_flowEl (cf_outputs (f_compiled f')) = [(0, 2)]"
      "\<forall>out \<in> set (cf_outputs (f_compiled f')). routed (graph 0 (graph_server demo_graph)) out"
    unfolding demo_exports by (auto simp: demo_get compiled_flow0_def)
  from f'(2) have "hd (cf_outputs (f_compiled f')) \<in> set (cf_outputs (f_compiled f'))" by (intro hd_in_set) auto
  with f'(3) have "routed (graph 0 (graph_server demo_graph)) (hd (cf_outputs (f_compiled f')))" by blast
  then show ?thesis using s' f'(1,2) by (intro exI conjI)
qed

text \<open>
  C12. Compiling and releasing balance: whether a compilation succeeds, meets a bad element or runs out of memory half way,
  \<open>freeCompiledFlow\<close> of what it left in the flow runs without touching freed memory, and afterwards exactly the components
  that existed before exist, each with the reference count it had: nothing leaks and nothing is freed twice.
\<close>

theorem compile_release_balance:
  assumes "AuCompileFlow fuel env flow s = Some (st, s')" and "get_flow flow s = Some f" "cf_outputs (f_compiled f) = []"
    and "cf_freeComponents (f_compiled f)" "\<forall>r \<ge> sv_next s. get_comp r s = None"
    and "get_flow flow s' = Some f'" "counts_fit s (flow_refs (cf_outputs (f_compiled f')))"
  shows "\<exists>s''. freeCompiledFlow (f_compiled f') s' = Some s'' \<and>
    (\<forall>r. map_option c_refCnt (get_comp r s'') = map_option c_refCnt (get_comp r s))"
proof -
  obtain outs where inv: "compiled_inv s flow (graph flow s) True outs s'"
    using AuCompileFlow_inv [OF assms(1,2,3,5)] assms(4) by auto
  then have f': "cf_outputs (f_compiled f') = outs" "cf_freeComponents (f_compiled f')" using assms(6) by (auto simp: compiled_inv_def)
  obtain s'' where s'': "free_outputs True outs s' = Some s''" "balanced s {#} s''"
    using free_outputs_balanced [of s outs "{#}" s' flow] inv assms(7) f'(1) by (auto simp: compiled_inv_def)
  have "map_option c_refCnt (get_comp r s'') = map_option c_refCnt (get_comp r s)" for r
  proof -
    have "counted (get_comp r s) 0 (get_comp r s'')" using s''(2) by (simp add: balanced_def)
    then show ?thesis by (cases "get_comp r s"; cases "get_comp r s''") auto
  qed
  with s''(1) f' show ?thesis by (simp add: freeCompiledFlow_def)
qed

theorem compile_release_balance_witness:
  "\<exists>s' f' s''. AuCompileFlow 4 demo_env 0 (graph_server demo_graph) = Some (AuSuccess, s') \<and> get_flow 0 s' = Some f' \<and>
     length (cf_outputs (f_compiled f')) = 1 \<and> freeCompiledFlow (f_compiled f') s' = Some s'' \<and> (\<forall>r. get_comp r s'' = None)"
proof -
  obtain s' f' out i where c: "AuCompileFlow 4 demo_env 0 (graph_server demo_graph) = Some (AuSuccess, s')" "get_flow 0 s' = Some f'"
      "cf_outputs (f_compiled f') = [out]" "co_inputs out = [i]" using demo_compiles by blast
  have "counts_fit (graph_server demo_graph) (flow_refs (cf_outputs (f_compiled f')))"
    by (simp add: counts_fit_def demo_get c(3,4) output_refs_def)
  from compile_release_balance [OF c(1) demo_flow _ _ _ c(2) this] obtain s'' where "freeCompiledFlow (f_compiled f') s' = Some s''"
      "\<forall>r. map_option c_refCnt (get_comp r s'') = None" by (auto simp: demo_get compiled_flow0_def)
  with c show ?thesis by auto
qed



text \<open>
  C39. A loop is not noticed (\<^verbatim>\<open>XXX - need to check for loops\<close>): once \<open>compileInputs\<close> enters a set of multiply and add
  elements that only lead to one another, it never returns, whatever the size of the stack.
\<close>

theorem compile_loop_never_returns:
  assumes "\<forall>i \<in> L. \<exists>j c. (graph flow (k_server k) i = Some (MultiplyConstant j c) \<or> graph flow (k_server k) i = Some (AddConstant j c)) \<and> unat j \<in> L"
    and "unat i \<in> L"
  shows "compileInputs fuel env flow recompile i m a us f k = None"
  using assms
proof (induction fuel arbitrary: i m a us f k)
  case (Suc fuel)
  obtain j c where jc: "graph flow (k_server k) (unat i) = Some (MultiplyConstant j c) \<or> graph flow (k_server k) (unat i) = Some (AddConstant j c)"
      "unat j \<in> L" using Suc.prems by blast
  show ?case
  proof (cases "upd_el (flow, unat i) (\<lambda>e. e\<lparr>e_compiled := True\<rparr>) (k_server k)")
    case None
    then show ?thesis by (simp add: Let_def upd_el_def split: bind_splits)
  next
    case (Some s)
    have "graph flow s = graph flow (k_server k)" by (rule graph_fview [OF fview_upd_el [OF Some]]) simp
    then have "compileInputs fuel env flow recompile (ucast j) m' a' us f (k\<lparr>k_server := s\<rparr>) = None" for m' a'
      using Suc.IH [of "k\<lparr>k_server := s\<rparr>" "ucast j"] Suc.prems(1) jc(2) by simp
    with jc(1) Some show ?thesis by (auto simp: graph_def raw_at_def)
  qed
qed simp

theorem compile_loop_never_returns_witness:
  "compileInputs 1000 demo_env 0 False 0 0x10000 0 [] 0
     \<lparr>k_output = v_output demo_env, k_inputCnt = 0, k_server = graph_server [MultiplyConstant 1 0x20000, AddConstant 0 1]\<rparr> = None"
  by (rule compile_loop_never_returns [where L = "{0, 1}"]) (simp_all add: demo_get)

text \<open>
  The check of an export's input is one too generous: an input behind the last element but one is refused with
  \<^verbatim>\<open>AuBadElement\<close>, but the number of elements itself passes, and the code reads an element that is not there.
\<close>

theorem first_input_bound:
  assumes "get_flow flow s = Some f" "n < length (cf_outputs (f_compiled f))"
    and "input = unat (co_firstInput (cf_outputs (f_compiled f) ! n))"
  shows "(f_numElements f < input \<longrightarrow> compile_output fuel env flow b n s = Some (AuFailure AuBadElement None, s)) \<and>
    (input = f_numElements f \<longrightarrow> compile_output fuel env flow b n s = None)"
proof -
  have "get_el (flow, f_numElements f) s = None"
    using assms(1) by (auto simp: get_el_def f_numElements_def split: bind_splits option.splits)
  then have "compileInputs fuel env flow b (ucast (co_firstInput (cf_outputs (f_compiled f) ! n))) m a us t
      \<lparr>k_output = out, k_inputCnt = 0, k_server = s\<rparr> = None" if "input = f_numElements f" for m a us t out
    using that assms(3) by (cases fuel) simp_all
  with assms show ?thesis by (auto simp: compile_output_def Let_def)
qed

definition off_by_one :: server where
  "off_by_one = (graph_server [])\<lparr>sv_flows := [0 \<mapsto> flow0\<lparr>f_compiled := compiled_flow0\<lparr>cf_outputs := [(v_output demo_env)\<lparr>co_firstInput := 1\<rparr>]\<rparr>,
     f_elements := Some [element0]\<rparr>]\<rparr>"

theorem first_input_bound_witness:
  "compile_output 9 demo_env 0 False 0 off_by_one = None"
  using first_input_bound [of 0 off_by_one "flow0\<lparr>f_compiled := compiled_flow0\<lparr>cf_outputs := [(v_output demo_env)\<lparr>co_firstInput := 1\<rparr>]\<rparr>,
     f_elements := Some [element0]\<rparr>" 0 1 9 demo_env False]
  by (simp add: off_by_one_def get_flow_def f_numElements_def)

text \<open>
  The order of constants is lost: an import reached through a multiplication of an addition and one reached through an
  addition of a multiplication get the same two constants, the product and the sum met on the way. The server then computes
  multiply * sample + add, so what \<^verbatim>\<open>AuMakeElementMultiplyConstant\<close> is documented to scale, its input, is not scaled when it
  is a sum with a constant.
\<close>

theorem constants_any_order:
  assumes "compileInputs fuel env flow False i m a us f k = Some (AuSuccess, k')"
    and "G = graph flow (k_server k)" "G (unat l) = Some raw" "readInputTable raw \<noteq> None"
    and "(G (unat i) = Some (MultiplyConstant j c) \<and> G (unat j) = Some (AddConstant l d)) \<or>
      (G (unat i) = Some (AddConstant j d) \<and> G (unat j) = Some (MultiplyConstant l c))"
  shows "\<exists>inp. co_inputs (k_output k') = co_inputs (k_output k) @ [inp] \<and> ci_flowEl inp = (flow, unat l) \<and>
    ci_multiplyConstant inp = AuFixedPointMultiply m c \<and> ci_addConstant inp = a + d"
proof -
  have G: "(\<lambda>i. raw_at (k_server k) (flow, i)) = G" using assms(2) by (simp add: graph_def fun_eq_iff)
  obtain rs where rs: "extends flow k k' rs" "routes G (unat i) m a us f rs"
    using compileInputs_extends [OF assms(1)] unfolding G by blast
  have leaf: "rs = [(unat l, m', a', track_map us f)]" if "routes G (unat l) m' a' us f rs" for m' a'
    using that assms(3,4) by (cases rule: routes.cases) (auto simp: readInputTable_def)
  have "rs = [(unat l, AuFixedPointMultiply m c, a + d, track_map us f)]"
    using assms(5)
  proof
    assume g: "G (unat i) = Some (MultiplyConstant j c) \<and> G (unat j) = Some (AddConstant l d)"
    with rs(2) have "routes G (unat j) (AuFixedPointMultiply m c) a us f rs" by (cases rule: routes.cases) (auto simp: readInputTable_def)
    then have "routes G (unat l) (AuFixedPointMultiply m c) (a + d) us f rs" using g by (cases rule: routes.cases) (auto simp: readInputTable_def)
    then show ?thesis by (rule leaf)
  next
    assume g: "G (unat i) = Some (AddConstant j d) \<and> G (unat j) = Some (MultiplyConstant l c)"
    with rs(2) have "routes G (unat j) m (a + d) us f rs" by (cases rule: routes.cases) (auto simp: readInputTable_def)
    then have "routes G (unat l) (AuFixedPointMultiply m c) (a + d) us f rs" using g by (cases rule: routes.cases) (auto simp: readInputTable_def)
    then show ?thesis by (rule leaf)
  qed
  with rs(1) obtain inp where "k_output k' = (k_output k)\<lparr>co_inputs := co_inputs (k_output k) @ [inp]\<rparr>" "fst (ci_flowEl inp) = flow"
      "input_route inp = (unat l, AuFixedPointMultiply m c, a + d, track_map us f)"
    by (auto simp: extends_def)
  then show ?thesis by (cases "ci_flowEl inp") (auto simp: input_route_def)
qed

definition scaled_sum :: server where
  "scaled_sum = graph_server [ImportWaveForm 8000 0 0 440 [], AddConstant 0 0x10000, MultiplyConstant 1 0x20000]"

lemma scaled_sum_graph:
  "graph 0 scaled_sum = (\<lambda>i. if i = 0 then Some (ImportWaveForm 8000 0 0 440 []) else if i = 1 then Some (AddConstant 0 0x10000)
     else if i = 2 then Some (MultiplyConstant 1 0x20000) else None)"
  by (auto simp: fun_eq_iff scaled_sum_def demo_get nth_Cons split: nat.splits)

theorem constants_any_order_witness:
  "\<exists>k' inp. compileInputs 4 demo_env 0 False 2 0x10000 0 [] 0 \<lparr>k_output = (v_output demo_env), k_inputCnt = 0, k_server = scaled_sum\<rparr> =
      Some (AuSuccess, k') \<and> co_inputs (k_output k') = [inp] \<and> ci_multiplyConstant inp = AuFixedPointMultiply 0x10000 0x20000 \<and>
      ci_addConstant inp = 0x10000"
proof -
  let ?k = "\<lparr>k_output = (v_output demo_env), k_inputCnt = 0, k_server = scaled_sum\<rparr>"
  have lf: "loop_free (graph 0 scaled_sum) (\<lambda>i. min i 3)"
    unfolding scaled_sum_graph by (auto simp: loop_free_def track_count_ok_def element_inputs_def writeOutputTable_def)
  have cp: "compilable demo_env 0 (graph 0 scaled_sum) (k_server ?k)"
  proof -
    have "sv_mallocs scaled_sum = []" by (simp add: scaled_sum_def graph_server_def server_init_def)
    moreover have "linked (0, i) scaled_sum" for i by (auto simp: linked_def scaled_sum_def demo_get element0_def split: if_splits)
    ultimately show ?thesis by (simp add: compilable_def) (auto simp: scaled_sum_graph parts_ok_def)
  qed
  have "\<exists>k'. compileInputs 4 demo_env 0 False 2 0x10000 0 [] 0 ?k = Some (AuSuccess, k') \<and>
      compilable demo_env 0 (graph 0 scaled_sum) (k_server k')"
    by (rule compileInputs_total [OF lf _ cp, where raw = "MultiplyConstant 1 0x20000"])
      (simp_all add: scaled_sum_graph writeOutputTable_def)
  then obtain k' where k': "compileInputs 4 demo_env 0 False 2 0x10000 0 [] 0 ?k = Some (AuSuccess, k')" by blast
  from constants_any_order [OF k' refl, of 0 _ 1 "0x20000" "0x10000"] obtain inp where
    "co_inputs (k_output k') = co_inputs (k_output ?k) @ [inp]" "ci_multiplyConstant inp = AuFixedPointMultiply 0x10000 0x20000"
    "ci_addConstant inp = 0x10000" by (auto simp: scaled_sum_graph readInputTable_def)
  with k' show ?thesis by (auto simp: demo_env_def)
qed

end
