(* ===== verification/Resource_Table.thy ===== *)
theory Resource_Table
  imports Prelude
begin

text \<open>
  The resource table of the server (\<^verbatim>\<open>server/dia/resource.c\<close>): for every client a hash table of chains that maps resource
  numbers to typed values, which grows with the number of its entries; the creation of resource types with their delete
  functions, and the numbers the server itself hands out.

  Delete functions are values of a type \<open>'d\<close>; \<open>del\<close> runs one on a value and a number in the state \<open>'s\<close> of the rest of the
  server. (Those of this server, \<open>AuFreeComponent\<close>, \<open>freeFlow\<close>, \<open>NoopDDA\<close> and the reset of the drivers, do not use the table.)
  \<open>None\<close> is an access outside an array or the end of the server in \<^verbatim>\<open>FatalError\<close>.
\<close>

section \<open>Resources\<close>

type_synonym restype = "64 word"

abbreviation (input) SERVER_MINID :: u32 where "SERVER_MINID \<equiv> 32"
abbreviation (input) INITBUCKETS :: nat where "INITBUCKETS \<equiv> 64"
abbreviation (input) INITHASHSIZE :: nat where "INITHASHSIZE \<equiv> 6"
abbreviation (input) MAXHASHSIZE :: nat where "MAXHASHSIZE \<equiv> 11"
abbreviation (input) MAXCLIENTS :: nat where "MAXCLIENTS \<equiv> 128"
abbreviation (input) RESOURCE_ID_MASK :: u32 where "RESOURCE_ID_MASK \<equiv> 0x3FFFFF"
abbreviation (input) SERVER_BIT :: u32 where "SERVER_BIT \<equiv> 0x20000000"
abbreviation (input) RC_ANY :: restype where "RC_ANY \<equiv> - 1"
abbreviation (input) RC_LASTPREDEF :: restype where "RC_LASTPREDEF \<equiv> 0x40000000"

definition CLIENT_ID :: "u32 \<Rightarrow> nat" where
  "CLIENT_ID i = unat (drop_bit 22 (i AND 0x1fc00000))"

text \<open>A value is a pointer; \<open>None\<close> is \<^verbatim>\<open>NULL\<close>.\<close>

record resource =
  rs_id :: u32
  rs_type :: restype
  rs_value :: "nat option"

text \<open>The chains \<open>cr_resources\<close> are lists; the table of a client that is not in use has no buckets.\<close>

record client_resources =
  cr_resources :: "resource list list"
  cr_elements :: int
  cr_buckets :: nat
  cr_hashsize :: nat
  cr_fakeID :: u32
  cr_endFakeID :: u32
  cr_expectID :: u32

text \<open>\<open>rt_mallocs\<close> tells the outcome of the next allocations, \<open>rt_exceptions\<close> lists the clients marked for closing.\<close>

record 'd resources =
  rt_clientTable :: "client_resources list"
  rt_lastResourceType :: restype
  rt_lastResourceClass :: restype
  rt_TypeAuMask :: restype
  rt_DeleteFuncs :: "'d list"
  rt_exceptions :: "nat list"
  rt_mallocs :: "bool list"

definition xalloc :: "'d resources \<Rightarrow> bool \<times> 'd resources" where
  "xalloc t = (case rt_mallocs t of [] \<Rightarrow> (True, t) | b # bs \<Rightarrow> (b, t\<lparr>rt_mallocs := bs\<rparr>))"

section \<open>Types and classes\<close>

definition CreateNewResourceType :: "'d \<Rightarrow> 'd resources \<Rightarrow> restype \<times> 'd resources" where
  "CreateNewResourceType deleteFunc t =
     (let new = rt_lastResourceType t + 1 in
      if new AND rt_lastResourceClass t \<noteq> 0 then (0, t)
      else (case xalloc t of
              (False, t) \<Rightarrow> (0, t)
            | (True, t) \<Rightarrow> (new, t\<lparr>rt_lastResourceType := new, rt_DeleteFuncs := take (unat new) (rt_DeleteFuncs t) @ [deleteFunc]\<rparr>)))"

definition CreateNewResourceClass :: "'d resources \<Rightarrow> restype \<times> 'd resources" where
  "CreateNewResourceClass t =
     (let new = drop_bit 1 (rt_lastResourceClass t) in
      if new AND rt_lastResourceType t \<noteq> 0 then (0, t)
      else (new, t\<lparr>rt_lastResourceClass := new, rt_TypeAuMask := new - 1\<rparr>))"

text \<open>\<^verbatim>\<open>(*DeleteFuncs[type & TypeAuMask]) (value, id)\<close>\<close>

definition run_delete :: "('d \<Rightarrow> nat option \<Rightarrow> u32 \<Rightarrow> 's \<Rightarrow> 's option) \<Rightarrow> 'd resources \<Rightarrow> restype \<Rightarrow> nat option \<Rightarrow> u32 \<Rightarrow> 's \<Rightarrow> 's option" where
  "run_delete del t ty v i s =
     (let n = unat (ty AND rt_TypeAuMask t) in if n < length (rt_DeleteFuncs t) then del (rt_DeleteFuncs t ! n) v i s else None)"

section \<open>The tables of the clients\<close>

definition get_client :: "nat \<Rightarrow> 'd resources \<Rightarrow> client_resources option" where
  "get_client c t = (if c < length (rt_clientTable t) then Some (rt_clientTable t ! c) else None)"

definition put_client :: "nat \<Rightarrow> client_resources \<Rightarrow> 'd resources \<Rightarrow> 'd resources" where
  "put_client c cr t = t\<lparr>rt_clientTable := (rt_clientTable t)[c := cr]\<rparr>"

text \<open>For the server's own client (\<open>isServer\<close>) the types are reset too; its delete functions are \<open>noop\<close> only.\<close>

definition InitClientResources :: "'d \<Rightarrow> nat \<Rightarrow> u32 \<Rightarrow> bool \<Rightarrow> 'd resources \<Rightarrow> (bool \<times> 'd resources) option" where
  "InitClientResources noop index clientAsMask isServer t =
     (let (ok, t) = (if isServer then
            (let t = t\<lparr>rt_lastResourceType := 0, rt_lastResourceClass := RC_LASTPREDEF, rt_TypeAuMask := RC_LASTPREDEF - 1\<rparr>;
                 (ok, t) = xalloc t
             in (ok, t\<lparr>rt_DeleteFuncs := (if ok then [noop] else [])\<rparr>))
          else (True, t))
      in if \<not> ok then Some (False, t)
         else (case xalloc t of
                 (False, t) \<Rightarrow>
                   do { cr \<leftarrow> get_client index t; Some (False, put_client index (cr\<lparr>cr_resources := []\<rparr>) t) }
               | (True, t) \<Rightarrow>
                   do { _ \<leftarrow> get_client index t;
                        let fake = clientAsMask OR (if index \<noteq> 0 then SERVER_BIT else SERVER_MINID);
                        Some (True, put_client index \<lparr>cr_resources = replicate INITBUCKETS [], cr_elements = 0,
                          cr_buckets = INITBUCKETS, cr_hashsize = INITHASHSIZE, cr_fakeID = fake,
                          cr_endFakeID = (fake OR RESOURCE_ID_MASK) + 1, cr_expectID = clientAsMask\<rparr> t) }))"

text \<open>The last case returns -1, which is no index.\<close>

definition Hash :: "nat \<Rightarrow> u32 \<Rightarrow> nat option" where
  "Hash hashsize i = (let i = i AND RESOURCE_ID_MASK in
     if hashsize = 6 then Some (unat (0x03F AND (i XOR drop_bit 6 i XOR drop_bit 12 i)))
     else if hashsize = 7 then Some (unat (0x07F AND (i XOR drop_bit 7 i XOR drop_bit 13 i)))
     else if hashsize = 8 then Some (unat (0x0FF AND (i XOR drop_bit 8 i XOR drop_bit 16 i)))
     else if hashsize = 9 then Some (unat (0x1FF AND (i XOR drop_bit 9 i)))
     else if hashsize = 10 then Some (unat (0x3FF AND (i XOR drop_bit 10 i)))
     else if hashsize = 11 then Some (unat (0x7FF AND (i XOR drop_bit 11 i)))
     else None)"

definition bucket_of :: "client_resources \<Rightarrow> u32 \<Rightarrow> nat option" where
  "bucket_of cr i = do { h \<leftarrow> Hash (cr_hashsize cr) i; if h < length (cr_resources cr) then Some h else None }"

definition chain_of :: "client_resources \<Rightarrow> u32 \<Rightarrow> resource list option" where
  "chain_of cr i = do { h \<leftarrow> bucket_of cr i; Some (cr_resources cr ! h) }"

section \<open>Growing\<close>

text \<open>Every chain is walked from its head, every entry put at the tail of its new chain.\<close>

fun rehash :: "nat \<Rightarrow> resource list \<Rightarrow> resource list list \<Rightarrow> resource list list option" where
  "rehash hashsize [] rs = Some rs"
| "rehash hashsize (r # chain) rs =
     do { h \<leftarrow> Hash hashsize (rs_id r);
          (if h < length rs then rehash hashsize chain (rs[h := rs ! h @ [r]]) else None) }"

definition RebuildTable :: "nat \<Rightarrow> 'd resources \<Rightarrow> 'd resources option" where
  "RebuildTable c t =
     do { cr \<leftarrow> get_client c t;
          (case xalloc t of
             (False, t) \<Rightarrow> Some t
           | (True, t) \<Rightarrow>
               (case xalloc t of
                  (False, t) \<Rightarrow> Some t
                | (True, t) \<Rightarrow>
                    do { rs \<leftarrow> rehash (Suc (cr_hashsize cr)) (concat (cr_resources cr)) (replicate (2 * cr_buckets cr) []);
                         Some (put_client c (cr\<lparr>cr_hashsize := Suc (cr_hashsize cr), cr_buckets := 2 * cr_buckets cr,
                           cr_resources := rs\<rparr>) t) })) }"

section \<open>Adding, freeing, looking up\<close>

definition AddResource :: "('d \<Rightarrow> nat option \<Rightarrow> u32 \<Rightarrow> 's \<Rightarrow> 's option) \<Rightarrow> u32 \<Rightarrow> restype \<Rightarrow> nat option \<Rightarrow>
    'd resources \<times> 's \<Rightarrow> (bool \<times> 'd resources \<times> 's) option" where
  "AddResource del i ty v ts =
     do { let (t, s) = ts;
          let c = CLIENT_ID i;
          cr \<leftarrow> get_client c t;
          (if cr_buckets cr = 0 then Some (False, t, s)
           else do { t \<leftarrow> (if 4 * int (cr_buckets cr) \<le> cr_elements cr \<and> cr_hashsize cr < MAXHASHSIZE then RebuildTable c t else Some t);
                     cr \<leftarrow> get_client c t;
                     h \<leftarrow> bucket_of cr i;
                     (case xalloc t of
                        (False, t) \<Rightarrow> do { s \<leftarrow> run_delete del t ty v i s; Some (False, t, s) }
                      | (True, t) \<Rightarrow>
                          let cr = cr\<lparr>cr_resources := (cr_resources cr)[h := \<lparr>rs_id = i, rs_type = ty, rs_value = v\<rparr> # cr_resources cr ! h],
                                      cr_elements := cr_elements cr + 1\<rparr>;
                              cr = (if i AND SERVER_BIT = 0 \<and> cr_expectID cr \<le> i then cr\<lparr>cr_expectID := i + 1\<rparr> else cr)
                          in Some (True, put_client c cr t, s)) }) }"

text \<open>The loop of \<open>FreeResource\<close> over a chain: what is left of it, and how many entries were removed.\<close>

fun free_chain :: "('d \<Rightarrow> nat option \<Rightarrow> u32 \<Rightarrow> 's \<Rightarrow> 's option) \<Rightarrow> 'd resources \<Rightarrow> u32 \<Rightarrow> restype \<Rightarrow> resource list \<Rightarrow> 's \<Rightarrow>
    (resource list \<times> nat \<times> 's) option" where
  "free_chain del t i skip [] s = Some ([], 0, s)"
| "free_chain del t i skip (r # chain) s =
     (if rs_id r = i then
        do { s \<leftarrow> (if rs_type r \<noteq> skip then run_delete del t (rs_type r) (rs_value r) (rs_id r) s else Some s);
             (chain, n, s) \<leftarrow> free_chain del t i skip chain s;
             Some (chain, Suc n, s) }
      else do { (chain, n, s) \<leftarrow> free_chain del t i skip chain s; Some (r # chain, n, s) })"

definition FreeResource :: "('d \<Rightarrow> nat option \<Rightarrow> u32 \<Rightarrow> 's \<Rightarrow> 's option) \<Rightarrow> u32 \<Rightarrow> restype \<Rightarrow>
    'd resources \<times> 's \<Rightarrow> ('d resources \<times> 's) option" where
  "FreeResource del i skip ts =
     do { let (t, s) = ts;
          let c = CLIENT_ID i;
          cr \<leftarrow> get_client c t;
          (if cr_buckets cr = 0 then None
           else do { h \<leftarrow> bucket_of cr i;
                     (chain, n, s) \<leftarrow> free_chain del t i skip (cr_resources cr ! h) s;
                     (if n = 0 then None
                      else Some (put_client c (cr\<lparr>cr_resources := (cr_resources cr)[h := chain],
                             cr_elements := cr_elements cr - int n\<rparr>) t, s)) }) }"

text \<open>The count of elements is not adjusted.\<close>

definition FreeResourceByType :: "('d \<Rightarrow> nat option \<Rightarrow> u32 \<Rightarrow> 's \<Rightarrow> 's option) \<Rightarrow> u32 \<Rightarrow> restype \<Rightarrow> bool \<Rightarrow>
    'd resources \<times> 's \<Rightarrow> ('d resources \<times> 's) option" where
  "FreeResourceByType del i ty skipFree ts =
     do { let (t, s) = ts;
          let c = CLIENT_ID i;
          cr \<leftarrow> get_client c t;
          (if cr_buckets cr = 0 then Some (t, s)
           else do { h \<leftarrow> bucket_of cr i;
                     let chain = cr_resources cr ! h;
                     (case List.extract (\<lambda>r. rs_id r = i \<and> rs_type r = ty) chain of
                        None \<Rightarrow> Some (t, s)
                      | Some (before, r, behind) \<Rightarrow>
                          do { s \<leftarrow> (if \<not> skipFree then run_delete del t ty (rs_value r) (rs_id r) s else Some s);
                               Some (put_client c (cr\<lparr>cr_resources := (cr_resources cr)[h := before @ behind]\<rparr>) t, s) }) }) }"

fun change_first :: "u32 \<Rightarrow> restype \<Rightarrow> nat option \<Rightarrow> resource list \<Rightarrow> resource list option" where
  "change_first i ty v [] = None"
| "change_first i ty v (r # chain) =
     (if rs_id r = i \<and> rs_type r = ty then Some (r\<lparr>rs_value := v\<rparr> # chain) else map_option ((#) r) (change_first i ty v chain))"

definition ChangeResourceValue :: "u32 \<Rightarrow> restype \<Rightarrow> nat option \<Rightarrow> 'd resources \<Rightarrow> (bool \<times> 'd resources) option" where
  "ChangeResourceValue i ty v t =
     do { let c = CLIENT_ID i;
          cr \<leftarrow> get_client c t;
          (if cr_buckets cr = 0 then Some (False, t)
           else do { h \<leftarrow> bucket_of cr i;
                     (case change_first i ty v (cr_resources cr ! h) of
                        None \<Rightarrow> Some (False, t)
                      | Some chain \<Rightarrow> Some (True, put_client c (cr\<lparr>cr_resources := (cr_resources cr)[h := chain]\<rparr>) t)) }) }"

fun delete_all :: "('d \<Rightarrow> nat option \<Rightarrow> u32 \<Rightarrow> 's \<Rightarrow> 's option) \<Rightarrow> 'd resources \<Rightarrow> resource list \<Rightarrow> 's \<Rightarrow> 's option" where
  "delete_all del t [] s = Some s"
| "delete_all del t (r # rs) s = do { s \<leftarrow> run_delete del t (rs_type r) (rs_value r) (rs_id r) s; delete_all del t rs s }"

text \<open>\<open>None\<close> as client is a null pointer.\<close>

definition FreeClientResources :: "('d \<Rightarrow> nat option \<Rightarrow> u32 \<Rightarrow> 's \<Rightarrow> 's option) \<Rightarrow> nat option \<Rightarrow> 'd resources \<times> 's \<Rightarrow> ('d resources \<times> 's) option" where
  "FreeClientResources del client ts =
     (case client of None \<Rightarrow> Some ts
      | Some c \<Rightarrow>
          do { let (t, s) = ts;
               cr \<leftarrow> get_client c t;
               s \<leftarrow> delete_all del t (concat (cr_resources cr)) s;
               Some (put_client c (cr\<lparr>cr_resources := [], cr_buckets := 0\<rparr>) t, s) })"

text \<open>From the last client (\<^verbatim>\<open>currentMaxClients - 1\<close>) down; \<open>clients\<close> is the array \<^verbatim>\<open>clients\<close>.\<close>

fun FreeAllResources :: "('d \<Rightarrow> nat option \<Rightarrow> u32 \<Rightarrow> 's \<Rightarrow> 's option) \<Rightarrow> (nat \<Rightarrow> nat option) \<Rightarrow> nat \<Rightarrow> 'd resources \<times> 's \<Rightarrow> ('d resources \<times> 's) option" where
  "FreeAllResources del clients 0 ts = Some ts"
| "FreeAllResources del clients (Suc n) ts =
     do { cr \<leftarrow> get_client n (fst ts);
          ts \<leftarrow> (if cr_buckets cr \<noteq> 0 then FreeClientResources del (clients n) ts else Some ts);
          FreeAllResources del clients n ts }"

text \<open>A null result of the two lookups is \<open>Some None\<close>.\<close>

definition LookupIDByType :: "u32 \<Rightarrow> restype \<Rightarrow> 'd resources \<Rightarrow> nat option option" where
  "LookupIDByType i ty t =
     do { cr \<leftarrow> get_client (CLIENT_ID i) t;
          (if cr_buckets cr = 0 then Some None
           else do { chain \<leftarrow> chain_of cr i;
                     Some (case List.find (\<lambda>r. rs_id r = i \<and> rs_type r = ty) chain of None \<Rightarrow> None | Some r \<Rightarrow> rs_value r) }) }"

definition LookupIDByClass :: "u32 \<Rightarrow> restype \<Rightarrow> 'd resources \<Rightarrow> nat option option" where
  "LookupIDByClass i classes t =
     do { cr \<leftarrow> get_client (CLIENT_ID i) t;
          (if cr_buckets cr = 0 then Some None
           else do { chain \<leftarrow> chain_of cr i;
                     Some (case List.find (\<lambda>r. rs_id r = i \<and> rs_type r AND classes \<noteq> 0) chain of None \<Rightarrow> None | Some r \<Rightarrow> rs_value r) }) }"

definition LegalNewID :: "u32 \<Rightarrow> nat \<Rightarrow> u32 \<Rightarrow> 'd resources \<Rightarrow> bool option" where
  "LegalNewID i index clientAsMask t =
     (if clientAsMask \<noteq> i AND NOT RESOURCE_ID_MASK then Some False
      else do { cr \<leftarrow> get_client index t;
                (if cr_expectID cr \<le> i then Some True else do { v \<leftarrow> LookupIDByClass i RC_ANY t; Some (v = None) }) })"

section \<open>Numbers of the server\<close>

partial_function (option) available_loop :: "client_resources \<Rightarrow> u32 \<Rightarrow> u32 \<Rightarrow> u32 option" where
  "available_loop cr i maxid =
     (if i \<le> maxid then
        do { chain \<leftarrow> chain_of cr i;
             (if list_all (\<lambda>r. rs_id r \<noteq> i) chain then Some i else available_loop cr (i + 1) maxid) }
      else Some 0)"

definition AvailableID :: "client_resources \<Rightarrow> u32 \<Rightarrow> u32 \<Rightarrow> u32 \<Rightarrow> u32 option" where
  "AvailableID cr i maxid goodid = (if i \<le> goodid \<and> goodid \<le> maxid then Some goodid else available_loop cr i maxid)"

text \<open>The search for the longest free range: \<open>i\<close> and \<open>maxid\<close> are its bounds so far.\<close>

fun fake_scan :: "client_resources \<Rightarrow> resource list \<Rightarrow> u32 \<Rightarrow> u32 \<Rightarrow> u32 \<Rightarrow> (u32 \<times> u32) option" where
  "fake_scan cr [] i maxid goodid = Some (i, maxid)"
| "fake_scan cr (r # rs) i maxid goodid =
     (if rs_id r < i \<or> maxid < rs_id r then fake_scan cr rs i maxid goodid
      else if maxid - rs_id r \<le> rs_id r - i then
        do { goodid \<leftarrow> AvailableID cr i (rs_id r - 1) goodid;
             (if goodid \<noteq> 0 then fake_scan cr rs i (rs_id r - 1) goodid else fake_scan cr rs (rs_id r + 1) maxid goodid) }
      else do { goodid \<leftarrow> AvailableID cr (rs_id r + 1) maxid goodid;
                (if goodid = 0 then fake_scan cr rs i (rs_id r - 1) goodid else fake_scan cr rs (rs_id r + 1) maxid goodid) })"

definition FakeClientID :: "nat \<Rightarrow> 'd resources \<Rightarrow> (u32 \<times> 'd resources) option" where
  "FakeClientID c t =
     do { cr \<leftarrow> get_client c t;
          let i = cr_fakeID cr;
          let cr = cr\<lparr>cr_fakeID := i + 1\<rparr>;
          let t = put_client c cr t;
          (if i \<noteq> cr_endFakeID cr then Some (i, t)
           else do { let i = push_bit 22 (word_of_nat c) OR (if c \<noteq> 0 then SERVER_BIT else SERVER_MINID);
                     (i, maxid) \<leftarrow> fake_scan cr (concat (cr_resources cr)) i (i OR RESOURCE_ID_MASK) 0;
                     (if maxid < i then
                        (if c = 0 then None
                         else do { let i = push_bit 22 (word_of_nat c) OR (SERVER_BIT * 3);
                                   let cr = cr\<lparr>cr_fakeID := i + 1, cr_endFakeID := (i OR RESOURCE_ID_MASK) + 1\<rparr>;
                                   Some (i, put_client c cr (t\<lparr>rt_exceptions := rt_exceptions t @ [c]\<rparr>)) })
                      else Some (i, put_client c (cr\<lparr>cr_fakeID := i + 1, cr_endFakeID := maxid + 1\<rparr>) t)) }) }"

section \<open>The table as a map\<close>

text \<open>
  The entries of a number, newest first, and what is required of the tables: the hash size fits the number of chains and
  every entry lies in the chain of its number. \<open>U\<close> tells which clients are in use, \<open>tm\<close> and \<open>n\<close> are the type mask and the
  number of delete functions.
\<close>

definition entries :: "'d resources \<Rightarrow> u32 \<Rightarrow> resource list" where
  "entries t i = (case get_client (CLIENT_ID i) t of None \<Rightarrow> [] | Some cr \<Rightarrow> if cr_buckets cr = 0 then [] else
     (case chain_of cr i of None \<Rightarrow> [] | Some chain \<Rightarrow> filter (\<lambda>r. rs_id r = i) chain))"

definition typed :: "restype \<Rightarrow> nat \<Rightarrow> restype \<Rightarrow> bool" where
  "typed tm n ty \<longleftrightarrow> unat (ty AND tm) < n"

definition chains_ok :: "(restype \<Rightarrow> bool) \<Rightarrow> client_resources \<Rightarrow> bool" where
  "chains_ok T cr \<longleftrightarrow> INITHASHSIZE \<le> cr_hashsize cr \<and> cr_hashsize cr \<le> MAXHASHSIZE \<and> cr_buckets cr = 2 ^ cr_hashsize cr \<and>
     length (cr_resources cr) = cr_buckets cr \<and>
     (\<forall>h < length (cr_resources cr). \<forall>r \<in> set (cr_resources cr ! h). Hash (cr_hashsize cr) (rs_id r) = Some h \<and> T (rs_type r))"

definition table_inv :: "(nat \<Rightarrow> bool) \<Rightarrow> restype \<Rightarrow> nat \<Rightarrow> 'd resources \<Rightarrow> bool" where
  "table_inv U tm n t \<longleftrightarrow> length (rt_clientTable t) = MAXCLIENTS \<and> rt_mallocs t = [] \<and> rt_TypeAuMask t = tm \<and>
     length (rt_DeleteFuncs t) = n \<and>
     (\<forall>c < MAXCLIENTS. if U c then chains_ok (typed tm n) (rt_clientTable t ! c) else cr_buckets (rt_clientTable t ! c) = 0)"

lemma and_low_less: "unat ((k :: u32) AND x) \<le> unat k"
  using word_and_le2 [of k x] by (simp add: word_le_nat_alt)

lemma CLIENT_ID_less: "CLIENT_ID i < MAXCLIENTS"
  using and_low_less [of 127 "drop_bit 22 i"] by (simp add: CLIENT_ID_def and.commute)

lemma Hash_total:
  assumes "INITHASHSIZE \<le> hs" "hs \<le> MAXHASHSIZE"
  shows "\<exists>h. Hash hs i = Some h \<and> h < 2 ^ hs"
proof -
  have "hs = 6 \<or> hs = 7 \<or> hs = 8 \<or> hs = 9 \<or> hs = 10 \<or> hs = 11" using assms by auto
  moreover have "unat (0x3F AND x :: u32) < 64" "unat (0x7F AND x :: u32) < 128" "unat (0xFF AND x :: u32) < 256"
      "unat (0x1FF AND x :: u32) < 512" "unat (0x3FF AND x :: u32) < 1024" "unat (0x7FF AND x :: u32) < 2048" for x
    using and_low_less [of "0x3F" x] and_low_less [of "0x7F" x] and_low_less [of "0xFF" x]
      and_low_less [of "0x1FF" x] and_low_less [of "0x3FF" x] and_low_less [of "0x7FF" x] by simp_all
  ultimately show ?thesis by (elim disjE) (simp_all add: Hash_def Let_def)
qed

lemma chains_ok_bucket:
  assumes "chains_ok T cr"
  obtains h where "Hash (cr_hashsize cr) i = Some h" "bucket_of cr i = Some h" "h < length (cr_resources cr)"
    "chain_of cr i = Some (cr_resources cr ! h)"
  using assms Hash_total [of "cr_hashsize cr" i] by (auto simp: chains_ok_def bucket_of_def chain_of_def)

lemma table_inv_used:
  assumes "table_inv U tm n t" "U (CLIENT_ID i)"
  obtains cr where "get_client (CLIENT_ID i) t = Some cr" "chains_ok (typed tm n) cr" "cr_buckets cr \<noteq> 0"
  using assms CLIENT_ID_less [of i] by (auto simp: table_inv_def get_client_def chains_ok_def)

lemma table_inv_unused:
  assumes "table_inv U tm n t" "\<not> U (CLIENT_ID i)"
  obtains cr where "get_client (CLIENT_ID i) t = Some cr" "cr_buckets cr = 0"
  using assms CLIENT_ID_less [of i] by (auto simp: table_inv_def get_client_def)

lemma entries_unused: "table_inv U tm n t \<Longrightarrow> \<not> U (CLIENT_ID i) \<Longrightarrow> entries t i = []"
  by (erule (1) table_inv_unused) (simp add: entries_def)

lemma table_inv_put:
  assumes "table_inv U tm n t" "U c" "chains_ok (typed tm n) cr" "c < MAXCLIENTS"
  shows "table_inv U tm n (put_client c cr t)"
  using assms by (auto simp: table_inv_def put_client_def nth_list_update)

text \<open>Replacing the chain of number \<open>i\<close> by one that agrees on the other numbers.\<close>

lemma set_chain:
  assumes inv: "table_inv U tm n t" "U (CLIENT_ID i)" and cr: "get_client (CLIENT_ID i) t = Some cr" "bucket_of cr i = Some h"
    and cr': "cr_resources cr' = (cr_resources cr)[h := chain]" "cr_hashsize cr' = cr_hashsize cr" "cr_buckets cr' = cr_buckets cr"
    and same: "\<And>j. j \<noteq> i \<Longrightarrow> filter (\<lambda>r. rs_id r = j) chain = filter (\<lambda>r. rs_id r = j) (cr_resources cr ! h)"
    and T: "\<forall>r \<in> set chain. rs_id r = i \<longrightarrow> typed tm n (rs_type r)"
  shows "table_inv U tm n (put_client (CLIENT_ID i) cr' t)"
    and "entries (put_client (CLIENT_ID i) cr' t) = (entries t)(i := filter (\<lambda>r. rs_id r = i) chain)"
proof -
  have ok: "chains_ok (typed tm n) cr" "cr_buckets cr \<noteq> 0" using inv cr(1) by (auto elim: table_inv_used)
  obtain h' where "Hash (cr_hashsize cr) i = Some h'" "bucket_of cr i = Some h'" "h' < length (cr_resources cr)"
    using chains_ok_bucket [OF ok(1), of i] by blast
  then have h: "Hash (cr_hashsize cr) i = Some h" "h < length (cr_resources cr)" using cr(2) by auto
  have mem: "Hash (cr_hashsize cr) (rs_id r) = Some h \<and> typed tm n (rs_type r)" if "r \<in> set chain" for r
  proof (cases "rs_id r = i")
    case False
    have "r \<in> set (filter (\<lambda>r'. rs_id r' = rs_id r) chain)" using that by simp
    then have "r \<in> set (cr_resources cr ! h)" unfolding same [OF False] by simp
    then show ?thesis using ok(1) h(2) by (auto simp: chains_ok_def)
  qed (use that h T in auto)
  have "chains_ok (typed tm n) cr'"
    using ok(1) mem h unfolding chains_ok_def cr' by (auto simp: nth_list_update)
  then show "table_inv U tm n (put_client (CLIENT_ID i) cr' t)" using CLIENT_ID_less by (rule table_inv_put [OF inv])
  show "entries (put_client (CLIENT_ID i) cr' t) = (entries t)(i := filter (\<lambda>r. rs_id r = i) chain)"
  proof
    fix j
    show "entries (put_client (CLIENT_ID i) cr' t) j = ((entries t)(i := filter (\<lambda>r. rs_id r = i) chain)) j"
    proof (cases "CLIENT_ID j = CLIENT_ID i")
      case False
      then show ?thesis by (auto simp: entries_def get_client_def put_client_def)
    next
      case True
      obtain hj where hj: "Hash (cr_hashsize cr) j = Some hj" "hj < length (cr_resources cr)"
        using chains_ok_bucket [OF ok(1), of j] by blast
      have "entries (put_client (CLIENT_ID i) cr' t) j = filter (\<lambda>r. rs_id r = j) ((cr_resources cr)[h := chain] ! hj)"
        using cr(1) True hj ok(2) by (auto simp: entries_def get_client_def put_client_def chain_of_def bucket_of_def cr' split: if_splits)
      moreover have "entries t j = filter (\<lambda>r. rs_id r = j) (cr_resources cr ! hj)"
        using cr(1) True hj ok(2) by (simp add: entries_def chain_of_def bucket_of_def)
      moreover have "j = i \<Longrightarrow> hj = h" using hj(1) h(1) by simp
      ultimately show ?thesis using same [of j] h(2) by (cases "j = i"; cases "hj = h") auto
    qed
  qed
qed

lemma entries_chain:
  assumes "table_inv U tm n t" "U (CLIENT_ID i)" "get_client (CLIENT_ID i) t = Some cr" "bucket_of cr i = Some h"
  shows "entries t i = filter (\<lambda>r. rs_id r = i) (cr_resources cr ! h)"
proof -
  have "cr_buckets cr \<noteq> 0" using assms by (auto elim: table_inv_used)
  with assms(3,4) show ?thesis by (simp add: entries_def chain_of_def)
qed

lemma entries_typed:
  assumes "table_inv U tm n t" "r \<in> set (entries t i)"
  shows "typed tm n (rs_type r)" "rs_id r = i"
proof -
  have U: "U (CLIENT_ID i)" using entries_unused [OF assms(1)] assms(2) by fastforce
  obtain cr where cr: "get_client (CLIENT_ID i) t = Some cr" "chains_ok (typed tm n) cr" using table_inv_used [OF assms(1) U] by blast
  obtain h where h: "bucket_of cr i = Some h" "h < length (cr_resources cr)" using chains_ok_bucket [OF cr(2), of i] by blast
  show "typed tm n (rs_type r)" "rs_id r = i"
    using assms(2) cr(2) h(2) unfolding entries_chain [OF assms(1) U cr(1) h(1)] by (auto simp: chains_ok_def)
qed

section \<open>Growing keeps the entries\<close>

lemma rehash_spec:
  "INITHASHSIZE \<le> hs \<Longrightarrow> hs \<le> MAXHASHSIZE \<Longrightarrow> length rs = 2 ^ hs \<Longrightarrow>
   \<exists>rs'. rehash hs chain rs = Some rs' \<and> length rs' = 2 ^ hs \<and>
     (\<forall>h < 2 ^ hs. rs' ! h = rs ! h @ filter (\<lambda>r. Hash hs (rs_id r) = Some h) chain)"
proof (induction chain arbitrary: rs)
  case (Cons r chain)
  obtain h where h: "Hash hs (rs_id r) = Some h" "h < 2 ^ hs" using Hash_total [OF Cons.prems(1,2)] by blast
  have "length (rs[h := rs ! h @ [r]]) = 2 ^ hs" using Cons.prems(3) by simp
  from Cons.IH [OF Cons.prems(1,2) this] obtain rs' where "rehash hs chain (rs[h := rs ! h @ [r]]) = Some rs'" "length rs' = 2 ^ hs"
    "\<forall>h' < 2 ^ hs. rs' ! h' = rs[h := rs ! h @ [r]] ! h' @ filter (\<lambda>r. Hash hs (rs_id r) = Some h') chain" by blast
  with h Cons.prems(3) show ?case by (auto simp: nth_list_update)
qed auto

lemma filter_concat_bucket:
  assumes "chains_ok T cr" "Hash (cr_hashsize cr) j = Some h" "h < length (cr_resources cr)"
  shows "filter (\<lambda>r. rs_id r = j) (concat (cr_resources cr)) = filter (\<lambda>r. rs_id r = j) (cr_resources cr ! h)"
proof -
  let ?rs = "cr_resources cr" and ?f = "filter (\<lambda>r. rs_id r = j)"
  have other: "?f (?rs ! k) = []" if "k < length ?rs" "k \<noteq> h" for k
    using assms that by (auto simp: chains_ok_def filter_empty_conv)
  have e: "concat (map ?f xs) = []" if "\<And>k. k < length xs \<Longrightarrow> ?f (xs ! k) = []" for xs
    using that by (auto simp: in_set_conv_nth)
  have split: "?rs = take h ?rs @ ?rs ! h # drop (Suc h) ?rs" using assms(3) by (simp add: id_take_nth_drop)
  have "?f (concat ?rs) = concat (map ?f ?rs)" by (simp add: filter_concat)
  also have "\<dots> = concat (map ?f (take h ?rs)) @ ?f (?rs ! h) @ concat (map ?f (drop (Suc h) ?rs))"
    by (subst split) simp
  also have "concat (map ?f (take h ?rs)) = []" using other assms(3) by (intro e) simp
  also have "concat (map ?f (drop (Suc h) ?rs)) = []" using other assms(3) by (intro e) simp
  also have "[] @ ?f (?rs ! h) @ [] = ?f (?rs ! h)" by simp
  finally show ?thesis .
qed

lemma chains_ok_typed: "chains_ok T cr \<Longrightarrow> r \<in> set (concat (cr_resources cr)) \<Longrightarrow> T (rs_type r)"
  by (auto simp: chains_ok_def in_set_conv_nth [of _ "cr_resources cr"])

lemma RebuildTable_entries:
  assumes inv: "table_inv U tm n t" "U c" and cr: "get_client c t = Some cr" "cr_hashsize cr < MAXHASHSIZE"
  shows "\<exists>cr' t'. RebuildTable c t = Some t' \<and> t' = put_client c cr' t \<and> table_inv U tm n t' \<and> entries t' = entries t \<and>
    set (concat (cr_resources cr')) = set (concat (cr_resources cr)) \<and>
    length (concat (cr_resources cr')) = length (concat (cr_resources cr)) \<and>
    cr_elements cr' = cr_elements cr \<and> cr_expectID cr' = cr_expectID cr"
proof -
  have c: "c < MAXCLIENTS" "chains_ok (typed tm n) cr"
    using inv cr(1) by (auto simp: table_inv_def get_client_def split: if_splits)
  let ?hs = "Suc (cr_hashsize cr)"
  have hs: "INITHASHSIZE \<le> ?hs" "?hs \<le> MAXHASHSIZE" and len: "length (cr_resources cr) = cr_buckets cr" "2 * cr_buckets cr = 2 ^ ?hs"
    and nz: "cr_buckets cr \<noteq> 0"
    using c(2) cr(2) by (auto simp: chains_ok_def)
  obtain rs where rs: "rehash ?hs (concat (cr_resources cr)) (replicate (2 * cr_buckets cr) []) = Some rs" "length rs = 2 ^ ?hs"
      "\<forall>h < 2 ^ ?hs. rs ! h = replicate (2 * cr_buckets cr) [] ! h @ filter (\<lambda>r. Hash ?hs (rs_id r) = Some h) (concat (cr_resources cr))"
    using rehash_spec [OF hs, of "replicate (2 * cr_buckets cr) []" "concat (cr_resources cr)"] len(2) by auto
  have rs3: "rs ! h = filter (\<lambda>r. Hash ?hs (rs_id r) = Some h) (concat (cr_resources cr))" if "h < length rs" for h
    using rs(2,3) len(2) that by simp
  let ?cr = "cr\<lparr>cr_hashsize := ?hs, cr_buckets := 2 * cr_buckets cr, cr_resources := rs\<rparr>"
  have ok: "chains_ok (typed tm n) ?cr"
    using hs len(2) rs(2) rs3 chains_ok_typed [OF c(2)] by (auto simp: chains_ok_def)
  have mal: "rt_mallocs t = []" using inv(1) by (simp add: table_inv_def)
  have R: "RebuildTable c t = Some (put_client c ?cr t)"
    using cr(1) rs(1) mal by (simp add: RebuildTable_def xalloc_def)
  have ent: "entries (put_client c ?cr t) = entries t"
  proof
    fix j
    show "entries (put_client c ?cr t) j = entries t j"
    proof (cases "CLIENT_ID j = c")
      case False
      then show ?thesis by (auto simp: entries_def get_client_def put_client_def)
    next
      case True
      obtain h where h: "Hash (cr_hashsize cr) j = Some h" "h < length (cr_resources cr)" "bucket_of cr j = Some h"
        using chains_ok_bucket [OF c(2), of j] by blast
      obtain h' where h': "Hash ?hs j = Some h'" "h' < length rs" "chain_of ?cr j = Some (rs ! h')"
        using chains_ok_bucket [OF ok, of j] by auto
      have "get_client c (put_client c ?cr t) = Some ?cr" using cr(1) by (auto simp: get_client_def put_client_def split: if_splits)
      then have "entries (put_client c ?cr t) j = filter (\<lambda>r. rs_id r = j) (rs ! h')"
        using True h'(3) nz by (simp add: entries_def)
      also have "\<dots> = filter (\<lambda>r. rs_id r = j) (concat (cr_resources cr))"
        unfolding rs3 [OF h'(2)] filter_filter using h'(1) by (intro filter_cong) auto
      also have "\<dots> = filter (\<lambda>r. rs_id r = j) (cr_resources cr ! h)" by (rule filter_concat_bucket [OF c(2) h(1,2)])
      also have "\<dots> = entries t j" using entries_chain [OF inv(1) _ _ h(3)] True inv(2) cr(1) by simp
      finally show ?thesis .
    qed
  qed
  have mem: "set (concat rs) = set (concat (cr_resources cr))"
  proof -
    have "r \<in> set (concat rs)" if r: "r \<in> set (concat (cr_resources cr))" for r
    proof -
      obtain h where h: "Hash ?hs (rs_id r) = Some h" "h < length rs" using Hash_total [OF hs, of "rs_id r"] rs(2) by auto
      then have "r \<in> set (rs ! h)" using r rs3 [OF h(2)] by simp
      then show ?thesis using h(2) by (metis UN_I nth_mem set_concat)
    qed
    moreover have "set (concat rs) \<subseteq> set (concat (cr_resources cr))" using rs3 by (auto simp: in_set_conv_nth [of _ rs])
    ultimately show ?thesis by blast
  qed
  have "length (concat rs) = (\<Sum>h < length rs. length (rs ! h))"
    by (simp add: length_concat sum_list_sum_nth atLeast0LessThan)
  also have "\<dots> = (\<Sum>h < length rs. length (filter (\<lambda>r. Hash ?hs (rs_id r) = Some h) (concat (cr_resources cr))))"
    using rs3 by (intro sum.cong) auto
  also have "\<dots> = length (concat (cr_resources cr))"
  proof -
    have "(\<Sum>h < 2 ^ ?hs. length (filter (\<lambda>r. Hash ?hs (rs_id r) = Some h) xs)) = length xs" for xs
    proof (induction xs)
      case (Cons r xs)
      obtain h0 where h0: "Hash ?hs (rs_id r) = Some h0" "h0 < 2 ^ ?hs" using Hash_total [OF hs] by blast
      have "length (filter (\<lambda>r. Hash ?hs (rs_id r) = Some h) (r # xs)) =
          (if h = h0 then 1 else 0) + length (filter (\<lambda>r. Hash ?hs (rs_id r) = Some h) xs)" for h
        using h0(1) by simp
      with Cons h0(2) show ?case by (simp add: sum.distrib del: power_Suc)
    qed simp
    then show ?thesis using rs(2) by simp
  qed
  finally have "length (concat rs) = length (concat (cr_resources cr))" .
  with R ent mem table_inv_put [OF inv ok c(1)] show ?thesis by (intro exI [of _ ?cr] exI [of _ "put_client c ?cr t"]) simp
qed

section \<open>The operations on the entries\<close>

text \<open>The calls of the delete functions are logged.\<close>

type_synonym calls = "(nat option \<times> u32) list"

definition log_del :: "'d \<Rightarrow> nat option \<Rightarrow> u32 \<Rightarrow> calls \<Rightarrow> calls option" where
  "log_del d v i s = Some (s @ [(v, i)])"

lemma run_delete_log:
  "table_inv U tm n t \<Longrightarrow> typed tm n ty \<Longrightarrow> run_delete log_del t ty v i s = Some (s @ [(v, i)])"
  by (simp add: run_delete_def table_inv_def typed_def log_del_def Let_def)

lemma put_put: "put_client c cr' (put_client c cr t) = put_client c cr' t"
  by (simp add: put_client_def)

lemma AddResource_entries:
  assumes inv: "table_inv U tm n t" and ty: "typed tm n ty"
  shows "\<exists>t'. AddResource del i ty v (t, s) = Some (U (CLIENT_ID i), t', s) \<and> table_inv U tm n t' \<and>
    entries t' = (if U (CLIENT_ID i) then (entries t)(i := \<lparr>rs_id = i, rs_type = ty, rs_value = v\<rparr> # entries t i) else entries t)"
proof (cases "U (CLIENT_ID i)")
  case False
  obtain cr where "get_client (CLIENT_ID i) t = Some cr" "cr_buckets cr = 0" using table_inv_unused [OF inv False] .
  with False inv show ?thesis by (simp add: AddResource_def Let_def)
next
  case True
  obtain cr0 where cr0: "get_client (CLIENT_ID i) t = Some cr0" "cr_buckets cr0 \<noteq> 0"
    using table_inv_used [OF inv True] by blast
  let ?full = "4 * int (cr_buckets cr0) \<le> cr_elements cr0 \<and> cr_hashsize cr0 < MAXHASHSIZE"
  obtain t1 where t1: "(if ?full then RebuildTable (CLIENT_ID i) t else Some t) = Some t1" "table_inv U tm n t1" "entries t1 = entries t"
    using RebuildTable_entries [OF inv True cr0(1)] inv by (cases ?full) auto
  obtain cr where cr: "get_client (CLIENT_ID i) t1 = Some cr" "chains_ok (typed tm n) cr" using table_inv_used [OF t1(2) True] by blast
  obtain h where h: "bucket_of cr i = Some h" using chains_ok_bucket [OF cr(2), of i] by blast
  let ?r = "\<lparr>rs_id = i, rs_type = ty, rs_value = v\<rparr>"
  let ?cr = "cr\<lparr>cr_resources := (cr_resources cr)[h := ?r # cr_resources cr ! h], cr_elements := cr_elements cr + 1\<rparr>"
  let ?cr' = "if i AND SERVER_BIT = 0 \<and> cr_expectID cr \<le> i then ?cr\<lparr>cr_expectID := i + 1\<rparr> else ?cr"
  have mal: "rt_mallocs t1 = []" using t1(2) by (simp add: table_inv_def)
  have "AddResource del i ty v (t, s) = Some (True, put_client (CLIENT_ID i) ?cr' t1, s)"
    using cr0 t1(1) cr(1) h mal by (auto simp: AddResource_def Let_def xalloc_def)
  moreover have e: "filter (\<lambda>r. rs_id r = i) (cr_resources cr ! h) = entries t i"
    using entries_chain [OF t1(2) True cr(1) h] t1(3) by simp
  have T: "\<forall>r \<in> set (?r # cr_resources cr ! h). rs_id r = i \<longrightarrow> typed tm n (rs_type r)"
  proof (intro ballI impI)
    fix r assume "r \<in> set (?r # cr_resources cr ! h)" "rs_id r = i"
    then have "r = ?r \<or> r \<in> set (entries t i)" unfolding e [symmetric] by auto
    then show "typed tm n (rs_type r)" using ty entries_typed(1) [OF inv] by auto
  qed
  note s = set_chain [OF t1(2) True cr(1) h, of ?cr' "?r # cr_resources cr ! h", OF _ _ _ _ T]
  have "table_inv U tm n (put_client (CLIENT_ID i) ?cr' t1)" by (rule s(1)) auto
  moreover have "entries (put_client (CLIENT_ID i) ?cr' t1) = (entries t)(i := ?r # entries t i)"
    unfolding t1(3) [symmetric] by (subst s(2)) (auto simp: e t1(3))
  ultimately show ?thesis using True by simp
qed

lemma free_chain_log:
  "table_inv U tm n t \<Longrightarrow> \<forall>r \<in> set chain. typed tm n (rs_type r) \<Longrightarrow>
   free_chain log_del t i skip chain s = Some (filter (\<lambda>r. rs_id r \<noteq> i) chain, length (filter (\<lambda>r. rs_id r = i) chain),
     s @ map (\<lambda>r. (rs_value r, i)) (filter (\<lambda>r. rs_type r \<noteq> skip) (filter (\<lambda>r. rs_id r = i) chain)))"
  by (induction chain arbitrary: s) (auto simp: run_delete_log)

lemma FreeResource_entries:
  assumes inv: "table_inv U tm n t"
  shows "if entries t i = [] then FreeResource log_del i skip (t, s) = None
    else \<exists>t'. FreeResource log_del i skip (t, s) =
           Some (t', s @ map (\<lambda>r. (rs_value r, i)) (filter (\<lambda>r. rs_type r \<noteq> skip) (entries t i))) \<and>
         table_inv U tm n t' \<and> entries t' = (entries t)(i := [])"
proof (cases "U (CLIENT_ID i)")
  case False
  obtain cr where "get_client (CLIENT_ID i) t = Some cr" "cr_buckets cr = 0" using table_inv_unused [OF inv False] .
  with entries_unused [OF inv False] show ?thesis by (simp add: FreeResource_def Let_def)
next
  case True
  obtain cr where cr: "get_client (CLIENT_ID i) t = Some cr" "chains_ok (typed tm n) cr" "cr_buckets cr \<noteq> 0"
    using table_inv_used [OF inv True] by blast
  obtain h where h: "bucket_of cr i = Some h" "h < length (cr_resources cr)" using chains_ok_bucket [OF cr(2), of i] by blast
  have ty: "\<forall>r \<in> set (cr_resources cr ! h). typed tm n (rs_type r)" using cr(2) h(2) by (auto simp: chains_ok_def)
  note e = entries_chain [OF inv True cr(1) h(1)]
  let ?chain = "filter (\<lambda>r. rs_id r \<noteq> i) (cr_resources cr ! h)"
  let ?cr = "cr\<lparr>cr_resources := (cr_resources cr)[h := ?chain], cr_elements := cr_elements cr - int (length (entries t i))\<rparr>"
  have F: "FreeResource log_del i skip (t, s) = (if entries t i = [] then None else
      Some (put_client (CLIENT_ID i) ?cr t, s @ map (\<lambda>r. (rs_value r, i)) (filter (\<lambda>r. rs_type r \<noteq> skip) (entries t i))))"
    using cr(1,3) h(1) free_chain_log [OF inv ty, of i skip s] by (simp add: FreeResource_def Let_def e [symmetric])
  have "filter (\<lambda>r. rs_id r = j) ?chain = filter (\<lambda>r. rs_id r = j) (cr_resources cr ! h)" if "j \<noteq> i" for j
    using that by (simp add: filter_filter) (intro filter_cong, auto)
  from set_chain [OF inv True cr(1) h(1), of ?cr ?chain, OF _ _ _ this] have "table_inv U tm n (put_client (CLIENT_ID i) ?cr t)"
    "entries (put_client (CLIENT_ID i) ?cr t) = (entries t)(i := filter (\<lambda>r. rs_id r = i) ?chain)" using ty by auto
  with F show ?thesis by (auto simp: filter_filter)
qed

lemma extract_filter:
  assumes "\<And>x. P x \<Longrightarrow> Q x"
  shows "(case List.extract P xs of None \<Rightarrow> List.extract P (filter Q xs) = None
    | Some (b, r, a) \<Rightarrow> List.extract P (filter Q xs) = Some (filter Q b, r, filter Q a))"
  using assms by (induction xs) (auto simp: extract_Nil_code extract_Cons_code split: option.splits)

lemma find_filter: "(\<And>x. P x \<Longrightarrow> Q x) \<Longrightarrow> List.find P (filter Q xs) = List.find P xs"
  by (induction xs) auto

lemma change_first_filter:
  "(case change_first i ty v chain of None \<Rightarrow> change_first i ty v (filter (\<lambda>r. rs_id r = i) chain) = None
    | Some chain' \<Rightarrow> change_first i ty v (filter (\<lambda>r. rs_id r = i) chain) = Some (filter (\<lambda>r. rs_id r = i) chain') \<and>
        (\<forall>j. j \<noteq> i \<longrightarrow> filter (\<lambda>r. rs_id r = j) chain' = filter (\<lambda>r. rs_id r = j) chain) \<and>
        (\<forall>r \<in> set chain'. rs_type r \<in> rs_type ` set chain))"
  by (induction chain) (auto split: option.splits)


lemma extract_own:
  "List.extract (\<lambda>r. rs_type r = ty) (filter (\<lambda>r. rs_id r = i) rs) = List.extract (\<lambda>r. rs_id r = i \<and> rs_type r = ty) (filter (\<lambda>r. rs_id r = i) rs)"
  by (induction rs) (auto simp: extract_Nil_code extract_Cons_code split: option.splits)

lemma find_own:
  "List.find (\<lambda>r. rs_type r = ty) (filter (\<lambda>r. rs_id r = i) rs) = List.find (\<lambda>r. rs_id r = i \<and> rs_type r = ty) rs"
  by (induction rs) auto

lemma FreeResourceByType_entries:
  assumes inv: "table_inv U tm n t"
  shows "\<exists>t'. FreeResourceByType log_del i ty skipFree (t, s) = Some (t',
       (case List.extract (\<lambda>r. rs_type r = ty) (entries t i) of Some (b, r, a) \<Rightarrow> s @ (if skipFree then [] else [(rs_value r, i)]) | None \<Rightarrow> s)) \<and>
     table_inv U tm n t' \<and>
     entries t' = (case List.extract (\<lambda>r. rs_type r = ty) (entries t i) of Some (b, r, a) \<Rightarrow> (entries t)(i := b @ a) | None \<Rightarrow> entries t)"
proof (cases "U (CLIENT_ID i)")
  case False
  obtain cr where "get_client (CLIENT_ID i) t = Some cr" "cr_buckets cr = 0" using table_inv_unused [OF inv False] .
  with entries_unused [OF inv False] inv show ?thesis by (simp add: FreeResourceByType_def Let_def extract_Nil_code)
next
  case True
  obtain cr where cr: "get_client (CLIENT_ID i) t = Some cr" "chains_ok (typed tm n) cr" "cr_buckets cr \<noteq> 0"
    using table_inv_used [OF inv True] by blast
  obtain h where h: "bucket_of cr i = Some h" "h < length (cr_resources cr)" using chains_ok_bucket [OF cr(2), of i] by blast
  note e = entries_chain [OF inv True cr(1) h(1)]
  let ?P = "\<lambda>r. rs_id r = i \<and> rs_type r = ty" and ?f = "filter (\<lambda>r. rs_id r = i)"
  have P: "List.extract (\<lambda>r. rs_type r = ty) (entries t i) = List.extract ?P (entries t i)"
    unfolding e by (rule extract_own)
  note x = extract_filter [of ?P "\<lambda>r. rs_id r = i" "cr_resources cr ! h"]
  show ?thesis
  proof (cases "List.extract ?P (cr_resources cr ! h)")
    case None
    have "List.extract (\<lambda>r. rs_type r = ty) (entries t i) = None" using x None P e by simp
    with None cr(1,3) h(1) inv show ?thesis by (simp add: FreeResourceByType_def Let_def)
  next
    case (Some bra)
    obtain b r a where bra: "List.extract ?P (cr_resources cr ! h) = Some (b, r, a)" using Some by (cases bra) auto
    have ent: "List.extract (\<lambda>r. rs_type r = ty) (entries t i) = Some (?f b, r, ?f a)" using x bra P e by simp
    have chain: "cr_resources cr ! h = b @ r # a" and r: "rs_id r = i" "rs_type r = ty" using bra by (auto dest: extract_SomeE)
    have ty: "typed tm n ty" using cr(2) h(2) chain r unfolding chains_ok_def by fastforce
    let ?cr = "cr\<lparr>cr_resources := (cr_resources cr)[h := b @ a]\<rparr>"
    have F: "FreeResourceByType log_del i ty skipFree (t, s) =
        Some (put_client (CLIENT_ID i) ?cr t, s @ (if skipFree then [] else [(rs_value r, i)]))"
      using cr(1,3) h(1) bra r run_delete_log [OF inv ty] by (simp add: FreeResourceByType_def Let_def)
    have T: "\<forall>r \<in> set (b @ a). rs_id r = i \<longrightarrow> typed tm n (rs_type r)"
      using cr(2) h(2) chain unfolding chains_ok_def by (metis Un_iff list.set_intros(2) set_append)
    note s = set_chain [OF inv True cr(1) h(1), of ?cr "b @ a", OF _ _ _ _ T]
    have "table_inv U tm n (put_client (CLIENT_ID i) ?cr t)" by (rule s(1)) (auto simp: chain r)
    moreover have "entries (put_client (CLIENT_ID i) ?cr t) = (entries t)(i := ?f b @ ?f a)"
      by (subst s(2)) (auto simp: chain r)
    ultimately show ?thesis using F ent by simp
  qed
qed

lemma ChangeResourceValue_entries:
  assumes inv: "table_inv U tm n t"
  shows "\<exists>t'. ChangeResourceValue i ty v t = Some (change_first i ty v (entries t i) \<noteq> None, t') \<and> table_inv U tm n t' \<and>
     entries t' = (case change_first i ty v (entries t i) of Some es \<Rightarrow> (entries t)(i := es) | None \<Rightarrow> entries t)"
proof (cases "U (CLIENT_ID i)")
  case False
  obtain cr where "get_client (CLIENT_ID i) t = Some cr" "cr_buckets cr = 0" using table_inv_unused [OF inv False] .
  with entries_unused [OF inv False] inv show ?thesis by (simp add: ChangeResourceValue_def Let_def)
next
  case True
  obtain cr where cr: "get_client (CLIENT_ID i) t = Some cr" "chains_ok (typed tm n) cr" "cr_buckets cr \<noteq> 0"
    using table_inv_used [OF inv True] by blast
  obtain h where h: "bucket_of cr i = Some h" "h < length (cr_resources cr)" using chains_ok_bucket [OF cr(2), of i] by blast
  note e = entries_chain [OF inv True cr(1) h(1)]
  note x = change_first_filter [of i ty v "cr_resources cr ! h"]
  show ?thesis
  proof (cases "change_first i ty v (cr_resources cr ! h)")
    case None
    have "change_first i ty v (entries t i) = None" using x None e by simp
    with None cr(1,3) h(1) inv show ?thesis by (simp add: ChangeResourceValue_def Let_def)
  next
    case (Some chain)
    let ?cr = "cr\<lparr>cr_resources := (cr_resources cr)[h := chain]\<rparr>"
    have F: "ChangeResourceValue i ty v t = Some (True, put_client (CLIENT_ID i) ?cr t)"
      using cr(1,3) h(1) Some by (simp add: ChangeResourceValue_def Let_def)
    have T: "\<forall>r \<in> set chain. rs_id r = i \<longrightarrow> typed tm n (rs_type r)"
      using x Some cr(2) h(2) unfolding chains_ok_def by fastforce
    note s = set_chain [OF inv True cr(1) h(1), of ?cr chain, OF _ _ _ _ T]
    have "table_inv U tm n (put_client (CLIENT_ID i) ?cr t)" by (rule s(1)) (use x Some in auto)
    moreover have "entries (put_client (CLIENT_ID i) ?cr t) = (entries t)(i := filter (\<lambda>r. rs_id r = i) chain)"
      by (subst s(2)) (use x Some in auto)
    ultimately show ?thesis using F x Some e by simp
  qed
qed


lemma LookupIDByType_entries:
  assumes inv: "table_inv U tm n t"
  shows "LookupIDByType i ty t = Some (case List.find (\<lambda>r. rs_type r = ty) (entries t i) of Some r \<Rightarrow> rs_value r | None \<Rightarrow> None)"
proof (cases "U (CLIENT_ID i)")
  case False
  obtain cr where "get_client (CLIENT_ID i) t = Some cr" "cr_buckets cr = 0" using table_inv_unused [OF inv False] .
  with entries_unused [OF inv False] show ?thesis by (simp add: LookupIDByType_def)
next
  case True
  obtain cr where cr: "get_client (CLIENT_ID i) t = Some cr" "chains_ok (typed tm n) cr" "cr_buckets cr \<noteq> 0"
    using table_inv_used [OF inv True] by blast
  obtain h where h: "bucket_of cr i = Some h" using chains_ok_bucket [OF cr(2), of i] by blast
  show ?thesis
    using cr(1,3) h unfolding entries_chain [OF inv True cr(1) h] find_own
    by (auto simp: LookupIDByType_def chain_of_def split: option.split)
qed

section \<open>The interface of the table\<close>

text \<open>
  The operations on a table as requests with their results, and what they do to the entries of the numbers and to the log of
  the delete functions; \<open>None\<close> is \<^verbatim>\<open>FatalError\<close>, on freeing a number that has no entry.
\<close>

datatype rop =
  Add u32 restype "nat option"
| Free u32 restype
| FreeByType u32 restype bool
| Change u32 restype "nat option"
| Find u32 restype

datatype rresult = Done | Success bool | Found "nat option"

type_synonym rmap = "u32 \<Rightarrow> resource list"

fun spec_step :: "(nat \<Rightarrow> bool) \<Rightarrow> rop \<Rightarrow> rmap \<times> calls \<Rightarrow> (rresult \<times> rmap \<times> calls) option" where
  "spec_step U (Add i ty v) (m, s) =
     Some (Success (U (CLIENT_ID i)),
       (if U (CLIENT_ID i) then m(i := \<lparr>rs_id = i, rs_type = ty, rs_value = v\<rparr> # m i) else m), s)"
| "spec_step U (Free i skip) (m, s) =
     (if m i = [] then None else Some (Done, m(i := []), s @ map (\<lambda>r. (rs_value r, i)) (filter (\<lambda>r. rs_type r \<noteq> skip) (m i))))"
| "spec_step U (FreeByType i ty skipFree) (m, s) =
     Some (case List.extract (\<lambda>r. rs_type r = ty) (m i) of
             None \<Rightarrow> (Done, m, s)
           | Some (b, r, a) \<Rightarrow> (Done, m(i := b @ a), s @ (if skipFree then [] else [(rs_value r, i)])))"
| "spec_step U (Change i ty v) (m, s) =
     Some (case change_first i ty v (m i) of None \<Rightarrow> (Success False, m, s) | Some es \<Rightarrow> (Success True, m(i := es), s))"
| "spec_step U (Find i ty) (m, s) =
     Some (Found (case List.find (\<lambda>r. rs_type r = ty) (m i) of Some r \<Rightarrow> rs_value r | None \<Rightarrow> None), m, s)"

fun run_ops :: "('o \<Rightarrow> 't \<times> calls \<Rightarrow> (rresult \<times> 't \<times> calls) option) \<Rightarrow> 'o list \<Rightarrow> 't \<times> calls \<Rightarrow> (rresult list \<times> 't \<times> calls) option" where
  "run_ops step [] ts = Some ([], ts)"
| "run_ops step (op # ops) ts = do { (r, ts) \<leftarrow> step op ts; (rs, ts) \<leftarrow> run_ops step ops ts; Some (r # rs, ts) }"

fun rop_typed :: "(restype \<Rightarrow> bool) \<Rightarrow> rop \<Rightarrow> bool" where
  "rop_typed T (Add i ty v) \<longleftrightarrow> T ty"
| "rop_typed T _ \<longleftrightarrow> True"

text \<open>A request to the five operations of a table.\<close>

fun ops_step :: "(u32 \<Rightarrow> restype \<Rightarrow> nat option \<Rightarrow> 't \<times> calls \<Rightarrow> (bool \<times> 't \<times> calls) option) \<Rightarrow>
    (u32 \<Rightarrow> restype \<Rightarrow> 't \<times> calls \<Rightarrow> ('t \<times> calls) option) \<Rightarrow> (u32 \<Rightarrow> restype \<Rightarrow> bool \<Rightarrow> 't \<times> calls \<Rightarrow> ('t \<times> calls) option) \<Rightarrow>
    (u32 \<Rightarrow> restype \<Rightarrow> nat option \<Rightarrow> 't \<Rightarrow> (bool \<times> 't) option) \<Rightarrow> (u32 \<Rightarrow> restype \<Rightarrow> 't \<Rightarrow> nat option option) \<Rightarrow>
    rop \<Rightarrow> 't \<times> calls \<Rightarrow> (rresult \<times> 't \<times> calls) option" where
  "ops_step add free by_type change lookup (Add i ty v) ts = do { (b, ts) \<leftarrow> add i ty v ts; Some (Success b, ts) }"
| "ops_step add free by_type change lookup (Free i skip) ts = do { ts \<leftarrow> free i skip ts; Some (Done, ts) }"
| "ops_step add free by_type change lookup (FreeByType i ty skipFree) ts = do { ts \<leftarrow> by_type i ty skipFree ts; Some (Done, ts) }"
| "ops_step add free by_type change lookup (Change i ty v) ts = do { (b, t) \<leftarrow> change i ty v (fst ts); Some (Success b, t, snd ts) }"
| "ops_step add free by_type change lookup (Find i ty) ts = do { v \<leftarrow> lookup i ty (fst ts); Some (Found v, ts) }"

definition table_step :: "rop \<Rightarrow> 'd resources \<times> calls \<Rightarrow> (rresult \<times> 'd resources \<times> calls) option" where
  "table_step = ops_step (AddResource log_del) (FreeResource log_del) (FreeResourceByType log_del) ChangeResourceValue LookupIDByType"

locale id_table =
  fixes inv :: "'t \<Rightarrow> bool" and ents :: "'t \<Rightarrow> rmap" and used :: "nat \<Rightarrow> bool" and T :: "restype \<Rightarrow> bool"
    and add :: "u32 \<Rightarrow> restype \<Rightarrow> nat option \<Rightarrow> 't \<times> calls \<Rightarrow> (bool \<times> 't \<times> calls) option"
    and free :: "u32 \<Rightarrow> restype \<Rightarrow> 't \<times> calls \<Rightarrow> ('t \<times> calls) option"
    and by_type :: "u32 \<Rightarrow> restype \<Rightarrow> bool \<Rightarrow> 't \<times> calls \<Rightarrow> ('t \<times> calls) option"
    and change :: "u32 \<Rightarrow> restype \<Rightarrow> nat option \<Rightarrow> 't \<Rightarrow> (bool \<times> 't) option"
    and lookup :: "u32 \<Rightarrow> restype \<Rightarrow> 't \<Rightarrow> nat option option"
  assumes add: "inv t \<Longrightarrow> T ty \<Longrightarrow> \<exists>t'. add i ty v (t, s) = Some (used (CLIENT_ID i), t', s) \<and> inv t' \<and>
      ents t' = (if used (CLIENT_ID i) then (ents t)(i := \<lparr>rs_id = i, rs_type = ty, rs_value = v\<rparr> # ents t i) else ents t)"
    and free: "inv t \<Longrightarrow> if ents t i = [] then free i skip (t, s) = None
      else \<exists>t'. free i skip (t, s) = Some (t', s @ map (\<lambda>r. (rs_value r, i)) (filter (\<lambda>r. rs_type r \<noteq> skip) (ents t i))) \<and>
        inv t' \<and> ents t' = (ents t)(i := [])"
    and by_type: "inv t \<Longrightarrow> \<exists>t'. by_type i ty skipFree (t, s) = Some (t',
        (case List.extract (\<lambda>r. rs_type r = ty) (ents t i) of Some (b, r, a) \<Rightarrow> s @ (if skipFree then [] else [(rs_value r, i)]) | None \<Rightarrow> s)) \<and>
      inv t' \<and> ents t' = (case List.extract (\<lambda>r. rs_type r = ty) (ents t i) of Some (b, r, a) \<Rightarrow> (ents t)(i := b @ a) | None \<Rightarrow> ents t)"
    and change: "inv t \<Longrightarrow> \<exists>t'. change i ty v t = Some (change_first i ty v (ents t i) \<noteq> None, t') \<and> inv t' \<and>
      ents t' = (case change_first i ty v (ents t i) of Some es \<Rightarrow> (ents t)(i := es) | None \<Rightarrow> ents t)"
    and lookup: "inv t \<Longrightarrow>
      lookup i ty t = Some (case List.find (\<lambda>r. rs_type r = ty) (ents t i) of Some r \<Rightarrow> rs_value r | None \<Rightarrow> None)"
begin

text \<open>One request on the table is the same request on the entries.\<close>

lemma step_refines:
  assumes "inv t" "rop_typed T op"
  shows "spec_step used op (ents t, s) = map_option (\<lambda>(r, t', s'). (r, ents t', s')) (ops_step add free by_type change lookup op (t, s)) \<and>
    (\<forall>r t' s'. ops_step add free by_type change lookup op (t, s) = Some (r, t', s') \<longrightarrow> inv t')"
proof (cases op)
  case (Add i ty v)
  obtain t' where "add i ty v (t, s) = Some (used (CLIENT_ID i), t', s)" "inv t'"
    "ents t' = (if used (CLIENT_ID i) then (ents t)(i := \<lparr>rs_id = i, rs_type = ty, rs_value = v\<rparr> # ents t i) else ents t)"
    using add [of t ty i v s] assms Add by auto
  then show ?thesis unfolding Add by simp
next
  case (Free i skip)
  show ?thesis using free [OF assms(1), of i skip s] unfolding Free by (auto split: if_splits)
next
  case (FreeByType i ty skipFree)
  show ?thesis using by_type [OF assms(1), of i ty skipFree s] unfolding FreeByType by (auto split: option.split)
next
  case (Change i ty v)
  show ?thesis using change [OF assms(1), of i ty v] unfolding Change by (auto split: option.split)
next
  case (Find i ty)
  show ?thesis using lookup [OF assms(1), of i ty] assms(1) unfolding Find by auto
qed

lemma run_refines:
  "inv t \<Longrightarrow> list_all (rop_typed T) ops \<Longrightarrow>
   run_ops (spec_step used) ops (ents t, s) = map_option (\<lambda>(rs, t', s'). (rs, ents t', s')) (run_ops (ops_step add free by_type change lookup) ops (t, s))"
proof (induction ops arbitrary: t s)
  case (Cons op ops)
  from Cons.prems(2) have "rop_typed T op" by simp
  note h = step_refines [OF Cons.prems(1) this, of s]
  show ?case
  proof (cases "ops_step add free by_type change lookup op (t, s)")
    case None
    then show ?thesis using h by simp
  next
    case (Some x)
    obtain r t' s' where x: "x = (r, t', s')" by (cases x) auto
    have "inv t'" using h Some x by blast
    from Cons.IH [OF this] Cons.prems(2) have "run_ops (spec_step used) ops (ents t', s') =
        map_option (\<lambda>(rs, t', s'). (rs, ents t', s')) (run_ops (ops_step add free by_type change lookup) ops (t', s'))" by simp
    with h Some x show ?thesis by (cases "run_ops (ops_step add free by_type change lookup) ops (t', s')") auto
  qed
qed simp

end

lemma model_table: "id_table (table_inv U tm n) entries U (typed tm n) (AddResource log_del) (FreeResource log_del)
    (FreeResourceByType log_del) ChangeResourceValue LookupIDByType"
  by unfold_locales (erule (1) AddResource_entries | erule FreeResource_entries | erule FreeResourceByType_entries |
    erule ChangeResourceValue_entries | erule LookupIDByType_entries)+

interpretation rt: id_table "table_inv U tm n" entries U "typed tm n" "AddResource log_del" "FreeResource log_del"
    "FreeResourceByType log_del" ChangeResourceValue LookupIDByType for U tm n
  by (rule model_table)

section \<open>New clients and new numbers\<close>

lemma InitClientResources_inv:
  assumes inv: "table_inv U tm n t" and c: "c < MAXCLIENTS"
  shows "\<exists>t'. InitClientResources noop c m False t = Some (True, t') \<and> table_inv (U(c := True)) tm n t' \<and>
    (\<forall>i. entries t' i = (if CLIENT_ID i = c then [] else entries t i))"
proof -
  let ?fake = "m OR (if c \<noteq> 0 then SERVER_BIT else SERVER_MINID)"
  let ?cr = "\<lparr>cr_resources = replicate INITBUCKETS [], cr_elements = 0, cr_buckets = INITBUCKETS, cr_hashsize = INITHASHSIZE,
    cr_fakeID = ?fake, cr_endFakeID = (?fake OR RESOURCE_ID_MASK) + 1, cr_expectID = m\<rparr>"
  let ?t = "put_client c ?cr t"
  have len: "length (rt_clientTable t) = MAXCLIENTS" "rt_mallocs t = []" using inv by (auto simp: table_inv_def)
  have I: "InitClientResources noop c m False t = Some (True, ?t)"
    using len c by (simp add: InitClientResources_def xalloc_def get_client_def Let_def)
  have ok: "chains_ok (typed tm n) ?cr" by (simp add: chains_ok_def)
  have inv': "table_inv (U(c := True)) tm n ?t"
    using inv ok c by (auto simp: table_inv_def put_client_def nth_list_update)
  have ent: "entries ?t i = (if CLIENT_ID i = c then [] else entries t i)" for i
  proof (cases "CLIENT_ID i = c")
    case True
    have g: "get_client c ?t = Some ?cr" using len c by (simp add: get_client_def put_client_def)
    obtain h where "chain_of ?cr i = Some (replicate INITBUCKETS [] ! h)" "h < INITBUCKETS"
      using chains_ok_bucket [OF ok, of i] by auto
    then have "chain_of ?cr i = Some []" by simp
    with g True show ?thesis by (simp add: entries_def)
  next
    case False
    then show ?thesis by (simp add: entries_def get_client_def put_client_def)
  qed
  show ?thesis using I inv' ent by (intro exI [of _ ?t]) simp
qed

lemma less_next:
  assumes "i AND SERVER_BIT = 0" shows "i < i + 1"
proof -
  have "i \<noteq> - 1" using assms by auto
  then have "1 + i \<noteq> 0" by (metis add.inverse_inverse eq_neg_iff_add_eq_0 add.commute)
  from unatSuc [OF this] show ?thesis by (simp add: word_less_nat_alt add.commute)
qed
lemma client_number:
  assumes "c < 128"
  shows "word_of_nat c AND (127 :: 32 word) = word_of_nat c" 
proof -
  have "take_bit 7 c = c" using assms by (simp add: take_bit_nat_eq_self)
  then have "take_bit 7 (word_of_nat c :: 32 word) = word_of_nat c" by (metis take_bit_of_nat)
  then show ?thesis by (simp add: take_bit_eq_mask mask_eq_exp_minus_1)
qed

lemma client_mask:
  assumes "c < 128" and i: "i AND NOT RESOURCE_ID_MASK = push_bit 22 (word_of_nat c)"
  shows "CLIENT_ID i = c" "i AND 0x20000000 = 0"
proof -
  let ?w = "word_of_nat c :: 32 word"
  have w: "?w AND 127 = ?w" by (rule client_number [OF assms(1)])
  have b: "bit c k \<Longrightarrow> k < 7" for k using assms(1) take_bit_nat_eq_self [of c 7] by (simp, metis bit_take_bit_iff)
  have "i AND 0x1fc00000 = (i AND NOT 0x3FFFFF) AND 0x1fc00000" by (simp add: and.assoc)
  also have "\<dots> = push_bit 22 (?w AND 127)" unfolding i by (rule bit_word_eqI) (auto simp: bit_simps)
  finally have "drop_bit 22 (i AND 0x1fc00000) = ?w" unfolding w by (rule_tac bit_word_eqI) (auto simp: bit_simps dest: b)
  then show "CLIENT_ID i = c" using assms(1) by (simp add: CLIENT_ID_def unat_of_nat)
  have "i AND 0x20000000 = (i AND NOT 0x3FFFFF) AND 0x20000000" by (simp add: and.assoc)
  also have "\<dots> = 0" unfolding i
  proof (rule bit_word_eqI)
    fix k assume "k < LENGTH(32)"
    show "bit (push_bit 22 ?w AND 0x20000000) k = bit (0 :: 32 word) k"
    proof (cases "k = 29")
      case True
      then show ?thesis using b [of 7] by (auto simp: bit_simps)
    next
      case False
      have "\<not> bit (2 ^ 29 :: 32 word) k" using False by (simp only: bit_exp_iff) auto
      then show ?thesis by (simp add: bit_simps)
    qed
  qed
  finally show "i AND 0x20000000 = 0" .
qed

text \<open>Entries numbered by a client itself stay below \<open>cr_expectID\<close>.\<close>

definition expected :: "'d resources \<Rightarrow> bool" where
  "expected t \<longleftrightarrow> (\<forall>i cr. get_client (CLIENT_ID i) t = Some cr \<longrightarrow> i AND SERVER_BIT = 0 \<longrightarrow> entries t i \<noteq> [] \<longrightarrow> i < cr_expectID cr)"

lemma RebuildTable_expectID: "RebuildTable c t = Some t' \<Longrightarrow> map_option cr_expectID (get_client d t') = map_option cr_expectID (get_client d t)"
  by (auto simp: RebuildTable_def get_client_def put_client_def xalloc_def nth_list_update split: bind_splits list.splits bool.splits if_splits)

lemma AddResource_expectID:
  assumes "AddResource del i ty v (t, s) = Some (b, t', s')"
  shows "map_option cr_expectID (get_client c t') = map_option (\<lambda>cr.
    if c = CLIENT_ID i \<and> b \<and> i AND SERVER_BIT = 0 \<and> cr_expectID cr \<le> i then i + 1 else cr_expectID cr) (get_client c t)"
proof (cases "get_client (CLIENT_ID i) t")
  case None
  then show ?thesis using assms by (simp add: AddResource_def)
next
  case (Some cr0)
  show ?thesis
  proof (cases "cr_buckets cr0 = 0")
    case True
    with Some assms show ?thesis by (auto simp: AddResource_def Let_def)
  next
    case False
    obtain t1 cr h where t1: "(if 4 * int (cr_buckets cr0) \<le> cr_elements cr0 \<and> cr_hashsize cr0 < MAXHASHSIZE
        then RebuildTable (CLIENT_ID i) t else Some t) = Some t1" "get_client (CLIENT_ID i) t1 = Some cr" "bucket_of cr i = Some h"
      using assms Some False by (auto simp: AddResource_def Let_def split: bind_splits)
    have e: "map_option cr_expectID (get_client d t1) = map_option cr_expectID (get_client d t)" for d
      using t1(1) RebuildTable_expectID [of "CLIENT_ID i" t t1 d] by (auto split: if_splits)
    have x: "get_client d (snd (xalloc t1)) = get_client d t1" for d
      by (simp add: xalloc_def get_client_def split: list.split)
    have g: "get_client c (put_client (CLIENT_ID i) cr' u) = (if c = CLIENT_ID i \<and> get_client c u \<noteq> None then Some cr' else get_client c u)" for cr' u
      by (simp add: get_client_def put_client_def)
    show ?thesis
    proof (cases "xalloc t1")
      case (Pair ok t2)
      note x2 = x [unfolded Pair snd_conv]
      show ?thesis
      proof (cases ok)
        case True
        with assms Some False t1 Pair e [of c] e [of "CLIENT_ID i"] x2 show ?thesis
          by (auto simp: AddResource_def Let_def g split: if_splits)
      next
        case False': False
        with assms Some False t1 Pair e [of c] x2 show ?thesis by (auto simp: AddResource_def Let_def split: bind_splits)
      qed
    qed
  qed
qed

lemma AddResource_expected:
  assumes inv: "table_inv U tm n t" and ty: "typed tm n ty" and e: "expected t"
    and add: "AddResource del i ty v (t, s) = Some (b, t', s')"
  shows "expected t'"
  unfolding expected_def
proof (intro allI impI)
  fix j cr assume j: "get_client (CLIENT_ID j) t' = Some cr" "j AND SERVER_BIT = 0" "entries t' j \<noteq> []"
  have b: "b = U (CLIENT_ID i)" and ent: "entries t' = (if b then (entries t)(i := \<lparr>rs_id = i, rs_type = ty, rs_value = v\<rparr> # entries t i) else entries t)"
    using AddResource_entries [OF inv ty, of del i v s] add by auto
  from AddResource_expectID [OF add, of "CLIENT_ID j"] j(1) obtain cr0 where
    cr0: "get_client (CLIENT_ID j) t = Some cr0" "cr_expectID cr = (if CLIENT_ID j = CLIENT_ID i \<and> b \<and> i AND SERVER_BIT = 0 \<and> cr_expectID cr0 \<le> i
      then i + 1 else cr_expectID cr0)"
    by (cases "get_client (CLIENT_ID j) t") (simp_all split del: if_split)
  note lt = less_next [of i]
  show "j < cr_expectID cr"
  proof (cases "j = i \<and> b")
    case True
    then show ?thesis using cr0(2) j(2) lt by auto
  next
    case False
    then have "entries t j \<noteq> []" using j(3) ent by (auto split: if_splits)
    then have "j < cr_expectID cr0" using e cr0(1) j(2) by (auto simp: expected_def)
    moreover have "cr_expectID cr0 \<le> cr_expectID cr" using cr0(2) lt by auto
    ultimately show ?thesis by simp
  qed
qed

lemma LookupIDByClass_any:
  assumes inv: "table_inv U tm n t" and nz: "\<forall>r \<in> set (entries t i). rs_type r \<noteq> 0"
  shows "LookupIDByClass i RC_ANY t = Some (case entries t i of [] \<Rightarrow> None | r # rs \<Rightarrow> rs_value r)"
proof (cases "U (CLIENT_ID i)")
  case False
  obtain cr where "get_client (CLIENT_ID i) t = Some cr" "cr_buckets cr = 0" using table_inv_unused [OF inv False] .
  with entries_unused [OF inv False] show ?thesis by (simp add: LookupIDByClass_def)
next
  case True
  obtain cr where cr: "get_client (CLIENT_ID i) t = Some cr" "chains_ok (typed tm n) cr" "cr_buckets cr \<noteq> 0"
    using table_inv_used [OF inv True] by blast
  obtain h where h: "bucket_of cr i = Some h" using chains_ok_bucket [OF cr(2), of i] by blast
  note e = entries_chain [OF inv True cr(1) h]
  have "List.find (\<lambda>r. rs_id r = i \<and> rs_type r AND RC_ANY \<noteq> 0) rs = (case filter (\<lambda>r. rs_id r = i) rs of [] \<Rightarrow> None | r # _ \<Rightarrow> Some r)"
    if "\<forall>r \<in> set (filter (\<lambda>r. rs_id r = i) rs). rs_type r \<noteq> 0" for rs
    using that by (induction rs) auto
  from this [OF nz [unfolded e]] show ?thesis
    using cr(1,3) h by (auto simp: LookupIDByClass_def chain_of_def e split: list.split)
qed

text \<open>The table when the server starts: its arrays are zero, and the server is client 0.\<close>

definition zero_resources :: "nat resources" where
  "zero_resources = \<lparr>rt_clientTable = replicate MAXCLIENTS \<lparr>cr_resources = [], cr_elements = 0, cr_buckets = 0, cr_hashsize = 0,
     cr_fakeID = 0, cr_endFakeID = 0, cr_expectID = 0\<rparr>, rt_lastResourceType = 0, rt_lastResourceClass = 0, rt_TypeAuMask = 0,
     rt_DeleteFuncs = [], rt_exceptions = [], rt_mallocs = []\<rparr>"

definition boot_resources :: "nat resources option" where
  "boot_resources = do { (ok, t) \<leftarrow> InitClientResources 0 0 0 True zero_resources;
     let (ty, t) = CreateNewResourceType 1 t;
     (ok, t) \<leftarrow> InitClientResources 0 1 0x400000 False t;
     Some t }"

lemma InitClientResources_server:
  "rt_mallocs t = [] \<Longrightarrow> InitClientResources noop c m True t = InitClientResources noop c m False
     (t\<lparr>rt_lastResourceType := 0, rt_lastResourceClass := RC_LASTPREDEF, rt_TypeAuMask := RC_LASTPREDEF - 1, rt_DeleteFuncs := [noop]\<rparr>)"
  by (simp add: InitClientResources_def Let_def xalloc_def)

lemma InitClientResources_keeps: "InitClientResources noop c m False t = Some (ok, t') \<Longrightarrow>
    rt_lastResourceType t' = rt_lastResourceType t \<and> rt_lastResourceClass t' = rt_lastResourceClass t \<and> rt_DeleteFuncs t' = rt_DeleteFuncs t"
  by (auto simp: InitClientResources_def Let_def xalloc_def put_client_def split: list.splits bool.splits bind_splits)

lemma chains_ok_mono: "chains_ok T cr \<Longrightarrow> (\<And>ty. T ty \<Longrightarrow> T' ty) \<Longrightarrow> chains_ok T' cr"
  by (auto simp: chains_ok_def)

lemma table_inv_types:
  assumes "table_inv U tm n t" "n \<le> m" "length fs = m"
  shows "table_inv U tm m (t\<lparr>rt_lastResourceType := ty, rt_DeleteFuncs := fs\<rparr>)"
proof -
  have "chains_ok (typed tm m) cr" if "chains_ok (typed tm n) cr" for cr
    using that by (rule chains_ok_mono) (use assms(2) in \<open>simp add: typed_def\<close>)
  with assms(1,3) show ?thesis by (simp add: table_inv_def)
qed

lemma boot_resources_inv:
  obtains t where "boot_resources = Some t" "table_inv (\<lambda>c. c = 0 \<or> c = 1) (RC_LASTPREDEF - 1) 2 t" "entries t = (\<lambda>_. [])"
proof -
  let ?z = "zero_resources\<lparr>rt_lastResourceType := 0, rt_lastResourceClass := RC_LASTPREDEF, rt_TypeAuMask := RC_LASTPREDEF - 1, rt_DeleteFuncs := [0]\<rparr>"
  have z: "table_inv (\<lambda>_. False) (RC_LASTPREDEF - 1) 1 ?z" by (simp add: table_inv_def zero_resources_def)
  have z0: "entries ?z i = []" for i by (rule entries_unused [OF z]) simp
  have zm: "rt_mallocs zero_resources = []" by (simp add: zero_resources_def)
  obtain t1 where t1: "InitClientResources 0 0 0 False ?z = Some (True, t1)" "table_inv ((\<lambda>_. False)(0 := True)) (RC_LASTPREDEF - 1) 1 t1"
    "\<forall>i. entries t1 i = []" using InitClientResources_inv [OF z, of 0 0 0] z0 by auto
  let ?t2 = "t1\<lparr>rt_lastResourceType := 1, rt_DeleteFuncs := [0, 1]\<rparr>"
  have k: "rt_lastResourceType t1 = 0" "rt_lastResourceClass t1 = RC_LASTPREDEF" "rt_DeleteFuncs t1 = [0]" "rt_mallocs t1 = []"
    using InitClientResources_keeps [OF t1(1)] t1(2) by (auto simp: table_inv_def)
  then have C: "CreateNewResourceType 1 t1 = (1, ?t2)"
    by (simp add: CreateNewResourceType_def Let_def xalloc_def)
  have t2: "table_inv ((\<lambda>_. False)(0 := True)) (RC_LASTPREDEF - 1) 2 ?t2"
    by (rule table_inv_types [OF t1(2)]) simp_all
  have e2: "entries ?t2 = entries t1" by (simp add: entries_def fun_eq_iff get_client_def)
  obtain t3 where t3: "InitClientResources 0 1 0x400000 False ?t2 = Some (True, t3)"
    "table_inv (((\<lambda>_. False)(0 := True))(1 := True)) (RC_LASTPREDEF - 1) 2 t3" "\<forall>i. entries t3 i = []"
    using InitClientResources_inv [OF t2, of 1 0 "0x400000"] t1(3) e2 by auto
  have U: "((\<lambda>_. False)(0 := True))(1 := True) = (\<lambda>c. c = 0 \<or> c = 1)" by (auto simp: fun_eq_iff)
  have "boot_resources = Some t3"
    using t1(1) C t3(1) InitClientResources_server [OF zm, of 0 0 0] by (simp add: boot_resources_def)
  moreover have "entries t3 = (\<lambda>_. [])" using t3(3) by (simp add: fun_eq_iff)
  ultimately show thesis using t3(2) [unfolded U] that [of t3] by blast
qed

section \<open>Properties\<close>



text \<open>\<open>LegalNewID\<close> is exact: in a table where the numbers a client has used itself are below its \<open>cr_expectID\<close> and every entry
  has a type and a value, it accepts a number iff it carries the client's mask and has no entry.\<close>

theorem LegalNewID_exact:
  assumes "table_inv U tm n t" "expected t" "c < MAXCLIENTS" "\<forall>r \<in> set (entries t i). rs_type r \<noteq> 0 \<and> rs_value r \<noteq> None"
  shows "LegalNewID i c (push_bit 22 (word_of_nat c)) t =
    Some (i AND NOT RESOURCE_ID_MASK = push_bit 22 (word_of_nat c) \<and> entries t i = [])"
proof (cases "i AND NOT RESOURCE_ID_MASK = push_bit 22 (word_of_nat c)")
  case False
  then show ?thesis by (simp add: LegalNewID_def)
next
  case True
  note c = client_mask [OF assms(3) True]
  obtain cr where cr: "get_client c t = Some cr" using assms(1,3) by (simp add: table_inv_def get_client_def)
  have L: "LookupIDByClass i RC_ANY t = Some (case entries t i of [] \<Rightarrow> None | r # rs \<Rightarrow> rs_value r)"
    using LookupIDByClass_any [OF assms(1)] assms(4) by blast
  have "entries t i = []" if "cr_expectID cr \<le> i" using assms(2) cr c that unfolding expected_def by fastforce
  with L cr True assms(4) show ?thesis by (auto simp: LegalNewID_def split: list.split)
qed

lemma LegalNewID_exact_witness:
  "\<exists>t. boot_resources = Some t \<and> LegalNewID 0x400005 1 (push_bit 22 (word_of_nat 1)) t = Some True \<and>
     LegalNewID 0x5 1 (push_bit 22 (word_of_nat 1)) t = Some False"
proof -
  obtain t where t: "boot_resources = Some t" "table_inv (\<lambda>c. c = 0 \<or> c = 1) (RC_LASTPREDEF - 1) 2 t" "entries t = (\<lambda>_. [])"
    by (rule boot_resources_inv)
  have "expected t" using t(3) by (simp add: expected_def)
  from LegalNewID_exact [OF t(2) this, of 1 "0x400005"] LegalNewID_exact [OF t(2) this, of 1 5] t(1,3) show ?thesis by (intro exI [of _ t]) simp
qed

text \<open>The bound \<open>LegalNewID\<close> relies on is an invariant: \<open>AddResource\<close> keeps every number a client chose itself below its
  \<open>cr_expectID\<close>, which never wraps.\<close>

theorem AddResource_keeps_expected:
  assumes "table_inv U tm n t" "typed tm n ty" "expected t" "AddResource del i ty v (t, s) = Some (b, t', s')"
  shows "expected t'"
  using assms by (rule AddResource_expected)

lemma AddResource_keeps_expected_witness:
  "\<exists>t t'. boot_resources = Some t \<and> AddResource log_del 0x400005 1 (Some 7) (t, []) = Some (True, t', []) \<and> expected t'"
proof -
  obtain t where t: "boot_resources = Some t" "table_inv (\<lambda>c. c = 0 \<or> c = 1) (RC_LASTPREDEF - 1) 2 t" "entries t = (\<lambda>_. [])"
    by (rule boot_resources_inv)
  have e: "expected t" using t(3) by (simp add: expected_def)
  have ty: "typed (RC_LASTPREDEF - 1) 2 1" by (simp add: typed_def)
  have c: "CLIENT_ID 0x400005 = 1" by (simp add: CLIENT_ID_def)
  obtain t' where "AddResource log_del 0x400005 1 (Some 7) (t, []) = Some (True, t', [])"
    using AddResource_entries [OF t(2) ty, of log_del "0x400005" "Some 7" "[]"] c by auto
  with AddResource_keeps_expected [OF t(2) ty e this] t(1) show ?thesis by blast
qed

text \<open>\<open>FreeResourceByType\<close> removes an entry and leaves the count of the client's entries as it was: on a table whose count is
  right it is one too large afterwards (and the table of a client that only frees this way is doubled on and on, to its
  largest size).\<close>

theorem FreeResourceByType_miscounts:
  assumes inv: "table_inv U tm n t" and i: "\<exists>r \<in> set (entries t i). rs_type r = ty"
    and cr: "get_client (CLIENT_ID i) t = Some cr" "cr_elements cr = int (length (concat (cr_resources cr)))"
  shows "\<exists>t' cr'. FreeResourceByType log_del i ty True (t, s) = Some (t', s) \<and> get_client (CLIENT_ID i) t' = Some cr' \<and>
    cr_elements cr' = int (length (concat (cr_resources cr'))) + 1"
proof -
  have U: "U (CLIENT_ID i)" using entries_unused [OF inv] i by fastforce
  have ok: "chains_ok (typed tm n) cr" "cr_buckets cr \<noteq> 0" using table_inv_used [OF inv U] cr(1) by auto
  obtain h where h: "bucket_of cr i = Some h" "h < length (cr_resources cr)" using chains_ok_bucket [OF ok(1), of i] by blast
  let ?chain = "cr_resources cr ! h"
  have "\<exists>r \<in> set ?chain. rs_id r = i \<and> rs_type r = ty" using i unfolding entries_chain [OF inv U cr(1) h(1)] by auto
  then obtain b r a where x: "List.extract (\<lambda>r. rs_id r = i \<and> rs_type r = ty) ?chain = Some (b, r, a)"
    by (cases "List.extract (\<lambda>r. rs_id r = i \<and> rs_type r = ty) ?chain") (auto simp: extract_None_iff)
  then have chain: "?chain = b @ r # a" by (auto dest: extract_SomeE)
  let ?cr = "cr\<lparr>cr_resources := (cr_resources cr)[h := b @ a]\<rparr>"
  have "FreeResourceByType log_del i ty True (t, s) = Some (put_client (CLIENT_ID i) ?cr t, s)"
    using cr(1) ok(2) h(1) x by (simp add: FreeResourceByType_def Let_def)
  moreover have "get_client (CLIENT_ID i) (put_client (CLIENT_ID i) ?cr t) = Some ?cr"
    using cr(1) by (auto simp: get_client_def put_client_def split: if_splits)
  moreover have "length (concat (cr_resources cr)) = length (concat ((cr_resources cr)[h := b @ a])) + 1"
    using h(2) chain by (subst (1) id_take_nth_drop [OF h(2)]) (simp add: upd_conv_take_nth_drop)
  ultimately show ?thesis using cr(2) by (intro exI [of _ "put_client (CLIENT_ID i) ?cr t"] exI [of _ ?cr]) simp
qed

lemma FreeResourceByType_miscounts_witness:
  "\<exists>(t :: nat resources) t' cr'. FreeResourceByType log_del 0x400005 0 True (t, []) = Some (t', []) \<and> get_client 1 t' = Some cr' \<and>
    cr_elements cr' = int (length (concat (cr_resources cr'))) + 1"
proof -
  let ?r = "\<lparr>rs_id = 0x400005, rs_type = 0, rs_value = Some 7\<rparr>"
  let ?cr = "\<lparr>cr_resources = (replicate INITBUCKETS [])[5 := [?r]], cr_elements = 1, cr_buckets = INITBUCKETS, cr_hashsize = INITHASHSIZE,
    cr_fakeID = 0, cr_endFakeID = 0, cr_expectID = 0\<rparr>"
  let ?t = "put_client 1 ?cr (zero_resources\<lparr>rt_DeleteFuncs := [0]\<rparr>)"
  have H: "Hash 6 0x400005 = Some 5" by (simp add: Hash_def)
  have ok: "chains_ok (typed 0 1) ?cr"
    using H by (auto simp: chains_ok_def nth_list_update typed_def)
  have inv: "table_inv (\<lambda>c. c = 1) 0 1 ?t"
    using ok by (auto simp: table_inv_def put_client_def zero_resources_def nth_list_update)
  have c: "CLIENT_ID 0x400005 = 1" by (simp add: CLIENT_ID_def)
  have g: "get_client (CLIENT_ID 0x400005) ?t = Some ?cr" unfolding c by (simp add: get_client_def put_client_def zero_resources_def)
  have h: "bucket_of ?cr 0x400005 = Some 5" using H by (simp add: bucket_of_def)
  have "entries ?t 0x400005 = [?r]" using entries_chain [OF inv _ g h] c by simp
  then have e: "\<exists>r \<in> set (entries ?t 0x400005). rs_type r = 0" by simp
  have n: "cr_elements ?cr = int (length (concat (cr_resources ?cr)))"
    by (simp add: upd_conv_take_nth_drop)
  show ?thesis using FreeResourceByType_miscounts [OF inv e g n, of "[]"] unfolding c by (rule exI)
qed

end
