(* ===== verification/Rate_Convert.thy ===== *)
theory Rate_Convert
  imports Prelude
begin

text \<open>
  The sample rate converters of \<^verbatim>\<open>server/dia/auprocess.c\<close>: \<open>rcNull\<close>, which copies, and the family
  \<^verbatim>\<open>rc_x\<close> (\<^verbatim>\<open>rc_1\<close>, \<^verbatim>\<open>rc_2\<close>, \<^verbatim>\<open>rc_4\<close>, \<^verbatim>\<open>rc_n\<close>, which differ only in how they copy one frame of \<open>bps\<close> bytes).
  A converter keeps a 16.16 fixed point phase \<open>c\<close> (\<^verbatim>\<open>currentSample\<close>) and a step \<open>n\<close> (\<^verbatim>\<open>nextSample\<close>): after
  each frame it emits, the integral part of the phase says how many source frames to skip.

  The source is the list of bytes from \<^verbatim>\<open>src\<close> to the end of its block; a read outside it is \<open>None\<close>. The
  bytes emitted are the list \<open>out\<close>, which the caller stores at \<^verbatim>\<open>dst\<close>. \<open>want\<close> and \<open>avail\<close> are signed
  (\<^verbatim>\<open>AuInt32\<close>), as in the source. \<open>None\<close> also stands for a loop that does not end.
\<close>

section \<open>The loop\<close>

text \<open>What follows the label \<^verbatim>\<open>NEXT\<close> in the loop body: skip \<open>c >> 16\<close> frames, keeping the debt in \<open>c\<close>.\<close>

definition rc_next :: "nat \<Rightarrow> u32 \<Rightarrow> int \<Rightarrow> nat \<Rightarrow> u32 \<times> int \<times> nat" where
  "rc_next bps c avail s =
     (let inc = drop_bit 16 c in
      if inc = 0 then (c, avail, s)
      else let inc = inc * word_of_nat bps; c = c AND 0xffff in
        if (word_of_int avail :: u32) < inc
        then (c OR push_bit 16 ((inc - word_of_int avail) div word_of_nat bps), 0, s + nat avail)
        else (c, avail - int (unat inc), s + unat inc))"

partial_function (option) rc_loop ::
  "nat \<Rightarrow> u32 \<Rightarrow> bytes \<Rightarrow> int \<Rightarrow> int \<Rightarrow> u32 \<Rightarrow> nat \<Rightarrow> bytes \<Rightarrow> (bytes \<times> nat \<times> u32) option" where
  "rc_loop bps n src want avail c s out =
     (if want \<noteq> 0 \<and> avail \<noteq> 0 then
        (case load src s bps of None \<Rightarrow> None
         | Some x \<Rightarrow> (case rc_next bps (c + n) avail s of (c', avail', s') \<Rightarrow>
             rc_loop bps n src (want - int bps) avail' c' s' (out @ x)))
      else Some (out, s, c))"

text \<open>
  \<open>rc_x bps n c src want avail\<close> gives the bytes emitted, the number of source bytes consumed (\<^verbatim>\<open>*in\<close>) and
  the new phase. A phase with an integral part is the debt of an earlier call: the loop is entered at
  \<^verbatim>\<open>NEXT\<close>.
\<close>

definition rc_x :: "nat \<Rightarrow> u32 \<Rightarrow> u32 \<Rightarrow> bytes \<Rightarrow> int \<Rightarrow> int \<Rightarrow> (bytes \<times> nat \<times> u32) option" where
  "rc_x bps n c src want avail =
     (if c AND 0xffff0000 \<noteq> 0 then
        (case rc_next bps c avail 0 of (c', avail', s') \<Rightarrow> rc_loop bps n src want avail' c' s' [])
      else rc_loop bps n src want avail c 0 [])"

text \<open>A negative size becomes a huge unsigned one, which no block can hold.\<close>

definition rcNull :: "u32 \<Rightarrow> bytes \<Rightarrow> int \<Rightarrow> int \<Rightarrow> (bytes \<times> nat \<times> u32) option" where
  "rcNull c src want avail =
     (let size = min want avail in
      if size < 0 then None
      else case load src 0 (nat size) of None \<Rightarrow> None | Some x \<Rightarrow> Some (x, nat size, c))"

section \<open>The phase\<close>

lemma c_and_ffff: "unat (c AND 0xffff :: u32) = unat c mod 65536"
proof -
  have "(0xffff :: u32) = mask 16" by (simp add: mask_eq_exp_minus_1)
  then have "c AND 0xffff = take_bit 16 c" by (simp add: take_bit_eq_mask)
  then show ?thesis by (simp add: take_bit_eq_mod unat_mod)
qed

lemma c_shift: "unat (drop_bit 16 c :: u32) = unat c div 65536"
  by (simp add: drop_bit_eq_div unat_div)

lemma c_high_zero: "(c AND 0xffff0000 :: u32) = 0 \<longleftrightarrow> unat c < 65536"
proof -
  have "(0xffff0000 :: u32) = push_bit 16 (mask 16)" by (simp add: mask_eq_exp_minus_1)
  then have "c AND 0xffff0000 = c AND push_bit 16 (mask 16)" by (simp only:)
  also have "\<dots> = push_bit 16 (drop_bit 16 c)"
  proof (rule bit_word_eqI)
    fix k :: nat
    have "16 \<le> k \<Longrightarrow> 16 + (k - 16) = k" by simp
    then show "bit (c AND push_bit 16 (mask 16)) k = bit (push_bit 16 (drop_bit 16 c)) k"
      by (cases "16 \<le> k") (auto simp: bit_simps dest: bit_imp_le_length)
  qed
  also have "unat \<dots> = 65536 * (unat c div 65536)"
  proof -
    have "65536 * (unat c div 65536) \<le> unat c" by simp
    then have "65536 * (unat c div 65536) < 2 ^ 32"
      using unat_u32_less [of c] by simp
    then show ?thesis
      by (simp add: push_bit_eq_mult unat_word_ariths c_shift drop_bit_eq_div unat_div)
  qed
  finally have "unat (c AND 0xffff0000) = 65536 * (unat c div 65536)" .
  then show ?thesis
    by (simp add: word_unat_eq_iff div_eq_0_iff)
qed

lemma debt_or:
  assumes "x < 65536" and "y < 65536"
  shows "unat (word_of_nat x OR push_bit 16 (word_of_nat y) :: u32) = x + 65536 * y"
proof -
  have "(word_of_nat x OR push_bit 16 (word_of_nat y) :: u32) = word_of_nat x + push_bit 16 (word_of_nat y)"
  proof (rule disjunctive_add [symmetric])
    fix k
    show "\<not> bit (word_of_nat x :: u32) k \<or> \<not> bit (push_bit 16 (word_of_nat y) :: u32) k"
    proof (cases "k < 16")
      case False
      then have "x div 2 ^ k = 0"
        using assms(1) power_increasing [of 16 k "2::nat"] by (simp add: div_eq_0_iff)
      then have "\<not> bit x k" by (simp add: bit_iff_odd)
      then show ?thesis by (simp add: bit_simps)
    qed (simp add: bit_simps)
  qed
  also have "unat \<dots> = x + 65536 * y"
    using assms by (simp add: push_bit_eq_mult unat_word_ariths unat_of_nat)
  finally show ?thesis .
qed

section \<open>One step\<close>

text \<open>
  With whole frames available, \<open>rc_next\<close> skips the integral part of the phase, or what is available and
  keeps the rest as debt: the phase plus 65536 times the frames skipped never changes.
\<close>

lemma rc_next_spec:
  assumes bps: "0 < bps" "bps < 65536" and A: "A * bps < 2 ^ 31" and j: "j = min A (unat c div 65536)"
  shows "rc_next bps c (int (A * bps)) s =
    (word_of_nat (unat c - 65536 * j), int ((A - j) * bps), s + j * bps)"
proof -
  let ?q = "unat c div 65536"
  have q: "?q < 65536" using unat_u32_less [of c] by (simp add: div_less_iff_less_mult)
  have qb: "?q * bps < 2 ^ 32" using q bps mult_strict_mono [of ?q 65536 bps 65536] by simp
  have inc: "drop_bit 16 c = (word_of_nat ?q :: u32)"
    using unat_u32_less [of c] by (simp add: word_unat_eq_iff c_shift unat_of_nat)
  have incb: "unat (drop_bit 16 c * word_of_nat bps :: u32) = ?q * bps"
    using qb bps by (simp add: unat_word_ariths c_shift unat_of_nat)
  have "unat (word_of_nat m :: u32) = m" if "m < 2 ^ 31" for m
    using that by (simp add: unat_of_nat)
  from this [OF A] have av: "unat (word_of_int (int (A * bps)) :: u32) = A * bps"
    by (simp only: of_int_of_nat_eq)
  have low: "c AND 0xffff = word_of_nat (unat c mod 65536)"
    by (simp add: word_unat_eq_iff c_and_ffff unat_of_nat)
  show ?thesis
  proof (cases "?q = 0")
    case True
    then show ?thesis using j by (simp add: rc_next_def inc)
  next
    case False
    then have nz: "drop_bit 16 c \<noteq> 0" by (simp add: word_unat_eq_iff c_shift)
    have less: "(word_of_int (int (A * bps)) :: u32) < drop_bit 16 c * word_of_nat bps \<longleftrightarrow> A < ?q"
      using bps by (simp only: word_less_nat_alt av incb) simp
    show ?thesis
    proof (cases "A < ?q")
      case True
      have "unat (drop_bit 16 c * word_of_nat bps - word_of_int (int (A * bps)) :: u32) = ?q * bps - A * bps"
        using less True by (subst unat_sub) (simp_all only: word_le_nat_alt av incb word_less_nat_alt less_imp_le)
      then have "unat ((drop_bit 16 c * word_of_nat bps - word_of_int (int (A * bps))) div word_of_nat bps :: u32) = ?q - A"
        using bps by (simp add: unat_div unat_of_nat flip: diff_mult_distrib)
      then have d: "(drop_bit 16 c * word_of_nat bps - word_of_int (int (A * bps))) div word_of_nat bps = (word_of_nat (?q - A) :: u32)"
        by (rule unat_eqD)
      have "unat (word_of_nat (unat c mod 65536) OR push_bit 16 (word_of_nat (?q - A)) :: u32) = unat c - 65536 * A"
        using q True by (subst debt_or) (simp_all add: diff_mult_distrib2 minus_mult_div_eq_mod [symmetric] algebra_simps)
      then have "word_of_nat (unat c mod 65536) OR push_bit 16 (word_of_nat (?q - A)) = (word_of_nat (unat c - 65536 * A) :: u32)"
        by (rule unat_eqD)
      with True j nz less d low show ?thesis
        by (simp add: rc_next_def Let_def del: of_int_of_nat_eq of_nat_mult)
    next
      case F: False
      then have qA: "?q \<le> A" by simp
      then have sub: "int (A * bps) - int (?q * bps) = int ((A - ?q) * bps)"
        by (simp only: diff_mult_distrib of_nat_diff mult_le_mono1)
      from F qA j nz less incb low sub bps show ?thesis
        by (simp add: rc_next_def Let_def minus_mult_div_eq_mod
            del: of_int_of_nat_eq of_nat_mult of_nat_diff)
    qed
  qed
qed

section \<open>The loop converts the stream\<close>

text \<open>\<open>frame bps src i\<close> is source frame \<open>i\<close>.\<close>

definition frame :: "nat \<Rightarrow> bytes \<Rightarrow> nat \<Rightarrow> bytes" where
  "frame bps src i = take bps (drop (i * bps) src)"

lemma length_frame: "(i + 1) * bps \<le> length src \<Longrightarrow> length (frame bps src i) = bps"
  by (simp add: frame_def)

lemma div_debt: "65536 * j \<le> x \<Longrightarrow> (x - 65536 * j) div 65536 = x div 65536 - (j :: nat)"
  by arith

lemma rc_loop_spec:
  assumes bps: "0 < bps" "bps < 65536" and n: "unat n + 65536 \<le> 2 ^ 32"
  shows "(S + A) * bps \<le> length src \<Longrightarrow> A * bps < 2 ^ 31 \<Longrightarrow> unat c < 65536 \<or> A = 0 \<Longrightarrow>
    \<exists>k. k \<le> W \<and> (\<forall>i < k. (unat c + i * unat n) div 65536 < A) \<and>
      (k = W \<or> A \<le> (unat c + k * unat n) div 65536) \<and>
      rc_loop bps n src (int (W * bps)) (int (A * bps)) c (S * bps) out =
        Some (out @ concat (map (\<lambda>i. frame bps src (S + (unat c + i * unat n) div 65536)) [0..<k]),
          (S + min A ((unat c + k * unat n) div 65536)) * bps,
          word_of_nat (unat c + k * unat n - 65536 * min A ((unat c + k * unat n) div 65536)))"
proof (induction W arbitrary: S A c out)
  case 0
  then have "min A (unat c div 65536) = 0" by auto
  then show ?case by (simp add: rc_loop.simps)
next
  case (Suc W)
  show ?case
  proof (cases "A = 0")
    case True
    then show ?thesis by (intro exI [of _ 0]) (simp add: rc_loop.simps)
  next
    case False
    then have c: "unat c < 65536" using Suc.prems by simp
    then have cn: "unat (c + n) = unat c + unat n"
      using n by (simp add: unat_word_ariths)
    define j where "j = min A (unat (c + n) div 65536)"
    define c' where "c' = (word_of_nat (unat (c + n) - 65536 * j) :: u32)"
    have jA: "j \<le> A" by (simp add: j_def)
    have j65: "65536 * j \<le> unat c + unat n"
      unfolding j_def cn by arith
    have c': "unat c' = unat c + unat n - 65536 * j"
      using unat_u32_less [of "c + n"] by (simp add: c'_def cn unat_of_nat)
    have shift: "(unat c' + i * unat n) div 65536 = (unat c + Suc i * unat n) div 65536 - j"
      and jle: "j \<le> (unat c + Suc i * unat n) div 65536" for i
    proof -
      have eq: "unat c' + i * unat n = unat c + Suc i * unat n - 65536 * j"
        using j65 c' by simp
      have le: "65536 * j \<le> unat c + Suc i * unat n"
        using j65 by simp
      then show "(unat c' + i * unat n) div 65536 = (unat c + Suc i * unat n) div 65536 - j"
        unfolding eq by (rule div_debt)
      from le show "j \<le> (unat c + Suc i * unat n) div 65536" by arith
    qed
    have prems: "(S + j + (A - j)) * bps \<le> length src" "(A - j) * bps < 2 ^ 31"
      "unat c' < 65536 \<or> A - j = 0"
    proof -
      show "(S + j + (A - j)) * bps \<le> length src" using Suc.prems(1) jA by simp
      have "(A - j) * bps \<le> A * bps" by simp
      then show "(A - j) * bps < 2 ^ 31" using Suc.prems(2) by (rule le_less_trans)
      show "unat c' < 65536 \<or> A - j = 0" using c' cn unfolding j_def by arith
    qed
    let ?f = "frame bps src S"
    obtain k where k: "k \<le> W" "\<forall>i < k. (unat c' + i * unat n) div 65536 < A - j"
      "k = W \<or> A - j \<le> (unat c' + k * unat n) div 65536"
      and res: "rc_loop bps n src (int (W * bps)) (int ((A - j) * bps)) c' ((S + j) * bps) (out @ ?f) =
        Some ((out @ ?f) @ concat (map (\<lambda>i. frame bps src (S + j + (unat c' + i * unat n) div 65536)) [0..<k]),
          (S + j + min (A - j) ((unat c' + k * unat n) div 65536)) * bps,
          word_of_nat (unat c' + k * unat n - 65536 * min (A - j) ((unat c' + k * unat n) div 65536)))"
      using Suc.IH [OF prems, of "out @ ?f"] by blast
    have "S * bps + bps \<le> (S + A) * bps" using False by (cases A) simp_all
    then have ld: "load src (S * bps) bps = Some ?f"
      using Suc.prems(1) by (simp add: load_def frame_def)
    have nx: "rc_next bps (c + n) (int (A * bps)) (S * bps) = (c', int ((A - j) * bps), (S + j) * bps)"
      using rc_next_spec [OF bps Suc.prems(2) j_def] by (simp add: c'_def algebra_simps)
    have w: "int (Suc W * bps) - int bps = int (W * bps)" by simp
    have step: "rc_loop bps n src (int (Suc W * bps)) (int (A * bps)) c (S * bps) out =
        rc_loop bps n src (int (W * bps)) (int ((A - j) * bps)) c' ((S + j) * bps) (out @ ?f)"
      using bps False by (subst rc_loop.simps) (simp add: ld nx w del: of_nat_mult mult_Suc)
    have frames: "concat (map (\<lambda>i. frame bps src (S + (unat c + i * unat n) div 65536)) [0..<Suc k]) =
        ?f @ concat (map (\<lambda>i. frame bps src (S + j + (unat c' + i * unat n) div 65536)) [0..<k])"
    proof -
      have "[0..<Suc k] = 0 # map Suc [0..<k]"
        by (simp add: map_Suc_upt upt_conv_Cons del: upt_Suc)
      moreover have "S + j + (unat c' + i * unat n) div 65536 = S + (unat c + Suc i * unat n) div 65536" for i
        using shift [of i] jle [of i] by simp
      ultimately show ?thesis
        using c by (simp only: list.map concat.simps map_map o_def) simp
    qed
    have consumed: "j + min (A - j) ((unat c' + k * unat n) div 65536) = min A ((unat c + Suc k * unat n) div 65536)"
      using jA jle [of k] by (simp only: shift)
    have phase: "unat c' + k * unat n - 65536 * min (A - j) ((unat c' + k * unat n) div 65536) =
        unat c + Suc k * unat n - 65536 * min A ((unat c + Suc k * unat n) div 65536)"
      using c' j65 unfolding consumed [symmetric] by (simp add: add.assoc)
    show ?thesis
    proof (intro exI [of _ "Suc k"] conjI)
      show "Suc k \<le> Suc W" using k(1) by simp
      show "\<forall>i < Suc k. (unat c + i * unat n) div 65536 < A"
      proof (intro allI impI)
        fix i assume i: "i < Suc k"
        show "(unat c + i * unat n) div 65536 < A"
        proof (cases i)
          case 0
          then show ?thesis using c False by simp
        next
          case (Suc i')
          then show ?thesis using i k(2) shift [of i'] by auto
        qed
      qed
      show "Suc k = Suc W \<or> A \<le> (unat c + Suc k * unat n) div 65536"
        using k(3) shift [of k] jle [of k] by auto
      show "rc_loop bps n src (int (Suc W * bps)) (int (A * bps)) c (S * bps) out =
        Some (out @ concat (map (\<lambda>i. frame bps src (S + (unat c + i * unat n) div 65536)) [0..<Suc k]),
          (S + min A ((unat c + Suc k * unat n) div 65536)) * bps,
          word_of_nat (unat c + Suc k * unat n - 65536 * min A ((unat c + Suc k * unat n) div 65536)))"
        unfolding step res frames phase consumed [symmetric] by (simp add: add.assoc)
    qed
  qed
qed


text \<open>
  C21. With whole frames wanted and available, a converter emits source frame \<open>(c + i * n) div 65536\<close> as its
  \<open>i\<close>-th frame, where \<open>c\<close> is the phase it starts from, debt included, and \<open>n\<close> the step. It stops when it
  has emitted all that is wanted or would need a frame that is not available; it returns, stays inside
  the source and the room wanted, and phase plus 65536 times the frames consumed accounts for every
  step, so that a stream converted in pieces is the stream converted at once.
\<close>

theorem rc_x_correct:
  assumes bps: "0 < bps" "bps < 65536" and n: "unat n + 65536 \<le> 2 ^ 32"
    and src: "A * bps \<le> length src" "A * bps < 2 ^ 31"
  shows "\<exists>k c'. k \<le> W \<and> (\<forall>i < k. (unat c + i * unat n) div 65536 < A) \<and>
      (k = W \<or> A \<le> (unat c + k * unat n) div 65536) \<and>
      unat c' + 65536 * min A ((unat c + k * unat n) div 65536) = unat c + k * unat n \<and>
      rc_x bps n c src (int (W * bps)) (int (A * bps)) =
        Some (concat (map (\<lambda>i. frame bps src ((unat c + i * unat n) div 65536)) [0..<k]),
          min A ((unat c + k * unat n) div 65536) * bps, c')"
proof -
  define j where "j = min A (unat c div 65536)"
  define c0 where "c0 = (word_of_nat (unat c - 65536 * j) :: u32)"
  have j65: "65536 * j \<le> unat c" unfolding j_def by arith
  have jA: "j \<le> A" by (simp add: j_def)
  have c0: "unat c0 = unat c - 65536 * j"
    using unat_u32_less [of c] by (simp add: c0_def unat_of_nat)
  have shift: "(unat c0 + i * unat n) div 65536 = (unat c + i * unat n) div 65536 - j"
    and jle: "j \<le> (unat c + i * unat n) div 65536" for i
  proof -
    have eq: "unat c0 + i * unat n = unat c + i * unat n - 65536 * j" using j65 c0 by simp
    have le: "65536 * j \<le> unat c + i * unat n" using j65 by simp
    then show "(unat c0 + i * unat n) div 65536 = (unat c + i * unat n) div 65536 - j"
      unfolding eq by (rule div_debt)
    from le show "j \<le> (unat c + i * unat n) div 65536" by arith
  qed
  have prems: "(j + (A - j)) * bps \<le> length src" "(A - j) * bps < 2 ^ 31" "unat c0 < 65536 \<or> A - j = 0"
  proof -
    show "(j + (A - j)) * bps \<le> length src" using src(1) jA by simp
    have "(A - j) * bps \<le> A * bps" by simp
    then show "(A - j) * bps < 2 ^ 31" using src(2) by (rule le_less_trans)
    show "unat c0 < 65536 \<or> A - j = 0" using c0 unfolding j_def by arith
  qed
  obtain k where k: "k \<le> W" "\<forall>i < k. (unat c0 + i * unat n) div 65536 < A - j"
      "k = W \<or> A - j \<le> (unat c0 + k * unat n) div 65536"
    and res: "rc_loop bps n src (int (W * bps)) (int ((A - j) * bps)) c0 (j * bps) [] =
      Some ([] @ concat (map (\<lambda>i. frame bps src (j + (unat c0 + i * unat n) div 65536)) [0..<k]),
        (j + min (A - j) ((unat c0 + k * unat n) div 65536)) * bps,
        word_of_nat (unat c0 + k * unat n - 65536 * min (A - j) ((unat c0 + k * unat n) div 65536)))"
    using rc_loop_spec [OF bps n prems, of W "[]"] by blast
  let ?m = "min A ((unat c + k * unat n) div 65536)"
  have consumed: "j + min (A - j) ((unat c0 + k * unat n) div 65536) = ?m"
    using jA jle [of k] by (simp only: shift)
  have phase: "unat c0 + k * unat n - 65536 * min (A - j) ((unat c0 + k * unat n) div 65536) =
      unat c + k * unat n - 65536 * ?m"
    using c0 j65 unfolding consumed [symmetric] by simp
  have start: "rc_x bps n c src (int (W * bps)) (int (A * bps)) =
      rc_loop bps n src (int (W * bps)) (int ((A - j) * bps)) c0 (j * bps) []"
  proof (cases "unat c < 65536")
    case True
    then show ?thesis by (simp add: rc_x_def c_high_zero j_def c0_def)
  next
    case False
    then show ?thesis
      using rc_next_spec [OF bps src(2) j_def, of 0] by (simp add: rc_x_def c_high_zero c0_def)
  qed
  have bound: "unat c + k * unat n - 65536 * ?m < 4294967296"
  proof (cases "A \<le> (unat c + k * unat n) div 65536")
    case True
    show ?thesis
    proof (cases k)
      case 0
      then show ?thesis using unat_u32_less [of c] by simp
    next
      case (Suc k')
      then have "(unat c + k' * unat n) div 65536 < A"
        using k(2) shift [of k'] jle [of k'] by auto
      then have "unat c + k' * unat n < 65536 * A" by arith
      then show ?thesis using True n Suc by simp
    qed
  next
    case False
    then show ?thesis by (simp add: min_def minus_mult_div_eq_mod)
  qed
  let ?c' = "word_of_nat (unat c + k * unat n - 65536 * ?m) :: u32"
  show ?thesis
  proof (intro exI [of _ k] exI [of _ ?c'] conjI)
    show "\<forall>i < k. (unat c + i * unat n) div 65536 < A"
    proof (intro allI impI)
      fix i assume "i < k"
      then show "(unat c + i * unat n) div 65536 < A" using k(2) shift [of i] by auto
    qed
    show "k = W \<or> A \<le> (unat c + k * unat n) div 65536"
      using k(3) jle [of k] unfolding shift by linarith
    have "65536 * ?m \<le> unat c + k * unat n" by arith
    moreover have "unat ?c' = unat c + k * unat n - 65536 * ?m"
      unfolding unat_of_nat using bound by simp
    ultimately show "unat ?c' + 65536 * ?m = unat c + k * unat n" by linarith
    have "j + (unat c0 + i * unat n) div 65536 = (unat c + i * unat n) div 65536" for i
      using shift [of i] jle [of i] by simp
    then show "rc_x bps n c src (int (W * bps)) (int (A * bps)) =
        Some (concat (map (\<lambda>i. frame bps src ((unat c + i * unat n) div 65536)) [0..<k]), ?m * bps, ?c')"
      unfolding start res consumed phase by simp
  qed (rule k(1))
qed

theorem rc_x_correct_witness:
  "\<exists>k c'. k \<le> 3 \<and> rc_x 1 0x8000 0 [10, 20, 30] (int (3 * 1)) (int (3 * 1)) =
     Some (concat (map (\<lambda>i. frame 1 [10, 20, 30] (i * 32768 div 65536)) [0..<k]),
       min 3 (k * 32768 div 65536) * 1, c')"
  using rc_x_correct [of 1 "0x8000" 3 "[10, 20, 30]" 3 0] by auto

section \<open>Room that is not a whole number of frames\<close>

lemma rc_next_total:
  assumes "0 \<le> avail" "avail < 2 ^ 31" "rc_next bps c avail s = (c', avail', s')"
  shows "0 \<le> avail' \<and> avail' < 2 ^ 31 \<and> int s' + avail' = int s + avail"
proof -
  have "nat avail < 2 ^ 32" using assms(1,2) by simp
  then have "unat (word_of_nat (nat avail) :: u32) = nat avail"
    by (simp add: unat_of_nat)
  moreover have "(word_of_nat (nat avail) :: u32) = word_of_int (int (nat avail))"
    by (simp only: of_int_of_nat_eq)
  moreover have "int (nat avail) = avail" using assms(1) by simp
  ultimately have u: "unat (word_of_int avail :: u32) = nat avail"
    by simp
  obtain k where k: "unat (drop_bit 16 c * word_of_nat bps :: u32) = k" by simp
  show ?thesis
    using assms by (auto simp: rc_next_def Let_def word_less_nat_alt u k simp del: of_nat_unat split: if_splits)
qed

lemma rc_loop_drains:
  "rc_loop bps n src want avail c s out = Some r \<Longrightarrow>
   \<not> int bps dvd want \<longrightarrow> 0 \<le> avail \<longrightarrow> avail < 2 ^ 31 \<longrightarrow> int (fst (snd r)) = int s + avail"
proof (erule rc_loop.raw_induct [where P = "\<lambda>bps n src want avail c s out r.
    \<not> int bps dvd want \<longrightarrow> 0 \<le> avail \<longrightarrow> avail < 2 ^ 31 \<longrightarrow> int (fst (snd r)) = int s + avail", rotated])
  fix f bps n src want avail c s out r
  assume IH: "\<And>bps n src want avail c s out r. f bps n src want avail c s out = Some r \<Longrightarrow>
      \<not> int bps dvd want \<longrightarrow> 0 \<le> avail \<longrightarrow> avail < 2 ^ 31 \<longrightarrow> int (fst (snd r)) = int s + avail"
    and step: "(if want \<noteq> 0 \<and> avail \<noteq> 0 then
        (case load src s bps of None \<Rightarrow> None
         | Some x \<Rightarrow> (case rc_next bps (c + n) avail s of (c', avail', s') \<Rightarrow>
             f bps n src (want - int bps) avail' c' s' (out @ x)))
      else Some (out, s, c)) = Some r"
  show "\<not> int bps dvd want \<longrightarrow> 0 \<le> avail \<longrightarrow> avail < 2 ^ 31 \<longrightarrow> int (fst (snd r)) = int s + avail"
  proof (intro impI)
    assume a: "\<not> int bps dvd want" "0 \<le> avail" "avail < 2 ^ 31"
    then have w: "want \<noteq> 0" by auto
    have nd: "\<not> int bps dvd want - int bps"
      using a(1) dvd_add [of "int bps" "want - int bps" "int bps"] by auto
    obtain c1 avail1 s1 where nx: "rc_next bps (c + n) avail s = (c1, avail1, s1)"
      by (cases "rc_next bps (c + n) avail s")
    show "int (fst (snd r)) = int s + avail"
      using step a w nd rc_next_total [OF a(2,3) nx] nx by (auto split: if_splits option.splits dest!: IH)
  qed
qed

text \<open>
  When the room wanted is not a multiple of the frame size, the counter \<open>want\<close> steps over zero and never
  stops the loop: whenever the converter returns it has consumed all of the source, however little
  room there was.
\<close>

theorem rc_x_odd_room_drains:
  assumes "\<not> int bps dvd want" and "0 \<le> avail" "avail < 2 ^ 31"
    and "rc_x bps n c src want avail = Some (out, used, c')"
  shows "int used = avail"
proof -
  obtain c1 avail1 s1 where nx: "rc_next bps c avail 0 = (c1, avail1, s1)"
    by (cases "rc_next bps c avail 0")
  show ?thesis
    using assms rc_next_total [OF assms(2,3) nx] nx
    by (fastforce simp: rc_x_def dest!: rc_loop_drains split: if_splits)
qed

text \<open>Eight bytes are written where there is room for three.\<close>

theorem rc_x_odd_room_drains_witness:
  "\<exists>out c'. rc_x 2 0x10000 0 [1, 2, 3, 4, 5, 6, 7, 8] 3 8 = Some (out, 8, c') \<and> length out = 8 \<and>
     int 8 = (8 :: int)"
proof -
  have ex: "rc_x 2 0x10000 0 [1, 2, 3, 4, 5, 6, 7, 8] 3 8 = Some ([1, 2, 3, 4, 5, 6, 7, 8], 8, 0)"
    by (simp add: rc_x_def rc_loop.simps rc_next_def load_def Let_def)
  then have "int 8 = (8 :: int)"
    by (rule rc_x_odd_room_drains [rotated -1]) simp_all
  with ex show ?thesis by simp
qed

end
