(* ===== verification/Port_IO.thy ===== *)
theory Port_IO
  imports Element_State Rate_Convert
begin

text \<open>
  Moving sound between the mini-buffers and the components (\<^verbatim>\<open>server/dia/auprocess.c\<close>): the readers of the
  imports (client ports, devices, buckets, wave forms) and the writers of the exports (client ports, devices,
  buckets, monitors), with rate conversion and the state changes they trigger. A client port is a
  ring buffer in \<open>c_data\<close>, with the offsets \<open>c_read\<close> and \<open>c_write\<close> and the fill \<open>c_currentSize\<close>.

  A store outside a block is \<open>None\<close>. \<open>fuel\<close> bounds the depth of \<open>AuChangeElementState\<close>.
\<close>

section \<open>Mini-buffers and conversion\<close>

definition el_minibuf :: "flow_element \<Rightarrow> component \<Rightarrow> bytes" where
  "el_minibuf el c = (case e_minibuf el of Some b \<Rightarrow> b | None \<Rightarrow> c_minibuf c)"

text \<open>Writes back an element, its component and the bytes of the mini-buffer.\<close>

definition put_port :: "nat \<times> nat \<Rightarrow> nat \<Rightarrow> flow_element \<Rightarrow> component \<Rightarrow> bytes \<Rightarrow> server \<Rightarrow> server" where
  "put_port p r el c mb s =
     (case e_minibuf el of
        Some _ \<Rightarrow> put_el p (el\<lparr>e_minibuf := Some mb\<rparr>) (put_comp r c s)
      | None \<Rightarrow> put_el p el (put_comp r (c\<lparr>c_minibuf := mb\<rparr>) s))"

text \<open>\<^verbatim>\<open>(*rateConvert) (flowEl, s, d, want, avail, &bytesIn)\<close>: the bytes for \<^verbatim>\<open>d\<close>, \<^verbatim>\<open>bytesIn\<close> and the element.\<close>

definition rateConvert :: "rate_converter \<Rightarrow> flow_element \<Rightarrow> component \<Rightarrow> bytes \<Rightarrow> u32 \<Rightarrow> u32 \<Rightarrow> (bytes \<times> nat \<times> flow_element) option" where
  "rateConvert rc el c src want avail =
     do { (x, n, cs) \<leftarrow> (case rc of
            RcNull \<Rightarrow> rcNull (e_currentSample el) src (sint want) (sint avail)
          | Rc1 \<Rightarrow> rc_x 1 (e_nextSample el) (e_currentSample el) src (sint want) (sint avail)
          | Rc2 \<Rightarrow> rc_x 2 (e_nextSample el) (e_currentSample el) src (sint want) (sint avail)
          | Rc4 \<Rightarrow> rc_x 4 (e_nextSample el) (e_currentSample el) src (sint want) (sint avail)
          | RcN \<Rightarrow> rc_x (unat (c_bytesPerSample c)) (e_nextSample el) (e_currentSample el) src (sint want) (sint avail)
          | Rcm \<Rightarrow> None);
          Some (x, n, el\<lparr>e_currentSample := cs\<rparr>) }"

text \<open>The difference \<^verbatim>\<open>dataEnd - s\<close> of pointers, and \<^verbatim>\<open>aumin\<close> of it and an unsigned number, cut to 32 bits.\<close>

definition to_end :: "bytes \<Rightarrow> nat \<Rightarrow> int" where
  "to_end b s = int (length b) - int s"

definition aumin :: "int \<Rightarrow> u32 \<Rightarrow> u32" where
  "aumin d n = word_of_int (min d (uint n))"

definition drop_from :: "nat \<Rightarrow> bytes \<Rightarrow> bytes option" where
  "drop_from s b = (if s \<le> length b then Some (drop s b) else None)"

section \<open>Reading from a client port\<close>

text \<open>
  What \<open>readClient\<close> takes from the port: element, component and mini-buffer afterwards, the bytes delivered,
  and the sizes before and after. A frame size that is not a power of two makes \<^verbatim>\<open>curSize\<close> no multiple of it.
\<close>

definition port_read :: "rate_converter \<Rightarrow> flow_element \<Rightarrow> component \<Rightarrow> bytes \<Rightarrow>
    (flow_element \<times> component \<times> bytes \<times> u32 \<times> u32 \<times> u32) option" where
  "port_read rc el c mb =
     do { let curSize = c_currentSize c AND NOT (c_bytesPerSample c - 1);
          let s = c_read c;
          let size = e_minibufChunk el;
          let available = min curSize size;
          let pass1 = aumin (to_end (c_data c) s) curSize;
          src \<leftarrow> drop_from s (c_data c);
          (x, n, el) \<leftarrow> rateConvert rc el c src size pass1;
          mb \<leftarrow> store x 0 mb;
          let bytesOut = (word_of_nat (length x) :: u32);
          let totalBytesIn = (word_of_nat n :: u32);
          let s = (if s + n = length (c_data c) then 0 else s + n);
          (el, mb, s, bytesOut, totalBytesIn) \<leftarrow>
            (if bytesOut < available \<and> pass1 < curSize then
               do { let pass2 = aumin (to_end (c_data c) s) (curSize - totalBytesIn);
                    src \<leftarrow> drop_from s (c_data c);
                    (y, m, el) \<leftarrow> rateConvert rc el c src (size - bytesOut) pass2;
                    mb \<leftarrow> store y (length x) mb;
                    Some (el, mb, s + m, bytesOut + word_of_nat (length y), totalBytesIn + word_of_nat m) }
             else Some (el, mb, s, bytesOut, totalBytesIn));
          Some (el, c\<lparr>c_read := s, c_currentSize := c_currentSize c - totalBytesIn\<rparr>, mb, bytesOut,
                curSize, curSize - totalBytesIn) }"

definition readClient :: "nat \<Rightarrow> compiled_input \<Rightarrow> server \<Rightarrow> (bool \<times> server) option" where
  "readClient fuel i s =
     do { let p = ci_flowEl i;
          let r = ci_component i;
          c \<leftarrow> get_comp r s;
          el \<leftarrow> get_el p s;
          (if c_currentSize c AND NOT (c_bytesPerSample c - 1) = 0 then Some (False, s)
           else do { (el, c, mb, bytesOut, prevSize, newSize) \<leftarrow> port_read (ci_rateConvert i) el c (el_minibuf el c);
                     (if newSize = 0 then
                        do { samples \<leftarrow> udiv bytesOut (c_bytesPerSample c);
                             let s = put_port p r (el\<lparr>e_minibufSamples := samples\<rparr>) c mb s;
                             (if c_eof c then AuChangeElementState fuel (fst p) (e_elementNum el) AuStateStop False AuReasonEOF s
                              else AuChangeElementState fuel (fst p) (e_elementNum el) AuStatePause False AuReasonUnderrun s) }
                      else do { let s = put_port p r el c mb s;
                                s \<leftarrow> (if (c_lowWaterMark c < prevSize \<or> c_incoming c = 0) \<and> newSize \<le> c_lowWaterMark c \<and> \<not> c_eof c
                                      then AuRequestElementNotifyEvent AuElementNotifyKindLowWater AuReasonWatermark p s
                                      else Some s);
                                Some (False, s) }) }) }"

section \<open>Reading from a bucket, a device, a wave form\<close>

definition readBucket :: "nat \<Rightarrow> compiled_input \<Rightarrow> server \<Rightarrow> (bool \<times> server) option" where
  "readBucket fuel i s =
     do { let p = ci_flowEl i;
          let r = ci_component i;
          c \<leftarrow> get_comp r s;
          el \<leftarrow> get_el p s;
          el \<leftarrow> (if e_parmsChanged el then
                   (case e_raw el of ImportBucket _ num _ off _ \<Rightarrow>
                      Some ((if e_countSamples el then el\<lparr>e_numBytes := num * c_bytesPerSample c\<rparr> else el)
                        \<lparr>e_read := unat (off * c_bytesPerSample c), e_parmsChanged := False\<rparr>)
                    | _ \<Rightarrow> None)
                 else Some el);
          let available = (word_of_int (to_end (c_data c) (e_read el)) :: u32);
          let available = (if e_countSamples el then min available (e_numBytes el) else available);
          src \<leftarrow> drop_from (e_read el) (c_data c);
          (x, n, el) \<leftarrow> rateConvert (ci_rateConvert i) el c src (e_minibufChunk el) available;
          mb \<leftarrow> store x 0 (el_minibuf el c);
          let el = el\<lparr>e_read := e_read el + n, e_numBytes := e_numBytes el - word_of_nat n\<rparr>;
          (if e_read el = length (c_data c) then
             do { samples \<leftarrow> udiv (word_of_nat (length x)) (c_bytesPerSample c);
                  AuChangeElementState fuel (fst p) (e_elementNum el) AuStateStop False AuReasonEOF
                    (put_port p r (el\<lparr>e_minibufSamples := samples\<rparr>) c mb s) }
           else Some (False, put_port p r el c mb s)) }"

text \<open>The comparison \<^verbatim>\<open>numBytes < minibufChunk\<close> is between unsigned and signed: it is unsigned.\<close>

definition readDevice :: "nat \<Rightarrow> compiled_input \<Rightarrow> server \<Rightarrow> (bool \<times> server) option" where
  "readDevice fuel i s =
     do { let p = ci_flowEl i;
          el \<leftarrow> get_el p s;
          (if e_countSamples el then
             (if e_numBytes el < e_minibufChunk el then
                AuChangeElementState fuel (fst p) (e_elementNum el) AuStateStop False AuReasonEOF s
              else Some (False, put_el p (el\<lparr>e_numBytes := e_numBytes el - e_minibufChunk el\<rparr>) s))
           else Some (False, s)) }"

text \<open>
  The loops of \<open>readWaveForm\<close>: \<open>s\<close> is the read offset, \<open>d\<close> the offset in the mini-buffer and \<open>res\<close> the value of
  \<^verbatim>\<open>bytesOut\<close>, which has none before the first turn.
\<close>

partial_function (option) wave_loop :: "rate_converter \<Rightarrow> component \<Rightarrow> flow_element \<Rightarrow> nat \<Rightarrow> nat \<Rightarrow> u32 \<Rightarrow> u32 option \<Rightarrow> bytes \<Rightarrow>
    (flow_element \<times> nat \<times> u32 option \<times> bytes) option" where
  "wave_loop rc c el s d want res mb =
     (if want \<noteq> 0 \<and> (e_countSamples el \<longrightarrow> e_numBytes el \<noteq> 0) then
        do { src \<leftarrow> drop_from s (c_data c);
             (x, n, el) \<leftarrow> rateConvert rc el c src want (word_of_int (to_end (c_data c) s));
             mb \<leftarrow> store x d mb;
             let bytesOut = (word_of_nat (length x) :: u32);
             let bytesOut = (if e_countSamples el then min bytesOut (e_numBytes el) else bytesOut);
             let el = (if e_countSamples el then el\<lparr>e_numBytes := e_numBytes el - bytesOut\<rparr> else el);
             let s = (if s + n = length (c_data c) then 0 else s + n);
             wave_loop rc c el s (d + unat bytesOut) (want - bytesOut) (Some bytesOut) mb }
      else Some (el, s, res, mb))"

definition readWaveForm :: "nat \<Rightarrow> compiled_input \<Rightarrow> server \<Rightarrow> (bool \<times> server) option" where
  "readWaveForm fuel i s =
     do { let p = ci_flowEl i;
          let r = ci_component i;
          c \<leftarrow> get_comp r s;
          el \<leftarrow> get_el p s;
          (el, c) \<leftarrow> (if e_parmsChanged el then
                   (case e_raw el of ImportWaveForm _ num _ freq _ \<Rightarrow>
                      (let el = el\<lparr>e_countSamples := num \<noteq> AuUnlimitedSamples\<rparr>;
                           el = (if e_countSamples el then el\<lparr>e_numBytes := num * auNativeBytesPerSample\<rparr> else el)
                       in Some (el\<lparr>e_parmsChanged := False\<rparr>, c\<lparr>c_frequency := freq * c_waveSamples c\<rparr>))
                    | _ \<Rightarrow> None)
                 else Some (el, c));
          (el, sp, last, mb) \<leftarrow> wave_loop (ci_rateConvert i) c el (e_read el) 0 (e_minibufChunk el) None (el_minibuf el c);
          let el = el\<lparr>e_read := sp\<rparr>;
          (if e_countSamples el \<and> e_numBytes el = 0 then
             do { bytesOut \<leftarrow> last;
                  samples \<leftarrow> udiv bytesOut (c_bytesPerSample c);
                  AuChangeElementState fuel (fst p) (e_elementNum el) AuStateStop False AuReasonEOF
                    (put_port p r (el\<lparr>e_minibufSamples := samples\<rparr>) c mb s) }
           else Some (False, put_port p r el c mb s)) }"

definition set_tag :: "compiled_input \<Rightarrow> u32 \<Rightarrow> server \<Rightarrow> server option" where
  "set_tag i t s = (case ci_preadTag i of
      TagElement \<Rightarrow> upd_el (ci_flowEl i) (\<lambda>e. e\<lparr>e_readTag := t\<rparr>) s
    | TagComponent \<Rightarrow> upd_comp (ci_component i) (\<lambda>c. c\<lparr>c_readTag := t\<rparr>) s)"

definition get_tag :: "compiled_input \<Rightarrow> server \<Rightarrow> u32 option" where
  "get_tag i s = (case ci_preadTag i of
      TagElement \<Rightarrow> map_option e_readTag (get_el (ci_flowEl i) s)
    | TagComponent \<Rightarrow> map_option c_readTag (get_comp (ci_component i) s))"

text \<open>Applies a format converter to an element's mini-buffer.\<close>

definition convert_minibuf :: "converter option \<Rightarrow> nat \<times> nat \<Rightarrow> server \<Rightarrow> server option" where
  "convert_minibuf cv p s = (case cv of None \<Rightarrow> Some s
     | Some f \<Rightarrow> do { el \<leftarrow> get_el p s; r \<leftarrow> e_component el; c \<leftarrow> get_comp r s;
          mb \<leftarrow> f (unat (c_numTracks c)) (unat (e_minibufSamples el)) (el_minibuf el c);
          Some (put_port p r el c mb s) })"

definition readInput :: "nat \<Rightarrow> compiled_input \<Rightarrow> server \<Rightarrow> (bool \<times> server) option" where
  "readInput fuel i s =
     do { let p = ci_flowEl i;
          s \<leftarrow> upd_el p (\<lambda>e. e\<lparr>e_minibufSamples := sv_auMinibufSamples s\<rparr>) s;
          (flowStateChanged, s) \<leftarrow> (case ci_readInput i of
               ReadClient \<Rightarrow> readClient fuel i s
             | ReadDevice \<Rightarrow> readDevice fuel i s
             | ReadBucket \<Rightarrow> readBucket fuel i s
             | ReadWaveForm \<Rightarrow> readWaveForm fuel i s);
          el \<leftarrow> get_el p s;
          s \<leftarrow> convert_minibuf (e_toNativeFormat el) p s;
          s \<leftarrow> set_tag i (sv_readTag s) s;
          Some (flowStateChanged, s) }"

section \<open>Writing to a client port\<close>

text \<open>
  What \<open>writeClient\<close> puts into the port: element and component afterwards, whether it did not fit, and the
  fill before. The second pass reads \<^verbatim>\<open>bytesIn\<close> of the first.
\<close>

definition port_write :: "rate_converter \<Rightarrow> flow_element \<Rightarrow> component \<Rightarrow> bytes \<Rightarrow> (flow_element \<times> component \<times> bool \<times> u32) option" where
  "port_write rc el c mb =
     do { let size = e_minibufBytes el;
          let free = c_dataSize c - c_currentSize c;
          let d = c_write c;
          let pass1 = aumin (to_end (c_data c) d) free;
          (x, n, el) \<leftarrow> rateConvert rc el c mb pass1 size;
          b \<leftarrow> store x d (c_data c);
          let d = (if d + length x = length b then 0 else d + length x);
          (el, b, d, bytesOut) \<leftarrow>
            (if pass1 < size then
               do { let pass2 = aumin (to_end b d) (size - pass1);
                    src \<leftarrow> drop_from n mb;
                    (y, _, el) \<leftarrow> rateConvert rc el c src pass2 (size - word_of_nat n);
                    b \<leftarrow> store y d b;
                    Some (el, b, d + length y, word_of_nat (length x) + word_of_nat (length y)) }
             else Some (el, b, d, word_of_nat (length x) :: u32));
          Some (el, c\<lparr>c_data := b, c_write := d, c_currentSize := c_currentSize c + bytesOut\<rparr>,
                free < size, c_currentSize c) }"

text \<open>The pass-2 size \<^verbatim>\<open>aumin (size - pass1, c->dataEnd - d)\<close> compares a number with a distance.\<close>

definition writeClient :: "nat \<Rightarrow> compiled_output \<Rightarrow> server \<Rightarrow> (bool \<times> server) option" where
  "writeClient fuel out s =
     do { let p = co_flowEl out;
          let r = co_component out;
          c \<leftarrow> get_comp r s;
          el \<leftarrow> get_el p s;
          (el, c, overrun, prevSize) \<leftarrow> port_write (co_rateConvert out) el c (el_minibuf el c);
          let s = put_el p el (put_comp r c s);
          (if overrun then AuChangeElementState fuel (fst p) (e_elementNum el) AuStatePause False AuReasonOverrun s
           else do { s \<leftarrow> (if (prevSize < c_highWaterMark c \<or> c_outgoing c = 0) \<and> c_highWaterMark c \<le> c_currentSize c
                           then AuRequestElementNotifyEvent AuElementNotifyKindHighWater AuReasonWatermark p s
                           else Some s);
                     Some (False, s) }) }"

section \<open>Writing to a bucket or a device\<close>

definition writeBucket :: "nat \<Rightarrow> compiled_output \<Rightarrow> server \<Rightarrow> (bool \<times> server) option" where
  "writeBucket fuel out s =
     do { let p = co_flowEl out;
          let r = co_component out;
          c \<leftarrow> get_comp r s;
          el \<leftarrow> get_el p s;
          el \<leftarrow> (if e_parmsChanged el then
                   (case e_raw el of ExportBucket _ num _ off _ \<Rightarrow>
                      Some ((if e_countSamples el then el\<lparr>e_numBytes := num * c_bytesPerSample c\<rparr> else el)
                        \<lparr>e_write := unat (off * c_bytesPerSample c), e_parmsChanged := False\<rparr>)
                    | _ \<Rightarrow> None)
                 else Some el);
          let d = e_write el;
          let room = to_end (c_data c) d;
          let overrun = (room < int (unat (e_minibufBytes el)));
          let size = (if e_countSamples el then min (e_minibufBytes el) (e_numBytes el) else e_minibufBytes el);
          (x, _, el) \<leftarrow> rateConvert (co_rateConvert out) el c (el_minibuf el c) (word_of_int room) size;
          b \<leftarrow> store x d (c_data c);
          let el = el\<lparr>e_write := d + length x, e_numBytes := e_numBytes el - word_of_nat (length x)\<rparr>;
          let s = put_el p el (put_comp r (c\<lparr>c_data := b\<rparr>) s);
          (if overrun then AuChangeElementState fuel (fst p) (e_elementNum el) AuStateStop False AuReasonEOF s
           else Some (False, s)) }"

definition writeDevice :: "nat \<Rightarrow> compiled_output \<Rightarrow> server \<Rightarrow> (bool \<times> server) option" where
  "writeDevice fuel out s =
     do { let p = co_flowEl out;
          el \<leftarrow> get_el p s;
          s \<leftarrow> upd_comp (co_component out) (\<lambda>c. c\<lparr>c_minibufSamples := e_minibufSamples el\<rparr>) s;
          (if e_countSamples el then
             (if e_numBytes el < e_minibufBytes el then
                AuChangeElementState fuel (fst p) (e_elementNum el) AuStateStop False AuReasonEOF s
              else Some (False, put_el p (el\<lparr>e_numBytes := e_numBytes el - e_minibufBytes el\<rparr>) s))
           else Some (False, s)) }"

section \<open>Monitors\<close>

text \<open>
  The macro \<^verbatim>\<open>rcm_x\<close>, for \<open>tracks\<close> tracks: the samples \<open>src\<close> are taken in groups of \<^verbatim>\<open>nextSample >> 16\<close> frames
  (with the fraction carried over), and the minimum and the maximum of every track of a group are kept in two
  samples of the monitor's area \<open>b\<close>, at \<open>p\<close> and \<open>p + 2\<close>. A group may begin in one mini-buffer and end in the next.
\<close>

definition minmax1 :: "s16 \<Rightarrow> nat \<Rightarrow> bytes \<Rightarrow> bytes option" where
  "minmax1 v p b =
     do { lo \<leftarrow> ld16 b p;
          b \<leftarrow> (if sint v < sint lo then st16 v p b else Some b);
          hi \<leftarrow> ld16 b (p + 2);
          (if sint hi < sint v then st16 v (p + 2) b else Some b) }"

fun minmax_tracks :: "nat \<Rightarrow> bytes \<Rightarrow> nat \<Rightarrow> nat \<Rightarrow> bytes \<Rightarrow> bytes option" where
  "minmax_tracks 0 src s p b = Some b"
| "minmax_tracks (Suc t) src s p b =
     do { v \<leftarrow> ld16 src (2 * s); b \<leftarrow> minmax1 v p b; minmax_tracks t src (Suc s) (p + 4) b }"

fun minmax_frames :: "nat \<Rightarrow> nat \<Rightarrow> bytes \<Rightarrow> nat \<Rightarrow> nat \<Rightarrow> bytes \<Rightarrow> bytes option" where
  "minmax_frames 0 tracks src s p b = Some b"
| "minmax_frames (Suc n) tracks src s p b =
     do { b \<leftarrow> minmax_tracks tracks src s p b; minmax_frames n tracks src (s + tracks) p b }"

record monitor =
  m_c :: u32
  m_avail :: u32
  m_d :: nat
  m_count :: nat
  m_s :: nat
  m_b :: bytes

definition rcm_next :: "nat \<Rightarrow> bytes \<Rightarrow> monitor \<Rightarrow> monitor option" where
  "rcm_next tracks src m =
     (let inc = drop_bit 16 (m_c m); c = m_c m AND 0xffff in
      if inc = 0 then Some m
      else let part = m_avail m < inc;
               c = (if part then c OR push_bit 16 (inc - m_avail m) else c);
               inc = (if part then m_avail m else inc)
        in do { b \<leftarrow> minmax_frames (unat inc) tracks src (m_s m) (m_d m) (m_b m);
                Some (m\<lparr>m_c := c, m_avail := m_avail m - inc, m_s := m_s m + unat inc * tracks, m_b := b,
                  m_d := (if part then m_d m else m_d m + 4 * tracks),
                  m_count := (if part then m_count m else Suc (m_count m))\<rparr>) })"

partial_function (option) rcm_loop :: "nat \<Rightarrow> u32 \<Rightarrow> bytes \<Rightarrow> monitor \<Rightarrow> monitor option" where
  "rcm_loop tracks n src m =
     (if m_avail m \<noteq> 0 then
        do { m \<leftarrow> rcm_next tracks src (m\<lparr>m_c := m_c m + n\<rparr>); rcm_loop tracks n src m }
      else Some m)"

definition rcm_x :: "nat \<Rightarrow> u32 \<Rightarrow> bytes \<Rightarrow> monitor \<Rightarrow> monitor option" where
  "rcm_x tracks n src m =
     (if m_c m AND 0xffff0000 \<noteq> 0 then do { m \<leftarrow> rcm_next tracks src m; rcm_loop tracks n src m }
      else rcm_loop tracks n src m)"

text \<open>One event for each group. The groups lie \<^verbatim>\<open>numTracks * 2\<close> samples apart, the code steps by \<^verbatim>\<open>numTracks\<close>.\<close>

fun monitor_events :: "nat \<Rightarrow> nat \<times> nat \<Rightarrow> nat \<Rightarrow> bytes \<Rightarrow> nat \<Rightarrow> server \<Rightarrow> server option" where
  "monitor_events 0 p tracks b s' s = Some s"
| "monitor_events (Suc n) p tracks b s' s =
     do { s \<leftarrow> AuRequestMonitorNotifyEvent p b s' s; monitor_events n p tracks b (s' + 2 * tracks) s }"

text \<open>For a monitor \<open>e_toNativeFormat\<close> holds the converter from the native format.\<close>

definition writeMonitor :: "compiled_output \<Rightarrow> server \<Rightarrow> (bool \<times> server) option" where
  "writeMonitor out s =
     do { let p = co_flowEl out;
          let r = co_component out;
          c \<leftarrow> get_comp r s;
          el \<leftarrow> get_el p s;
          avail \<leftarrow> udiv (e_minibufBytes el) (c_bytesPerSample c);
          let tracks = unat (c_numTracks c);
          m \<leftarrow> rcm_x tracks (e_nextSample el) (el_minibuf el c)
                 \<lparr>m_c = e_currentSample el, m_avail = avail, m_d = c_write c, m_count = 0, m_s = 0, m_b = c_data c\<rparr>;
          let el = el\<lparr>e_currentSample := m_c m\<rparr>;
          let c = c\<lparr>c_write := m_d m, c_data := m_b m\<rparr>;
          let n = m_count m;
          (if n = 0 then Some (False, put_el p el (put_comp r c s))
           else do { area \<leftarrow> drop_from (c_read c) (c_data c);
                     area \<leftarrow> (case e_toNativeFormat el of None \<Rightarrow> Some area | Some f \<Rightarrow> f tracks (2 * n) area);
                     let c = c\<lparr>c_data := take (c_read c) (c_data c) @ area\<rparr>;
                     let s = put_el p el (put_comp r c s);
                     s \<leftarrow> monitor_events n p tracks (c_data c) (c_read c) s;
                     c \<leftarrow> get_comp r s;
                     c \<leftarrow> reset_monitor (sv_auMinibufSamples s) c;
                     Some (True, put_comp r (c\<lparr>c_write := c_read c\<rparr>) s) }) }"

definition writeOutput :: "nat \<Rightarrow> compiled_output \<Rightarrow> server \<Rightarrow> (bool \<times> server) option" where
  "writeOutput fuel out s =
     do { let p = co_flowEl out;
          let r = co_component out;
          c \<leftarrow> get_comp r s;
          el \<leftarrow> get_el p s;
          mb \<leftarrow> clip_loop 0 (unat (e_minibufSamples el * ucast (c_numTracks c))) (el_minibuf el c);
          mb \<leftarrow> (case e_fromNativeFormat el of None \<Rightarrow> Some mb
                 | Some f \<Rightarrow> f (unat (c_numTracks c)) (unat (e_minibufSamples el)) mb);
          let s = put_port p r el c mb s;
          (case co_writeOutput out of
             WriteClient \<Rightarrow> writeClient fuel out s
           | WriteDevice \<Rightarrow> writeDevice fuel out s
           | WriteBucket \<Rightarrow> writeBucket fuel out s
           | WriteMonitor \<Rightarrow> writeMonitor out s) }"

end
