(* ===== verification/Process.thy ===== *)
theory Process
  imports Port_IO
begin

text \<open>
  One turn of the audio clock (\<open>AuProcessFlow\<close>, \<open>AuProcessData\<close> of \<^verbatim>\<open>server/dia/auprocess.c\<close>): read the inputs of the
  running flow, mix them into its outputs, write the outputs. Then the gains of the physical devices, and the
  delivery of the queued events by \<open>ProcessAudioEvents\<close> (\<^verbatim>\<open>server/dia/auevents.c\<close>).
\<close>

section \<open>Processing a flow\<close>

text \<open>\<^verbatim>\<open>(*fl->accumulateOutput) (input, output)\<close> on the mini-buffers, and the sample count of the output.\<close>

definition accumulate_input :: "accumulate \<Rightarrow> compiled_output \<Rightarrow> compiled_input \<Rightarrow> server \<Rightarrow> server option" where
  "accumulate_input k out i s =
     do { iel \<leftarrow> get_el (ci_flowEl i) s;
          ic \<leftarrow> get_comp (ci_component i) s;
          oel \<leftarrow> get_el (co_flowEl out) s;
          oc \<leftarrow> get_comp (co_component out) s;
          buf \<leftarrow> run_accumulate k i (unat (c_numTracks ic)) (unat (c_numTracks oc)) (unat (e_minibufSamples iel))
                   (el_minibuf iel ic) (el_minibuf oel oc);
          Some (put_port (co_flowEl out) (co_component out)
            (oel\<lparr>e_minibufSamples := max (e_minibufSamples oel) (e_minibufSamples iel)\<rparr>) oc buf s) }"

definition process_input :: "nat \<Rightarrow> accumulate \<Rightarrow> compiled_output \<Rightarrow> u8 \<Rightarrow> compiled_input \<Rightarrow> server \<Rightarrow> (bool \<times> server) option" where
  "process_input fuel k out outputState i s =
     do { iel \<leftarrow> get_el (ci_flowEl i) s;
          (if e_state iel \<noteq> AuStateStart then Some (False, s)
           else do { tag \<leftarrow> get_tag i s;
                     (changed, s) \<leftarrow> (if tag \<noteq> sv_readTag s then readInput fuel i s else Some (False, s));
                     s \<leftarrow> (if outputState = AuStateStart then accumulate_input k out i s else Some s);
                     Some (changed, s) }) }"

fun process_inputs :: "nat \<Rightarrow> accumulate \<Rightarrow> compiled_output \<Rightarrow> u8 \<Rightarrow> compiled_input list \<Rightarrow> server \<Rightarrow> (bool \<times> server) option" where
  "process_inputs fuel k out outputState [] s = Some (False, s)"
| "process_inputs fuel k out outputState (i # ins) s =
     do { (b, s) \<leftarrow> process_input fuel k out outputState i s;
          (b', s) \<leftarrow> process_inputs fuel k out outputState ins s;
          Some (b \<or> b', s) }"

text \<open>Clears the output's mini-buffer, which has room for 32-bit sums, unless the device's buffers were cleared before.\<close>

definition clear_minibuf :: "compiled_output \<Rightarrow> server \<Rightarrow> server option" where
  "clear_minibuf out s =
     do { oel \<leftarrow> get_el (co_flowEl out) s;
          oc \<leftarrow> get_comp (co_component out) s;
          mb \<leftarrow> (if c_kind oc \<noteq> AuComponentKindPhysicalOutput
                then store (replicate (unat (c_minibufSize oc * 2)) 0) 0 (el_minibuf oel oc)
                else Some (el_minibuf oel oc));
          Some (put_port (co_flowEl out) (co_component out) (oel\<lparr>e_minibufSamples := 0\<rparr>) oc mb s) }"

definition process_output :: "nat \<Rightarrow> accumulate \<Rightarrow> compiled_output \<Rightarrow> server \<Rightarrow> (bool \<times> server) option" where
  "process_output fuel k out s =
     do { oel \<leftarrow> get_el (co_flowEl out) s;
          let outputState = e_state oel;
          s \<leftarrow> clear_minibuf out s;
          (b, s) \<leftarrow> process_inputs fuel k out outputState (co_inputs out) s;
          (if outputState = AuStateStart then
             do { oc \<leftarrow> get_comp (co_component out) s;
                  s \<leftarrow> upd_el (co_flowEl out) (\<lambda>e. e\<lparr>e_minibufBytes := e_minibufSamples e * c_bytesPerSample oc\<rparr>) s;
                  (b', s) \<leftarrow> writeOutput fuel out s;
                  Some (b \<or> b', s) }
           else Some (b, s)) }"

fun process_outputs :: "nat \<Rightarrow> accumulate \<Rightarrow> compiled_output list \<Rightarrow> server \<Rightarrow> (bool \<times> server) option" where
  "process_outputs fuel k [] s = Some (False, s)"
| "process_outputs fuel k (out # outs) s =
     do { (b, s) \<leftarrow> process_output fuel k out s;
          (b', s) \<leftarrow> process_outputs fuel k outs s;
          Some (b \<or> b', s) }"

text \<open>What the driver does when it is asked for physical input, and \<^verbatim>\<open>auPhysicalOutputBuffers\<close>: the mini-buffers of the output devices.\<close>

definition read_physical_inputs :: "server \<Rightarrow> server" where
  "read_physical_inputs s = AuCallback ReadPhysicalInputs (s\<lparr>sv_comps := (\<lambda>r. map_option (\<lambda>c.
     case sv_readPhysicalInputs s r of Some b \<Rightarrow> c\<lparr>c_minibuf := b\<rparr> | None \<Rightarrow> c) (sv_comps s r))\<rparr>)"

fun clear_physical_outputs :: "nat list \<Rightarrow> server \<Rightarrow> server option" where
  "clear_physical_outputs [] s = Some s"
| "clear_physical_outputs (r # rs) s =
     do { s \<leftarrow> upd_comp r (\<lambda>c. if c_kind c = AuComponentKindPhysicalOutput
                then c\<lparr>c_minibuf := replicate (length (c_minibuf c)) 0\<rparr> else c) s;
          clear_physical_outputs rs s }"

definition AuProcessFlow :: "nat \<Rightarrow> compiled_flow \<Rightarrow> bool \<Rightarrow> server \<Rightarrow> server option" where
  "AuProcessFlow fuel fl clocked s =
     do { let s = (if cf_physicalDeviceMask fl AND AllPhysicalInputs \<noteq> 0 then read_physical_inputs s else s);
          let s = s\<lparr>sv_readTag := sv_readTag s + 1\<rparr>;
          s \<leftarrow> (if clocked then do { ds \<leftarrow> chain (sv_comp_links s) (sv_auDevices s); clear_physical_outputs ds s } else Some s);
          (flowStateChanged, s) \<leftarrow> process_outputs fuel (cf_accumulateOutput fl) (cf_outputs fl) s;
          (if clocked then
             do { let s = AuCallback WritePhysicalOutputs s;
                  (if flowStateChanged then AuProcessClockedFlows s else Some s) }
           else Some s) }"

definition AuProcessData :: "nat \<Rightarrow> server \<Rightarrow> server option" where
  "AuProcessData fuel s =
     (case sv_auFlow s of
        Some fl \<Rightarrow> AuProcessFlow fuel fl True s
      | None \<Rightarrow> Some (if sv_processFlowEnabled s then (AuCallback DisableProcessFlow s)\<lparr>sv_processFlowEnabled := False\<rparr> else s))"

section \<open>Gains\<close>

text \<open>What the driver answers; \<open>None\<close> is a callback it does not have. The setters in the \<open>has\<close> fields are optional.\<close>

record driver =
  d_outputGain :: s32
  d_outputMode :: "u8 option"
  d_inputGain :: "s32 option"
  d_inputMode :: "u8 option"
  d_feedbackGain :: "s32 option"
  d_hasOutputMode :: bool
  d_hasFeedbackGain :: bool

abbreviation (input) AuDeviceOutputModeSpeaker :: u8 where "AuDeviceOutputModeSpeaker \<equiv> 1"

definition AuSetInputGainAndLineMode :: "s32 \<Rightarrow> u8 \<Rightarrow> server \<Rightarrow> server" where
  "AuSetInputGainAndLineMode gain lineMode s = AuCallback (SetPhysicalInputGainAndLineMode gain lineMode) s"

definition AuSetOutputGainAndMode :: "driver \<Rightarrow> s32 \<Rightarrow> u8 \<Rightarrow> server \<Rightarrow> server" where
  "AuSetOutputGainAndMode drv gain mode s =
     (let s = s\<lparr>sv_desiredOutputGain := gain\<rparr>;
          gain = (if sint (sv_maxOutputGain s) < sint gain then sv_maxOutputGain s else gain);
          s = AuCallback (SetPhysicalOutputGain gain) s
      in if d_hasOutputMode drv then AuCallback (SetPhysicalOutputMode mode) s else s)"

definition AuSetFeedbackGain :: "driver \<Rightarrow> s32 \<Rightarrow> server \<Rightarrow> server" where
  "AuSetFeedbackGain drv gain s = (if d_hasFeedbackGain drv then AuCallback (SetPhysicalFeedbackGain gain) s else s)"

definition AuGetOutputGainAndMode :: "driver \<Rightarrow> s32 \<times> u8" where
  "AuGetOutputGainAndMode drv = (d_outputGain drv, case d_outputMode drv of Some m \<Rightarrow> m | None \<Rightarrow> AuDeviceOutputModeSpeaker)"

text \<open>The other getters leave the variable they are given alone when the driver has no callback.\<close>

definition AuGetInputGain :: "driver \<Rightarrow> s32 \<Rightarrow> s32" where
  "AuGetInputGain drv gain = (case d_inputGain drv of Some g \<Rightarrow> g | None \<Rightarrow> gain)"

definition AuGetInputMode :: "driver \<Rightarrow> u8 \<Rightarrow> u8" where
  "AuGetInputMode drv mode = (case d_inputMode drv of Some m \<Rightarrow> m | None \<Rightarrow> mode)"

definition AuGetFeedbackGain :: "driver \<Rightarrow> s32 \<Rightarrow> s32" where
  "AuGetFeedbackGain drv gain = (case d_feedbackGain drv of Some g \<Rightarrow> g | None \<Rightarrow> gain)"

definition AuSetMaxOutputGain :: "driver \<Rightarrow> s32 \<Rightarrow> server \<Rightarrow> server" where
  "AuSetMaxOutputGain drv gain s =
     (let s = s\<lparr>sv_maxOutputGain := gain\<rparr>; (_, mode) = AuGetOutputGainAndMode drv
      in AuSetOutputGainAndMode drv (sv_desiredOutputGain s) mode s)"

definition AuGetMaxOutputGain :: "server \<Rightarrow> s32" where
  "AuGetMaxOutputGain s = sv_maxOutputGain s"

section \<open>Delivering events\<close>

text \<open>\<open>clientGone\<close> stops the write. A client that was freed is \<open>None\<close>.\<close>

definition WriteAuEventsToClient :: "nat \<Rightarrow> au_event \<Rightarrow> server \<Rightarrow> server option" where
  "WriteAuEventsToClient c ev s =
     do { cl \<leftarrow> sv_clients s c;
          Some (if \<not> cl_clientGone cl then s\<lparr>sv_written := sv_written s @ [(c, cl_sequence cl, ev)]\<rparr> else s) }"

partial_function (option) process_events :: "nat option \<Rightarrow> server \<Rightarrow> server option" where
  "process_events p s =
     (case p of None \<Rightarrow> Some s
      | Some e \<Rightarrow>
          do { q \<leftarrow> sv_events s e;
               s \<leftarrow> (case q_event q of None \<Rightarrow> AuProcessClockedFlows s | Some ev \<Rightarrow> WriteAuEventsToClient (q_client q) ev s);
               s \<leftarrow> unlink_event e s;
               lk \<leftarrow> sv_event_links s e;
               process_events (l_next lk) (free_event e s) })"

definition ProcessAudioEvents :: "server \<Rightarrow> server option" where
  "ProcessAudioEvents s = process_events (sv_AuEventQueue s) s"

section \<open>Events are delivered in order\<close>

lemma RemoveFromLinkedList_self:
  "RemoveFromLinkedList h x L = Some (h', L') \<Longrightarrow> L x = Some lk \<Longrightarrow> l_next lk \<noteq> Some x \<Longrightarrow> l_prev lk \<noteq> Some x \<Longrightarrow> L' x = Some lk"
  by (cases "l_next lk"; cases "l_prev lk") (auto simp: RemoveFromLinkedList_def set_next_def set_prev_def bind_eq_Some_conv)

text \<open>Removing the first node, as both loops over the queue do.\<close>

lemma unlink_first:
  assumes "evq s (x # xs)"
  shows "\<exists>s1 lk. unlink_event x s = Some s1 \<and> sv_event_links s1 x = Some lk \<and>
    l_next lk = (case xs of [] \<Rightarrow> None | y # _ \<Rightarrow> Some y) \<and> evq (free_event x s1) xs \<and>
    (\<exists>L h t. s1 = s\<lparr>sv_event_links := L, sv_AuEventQueue := h, sv_AuEventQueueTail := t\<rparr>)"
proof -
  have dl: "dll (sv_event_links s) (sv_AuEventQueue s) (x # xs)"
    and tl: "sv_AuEventQueueTail s = Some (last (x # xs))"
    and dm: "dom (sv_events s) = set (x # xs)" "dom (sv_event_links s) = set (x # xs)" "\<forall>y \<in> set (x # xs). y < sv_next s"
    using assms by (simp_all add: evq_def)
  have d: "x \<notin> set xs" "distinct xs" using dl by (auto simp: dll_def)
  obtain lk where lk: "sv_event_links s x = Some lk" "l_next lk = (case xs of [] \<Rightarrow> None | y # _ \<Rightarrow> Some y)"
    using dll_next [of _ _ "[]" x xs] dl by auto
  have prev: "l_prev lk = None" using dl lk(1) by (auto simp: dll_def)
  obtain h L where rm: "RemoveFromLinkedList (sv_AuEventQueue s) x (sv_event_links s) = Some (h, L)"
    and dl': "dll L h xs" and dm': "dom L = dom (sv_event_links s)"
    using RemoveFromLinkedList_dll [OF dl, of x] by auto
  have self: "L x = Some lk"
    using RemoveFromLinkedList_self [OF rm lk(1)] lk(2) prev d(1) by (auto split: list.splits)
  have h: "h = None \<longleftrightarrow> xs = []" using dll_head [OF dl'] by (auto split: list.splits)
  define t where "t = (if xs = [] then None else Some (last xs))"
  define s1 where "s1 = s\<lparr>sv_event_links := L, sv_AuEventQueue := h, sv_AuEventQueueTail := t\<rparr>"
  have "unlink_event x s = Some s1"
    using h tl by (auto simp: unlink_event_def rm Let_def s1_def t_def)
  moreover have "evq (free_event x s1) xs"
    using dll_free [OF dl' d(1)] dm dm' d by (auto simp: evq_def free_event_def s1_def t_def)
  moreover have "\<exists>L h t. s1 = s\<lparr>sv_event_links := L, sv_AuEventQueue := h, sv_AuEventQueueTail := t\<rparr>"
    unfolding s1_def by blast
  moreover have "sv_event_links s1 x = Some lk" by (simp add: s1_def self)
  ultimately show ?thesis using lk(2) by blast
qed

definition delivery :: "(nat \<rightharpoonup> client) \<Rightarrow> queued \<Rightarrow> (nat \<times> u16 \<times> au_event) list" where
  "delivery cls q = (case (q_event q, cls (q_client q)) of
     (Some ev, Some cl) \<Rightarrow> if cl_clientGone cl then [] else [(q_client q, cl_sequence cl, ev)] | _ \<Rightarrow> [])"

lemma process_events_spec:
  "evq s xs \<Longrightarrow> (\<forall>q \<in> set (pending s). q_event q \<noteq> None \<and> q_client q \<in> dom (sv_clients s)) \<Longrightarrow>
   p = (case xs of [] \<Rightarrow> None | y # _ \<Rightarrow> Some y) \<Longrightarrow>
   \<exists>s'. process_events p s = Some s' \<and> evq s' [] \<and>
     sv_written s' = sv_written s @ concat (map (delivery (sv_clients s)) (pending s)) \<and> sv_clients s' = sv_clients s"
proof (induction xs arbitrary: s p)
  case Nil
  then show ?case by (simp add: process_events.simps pending_evq)
next
  case (Cons x xs)
  have pend: "pending s = map (\<lambda>x. the (sv_events s x)) (x # xs)" using pending_evq [OF Cons.prems(1)] .
  have "x \<in> dom (sv_events s)" using Cons.prems(1) by (simp add: evq_def)
  then obtain q where q: "sv_events s x = Some q" by auto
  obtain ev cl where ev: "q_event q = Some ev" "sv_clients s (q_client q) = Some cl"
    using Cons.prems(2) pend q by auto
  obtain s0 where s0: "WriteAuEventsToClient (q_client q) ev s = Some s0"
      "s0 = s\<lparr>sv_written := sv_written s @ delivery (sv_clients s) q\<rparr>"
    using ev by (auto simp: WriteAuEventsToClient_def delivery_def)
  have "evq s0 (x # xs)" using Cons.prems(1) s0(2) by (simp add: evq_def)
  then obtain s1 lk where s1: "unlink_event x s0 = Some s1" "sv_event_links s1 x = Some lk"
      "l_next lk = (case xs of [] \<Rightarrow> None | y # _ \<Rightarrow> Some y)" "evq (free_event x s1) xs"
      "\<exists>L h t. s1 = s0\<lparr>sv_event_links := L, sv_AuEventQueue := h, sv_AuEventQueueTail := t\<rparr>"
    using unlink_first by blast
  define s2 where "s2 = free_event x s1"
  have step: "process_events p s = process_events (l_next lk) s2"
    using Cons.prems(3) q ev s0(1) s1(1,2) by (subst process_events.simps) (simp add: s2_def)
  have fr: "sv_clients s2 = sv_clients s" "sv_written s2 = sv_written s @ delivery (sv_clients s) q"
      "\<And>y. y \<in> set xs \<Longrightarrow> sv_events s2 y = sv_events s y"
    using s1(5) s0(2) Cons.prems(1) by (auto simp: s2_def free_event_def evq_def dll_def)
  have pend2: "pending s2 = map (\<lambda>x. the (sv_events s x)) xs"
    using pending_evq [OF s1(4)] fr(3) by (simp add: s2_def)
  obtain s' where "process_events (l_next lk) s2 = Some s'" "evq s' []"
      "sv_written s' = sv_written s2 @ concat (map (delivery (sv_clients s2)) (pending s2))" "sv_clients s' = sv_clients s2"
    using Cons.IH [of s2 "l_next lk"] s1(3,4) Cons.prems(2) pend pend2 fr(1) by (auto simp: s2_def)
  then show ?case using step fr pend pend2 q by simp
qed


text \<open>Two events, the second for a client that is gone.\<close>

definition two_notifies :: server where
  "two_notifies = (server_init 4)\<lparr>sv_events := [7 \<mapsto> \<lparr>q_event = Some (ElementNotify 1 0 0 0 0 0 0), q_flow = 1, q_client = 5\<rparr>,
       8 \<mapsto> \<lparr>q_event = Some (ElementNotify 2 0 0 0 0 0 0), q_flow = 2, q_client = 6\<rparr>],
     sv_event_links := [7 \<mapsto> \<lparr>l_prev = None, l_next = Some 8\<rparr>, 8 \<mapsto> \<lparr>l_prev = Some 7, l_next = None\<rparr>],
     sv_AuEventQueue := Some 7, sv_AuEventQueueTail := Some 8, sv_next := 9,
     sv_clients := [5 \<mapsto> \<lparr>cl_index = 5, cl_sequence = 3, cl_clientGone = False, cl_errorValue = 0, cl_closeDownMode = 0\<rparr>,
       6 \<mapsto> \<lparr>cl_index = 6, cl_sequence = 9, cl_clientGone = True, cl_errorValue = 0, cl_closeDownMode = 0\<rparr>]\<rparr>"


text \<open>The gains the driver has been told, in order.\<close>

definition gains_set :: "server \<Rightarrow> s32 list" where
  "gains_set s = concat (map (\<lambda>c. case c of SetPhysicalOutputGain g \<Rightarrow> [g] | _ \<Rightarrow> []) (sv_calls s))"

text \<open>
  Limiting the output gain: whatever the limit was before, after the client's gain is set and the limit is
  changed the driver has last been told the smaller of the two, so lowering and raising the limit again
  restores the gain the client asked for.
\<close>

theorem AuSetMaxOutputGain_limits:
  "last (gains_set (AuSetMaxOutputGain drv limit (AuSetOutputGainAndMode drv gain mode s))) =
     (if sint limit < sint gain then limit else gain) \<and>
   sv_desiredOutputGain (AuSetMaxOutputGain drv limit (AuSetOutputGainAndMode drv gain mode s)) = gain"
  by (simp add: AuSetMaxOutputGain_def AuSetOutputGainAndMode_def AuGetOutputGainAndMode_def AuCallback_def Let_def gains_set_def)

section \<open>The mix of a turn\<close>

lemma get_comp_frames [frame_simps]:
  "get_comp r (put_comp r' c s) = (if r = r' then Some c else get_comp r s)"
  "get_comp r (put_el p e s) = get_comp r s" "get_el p (put_comp r c s) = get_el p s"
  "sv_readTag (put_comp r c s) = sv_readTag s" "sv_readTag (put_el p e s) = sv_readTag s"
  by (auto simp: get_comp_def put_comp_def put_el_def put_flow_def get_el_def get_flow_def split: option.splits)

lemma get_el_frame [frame_simps]: "get_el p (put_el p' e s) = (if p = p' \<and> get_el p s \<noteq> None then Some e else get_el p s)"
proof (cases "get_flow (fst p') s")
  case (Some f)
  then show ?thesis
    by (cases p; cases p'; cases "f_elements f")
      (auto simp: get_el_def put_el_def get_flow_def put_flow_def nth_list_update)
qed (auto simp: put_el_def get_el_def)

lemma put_port_frames:
  "sv_readTag (put_port p r el c mb s) = sv_readTag s"
  "q \<noteq> p \<Longrightarrow> get_el q (put_port p r el c mb s) = get_el q s"
  "x \<noteq> r \<Longrightarrow> get_comp x (put_port p r el c mb s) = get_comp x s"
  by (auto simp: put_port_def frame_simps split: option.splits)

lemma put_port_here:
  assumes "get_el p s = Some e0"
  shows "\<exists>el' c'. get_el p (put_port p r el c mb s) = Some el' \<and> get_comp r (put_port p r el c mb s) = Some c' \<and>
    el_minibuf el' c' = mb \<and> e_minibufSamples el' = e_minibufSamples el \<and> c_numTracks c' = c_numTracks c"
  using assms by (auto simp: put_port_def frame_simps el_minibuf_def split: option.splits)

text \<open>The mini-buffer of an output, and what one input adds to frame \<open>f\<close>, track \<open>t\<close> of it.\<close>

definition out_buf :: "compiled_output \<Rightarrow> server \<Rightarrow> bytes" where
  "out_buf out s = (case (get_el (co_flowEl out) s, get_comp (co_component out) s) of
     (Some oel, Some oc) \<Rightarrow> el_minibuf oel oc | _ \<Rightarrow> [])"

definition contribution :: "server \<Rightarrow> compiled_input \<Rightarrow> nat \<Rightarrow> nat \<Rightarrow> nat \<Rightarrow> s32" where
  "contribution s i outTracks f t = (case (get_el (ci_flowEl i) s, get_comp (ci_component i) s) of
     (Some iel, Some ic) \<Rightarrow>
       if e_state iel \<noteq> AuStateStart \<or> unat (e_minibufSamples iel) \<le> f then 0
       else if ci_tracks i = []
            then mix_value (ci_multiplyConstant i) (ci_addConstant i) (w16 (el_minibuf iel ic) (f * outTracks + t))
            else track_sum (mix_value (ci_multiplyConstant i) (ci_addConstant i)) (ci_tracks i) (el_minibuf iel ic)
                   (f * unat (c_numTracks ic)) t
   | _ \<Rightarrow> 0)"

text \<open>
  An input that is ready to be mixed: it is another element and component than the output, and if it is
  started it has been read in this turn, its tracks exist and its mini-buffers are large enough.
\<close>

definition mixable :: "server \<Rightarrow> compiled_output \<Rightarrow> nat \<Rightarrow> nat \<Rightarrow> compiled_input \<Rightarrow> bool" where
  "mixable s out outTracks frames i \<longleftrightarrow>
     ci_flowEl i \<noteq> co_flowEl out \<and> ci_component i \<noteq> co_component out \<and>
     (\<exists>iel ic. get_el (ci_flowEl i) s = Some iel \<and> get_comp (ci_component i) s = Some ic \<and>
       (e_state iel = AuStateStart \<longrightarrow>
          get_tag i s = Some (sv_readTag s) \<and> unat (e_minibufSamples iel) \<le> frames \<and>
          (\<forall>(it, ot) \<in> set (ci_tracks i). unat it < unat (c_numTracks ic) \<and> unat ot < outTracks) \<and>
          (ci_tracks i = [] \<longrightarrow> unat (c_numTracks ic) = outTracks) \<and>
          2 * (unat (e_minibufSamples iel) * unat (c_numTracks ic)) \<le> length (el_minibuf iel ic)))"

lemma process_input_mixes:
  assumes m: "mixable s out outTracks frames i"
    and o: "get_el (co_flowEl out) s = Some oel" "get_comp (co_component out) s = Some oc" "unat (c_numTracks oc) = outTracks"
    and room: "4 * (frames * outTracks) \<le> length (out_buf out s)"
  shows "\<exists>s'. process_input fuel Accumulate out AuStateStart i s = Some (False, s') \<and> sv_readTag s' = sv_readTag s \<and>
    (\<forall>p. p \<noteq> co_flowEl out \<longrightarrow> get_el p s' = get_el p s) \<and> (\<forall>r. r \<noteq> co_component out \<longrightarrow> get_comp r s' = get_comp r s) \<and>
    (\<exists>oel' oc'. get_el (co_flowEl out) s' = Some oel' \<and> get_comp (co_component out) s' = Some oc' \<and>
       unat (c_numTracks oc') = outTracks) \<and>
    length (out_buf out s') = length (out_buf out s) \<and>
    (\<forall>f < frames. \<forall>t < outTracks. w32 (out_buf out s') (f * outTracks + t) =
       w32 (out_buf out s) (f * outTracks + t) + contribution s i outTracks f t)"
proof -
  from m obtain iel ic where i: "get_el (ci_flowEl i) s = Some iel" "get_comp (ci_component i) s = Some ic"
      "ci_flowEl i \<noteq> co_flowEl out" "ci_component i \<noteq> co_component out"
    and st: "e_state iel = AuStateStart \<Longrightarrow>
          get_tag i s = Some (sv_readTag s) \<and> unat (e_minibufSamples iel) \<le> frames \<and>
          (\<forall>(it, ot) \<in> set (ci_tracks i). unat it < unat (c_numTracks ic) \<and> unat ot < outTracks) \<and>
          (ci_tracks i = [] \<longrightarrow> unat (c_numTracks ic) = outTracks) \<and>
          2 * (unat (e_minibufSamples iel) * unat (c_numTracks ic)) \<le> length (el_minibuf iel ic)"
    unfolding mixable_def by blast
  show ?thesis
  proof (cases "e_state iel = AuStateStart")
    case False
    then have "process_input fuel Accumulate out AuStateStart i s = Some (False, s)"
      by (simp add: process_input_def i)
    with False o i show ?thesis by (intro exI [of _ s]) (auto simp: contribution_def)
  next
    case True
    note st = st [OF True]
    let ?n = "unat (e_minibufSamples iel)" and ?buf = "el_minibuf oel oc"
    have ob: "out_buf out s = ?buf" by (simp add: out_buf_def o)
    have "?n \<le> frames" using st by simp
    then have "?n * outTracks \<le> frames * outTracks" by (rule mult_le_mono1)
    then have big: "4 * (?n * outTracks) \<le> length ?buf" using room unfolding ob by linarith
    obtain buf where buf: "accumulateOutput (ci_multiplyConstant i) (ci_addConstant i) (ci_tracks i)
          (unat (c_numTracks ic)) outTracks ?n (el_minibuf iel ic) ?buf = Some buf"
        "length buf = length ?buf"
      and words: "\<And>f t. f < ?n \<Longrightarrow> t < outTracks \<Longrightarrow> w32 buf (f * outTracks + t) = w32 ?buf (f * outTracks + t) +
        (if ci_tracks i = [] then mix_value (ci_multiplyConstant i) (ci_addConstant i) (w16 (el_minibuf iel ic) (f * outTracks + t))
         else track_sum (mix_value (ci_multiplyConstant i) (ci_addConstant i)) (ci_tracks i) (el_minibuf iel ic) (f * unat (c_numTracks ic)) t)"
      and rest: "\<And>j. ?n * outTracks \<le> j \<Longrightarrow> w32 buf j = w32 ?buf j"
      using accumulateOutput_spec [of "ci_tracks i" "unat (c_numTracks ic)" outTracks ?n "el_minibuf iel ic" ?buf
          "ci_multiplyConstant i" "ci_addConstant i"] st big by blast
    define s' where "s' = put_port (co_flowEl out) (co_component out)
        (oel\<lparr>e_minibufSamples := max (e_minibufSamples oel) (e_minibufSamples iel)\<rparr>) oc buf s"
    have "process_input fuel Accumulate out AuStateStart i s = Some (False, s')"
      using st True by (simp add: process_input_def i accumulate_input_def o run_accumulate_def buf(1) s'_def)
    moreover obtain oel' oc' where o': "get_el (co_flowEl out) s' = Some oel'" "get_comp (co_component out) s' = Some oc'"
        "el_minibuf oel' oc' = buf" "c_numTracks oc' = c_numTracks oc"
      using put_port_here [OF o(1)] unfolding s'_def by blast
    moreover have "out_buf out s' = buf" using o' by (simp add: out_buf_def)
    moreover have "w32 buf (f * outTracks + t) = w32 ?buf (f * outTracks + t) + contribution s i outTracks f t"
      if "f < frames" "t < outTracks" for f t
    proof (cases "f < ?n")
      case False
      then have "?n * outTracks \<le> f * outTracks" by (intro mult_le_mono1) simp
      then have "?n * outTracks \<le> f * outTracks + t" by (rule trans_le_add1)
      with rest False show ?thesis by (simp add: contribution_def i)
    qed (use words that True in \<open>simp add: contribution_def i\<close>)
    moreover have "sv_readTag s' = sv_readTag s" "\<forall>p. p \<noteq> co_flowEl out \<longrightarrow> get_el p s' = get_el p s"
        "\<forall>r. r \<noteq> co_component out \<longrightarrow> get_comp r s' = get_comp r s"
      by (simp_all add: s'_def put_port_frames)
    ultimately show ?thesis using o(3) buf(2) ob by (intro exI [of _ s']) auto
  qed
qed

lemma input_frame:
  assumes "\<forall>p. p \<noteq> co_flowEl out \<longrightarrow> get_el p s' = get_el p s" "\<forall>r. r \<noteq> co_component out \<longrightarrow> get_comp r s' = get_comp r s"
    and "sv_readTag s' = sv_readTag s" "mixable s out outTracks frames i"
  shows "mixable s' out outTracks frames i \<and> contribution s' i outTracks = contribution s i outTracks"
proof -
  have "ci_flowEl i \<noteq> co_flowEl out" "ci_component i \<noteq> co_component out" using assms(4) by (auto simp: mixable_def)
  then have eqs: "get_el (ci_flowEl i) s' = get_el (ci_flowEl i) s" "get_comp (ci_component i) s' = get_comp (ci_component i) s"
    using assms(1,2) by blast+
  have "contribution s' i outTracks = contribution s i outTracks" by (rule ext)+ (simp only: contribution_def eqs)
  moreover have "mixable s' out outTracks frames i = mixable s out outTracks frames i"
    by (simp only: mixable_def get_tag_def eqs assms(3))
  ultimately show ?thesis using assms(4) by simp
qed


text \<open>One started input of two samples, used twice.\<close>

definition mix_server :: server where
  "mix_server = (server_init 2)\<lparr>sv_comps := [1 \<mapsto> component0\<lparr>c_numTracks := 1, c_minibuf := [1, 0, 2, 0]\<rparr>,
       2 \<mapsto> component0\<lparr>c_numTracks := 1, c_minibuf := replicate 8 0\<rparr>],
     sv_flows := [0 \<mapsto> flow0\<lparr>f_elements := Some [element0\<lparr>e_state := 1, e_minibufSamples := 2\<rparr>, element0\<lparr>e_state := 1\<rparr>]\<rparr>]\<rparr>"

definition mix_input :: compiled_input where
  "mix_input = \<lparr>ci_component = 1, ci_flowEl = (0, 0), ci_multiplyConstant = 0x10000, ci_addConstant = 0, ci_tracks = [],
     ci_rateConvert = RcNull, ci_preadTag = TagComponent, ci_readInput = ReadClient\<rparr>"

definition mix_output :: compiled_output where
  "mix_output = \<lparr>co_component = 2, co_flowEl = (0, 1), co_firstInput = 0, co_inputs = [mix_input, mix_input],
     co_rateConvert = RcNull, co_writeOutput = WriteDevice\<rparr>"


end
