(* ===== verification/Attributes.thy ===== *)
theory Attributes
  imports Process
begin

text \<open>
  The attributes of devices and buckets as they come off the wire, and the two functions that set a component's
  attributes from them and compare them with a component (\<open>AuSetComponentAttributes\<close>, \<open>AuMatchAttributes\<close> of
  \<^verbatim>\<open>server/dia/auutil.c\<close>). Both walk through the bits of the value mask.

  Attributes are a block of bytes, read at the offsets of \<^verbatim>\<open>auCommonPart\<close>, \<^verbatim>\<open>auDevicePart\<close> and \<^verbatim>\<open>auBucketPart\<close>
  (\<^verbatim>\<open>lib/audio/Aproto.h\<close>): the source casts one pointer to all of them. \<open>None\<close> is a read or copy outside a block.
\<close>

abbreviation (input) sizeof_auDeviceAttributes :: nat where "sizeof_auDeviceAttributes \<equiv> 44"
abbreviation (input) sizeof_auBucketAttributes :: nat where "sizeof_auBucketAttributes \<equiv> 36"
abbreviation (input) AuCompCommonMasks :: u32 where "AuCompCommonMasks \<equiv> 0x7F"
abbreviation (input) AuCompCommonKindMask :: u32 where "AuCompCommonKindMask \<equiv> 0x02"
abbreviation (input) AuCompCommonUseMask :: u32 where "AuCompCommonUseMask \<equiv> 0x04"
abbreviation (input) AuCompCommonDescriptionMask :: u32 where "AuCompCommonDescriptionMask \<equiv> 0x40"
abbreviation (input) AuCompDeviceMasks :: u32 where "AuCompDeviceMasks \<equiv> 0x3F0000"
abbreviation (input) AuCompBucketMasks :: u32 where "AuCompBucketMasks \<equiv> 0x30000"
abbreviation (input) AuCompBucketAllMasks :: u32 where "AuCompBucketAllMasks \<equiv> 0x3007F"

section \<open>Fields\<close>

definition a_value_mask :: "bytes \<Rightarrow> u32 option" where "a_value_mask a = ld32 a 0"
definition a_id :: "bytes \<Rightarrow> u32 option" where "a_id a = ld32 a 8"
definition a_kind :: "bytes \<Rightarrow> u8 option" where "a_kind a = ld8 a 12"
definition a_use :: "bytes \<Rightarrow> u8 option" where "a_use a = ld8 a 13"
definition a_format :: "bytes \<Rightarrow> u8 option" where "a_format a = ld8 a 14"
definition a_num_tracks :: "bytes \<Rightarrow> u8 option" where "a_num_tracks a = ld8 a 15"
definition a_access :: "bytes \<Rightarrow> u32 option" where "a_access a = ld32 a 16"
definition a_description_type :: "bytes \<Rightarrow> u8 option" where "a_description_type a = ld8 a 20"
definition a_description_len :: "bytes \<Rightarrow> u32 option" where "a_description_len a = ld32 a 24"
definition a_location :: "bytes \<Rightarrow> u32 option" where "a_location a = ld32 a 28"
definition a_gain :: "bytes \<Rightarrow> s32 option" where "a_gain a = ld32 a 32"
definition a_min_sample_rate :: "bytes \<Rightarrow> u16 option" where "a_min_sample_rate a = ld16 a 36"
definition a_max_sample_rate :: "bytes \<Rightarrow> u16 option" where "a_max_sample_rate a = ld16 a 38"
definition a_line_mode :: "bytes \<Rightarrow> u8 option" where "a_line_mode a = ld8 a 40"
definition a_num_children :: "bytes \<Rightarrow> u8 option" where "a_num_children a = ld8 a 41"
definition a_sample_rate :: "bytes \<Rightarrow> u16 option" where "a_sample_rate a = ld16 a 28"
definition a_num_samples :: "bytes \<Rightarrow> u32 option" where "a_num_samples a = ld32 a 32"

definition bytes32 :: "u32 \<Rightarrow> bytes" where
  "bytes32 v = bytes16 (ucast v) @ bytes16 (ucast (drop_bit 16 v))"

section \<open>Walking through a mask\<close>

text \<open>
  \<^verbatim>\<open>while (mask) { if (mask & 1) switch (i) ...; mask >>= 1; i <<= 1; }\<close>, with the number of the bit \<open>i\<close> has set in
  its place. A step that gives \<open>False\<close> returns from the function.
\<close>

function mask_loop :: "(nat \<Rightarrow> 's \<Rightarrow> (bool \<times> 's) option) \<Rightarrow> u32 \<Rightarrow> nat \<Rightarrow> 's \<Rightarrow> (bool \<times> 's) option" where
  "mask_loop step m i s =
     (if m = 0 then Some (True, s)
      else do { (ok, s) \<leftarrow> (if m AND 1 \<noteq> 0 then step i s else Some (True, s));
                (if ok then mask_loop step (drop_bit 1 m) (Suc i) s else Some (False, s)) })"
  by auto

termination
proof (relation "measure (\<lambda>(step, m, i, s). unat m)")
  fix step :: "nat \<Rightarrow> 's \<Rightarrow> (bool \<times> 's) option" and m :: u32 and i s and r :: "bool \<times> 's" and ok s'
  assume "m \<noteq> 0"
  then have "0 < unat m" by (simp add: unat_gt_0)
  then show "((step, drop_bit 1 m, Suc i, s'), (step, m, i, s)) \<in> measure (\<lambda>(step, m, i, s). unat m)"
    by (simp add: drop_bit_eq_div unat_div)
qed simp

declare mask_loop.simps [simp del]

section \<open>Setting\<close>

text \<open>\<open>varData\<close> points to what follows the attributes; \<open>None\<close> is a null pointer.\<close>

definition set_common :: "bytes \<Rightarrow> nat \<Rightarrow> component \<times> bytes option \<Rightarrow> (bool \<times> component \<times> bytes option) option" where
  "set_common a i cv = (let (c, varData) = cv in
     if i = 0 then do { v \<leftarrow> a_id a; Some (True, c\<lparr>c_id := v\<rparr>, varData) }
     else if i = 1 then do { v \<leftarrow> a_kind a; Some (True, c\<lparr>c_kind := v\<rparr>, varData) }
     else if i = 2 then do { v \<leftarrow> a_use a; Some (True, c\<lparr>c_use := v\<rparr>, varData) }
     else if i = 3 then do { v \<leftarrow> a_format a; Some (True, c\<lparr>c_format := v\<rparr>, varData) }
     else if i = 4 then do { v \<leftarrow> a_num_tracks a; Some (True, c\<lparr>c_numTracks := v\<rparr>, varData) }
     else if i = 5 then do { v \<leftarrow> a_access a; Some (True, c\<lparr>c_access := ucast v\<rparr>, varData) }
     else if i = 6 then
       do { ty \<leftarrow> a_description_type a; len \<leftarrow> a_description_len a;
            d \<leftarrow> (case varData of None \<Rightarrow> if len = 0 then Some [] else None | Some d \<Rightarrow> load d 0 (unat len));
            Some (True, c\<lparr>c_descriptionType := ty, c_description := d\<rparr>, map_option (drop (unat (PAD4 len))) varData) }
     else Some (True, c, varData))"

definition set_device :: "bytes \<Rightarrow> nat \<Rightarrow> component \<Rightarrow> (bool \<times> component) option" where
  "set_device a i c =
     (if i = 19 then do { v \<leftarrow> a_gain a; Some (True, c\<lparr>c_gain := v\<rparr>) }
      else if i = 20 then do { v \<leftarrow> a_line_mode a; Some (True, c\<lparr>c_lineMode := v\<rparr>) }
      else Some (True, c))"

definition set_bucket :: "bytes \<Rightarrow> nat \<Rightarrow> component \<Rightarrow> (bool \<times> component) option" where
  "set_bucket a i c =
     (if i = 16 then do { v \<leftarrow> a_sample_rate a; Some (True, c\<lparr>c_sampleRate := ucast v\<rparr>) }
      else if i = 17 then do { v \<leftarrow> a_num_samples a; Some (True, c\<lparr>c_numSamples := v\<rparr>) }
      else Some (True, c))"

definition is_device :: "component \<Rightarrow> bool" where
  "is_device c \<longleftrightarrow> c_kind c = AuComponentKindPhysicalInput \<or> c_kind c = AuComponentKindPhysicalOutput \<or>
     c_kind c = AuComponentKindPhysicalFeedback"

definition AuSetComponentAttributes :: "bytes \<Rightarrow> component \<Rightarrow> bytes option \<Rightarrow> component option" where
  "AuSetComponentAttributes a c varData =
     do { m \<leftarrow> a_value_mask a;
          (_, c, _) \<leftarrow> mask_loop (set_common a) (m AND AuCompCommonMasks) 0 (c, varData);
          (_, c) \<leftarrow> (if is_device c then mask_loop (set_device a) (drop_bit 16 (m AND AuCompDeviceMasks)) 16 c
                     else if c_kind c = AuComponentKindBucket then
                       mask_loop (set_bucket a) (drop_bit 16 (m AND AuCompBucketMasks)) 16 c
                     else Some (True, c));
          Some c }"

section \<open>Comparing\<close>

text \<open>Whether \<^verbatim>\<open>strncmp\<close> gives 0.\<close>

fun strncmp_equal :: "bytes \<Rightarrow> bytes \<Rightarrow> nat \<Rightarrow> bool option" where
  "strncmp_equal xs ys 0 = Some True"
| "strncmp_equal (x # xs) (y # ys) (Suc n) =
     (if x \<noteq> y then Some False else if x = 0 then Some True else strncmp_equal xs ys n)"
| "strncmp_equal _ _ (Suc n) = None"

definition match_common :: "bytes \<Rightarrow> nat \<Rightarrow> component \<times> bytes \<Rightarrow> (bool \<times> component \<times> bytes) option" where
  "match_common a i cv = (let (c, varData) = cv in
     if i = 0 then do { v \<leftarrow> a_id a; Some (c_id c = v, c, varData) }
     else if i = 1 then do { v \<leftarrow> a_kind a; Some (c_kind c = v, c, varData) }
     else if i = 2 then do { v \<leftarrow> a_use a; Some (c_use c AND v \<noteq> 0, c, varData) }
     else if i = 3 then do { v \<leftarrow> a_format a; Some (c_format c = v, c, varData) }
     else if i = 4 then do { v \<leftarrow> a_num_tracks a; Some (c_numTracks c = v, c, varData) }
     else if i = 5 then do { v \<leftarrow> a_access a; Some (ucast (c_access c) AND v \<noteq> 0, c, varData) }
     else if i = 6 then
       do { ty \<leftarrow> a_description_type a; len \<leftarrow> a_description_len a;
            (if c_descriptionType c \<noteq> ty \<or> word_of_nat (length (c_description c)) \<noteq> len then Some (False, c, varData)
             else do { eq \<leftarrow> strncmp_equal (c_description c) varData (unat len);
                       Some (eq, c, drop (unat (PAD4 len)) varData) }) }
     else Some (True, c, varData))"

text \<open>The gains of a device are fetched from the driver before they are compared.\<close>

definition match_device :: "driver \<Rightarrow> bytes \<Rightarrow> nat \<Rightarrow> component \<times> bytes \<Rightarrow> (bool \<times> component \<times> bytes) option" where
  "match_device drv a i cv = (let (c, varData) = cv in
     if i = 16 then do { v \<leftarrow> a_min_sample_rate a; Some (c_minSampleRate c = ucast v, c, varData) }
     else if i = 17 then do { v \<leftarrow> a_max_sample_rate a; Some (c_maxSampleRate c = ucast v, c, varData) }
     else if i = 18 then do { v \<leftarrow> a_location a; Some (c_location c AND v \<noteq> 0, c, varData) }
     else if i = 19 then
       do { v \<leftarrow> a_gain a;
            let c = (if c_kind c = AuComponentKindPhysicalInput then c\<lparr>c_gain := AuGetInputGain drv (c_gain c)\<rparr>
                     else if c_kind c = AuComponentKindPhysicalOutput then
                       (let (g, m) = AuGetOutputGainAndMode drv in c\<lparr>c_gain := g, c_lineMode := m\<rparr>)
                     else if c_kind c = AuComponentKindPhysicalFeedback then c\<lparr>c_gain := AuGetFeedbackGain drv (c_gain c)\<rparr>
                     else c);
            Some (c_gain c = v, c, varData) }
     else if i = 20 then
       do { v \<leftarrow> a_line_mode a;
            let c = (if c_kind c = AuComponentKindPhysicalInput then c\<lparr>c_lineMode := AuGetInputMode drv (c_lineMode c)\<rparr>
                     else if c_kind c = AuComponentKindPhysicalOutput then
                       (let (g, m) = AuGetOutputGainAndMode drv in c\<lparr>c_gain := g, c_lineMode := m\<rparr>)
                     else c);
            Some (c_lineMode c = v, c, varData) }
     else if i = 21 then
       do { v \<leftarrow> a_num_children a;
            (if length (c_children c) \<noteq> unat v then Some (False, c, varData)
             else do { x \<leftarrow> load varData 0 (4 * unat v);
                       Some (x = concat (map bytes32 (c_children c)), c, drop (4 * unat v) varData) }) }
     else Some (True, c, varData))"

definition match_bucket :: "bytes \<Rightarrow> nat \<Rightarrow> component \<times> bytes \<Rightarrow> (bool \<times> component \<times> bytes) option" where
  "match_bucket a i cv = (let (c, varData) = cv in
     if i = 16 then do { v \<leftarrow> a_sample_rate a; Some (c_sampleRate c = ucast v, c, varData) }
     else if i = 17 then do { v \<leftarrow> a_num_samples a; Some (c_numSamples c = v, c, varData) }
     else Some (True, c, varData))"

definition AuMatchAttributes :: "driver \<Rightarrow> bytes \<Rightarrow> component \<Rightarrow> bytes \<Rightarrow> (bool \<times> component) option" where
  "AuMatchAttributes drv a c varData =
     do { m \<leftarrow> a_value_mask a;
          (ok, c, varData) \<leftarrow> mask_loop (match_common a) (m AND AuCompCommonMasks) 0 (c, varData);
          (if \<not> ok then Some (False, c)
           else do { (ok, c, _) \<leftarrow> (if is_device c then
                         mask_loop (match_device drv a) (drop_bit 16 (m AND AuCompDeviceMasks)) 16 (c, varData)
                       else if c_kind c = AuComponentKindBucket then
                         mask_loop (match_bucket a) (drop_bit 16 (m AND AuCompBucketMasks)) 16 (c, varData)
                       else Some (True, c, varData));
                     Some (ok, c) }) }"


section \<open>What is set is matched\<close>

lemma and_1_bit: "(m :: u32) AND 1 \<noteq> 0 \<longleftrightarrow> bit m 0"
  by (simp add: and_one_eq odd_iff_mod_2_eq_one bit_0)

lemma mask_loop_0 [simp]: "mask_loop step 0 i s = Some (True, s)"
  by (simp add: mask_loop.simps)

text \<open>An invariant indexed by the bit: of a loop that returned, and of one whose steps cannot fail.\<close>

lemma mask_loop_inv:
  "mask_loop step m i s = Some (ok, s') \<Longrightarrow> S i s \<Longrightarrow>
   (\<And>k s s' ok. bit m k \<Longrightarrow> S (i + k) s \<Longrightarrow> step (i + k) s = Some (ok, s') \<Longrightarrow> ok \<and> S (Suc (i + k)) s') \<Longrightarrow>
   (\<And>k s. \<not> bit m k \<Longrightarrow> S (i + k) s \<Longrightarrow> S (Suc (i + k)) s) \<Longrightarrow>
   ok \<and> (\<exists>n. S (i + n) s' \<and> (\<forall>k \<ge> n. \<not> bit m k))"
proof (induction step m i s arbitrary: ok s' rule: mask_loop.induct)
  case (1 step m i s)
  show ?case
  proof (cases "m = 0")
    case True
    with 1(2,3) show ?thesis by (auto intro!: exI [of _ 0])
  next
    case False
    obtain b s1 where s1: "(if m AND 1 \<noteq> 0 then step i s else Some (True, s)) = Some (b, s1)"
        "(if b then mask_loop step (drop_bit 1 m) (Suc i) s1 else Some (False, s1)) = Some (ok, s')"
      using 1(2) False by (auto simp: mask_loop.simps [of step m] split: bind_splits)
    have "b \<and> S (Suc i) s1"
    proof (cases "bit m 0")
      case True
      then show ?thesis using s1(1) 1(4) [of 0 s b s1] 1(3) by (simp add: and_1_bit)
    next
      case False
      then show ?thesis using s1(1) 1(5) [of 0 s] 1(3) by (simp add: and_1_bit)
    qed
    then have b: b and S: "S (Suc i) s1" by auto
    have r: "mask_loop step (drop_bit 1 m) (Suc i) s1 = Some (ok, s')" using s1(2) b by simp
    have "ok \<and> (\<exists>n. S (Suc i + n) s' \<and> (\<forall>k \<ge> n. \<not> bit (drop_bit 1 m) k))"
    proof (rule 1(1) [OF False s1(1) refl b r S])
      fix k t t' o' assume "bit (drop_bit 1 m) k" "S (Suc i + k) t" "step (Suc i + k) t = Some (o', t')"
      then show "o' \<and> S (Suc (Suc i + k)) t'" using 1(4) [of "Suc k" t o' t'] by (simp add: bit_drop_bit_eq)
    next
      fix k t assume "\<not> bit (drop_bit 1 m) k" "S (Suc i + k) t"
      then show "S (Suc (Suc i + k)) t" using 1(5) [of "Suc k" t] by (simp add: bit_drop_bit_eq)
    qed
    then obtain n where n: "ok" "S (Suc i + n) s'" "\<forall>k \<ge> n. \<not> bit m (Suc k)" by (auto simp: bit_drop_bit_eq)
    then have "\<forall>k \<ge> Suc n. \<not> bit m k" by (metis Suc_le_D Suc_le_mono)
    with n show ?thesis by (intro conjI exI [of _ "Suc n"]) simp_all
  qed
qed

lemma mask_loop_runs:
  "S i s \<Longrightarrow> (\<And>k s. bit m k \<Longrightarrow> S (i + k) s \<Longrightarrow> \<exists>s'. step (i + k) s = Some (True, s') \<and> S (Suc (i + k)) s') \<Longrightarrow>
   (\<And>k s. \<not> bit m k \<Longrightarrow> S (i + k) s \<Longrightarrow> S (Suc (i + k)) s) \<Longrightarrow>
   \<exists>s' n. mask_loop step m i s = Some (True, s') \<and> S (i + n) s'"
proof (induction step m i s rule: mask_loop.induct)
  case (1 step m i s)
  show ?case
  proof (cases "m = 0")
    case True
    with 1(2) show ?thesis by (auto intro!: exI [of _ 0])
  next
    case False
    obtain s1 where s1: "(if m AND 1 \<noteq> 0 then step i s else Some (True, s)) = Some (True, s1)" "S (Suc i) s1"
      using 1(3) [of 0 s] 1(4) [of 0 s] 1(2) by (cases "bit m 0") (auto simp: and_1_bit)
    have "\<exists>s' n. mask_loop step (drop_bit 1 m) (Suc i) s1 = Some (True, s') \<and> S (Suc i + n) s'"
    proof (rule 1(1) [OF False s1(1) refl TrueI s1(2)])
      fix k t assume "bit (drop_bit 1 m) k" "S (Suc i + k) t"
      then show "\<exists>t'. step (Suc i + k) t = Some (True, t') \<and> S (Suc (Suc i + k)) t'"
        using 1(3) [of "Suc k" t] by (simp add: bit_drop_bit_eq)
    next
      fix k t assume "\<not> bit (drop_bit 1 m) k" "S (Suc i + k) t"
      then show "S (Suc (Suc i + k)) t" using 1(4) [of "Suc k" t] by (simp add: bit_drop_bit_eq)
    qed
    then obtain s' n where "mask_loop step (drop_bit 1 m) (Suc i) s1 = Some (True, s')" "S (i + Suc n) s'" by auto
    moreover from this False s1(1) have "mask_loop step m i s = Some (True, s')" by (subst mask_loop.simps) simp
    ultimately show ?thesis by blast
  qed
qed

lemma strncmp_equal_take: "n \<le> length ys \<Longrightarrow> strncmp_equal (take n ys) ys n = Some True"
proof (induction n arbitrary: ys)
  case (Suc n)
  then show ?case by (cases ys) auto
qed simp

lemma low_byte: "ucast (ucast (v :: u32) :: u8) AND v = v AND 0xFF"
proof -
  have "ucast (ucast v :: u8) AND v = take_bit 8 v" by (rule bit_word_eqI) (auto simp: bit_simps)
  also have "\<dots> = v AND mask 8" by (rule take_bit_eq_mask)
  finally show ?thesis by (simp add: mask_eq_exp_minus_1)
qed

text \<open>Attribute \<open>j\<close> of a bucket is the one in the block.\<close>

definition matches :: "bytes \<Rightarrow> bytes \<Rightarrow> nat \<Rightarrow> component \<Rightarrow> bool" where
  "matches a vd j c \<longleftrightarrow>
     (j = 0 \<longrightarrow> a_id a = Some (c_id c)) \<and> (j = 1 \<longrightarrow> a_kind a = Some (c_kind c)) \<and>
     (j = 2 \<longrightarrow> a_use a = Some (c_use c) \<and> c_use c \<noteq> 0) \<and> (j = 3 \<longrightarrow> a_format a = Some (c_format c)) \<and>
     (j = 4 \<longrightarrow> a_num_tracks a = Some (c_numTracks c)) \<and>
     (j = 5 \<longrightarrow> (\<exists>v. a_access a = Some v \<and> c_access c = ucast v \<and> v AND 0xFF \<noteq> 0)) \<and>
     (j = 6 \<longrightarrow> a_description_type a = Some (c_descriptionType c) \<and>
        (\<exists>n. a_description_len a = Some n \<and> unat n \<le> length vd \<and> c_description c = take (unat n) vd)) \<and>
     (j = 16 \<longrightarrow> (\<exists>v. a_sample_rate a = Some v \<and> c_sampleRate c = ucast v)) \<and>
     (j = 17 \<longrightarrow> a_num_samples a = Some (c_numSamples c))"

text \<open>What the value of an attribute must be for a match to be possible.\<close>

definition matchable :: "bytes \<Rightarrow> nat \<Rightarrow> bool" where
  "matchable a j \<longleftrightarrow> (j = 1 \<longrightarrow> a_kind a = Some AuComponentKindBucket) \<and> (j = 2 \<longrightarrow> a_use a \<noteq> Some 0) \<and>
     (j = 5 \<longrightarrow> (\<forall>v. a_access a = Some v \<longrightarrow> v AND 0xFF \<noteq> 0))"

lemma matches_at:
  "matches a vd 0 c \<longleftrightarrow> a_id a = Some (c_id c)"
  "matches a vd 1 c \<longleftrightarrow> a_kind a = Some (c_kind c)"
  "matches a vd 2 c \<longleftrightarrow> a_use a = Some (c_use c) \<and> c_use c \<noteq> 0"
  "matches a vd 3 c \<longleftrightarrow> a_format a = Some (c_format c)"
  "matches a vd 4 c \<longleftrightarrow> a_num_tracks a = Some (c_numTracks c)"
  "matches a vd 5 c \<longleftrightarrow> (\<exists>v. a_access a = Some v \<and> c_access c = ucast v \<and> v AND 0xFF \<noteq> 0)"
  "matches a vd 6 c \<longleftrightarrow> a_description_type a = Some (c_descriptionType c) \<and>
     (\<exists>n. a_description_len a = Some n \<and> unat n \<le> length vd \<and> c_description c = take (unat n) vd)"
  "matches a vd 16 c \<longleftrightarrow> (\<exists>v. a_sample_rate a = Some v \<and> c_sampleRate c = ucast v)"
  "matches a vd 17 c \<longleftrightarrow> a_num_samples a = Some (c_numSamples c)"
  by (simp_all add: matches_def)

lemma matches_other:
  "k \<noteq> 0 \<Longrightarrow> matches a vd k (c\<lparr>c_id := x0\<rparr>) = matches a vd k c"
  "k \<noteq> 1 \<Longrightarrow> matches a vd k (c\<lparr>c_kind := x1\<rparr>) = matches a vd k c"
  "k \<noteq> 2 \<Longrightarrow> matches a vd k (c\<lparr>c_use := x2\<rparr>) = matches a vd k c"
  "k \<noteq> 3 \<Longrightarrow> matches a vd k (c\<lparr>c_format := x3\<rparr>) = matches a vd k c"
  "k \<noteq> 4 \<Longrightarrow> matches a vd k (c\<lparr>c_numTracks := x4\<rparr>) = matches a vd k c"
  "k \<noteq> 5 \<Longrightarrow> matches a vd k (c\<lparr>c_access := x5\<rparr>) = matches a vd k c"
  "k \<noteq> 6 \<Longrightarrow> matches a vd k (c\<lparr>c_descriptionType := x6, c_description := y6\<rparr>) = matches a vd k c"
  "k \<noteq> 16 \<Longrightarrow> matches a vd k (c\<lparr>c_sampleRate := x7\<rparr>) = matches a vd k c"
  "k \<noteq> 17 \<Longrightarrow> matches a vd k (c\<lparr>c_numSamples := x8\<rparr>) = matches a vd k c"
  by (simp_all add: matches_def)

lemma common_bits: "j < 7 \<Longrightarrow> j = 0 \<or> j = 1 \<or> j = 2 \<or> j = 3 \<or> j = 4 \<or> j = 5 \<or> j = (6 :: nat)"
  by auto

lemma set_common_matches:
  assumes "set_common a j (c, v) = Some (ok, c', v')" "j < 7" "matchable a j" "v = Some vd" "c_kind c = AuComponentKindBucket"
  shows "ok \<and> matches a vd j c' \<and> (\<forall>k. k \<noteq> j \<longrightarrow> matches a vd k c \<longrightarrow> matches a vd k c') \<and>
    c_kind c' = AuComponentKindBucket \<and> (j < 6 \<longrightarrow> v' = v)"
  using common_bits [OF assms(2)] assms(1,3-5)
  by (elim disjE) (auto simp: set_common_def matches_at [simplified] matches_other [simplified] matchable_def bind_eq_Some_conv mem_simps)

lemma set_bucket_matches:
  assumes "set_bucket a j c = Some (ok, c')" "j = 16 \<or> j = 17"
  shows "ok \<and> matches a vd j c' \<and> (\<forall>k. k \<noteq> j \<longrightarrow> matches a vd k c \<longrightarrow> matches a vd k c') \<and> c_kind c' = c_kind c"
  using assms by (elim disjE) (auto simp: set_bucket_def matches_at matches_other bind_eq_Some_conv)

lemma match_common_matches:
  assumes "matches a vd j c" "j < 7"
  shows "\<exists>v. match_common a j (c, vd) = Some (True, c, v) \<and> (j < 6 \<longrightarrow> v = vd)"
  using common_bits [OF assms(2)] assms(1)
  by (elim disjE) (auto simp: match_common_def matches_at [simplified] low_byte strncmp_equal_take min_def)

lemma match_bucket_matches:
  "matches a vd j c \<Longrightarrow> j = 16 \<or> j = 17 \<Longrightarrow> match_bucket a j (c, v) = Some (True, c, v)"
  by (elim disjE) (auto simp: match_bucket_def matches_at)

lemma bit_common: "bit (m AND AuCompCommonMasks) k \<longleftrightarrow> bit (m :: u32) k \<and> k < 7"
proof -
  have "m AND AuCompCommonMasks = take_bit 7 m" by (simp add: take_bit_eq_mask mask_eq_exp_minus_1)
  then show ?thesis by (auto simp: bit_take_bit_iff)
qed

lemma bit_bucket: "bit (drop_bit 16 (m AND AuCompBucketMasks)) k \<longleftrightarrow> bit (m :: u32) (16 + k) \<and> k < 2"
proof -
  have "drop_bit 16 (m AND AuCompBucketMasks) = drop_bit 16 m AND drop_bit 16 AuCompBucketMasks" by (simp only: drop_bit_and)
  also have "\<dots> = take_bit 2 (drop_bit 16 m)" by (simp add: take_bit_eq_mask mask_eq_exp_minus_1)
  finally show ?thesis by (auto simp: bit_take_bit_iff bit_drop_bit_eq)
qed

lemma AuSetComponentAttributes_matches:
  assumes set: "AuSetComponentAttributes a c (Some vd) = Some c'" and kind: "c_kind c = AuComponentKindBucket"
    and m: "a_value_mask a = Some m" and ok: "\<forall>j. bit m j \<longrightarrow> matchable a j"
  shows "c_kind c' = AuComponentKindBucket \<and> (\<forall>j. bit m j \<longrightarrow> j < 7 \<or> j = 16 \<or> j = 17 \<longrightarrow> matches a vd j c')"
proof -
  obtain b1 c1 v1 b2 where L1: "mask_loop (set_common a) (m AND AuCompCommonMasks) 0 (c, Some vd) = Some (b1, c1, v1)"
    and L2: "(if is_device c1 then mask_loop (set_device a) (drop_bit 16 (m AND AuCompDeviceMasks)) 16 c1
         else if c_kind c1 = AuComponentKindBucket then mask_loop (set_bucket a) (drop_bit 16 (m AND AuCompBucketMasks)) 16 c1
         else Some (True, c1)) = Some (b2, c')"
    using set m by (auto simp: AuSetComponentAttributes_def bind_eq_Some_conv)
  define S where "S i = (\<lambda>(c, v). c_kind c = AuComponentKindBucket \<and> (i \<le> 6 \<longrightarrow> v = Some vd) \<and>
    (\<forall>j < i. bit m j \<longrightarrow> j < 7 \<longrightarrow> matches a vd j c))" for i :: nat
  have "b1 \<and> (\<exists>n. S (0 + n) (c1, v1) \<and> (\<forall>k \<ge> n. \<not> bit (m AND AuCompCommonMasks) k))"
  proof (rule mask_loop_inv [OF L1])
    show "S 0 (c, Some vd)" using kind by (simp add: S_def)
    show "S (Suc (0 + k)) s" if "\<not> bit (m AND AuCompCommonMasks) k" "S (0 + k) s" for k s
      using that unfolding bit_common by (auto simp: S_def less_Suc_eq)
    show "o' \<and> S (Suc (0 + k)) s'" if st: "bit (m AND AuCompCommonMasks) k" "S (0 + k) s" "set_common a (0 + k) s = Some (o', s')" for k s s' o'
    proof -
      obtain d v d' v' where s: "s = (d, v)" "s' = (d', v')" by (cases s, cases s')
      have k: "bit m k" "k < 7" using st(1) unfolding bit_common by auto
      have "o' \<and> matches a vd k d' \<and> (\<forall>j. j \<noteq> k \<longrightarrow> matches a vd j d \<longrightarrow> matches a vd j d') \<and>
          c_kind d' = AuComponentKindBucket \<and> (k < 6 \<longrightarrow> v' = v)"
        by (rule set_common_matches) (use st s k ok in \<open>auto simp: S_def\<close>)
      then show ?thesis using st(2) k unfolding s S_def by (auto simp: less_Suc_eq)
    qed
  qed
  then obtain n where n: "S n (c1, v1)" "\<forall>k \<ge> n. \<not> (bit m k \<and> k < 7)" unfolding bit_common by auto
  have c1: "c_kind c1 = AuComponentKindBucket" "\<forall>j < 7. bit m j \<longrightarrow> matches a vd j c1"
    using n unfolding S_def by (simp, metis (no_types, lifting) case_prod_conv linorder_not_less)
  define T where "T i = (\<lambda>c. c_kind c = AuComponentKindBucket \<and> (\<forall>j < 7. bit m j \<longrightarrow> matches a vd j c) \<and>
    (\<forall>j < i. bit m j \<longrightarrow> 16 \<le> j \<longrightarrow> j < 18 \<longrightarrow> matches a vd j c))" for i :: nat
  have L2: "mask_loop (set_bucket a) (drop_bit 16 (m AND AuCompBucketMasks)) 16 c1 = Some (b2, c')"
    using L2 c1(1) by (simp add: is_device_def)
  have "b2 \<and> (\<exists>n. T (16 + n) c' \<and> (\<forall>k \<ge> n. \<not> bit (drop_bit 16 (m AND AuCompBucketMasks)) k))"
  proof (rule mask_loop_inv [OF L2])
    show "T 16 c1" using c1 by (simp add: T_def)
    show "T (Suc (16 + k)) s" if "\<not> bit (drop_bit 16 (m AND AuCompBucketMasks)) k" "T (16 + k) s" for k s
      using that unfolding bit_bucket T_def less_Suc_eq by auto
    show "o' \<and> T (Suc (16 + k)) s'" if st: "bit (drop_bit 16 (m AND AuCompBucketMasks)) k" "T (16 + k) s" "set_bucket a (16 + k) s = Some (o', s')" for k s s' o'
    proof -
      have k: "16 + k = 16 \<or> 16 + k = 17" using st(1) unfolding bit_bucket by auto
      note h = set_bucket_matches [OF st(3) k, of vd]
      then have "matches a vd j s'" if "matches a vd j s" for j using that by metis
      then show ?thesis using h st(2) unfolding T_def less_Suc_eq by (elim conjE, intro conjI allI impI) auto
    qed
  qed
  then obtain n' where n': "T (16 + n') c'" "\<forall>k \<ge> n'. \<not> (bit m (16 + k) \<and> k < 2)" unfolding bit_bucket by auto
  have "matches a vd j c'" if "bit m j" "j = 16 \<or> j = 17" for j
  proof -
    have "j < 16 + n'" using n'(2) [rule_format, of "j - 16"] that by (auto simp: not_le [symmetric])
    then show ?thesis using n'(1) that unfolding T_def by auto
  qed
  with n'(1) show ?thesis unfolding T_def by auto
qed

text \<open>
  Attributes that were set are found: a bucket created with attributes (their mask with the bucket kind, a use and an
  access that are not empty) is matched by the same attributes, in whatever order and number its mask names them, its
  description read from the same place.
\<close>

theorem set_attributes_match:
  assumes set: "AuSetComponentAttributes a c (Some vd) = Some c'" and kind: "c_kind c = AuComponentKindBucket"
    and m: "a_value_mask a = Some m" and ok: "\<forall>j. bit m j \<longrightarrow> matchable a j"
  shows "AuMatchAttributes drv a c' vd = Some (True, c')"
proof -
  have c': "c_kind c' = AuComponentKindBucket" "\<And>j. bit m j \<Longrightarrow> j < 7 \<Longrightarrow> matches a vd j c'"
      "\<And>j. bit m j \<Longrightarrow> j = 16 \<or> j = 17 \<Longrightarrow> matches a vd j c'"
    using AuSetComponentAttributes_matches [OF assms] by blast+
  define S where "S i = (\<lambda>(d, v). d = c' \<and> (i \<le> 6 \<longrightarrow> v = vd))" for i :: nat
  have "\<exists>s' n. mask_loop (match_common a) (m AND AuCompCommonMasks) 0 (c', vd) = Some (True, s') \<and> S (0 + n) s'"
  proof (rule mask_loop_runs)
    show "S 0 (c', vd)" by (simp add: S_def)
    show "S (Suc (0 + k)) s" if "\<not> bit (m AND AuCompCommonMasks) k" "S (0 + k) s" for k s
      using that by (auto simp: S_def)
    show "\<exists>s'. match_common a (0 + k) s = Some (True, s') \<and> S (Suc (0 + k)) s'"
      if "bit (m AND AuCompCommonMasks) k" "S (0 + k) s" for k s
      using match_common_matches [OF c'(2), of k] that unfolding bit_common S_def by auto
  qed
  then obtain v where L1: "mask_loop (match_common a) (m AND AuCompCommonMasks) 0 (c', vd) = Some (True, c', v)"
    unfolding S_def by auto
  define R where "R = (\<lambda>(_ :: nat) s. s = (c', v))"
  have "\<exists>s' n. mask_loop (match_bucket a) (drop_bit 16 (m AND AuCompBucketMasks)) 16 (c', v) = Some (True, s') \<and> R (16 + n) s'"
  proof (rule mask_loop_runs)
    show "\<exists>s'. match_bucket a (16 + k) s = Some (True, s') \<and> R (Suc (16 + k)) s'"
      if "bit (drop_bit 16 (m AND AuCompBucketMasks)) k" "R (16 + k) s" for k s
      using that match_bucket_matches [OF c'(3), of "16 + k"] unfolding bit_bucket R_def by (auto simp: less_2_cases_iff)
  qed (auto simp: R_def)
  with m L1 c'(1) show ?thesis by (auto simp: AuMatchAttributes_def is_device_def R_def)
qed

definition demo_attributes :: bytes where
  "demo_attributes = [0x79, 0, 3, 0, 0, 0, 0, 0, 9, 0, 0x40, 0, 0, 0, 1, 2, 12, 0, 0, 0, 1, 0, 0, 0, 2, 0, 0, 0, 0x40, 0x1F, 0, 0, 16, 0, 0, 0]"

definition demo_bucket :: component where
  "demo_bucket = component0\<lparr>c_kind := AuComponentKindBucket, c_use := 3\<rparr>"

lemmas demo_fields = a_value_mask_def a_id_def a_kind_def a_use_def a_format_def a_num_tracks_def a_access_def
  a_description_type_def a_description_len_def a_sample_rate_def a_num_samples_def ld32_def ld16_def ld8_def mk32_def mk16_def

lemma demo_values:
  "a_value_mask demo_attributes = Some 0x30079" "a_id demo_attributes = Some 0x400009" "a_access demo_attributes = Some 12"
  "a_use demo_attributes = Some 0" "a_format demo_attributes = Some 1" "a_num_tracks demo_attributes = Some 2"
  "a_description_type demo_attributes = Some 1" "a_description_len demo_attributes = Some 2"
  "a_sample_rate demo_attributes = Some 8000" "a_num_samples demo_attributes = Some 16"
  by (simp_all add: demo_fields demo_attributes_def)

lemma demo_set: "AuSetComponentAttributes demo_attributes demo_bucket (Some [65, 66, 0, 0]) = Some (demo_bucket\<lparr>c_id := 0x400009,
    c_format := 1, c_numTracks := 2, c_access := 12, c_descriptionType := 1, c_description := [65, 66], c_sampleRate := 8000, c_numSamples := 16\<rparr>)"
  by (simp add: AuSetComponentAttributes_def demo_values mask_loop.simps set_common_def set_bucket_def is_device_def demo_bucket_def
    load_def PAD4_def)

lemma set_attributes_match_witness:
  "\<forall>drv. \<exists>c'. AuSetComponentAttributes demo_attributes demo_bucket (Some [65, 66, 0, 0]) = Some c' \<and> c_description c' = [65, 66] \<and>
     AuMatchAttributes drv demo_attributes c' [65, 66, 0, 0] = Some (True, c')"
proof -
  have "\<forall>j. bit (0x30079 :: u32) j \<longrightarrow> matchable demo_attributes j"
    by (auto simp: matchable_def demo_values)
  moreover have "c_kind demo_bucket = AuComponentKindBucket" by (simp add: demo_bucket_def)
  ultimately show ?thesis using set_attributes_match [OF demo_set _ demo_values(1)] demo_set by fastforce
qed

end
