(* ===== verification/Wire_Elements.thy ===== *)
theory Wire_Elements
  imports Flow_Compile Attributes
begin

text \<open>
  The elements of a flow as a client sends them: the two passes of \<open>ProcAuSetElements\<close> (\<^verbatim>\<open>server/dia/audispatch.c\<close>) over
  the bytes behind the request's header. The first measures the elements, the second makes \<open>flow_element\<close>s with their
  actions of them. \<open>encodes\<close> is the layout of \<^verbatim>\<open>lib/audio/Aproto.h\<close>, against which the two are proved.

  The fixed part of every element is the union \<^verbatim>\<open>auElement\<close> of 24 bytes; what no field of an element names is not kept.
  \<open>None\<close> is a read behind the request.
\<close>

section \<open>Layout\<close>

abbreviation (input) AuElementTypeImportClient :: u16 where "AuElementTypeImportClient \<equiv> 0"
abbreviation (input) AuElementTypeImportDevice :: u16 where "AuElementTypeImportDevice \<equiv> 1"
abbreviation (input) AuElementTypeImportBucket :: u16 where "AuElementTypeImportBucket \<equiv> 2"
abbreviation (input) AuElementTypeImportWaveForm :: u16 where "AuElementTypeImportWaveForm \<equiv> 3"
abbreviation (input) AuElementTypeBundle :: u16 where "AuElementTypeBundle \<equiv> 5"
abbreviation (input) AuElementTypeMultiplyConstant :: u16 where "AuElementTypeMultiplyConstant \<equiv> 6"
abbreviation (input) AuElementTypeAddConstant :: u16 where "AuElementTypeAddConstant \<equiv> 7"
abbreviation (input) AuElementTypeSum :: u16 where "AuElementTypeSum \<equiv> 8"
abbreviation (input) AuElementTypeExportClient :: u16 where "AuElementTypeExportClient \<equiv> 9"
abbreviation (input) AuElementTypeExportDevice :: u16 where "AuElementTypeExportDevice \<equiv> 10"
abbreviation (input) AuElementTypeExportBucket :: u16 where "AuElementTypeExportBucket \<equiv> 11"
abbreviation (input) AuElementTypeExportMonitor :: u16 where "AuElementTypeExportMonitor \<equiv> 13"
abbreviation (input) AuBadLength :: u8 where "AuBadLength \<equiv> 16"
abbreviation (input) sizeof_auElement :: nat where "sizeof_auElement \<equiv> 24"
abbreviation (input) sizeof_auElementAction :: nat where "sizeof_auElementAction \<equiv> 12"
abbreviation (input) sizeof_auInputTrack :: nat where "sizeof_auInputTrack \<equiv> 4"

text \<open>Where \<^verbatim>\<open>actions.num_actions\<close> lies in the elements that have it.\<close>

definition num_actions_at :: "u16 \<Rightarrow> nat option" where
  "num_actions_at ty =
     (if ty = AuElementTypeImportDevice then Some 12
      else if ty = AuElementTypeExportClient then Some 20
      else if ty \<in> {AuElementTypeImportClient, AuElementTypeImportBucket, AuElementTypeImportWaveForm,
                    AuElementTypeExportDevice, AuElementTypeExportBucket} then Some 16
      else None)"

definition numDefaultActions :: "nat list" where
  "numDefaultActions = [5, 0, 3, 3, 0, 0, 0, 0, 0, 5, 0, 3, 0, 0]"

section \<open>Measuring\<close>

text \<open>The size of the variable data at \<open>p\<close> and its number of actions, defaults included; \<open>Inl\<close> is a bad type.\<close>

definition element_var :: "bytes \<Rightarrow> nat \<Rightarrow> (u16 + nat \<times> u32) option" where
  "element_var b p =
     do { ty \<leftarrow> ld16 b p;
          (case num_actions_at ty of
             Some off \<Rightarrow>
               do { num \<leftarrow> ld32 b (p + off);
                    Some (Inr (unat num * sizeof_auElementAction,
                      if num \<noteq> 0 then num else word_of_nat (numDefaultActions ! unat ty))) }
           | None \<Rightarrow>
               if ty = AuElementTypeBundle then do { num \<leftarrow> ld16 b (p + 2); Some (Inr (unat num * sizeof_auInputTrack, 0)) }
               else if ty = AuElementTypeSum then do { num \<leftarrow> ld16 b (p + 2); Some (Inr (unat (PAD4 (ucast num * 2)), 0)) }
               else if ty \<in> {AuElementTypeMultiplyConstant, AuElementTypeAddConstant, AuElementTypeExportMonitor} then Some (Inr (0, 0))
               else Some (Inl ty)) }"

text \<open>
  The first loop: \<open>b\<close> is the request behind its header, \<open>len\<close> its length by the header. The check against the end
  counts in elements: \<^verbatim>\<open>(auElement *) &stuff[1] + len\<close>. The two sums are C integers.
\<close>

fun measure_elements :: "bytes \<Rightarrow> nat \<Rightarrow> nat \<Rightarrow> nat \<Rightarrow> s32 \<Rightarrow> s32 \<Rightarrow> (au_status + s32 \<times> s32) option" where
  "measure_elements b len 0 p varLen numActions = Some (Inr (varLen, numActions))"
| "measure_elements b len (Suc n) p varLen numActions =
     (if sizeof_auElement * len \<le> p then Some (Inl (AuFailure AuBadLength (Some 0)))
      else do { v \<leftarrow> element_var b p;
                (case v of
                   Inl ty \<Rightarrow> Some (Inl (AuFailure AuBadElement (Some (ucast ty))))
                 | Inr (sz, num) \<Rightarrow>
                     measure_elements b len n (p + sz + sizeof_auElement) (varLen + word_of_nat sz) (numActions + num)) })"

text \<open>\<^verbatim>\<open>varLen != len - stuff->numElements * sizeof(auElement)\<close>, in 64 bits.\<close>

definition length_fits :: "s32 \<Rightarrow> nat \<Rightarrow> nat \<Rightarrow> bool" where
  "length_fits varLen len numElements \<longleftrightarrow>
     (scast varLen :: 64 word) = word_of_nat len - word_of_nat (numElements * sizeof_auElement)"

section \<open>Actions\<close>

definition AuValidState :: "u8 \<Rightarrow> bool" where
  "AuValidState s \<longleftrightarrow> s = AuStateStop \<or> s = AuStatePause \<or> s = AuStateStart"

definition AuValidTriggerState :: "u8 \<Rightarrow> bool" where
  "AuValidTriggerState s \<longleftrightarrow> s = AuStateAny \<or> AuValidState s"

definition AuValidTriggerReason :: "u8 \<Rightarrow> bool" where
  "AuValidTriggerReason r \<longleftrightarrow> r = AuReasonAny \<or> r = AuReasonUser \<or> r = AuReasonUnderrun \<or> r = AuReasonOverrun \<or>
     r = AuReasonEOF \<or> r = AuReasonWatermark \<or> r = AuReasonHardware"

definition load_action :: "bytes \<Rightarrow> nat \<Rightarrow> raw_action option" where
  "load_action b p =
     do { fl \<leftarrow> ld32 b p; n \<leftarrow> ld8 b (p + 4); st \<leftarrow> ld8 b (p + 5); pst \<leftarrow> ld8 b (p + 6); r \<leftarrow> ld8 b (p + 7);
          a \<leftarrow> ld8 b (p + 8); new \<leftarrow> ld8 b (p + 9);
          Some \<lparr>ra_flow = fl, ra_element_num = n, ra_trigger_state = st, ra_trigger_prev_state = pst, ra_trigger_reason = r,
            ra_action = a, ra_new_state = new\<rparr> }"

text \<open>
  What the second pass is given: the flows by their numbers (\<^verbatim>\<open>LookupIDByType\<close> for \<^verbatim>\<open>auFlowType\<close>) and the contents of fresh
  memory. \<open>numElements\<close> is that of the flow whose elements are set.
\<close>

record element_env =
  n_lookup :: "u32 \<Rightarrow> nat option"
  n_action :: action
  n_element :: flow_element
  n_client :: nat
  n_flow :: nat
  n_numElements :: nat

text \<open>\<^verbatim>\<open>FREE_FLOW_ERROR\<close> keeps eight bits of the value.\<close>

definition flow_error :: "u8 \<Rightarrow> u32 \<Rightarrow> au_status" where
  "flow_error e v = AuFailure e (Some (ucast (ucast v :: u8)))"

definition make_action :: "element_env \<Rightarrow> raw_action \<Rightarrow> au_status + action" where
  "make_action env raw =
     (if \<not> AuValidTriggerState (ra_trigger_state raw) then Inl (flow_error AuBadValue (ucast (ra_trigger_state raw)))
      else if \<not> AuValidTriggerState (ra_trigger_prev_state raw) then Inl (flow_error AuBadValue (ucast (ra_trigger_prev_state raw)))
      else if \<not> AuValidTriggerReason (ra_trigger_reason raw) then Inl (flow_error AuBadValue (ucast (ra_trigger_reason raw)))
      else let act = (n_action env)\<lparr>a_triggerState := ra_trigger_state raw, a_triggerPrevState := ra_trigger_prev_state raw,
                 a_triggerReason := ra_trigger_reason raw, a_action := ra_action raw\<rparr> in
        if ra_action raw = AuElementActionChangeState then
          (case n_lookup env (ra_flow raw) of
             None \<Rightarrow> Inl (flow_error AuBadFlow (ra_flow raw))
           | Some fl \<Rightarrow>
               if ucast (ra_element_num raw) \<noteq> AuElementAll \<and> n_numElements env \<le> unat (ra_element_num raw)
               then Inl (flow_error AuBadElement (ucast (ra_element_num raw)))
               else if \<not> AuValidState (ra_new_state raw) then Inl (flow_error AuBadValue (ucast (ra_new_state raw)))
               else Inr (act\<lparr>a_flow := fl, a_elementNum := ra_element_num raw, a_newState := ra_new_state raw\<rparr>))
        else if ra_action raw \<noteq> AuElementActionSendNotify \<and> ra_action raw \<noteq> AuElementActionNoop
        then Inl (flow_error AuBadValue (ucast (ra_action raw)))
        else Inr act)"

fun copy_actions :: "element_env \<Rightarrow> bytes \<Rightarrow> nat \<Rightarrow> nat \<Rightarrow> (au_status + (raw_action \<times> action) list) option" where
  "copy_actions env b 0 p = Some (Inr [])"
| "copy_actions env b (Suc n) p =
     do { raw \<leftarrow> load_action b p;
          (case make_action env raw of
             Inl e \<Rightarrow> Some (Inl e)
           | Inr act \<Rightarrow> map_option (\<lambda>res. map_sum id ((#) (raw, act)) res) (copy_actions env b n (p + sizeof_auElementAction))) }"

text \<open>The actions of ports and of buckets and wave forms that bring none of their own.\<close>

definition default_action :: "element_env \<Rightarrow> u8 \<Rightarrow> u8 \<Rightarrow> u8 \<Rightarrow> action" where
  "default_action env state prev action =
     (n_action env)\<lparr>a_triggerState := state, a_triggerPrevState := prev, a_triggerReason := AuReasonAny, a_action := action\<rparr>"

definition default_change :: "element_env \<Rightarrow> u8 \<Rightarrow> u8 \<Rightarrow> action" where
  "default_change env state prev =
     (default_action env state prev AuElementActionChangeState)\<lparr>a_flow := n_flow env, a_elementNum := 255, a_newState := state\<rparr>"

definition default_actions :: "element_env \<Rightarrow> u16 \<Rightarrow> action list" where
  "default_actions env ty =
     (if ty = AuElementTypeImportClient \<or> ty = AuElementTypeExportClient then
        [default_action env AuStatePause AuStateAny AuElementActionSendNotify,
         default_action env AuStateStop AuStateAny AuElementActionSendNotify,
         default_change env AuStatePause AuStateAny,
         default_change env AuStateStart AuStatePause,
         default_change env AuStateStop AuStateAny]
      else if ty \<in> {AuElementTypeImportBucket, AuElementTypeImportWaveForm, AuElementTypeExportBucket} then
        [default_action env AuStatePause AuStateAny AuElementActionSendNotify,
         default_action env AuStateStop AuStateAny AuElementActionSendNotify,
         default_change env AuStateStop AuStateAny]
      else [])"

section \<open>Elements\<close>

text \<open>The fields of an element, given its actions.\<close>

definition load_element :: "bytes \<Rightarrow> nat \<Rightarrow> u16 \<Rightarrow> raw_action list \<Rightarrow> au_element option" where
  "load_element b p ty acts =
     (if ty = AuElementTypeImportClient then
        do { rate \<leftarrow> ld16 b (p + 2); fmt \<leftarrow> ld8 b (p + 4); tracks \<leftarrow> ld8 b (p + 5); d \<leftarrow> ld8 b (p + 6);
             num \<leftarrow> ld32 b (p + 8); low \<leftarrow> ld32 b (p + 12);
             Some (ImportClient rate fmt tracks (d \<noteq> 0) num low acts) }
      else if ty = AuElementTypeImportDevice then
        do { rate \<leftarrow> ld16 b (p + 2); num \<leftarrow> ld32 b (p + 4); dev \<leftarrow> ld32 b (p + 8); Some (ImportDevice rate num dev acts) }
      else if ty = AuElementTypeImportBucket then
        do { rate \<leftarrow> ld16 b (p + 2); num \<leftarrow> ld32 b (p + 4); bucket \<leftarrow> ld32 b (p + 8); off \<leftarrow> ld32 b (p + 12);
             Some (ImportBucket rate num bucket off acts) }
      else if ty = AuElementTypeImportWaveForm then
        do { rate \<leftarrow> ld16 b (p + 2); num \<leftarrow> ld32 b (p + 4); wave \<leftarrow> ld8 b (p + 8); freq \<leftarrow> ld32 b (p + 12);
             Some (ImportWaveForm rate num wave freq acts) }
      else if ty = AuElementTypeBundle then
        do { num \<leftarrow> ld16 b (p + 2); x \<leftarrow> load b (p + sizeof_auElement) (unat num * sizeof_auInputTrack);
             Some (Bundle (map (\<lambda>k. (x ! (sizeof_auInputTrack * k), x ! (sizeof_auInputTrack * k + 1))) [0..<unat num])) }
      else if ty = AuElementTypeMultiplyConstant then
        do { input \<leftarrow> ld16 b (p + 2); c \<leftarrow> ld32 b (p + 4); Some (MultiplyConstant input c) }
      else if ty = AuElementTypeAddConstant then
        do { input \<leftarrow> ld16 b (p + 2); c \<leftarrow> ld32 b (p + 4); Some (AddConstant input c) }
      else if ty = AuElementTypeSum then
        do { num \<leftarrow> ld16 b (p + 2); x \<leftarrow> load b (p + sizeof_auElement) (unat num * 2);
             Some (Sum (map (\<lambda>k. mk16 (x ! (2 * k)) (x ! (2 * k + 1))) [0..<unat num])) }
      else if ty = AuElementTypeExportClient then
        do { rate \<leftarrow> ld16 b (p + 2); input \<leftarrow> ld16 b (p + 4); fmt \<leftarrow> ld8 b (p + 8); tracks \<leftarrow> ld8 b (p + 9); d \<leftarrow> ld8 b (p + 10);
             num \<leftarrow> ld32 b (p + 12); high \<leftarrow> ld32 b (p + 16);
             Some (ExportClient rate input fmt tracks (d \<noteq> 0) num high acts) }
      else if ty = AuElementTypeExportDevice then
        do { rate \<leftarrow> ld16 b (p + 2); input \<leftarrow> ld16 b (p + 4); num \<leftarrow> ld32 b (p + 8); dev \<leftarrow> ld32 b (p + 12);
             Some (ExportDevice rate input num dev acts) }
      else if ty = AuElementTypeExportBucket then
        do { input \<leftarrow> ld16 b (p + 2); num \<leftarrow> ld32 b (p + 4); bucket \<leftarrow> ld32 b (p + 8); off \<leftarrow> ld32 b (p + 12);
             Some (ExportBucket input num bucket off acts) }
      else if ty = AuElementTypeExportMonitor then
        do { rate \<leftarrow> ld16 b (p + 2); input \<leftarrow> ld16 b (p + 4); fmt \<leftarrow> ld8 b (p + 8); tracks \<leftarrow> ld8 b (p + 9);
             Some (ExportMonitor rate input fmt tracks) }
      else None)"

definition is_op :: "au_element \<Rightarrow> bool" where
  "is_op e = (case e of Bundle _ \<Rightarrow> True | MultiplyConstant _ _ \<Rightarrow> True | AddConstant _ _ \<Rightarrow> True | Sum _ \<Rightarrow> True | _ \<Rightarrow> False)"

text \<open>One turn of the second loop: element number \<open>i\<close> at \<open>p\<close>, with the size of its variable data.\<close>

definition make_element :: "element_env \<Rightarrow> bytes \<Rightarrow> nat \<Rightarrow> nat \<Rightarrow> (au_status + flow_element \<times> nat) option" where
  "make_element env b i p =
     do { ty \<leftarrow> ld16 b p;
          num \<leftarrow> (case num_actions_at ty of None \<Rightarrow> Some 0 | Some off \<Rightarrow> ld32 b (p + off));
          acts \<leftarrow> copy_actions env b (unat num) (p + sizeof_auElement);
          (case acts of
             Inl e \<Rightarrow> Some (Inl e)
           | Inr acts \<Rightarrow>
               do { raw \<leftarrow> load_element b p ty (map fst acts);
                    let sz = (if ty = AuElementTypeBundle then length (r_tracks raw) * sizeof_auInputTrack
                      else if ty = AuElementTypeSum then unat (PAD4 (word_of_nat (2 * length (r_inputs raw))))
                      else unat num * sizeof_auElementAction);
                    Some (Inr ((n_element env)\<lparr>e_client := n_client env, e_raw := raw, e_elementNum := word_of_nat i,
                      e_compiled := False, e_setup := False, e_isComponent := \<not> is_op raw, e_stateChange := False,
                      e_state := AuStateStop, e_prevState := AuStateStop, e_refCnt := 0, e_parmsChanged := False,
                      e_actions := (if acts = [] then default_actions env ty else map snd acts)\<rparr>, sz)) }) }"

fun make_elements :: "element_env \<Rightarrow> bytes \<Rightarrow> nat list \<Rightarrow> nat \<Rightarrow> (au_status + flow_element list) option" where
  "make_elements env b [] p = Some (Inr [])"
| "make_elements env b (i # is) p =
     do { r \<leftarrow> make_element env b i p;
          (case r of
             Inl e \<Rightarrow> Some (Inl e)
           | Inr (el, sz) \<Rightarrow>
               map_option (\<lambda>res. map_sum id ((#) el) res) (make_elements env b is (p + sz + sizeof_auElement))) }"


section \<open>What a client sends\<close>

definition el_actions :: "au_element \<Rightarrow> raw_action list" where
  "el_actions e = (case e of ImportClient _ _ _ _ _ _ as \<Rightarrow> as | ImportDevice _ _ _ as \<Rightarrow> as | ImportBucket _ _ _ _ as \<Rightarrow> as
     | ImportWaveForm _ _ _ _ as \<Rightarrow> as | ExportClient _ _ _ _ _ _ _ as \<Rightarrow> as | ExportDevice _ _ _ _ as \<Rightarrow> as
     | ExportBucket _ _ _ _ as \<Rightarrow> as | _ \<Rightarrow> [])"

definition el_type :: "au_element \<Rightarrow> u16" where
  "el_type e = (case e of ImportClient _ _ _ _ _ _ _ \<Rightarrow> AuElementTypeImportClient | ImportDevice _ _ _ _ \<Rightarrow> AuElementTypeImportDevice
     | ImportBucket _ _ _ _ _ \<Rightarrow> AuElementTypeImportBucket | ImportWaveForm _ _ _ _ _ \<Rightarrow> AuElementTypeImportWaveForm
     | Bundle _ \<Rightarrow> AuElementTypeBundle | MultiplyConstant _ _ \<Rightarrow> AuElementTypeMultiplyConstant
     | AddConstant _ _ \<Rightarrow> AuElementTypeAddConstant | Sum _ \<Rightarrow> AuElementTypeSum
     | ExportClient _ _ _ _ _ _ _ _ \<Rightarrow> AuElementTypeExportClient | ExportDevice _ _ _ _ _ \<Rightarrow> AuElementTypeExportDevice
     | ExportBucket _ _ _ _ _ \<Rightarrow> AuElementTypeExportBucket | ExportMonitor _ _ _ _ \<Rightarrow> AuElementTypeExportMonitor)"

text \<open>
  The fields of the union with their offsets, the type and the number of actions, tracks or inputs included. What lies between
  them is whatever the client's memory holds.
\<close>

definition el_fields :: "au_element \<Rightarrow> (nat \<times> bytes) list" where
  "el_fields e = (0, bytes16 (el_type e)) # (case e of
     ImportClient rate fmt tracks d num low as \<Rightarrow>
       [(2, bytes16 rate), (4, [fmt]), (5, [tracks]), (6, [of_bool d]), (8, bytes32 num), (12, bytes32 low), (16, bytes32 (word_of_nat (length as)))]
   | ImportDevice rate num dev as \<Rightarrow>
       [(2, bytes16 rate), (4, bytes32 num), (8, bytes32 dev), (12, bytes32 (word_of_nat (length as)))]
   | ImportBucket rate num bucket off as \<Rightarrow>
       [(2, bytes16 rate), (4, bytes32 num), (8, bytes32 bucket), (12, bytes32 off), (16, bytes32 (word_of_nat (length as)))]
   | ImportWaveForm rate num wave freq as \<Rightarrow>
       [(2, bytes16 rate), (4, bytes32 num), (8, [wave]), (12, bytes32 freq), (16, bytes32 (word_of_nat (length as)))]
   | Bundle ts \<Rightarrow> [(2, bytes16 (word_of_nat (length ts)))]
   | MultiplyConstant input c \<Rightarrow> [(2, bytes16 input), (4, bytes32 c)]
   | AddConstant input c \<Rightarrow> [(2, bytes16 input), (4, bytes32 c)]
   | Sum is \<Rightarrow> [(2, bytes16 (word_of_nat (length is)))]
   | ExportClient rate input fmt tracks d num high as \<Rightarrow>
       [(2, bytes16 rate), (4, bytes16 input), (8, [fmt]), (9, [tracks]), (10, [of_bool d]), (12, bytes32 num), (16, bytes32 high),
        (20, bytes32 (word_of_nat (length as)))]
   | ExportDevice rate input num dev as \<Rightarrow>
       [(2, bytes16 rate), (4, bytes16 input), (8, bytes32 num), (12, bytes32 dev), (16, bytes32 (word_of_nat (length as)))]
   | ExportBucket input num bucket off as \<Rightarrow>
       [(2, bytes16 input), (4, bytes32 num), (8, bytes32 bucket), (12, bytes32 off), (16, bytes32 (word_of_nat (length as)))]
   | ExportMonitor rate input fmt tracks \<Rightarrow> [(2, bytes16 rate), (4, bytes16 input), (8, [fmt]), (9, [tracks])])"

definition action_fields :: "raw_action \<Rightarrow> (nat \<times> bytes) list" where
  "action_fields a = [(0, bytes32 (ra_flow a)), (4, [ra_element_num a]), (5, [ra_trigger_state a]), (6, [ra_trigger_prev_state a]),
     (7, [ra_trigger_reason a]), (8, [ra_action a]), (9, [ra_new_state a])]"

text \<open>At \<open>p\<close> of a block, fields hold their values.\<close>

definition holds :: "(nat \<times> bytes) list \<Rightarrow> bytes \<Rightarrow> nat \<Rightarrow> bool" where
  "holds fs b p \<longleftrightarrow> list_all (\<lambda>(k, x). load b (p + k) (length x) = Some x) fs"

text \<open>The data behind the fixed part: actions, tracks, or inputs padded to whole words.\<close>

definition var_ok :: "au_element \<Rightarrow> bytes \<Rightarrow> bool" where
  "var_ok e v \<longleftrightarrow> (case e of
     Bundle ts \<Rightarrow> \<exists>ws. v = concat ws \<and> list_all2 (\<lambda>t w. length w = sizeof_auInputTrack \<and> holds [(0, [fst t]), (1, [snd t])] w 0) ts ws
   | Sum is \<Rightarrow> \<exists>pad. v = concat (map bytes16 is) @ pad \<and> length pad = 2 * (length is mod 2)
   | _ \<Rightarrow> \<exists>ws. v = concat ws \<and> list_all2 (\<lambda>a w. length w = sizeof_auElementAction \<and> holds (action_fields a) w 0) (el_actions e) ws)"

text \<open>The bytes \<open>b\<close> are the elements, one behind the other.\<close>

fun encodes :: "au_element list \<Rightarrow> bytes \<Rightarrow> bool" where
  "encodes [] b \<longleftrightarrow> b = []"
| "encodes (e # es) b \<longleftrightarrow>
     (\<exists>h v r. b = h @ v @ r \<and> length h = sizeof_auElement \<and> holds (el_fields e) h 0 \<and> var_ok e v \<and> encodes es r)"

lemma encodes_Cons:
  "length h = sizeof_auElement \<Longrightarrow> holds (el_fields e) h 0 \<Longrightarrow> var_ok e v \<Longrightarrow> encodes es r \<Longrightarrow> encodes (e # es) (h @ v @ r)"
  by auto

lemma var_ok_actions:
  "num_actions_at (el_type e) \<noteq> None \<Longrightarrow>
   list_all2 (\<lambda>a w. length w = sizeof_auElementAction \<and> holds (action_fields a) w 0) (el_actions e) ws \<Longrightarrow> var_ok e (concat ws)"
  by (cases e) (auto simp: var_ok_def el_type_def num_actions_at_def)

text \<open>The counts fit their fields.\<close>

definition countable_element :: "au_element \<Rightarrow> bool" where
  "countable_element e \<longleftrightarrow> (case e of Bundle ts \<Rightarrow> length ts < 2 ^ 16 | Sum is \<Rightarrow> length is < 2 ^ 16 | _ \<Rightarrow> length (el_actions e) < 2 ^ 32)"

lemma length_bytes32 [simp]: "length (bytes32 v) = 4"
  by (simp add: bytes32_def bytes16_def)

section \<open>Reading it back\<close>

lemma ucast_mk32: "ucast (mk32 lo hi) = lo" "ucast (drop_bit 16 (mk32 lo hi)) = hi"
  by (rule bit_word_eqI; auto simp: mk32_def bit_simps dest: bit_imp_le_length)+

text \<open>A field of a block that holds it is read.\<close>

lemma load_fields:
  "load b p (Suc 0) = Some [v] \<longleftrightarrow> ld8 b p = Some v"
  "load b p 2 = Some (bytes16 w) \<longleftrightarrow> ld16 b p = Some w"
  "load b p 4 = Some (bytes32 x) \<longleftrightarrow> ld32 b p = Some x"
proof -
  show "load b p (Suc 0) = Some [v] \<longleftrightarrow> ld8 b p = Some v"
    by (auto simp: load_def ld8_def take_Suc hd_drop_conv_nth neq_Nil_conv [symmetric] drop_eq_Nil)
  show 16: "load b p 2 = Some (bytes16 w) \<longleftrightarrow> ld16 b p = Some w" for p w
  proof (cases "p + 1 < length b")
    case True
    then have "take 2 (drop p b) = [b ! p, b ! (p + 1)]" by (simp add: numeral_2_eq_2 take_Suc_conv_app_nth)
    with True show ?thesis by (auto simp: load_def ld16_def bytes16_def)
  qed (simp add: load_def ld16_def)
  have "load b p 4 = Some (bytes32 x) \<longleftrightarrow> load b p 2 = Some (bytes16 (ucast x)) \<and> load b (p + 2) 2 = Some (bytes16 (ucast (drop_bit 16 x)))"
  proof (cases "p + 4 \<le> length b")
    case True
    have "take 4 (drop p b) = take 2 (drop p b) @ take 2 (drop (p + 2) b)"
      using take_add [of 2 2 "drop p b"] by (simp add: add.commute)
    moreover have "length (take 2 (drop p b)) = 2" using True by simp
    ultimately show ?thesis using True by (simp add: load_def bytes32_def append_eq_append_conv)
  qed (auto simp: load_def)
  then show "load b p 4 = Some (bytes32 x) \<longleftrightarrow> ld32 b p = Some x"
    unfolding 16 by (auto simp: ld32_def ucast_mk32 mk32_lo_hi split: bind_splits)
qed

lemma holds_part: "holds fs x 0 \<Longrightarrow> holds fs (pre @ x @ post) (length pre)"
proof -
  have "load (pre @ x @ post) (length pre + k) n = load x k n" if "load x k n = Some y" for k n y
    using that by (simp add: load_def split: if_splits)
  then show "holds fs x 0 \<Longrightarrow> ?thesis" unfolding holds_def by (auto elim!: list.pred_mono_strong)
qed

lemma holds_simps:
  "holds [] b p" "holds ((k, x) # fs) b p \<longleftrightarrow> load b (p + k) (length x) = Some x \<and> holds fs b p"
  by (simp_all add: holds_def)

lemma load_action_holds: "holds (action_fields a) b p \<Longrightarrow> load_action b p = Some a"
  by (simp add: load_action_def action_fields_def holds_simps load_fields)

definition accepts :: "element_env \<Rightarrow> raw_action \<Rightarrow> bool" where
  "accepts env a \<longleftrightarrow> (\<exists>act. make_action env a = Inr act)"

definition kept_actions :: "element_env \<Rightarrow> raw_action list \<Rightarrow> action list" where
  "kept_actions env as = map (\<lambda>a. projr (make_action env a)) as"

lemma copy_actions_wire:
  "list_all (accepts env) as \<Longrightarrow> list_all2 (\<lambda>a w. length w = sizeof_auElementAction \<and> holds (action_fields a) w 0) as ws \<Longrightarrow>
   copy_actions env (pre @ concat ws @ post) (length as) (length pre) = Some (Inr (zip as (kept_actions env as)))"
proof (induction as arbitrary: pre ws)
  case (Cons a as)
  then obtain w ws' where ws: "ws = w # ws'" "length w = sizeof_auElementAction" "holds (action_fields a) w 0"
      "list_all2 (\<lambda>a w. length w = sizeof_auElementAction \<and> holds (action_fields a) w 0) as ws'"
    by (auto simp: list_all2_Cons1)
  obtain act where act: "make_action env a = Inr act" using Cons.prems(1) by (auto simp: accepts_def)
  have l: "load_action (pre @ w @ concat ws' @ post) (length pre) = Some a"
    by (rule load_action_holds [OF holds_part [OF ws(3)]])
  have "copy_actions env ((pre @ w) @ concat ws' @ post) (length as) (length (pre @ w)) = Some (Inr (zip as (kept_actions env as)))"
    using Cons.prems(1) ws(4) by (intro Cons.IH) simp_all
  then show ?case using l act ws(1,2) by (simp add: kept_actions_def)
qed (simp add: kept_actions_def)

text \<open>Element \<open>e\<close> lies at \<open>p\<close>, with its data \<open>v\<close> behind it.\<close>

definition lies_at :: "au_element \<Rightarrow> bytes \<Rightarrow> bytes \<Rightarrow> nat \<Rightarrow> bool" where
  "lies_at e v b p \<longleftrightarrow> holds (el_fields e) b p \<and> var_ok e v \<and>
     (\<exists>pre post. b = pre @ v @ post \<and> length pre = p + sizeof_auElement)"

lemma lies_at_intro:
  assumes "b = pre @ h @ v @ post" "p = length pre" "length h = sizeof_auElement" "holds (el_fields e) h 0" "var_ok e v"
  shows "lies_at e v b p"
proof -
  have "b = (pre @ h) @ v @ post \<and> length (pre @ h) = p + sizeof_auElement" using assms(1-3) by simp
  then have "\<exists>pre post. b = pre @ v @ post \<and> length pre = p + sizeof_auElement" by blast
  then show ?thesis using holds_part [OF assms(4), of pre "v @ post"] assms(1,2,5) by (simp add: lies_at_def)
qed

lemma lies_at_fields: "lies_at e v b p \<Longrightarrow> holds (el_fields e) b p"
  by (simp add: lies_at_def)

lemma lies_at_var: "lies_at e v b p \<Longrightarrow> n \<le> length v \<Longrightarrow> load b (p + sizeof_auElement) n = Some (take n v)"
  by (auto simp: lies_at_def load_def)

lemma lies_at_type: "lies_at e v b p \<Longrightarrow> ld16 b p = Some (el_type e)"
  using lies_at_fields [of e v b p] by (simp add: el_fields_def holds_simps load_fields)

lemma lies_at_actions:
  assumes "lies_at e v b p" "list_all (accepts env) (el_actions e)"
  shows "copy_actions env b (length (el_actions e)) (p + sizeof_auElement) =
    Some (Inr (zip (el_actions e) (kept_actions env (el_actions e))))"
proof -
  obtain pre post where b: "b = pre @ v @ post" "p + sizeof_auElement = length pre" and ok: "var_ok e v"
    using assms(1) by (auto simp: lies_at_def)
  show ?thesis
  proof (cases "el_actions e = []")
    case False
    then obtain ws where "v = concat ws" "list_all2 (\<lambda>a w. length w = sizeof_auElementAction \<and> holds (action_fields a) w 0) (el_actions e) ws"
      using ok by (cases e) (auto simp: var_ok_def el_actions_def)
    then show ?thesis using copy_actions_wire [OF assms(2)] unfolding b by simp
  qed (simp add: kept_actions_def)
qed

lemma header_count:
  assumes "lies_at e v b p" "num_actions_at (el_type e) = Some off"
  shows "ld32 b (p + off) = Some (word_of_nat (length (el_actions e)))"
  using lies_at_fields [OF assms(1)] assms(2)
  by (cases e) (auto simp: num_actions_at_def el_type_def el_actions_def el_fields_def holds_simps load_fields)

lemma no_actions: "num_actions_at (el_type e) = None \<Longrightarrow> el_actions e = []"
  by (cases e) (simp_all add: num_actions_at_def el_type_def el_actions_def)

lemma bundle_tracks:
  "list_all2 (\<lambda>t w. length w = sizeof_auInputTrack \<and> holds [(0, [fst t]), (1, [snd t])] w 0) ts ws \<Longrightarrow>
   length (concat ws) = 4 * length ts \<and> map (\<lambda>k. (concat ws ! (4 * k), concat ws ! (4 * k + 1))) [0..<length ts] = ts"
proof (induction ts ws rule: list_all2_induct)
  case (Cons t ts w ws)
  have w: "length w = 4" "w ! 0 = fst t" "w ! 1 = snd t"
    using Cons.hyps(1) by (auto simp: holds_simps load_fields ld8_def split: if_splits)
  then have "map (\<lambda>k. (concat (w # ws) ! (4 * k), concat (w # ws) ! (4 * k + 1))) [0..<length (t # ts)] = t # ts"
    using Cons.IH by (subst length_Cons, subst upt_conv_Cons)
      (simp_all add: nth_append map_Suc_upt [symmetric] o_def del: upt_Suc)
  then show ?case using Cons.IH w(1) by simp
qed simp

lemma nth_bytes16: "k < length is \<Longrightarrow> (concat (map bytes16 is) @ y) ! (2 * k) = lo8 (is ! k) \<and>
    (concat (map bytes16 is) @ y) ! (2 * k + 1) = hi8 (is ! k)"
proof (induction "is" arbitrary: k)
  case (Cons a "is")
  show ?case
  proof (cases k)
    case (Suc k')
    then show ?thesis using Cons by (simp add: bytes16_def)
  qed (simp add: bytes16_def)
qed simp

lemma sum_inputs: "map (\<lambda>k. mk16 ((concat (map bytes16 is) @ y) ! (2 * k)) ((concat (map bytes16 is) @ y) ! (2 * k + 1))) [0..<length is] = is"
  by (rule nth_equalityI) (use nth_bytes16 [of _ "is" y] in auto)

lemma length_inputs: "length (concat (map bytes16 is)) = 2 * length is"
  by (induction "is") (simp_all add: bytes16_def)

lemma header_element:
  assumes "lies_at e v b p" "countable_element e"
  shows "load_element b p (el_type e) (el_actions e) = Some e"
proof (cases e)
  case (Bundle ts)
  have "length ts < 2 ^ 16" using assms(2) Bundle by (simp add: countable_element_def)
  then have n: "ld16 b (p + 2) = Some (word_of_nat (length ts))" "unat (word_of_nat (length ts) :: u16) = length ts"
    using lies_at_fields [OF assms(1)] by (simp_all add: Bundle el_fields_def holds_simps load_fields unat_of_nat)
  obtain ws where "v = concat ws" "list_all2 (\<lambda>t w. length w = sizeof_auInputTrack \<and> holds [(0, [fst t]), (1, [snd t])] w 0) ts ws"
    using assms(1) Bundle by (auto simp: lies_at_def var_ok_def)
  note v = this(1) bundle_tracks [OF this(2)]
  then have "load b (p + 24) (length ts * 4) = Some v" using lies_at_var [OF assms(1), of "4 * length ts"] by (simp add: mult.commute)
  with n v show ?thesis by (simp add: load_element_def Bundle el_type_def)
next
  case (Sum "is")
  have "length is < 2 ^ 16" using assms(2) Sum by (simp add: countable_element_def)
  then have n: "ld16 b (p + 2) = Some (word_of_nat (length is))" "unat (word_of_nat (length is) :: u16) = length is"
    using lies_at_fields [OF assms(1)] by (simp_all add: Sum el_fields_def holds_simps load_fields unat_of_nat)
  obtain pad where v: "v = concat (map bytes16 is) @ pad" using assms(1) Sum by (auto simp: lies_at_def var_ok_def)
  then have "load b (p + 24) (length is * 2) = Some (concat (map bytes16 is))"
    using lies_at_var [OF assms(1), of "2 * length is"] length_inputs [of "is"] by (simp add: mult.commute)
  with n show ?thesis using sum_inputs [of "is" "[]"] by (simp add: load_element_def Sum el_type_def)
qed (use lies_at_fields [OF assms(1)] in
    \<open>simp_all add: load_element_def el_type_def el_actions_def el_fields_def holds_simps load_fields del: add_2_eq_Suc'\<close>)

text \<open>The number of actions an element ends up with, the size of its data, and its \<open>flow_element\<close>.\<close>

definition action_count :: "au_element \<Rightarrow> u32" where
  "action_count e = (if el_actions e \<noteq> [] then word_of_nat (length (el_actions e))
     else if num_actions_at (el_type e) = None then 0 else word_of_nat (numDefaultActions ! unat (el_type e)))"

definition var_size :: "au_element \<Rightarrow> nat" where
  "var_size e = (case e of Bundle ts \<Rightarrow> sizeof_auInputTrack * length ts | Sum is \<Rightarrow> 2 * length is + 2 * (length is mod 2)
     | _ \<Rightarrow> sizeof_auElementAction * length (el_actions e))"

definition made_element :: "element_env \<Rightarrow> nat \<Rightarrow> au_element \<Rightarrow> flow_element" where
  "made_element env i e = (n_element env)\<lparr>e_client := n_client env, e_raw := e, e_elementNum := word_of_nat i,
     e_compiled := False, e_setup := False, e_isComponent := \<not> is_op e, e_stateChange := False,
     e_state := AuStateStop, e_prevState := AuStateStop, e_refCnt := 0, e_parmsChanged := False,
     e_actions := (if el_actions e = [] then default_actions env (el_type e) else kept_actions env (el_actions e))\<rparr>"

lemma length_concat_parts: "list_all2 (\<lambda>x w. length w = n \<and> P x w) xs ws \<Longrightarrow> length (concat ws) = n * length xs"
  by (induction xs ws rule: list_all2_induct) auto

lemma length_var: "var_ok e v \<Longrightarrow> length v = var_size e"
  by (cases e) (auto simp: var_ok_def var_size_def el_actions_def length_inputs dest!: length_concat_parts)

lemma sum_padded: "length is < 2 ^ 16 \<Longrightarrow> unat (PAD4 (word_of_nat (2 * length is))) = 2 * length is + 2 * (length is mod 2)"
proof -
  assume "length is < 2 ^ 16"
  then have u: "unat (word_of_nat (2 * length is) :: u32) = 2 * length is" by (subst unat_of_nat) simp
  then have "unat (PAD4 (word_of_nat (2 * length is))) = (2 * length is + 3) div 4 * 4"
    using PAD4_div [of "word_of_nat (2 * length is)"] \<open>length is < 2 ^ 16\<close> by simp
  then show ?thesis by presburger
qed

lemma length_actions: "countable_element e \<Longrightarrow> length (el_actions e) < 2 ^ 32"
  by (cases e) (simp_all add: countable_element_def el_actions_def)

lemma ucast_small: "n < 2 ^ 16 \<Longrightarrow> ucast (word_of_nat n :: u16) = (word_of_nat n :: u32)"
proof -
  assume "n < 2 ^ 16"
  then have "unat (ucast (word_of_nat n :: u16) :: u32) = unat (word_of_nat n :: u32)"
    by (simp add: unsigned_ucast_eq unat_of_nat take_bit_nat_eq_self)
  then show ?thesis by (rule word_unat_eq_iff [THEN iffD2])
qed

lemma element_var_wire:
  assumes at: "lies_at e v b p" and ok: "countable_element e"
  shows "element_var b p = Some (Inr (var_size e, action_count e))"
proof -
  note ty = lies_at_type [OF at]
  show ?thesis
  proof (cases "num_actions_at (el_type e)")
    case (Some off)
    note n = header_count [OF at Some]
    have u: "unat (word_of_nat (length (el_actions e)) :: u32) = length (el_actions e)" using length_actions [OF ok] by (simp add: unat_of_nat)
    then have z: "(word_of_nat (length (el_actions e)) :: u32) \<noteq> 0 \<longleftrightarrow> el_actions e \<noteq> []" by (metis length_0_conv unat_0 unat_eq_zero)
    have "var_size e = length (el_actions e) * sizeof_auElementAction"
      using Some by (cases e) (simp_all add: num_actions_at_def el_type_def var_size_def)
    with Some ty n u z show ?thesis by (simp add: element_var_def action_count_def)
  next
    case None
    note f = lies_at_fields [OF at]
    show ?thesis
    proof (cases e)
      case (Bundle ts)
      then have "ld16 b (p + 2) = Some (word_of_nat (length ts))" "length ts < 2 ^ 16"
        using f ok by (simp_all add: el_fields_def holds_simps load_fields countable_element_def del: add_2_eq_Suc')
      then show ?thesis using None ty Bundle no_actions [OF None]
        by (simp add: element_var_def action_count_def el_type_def unat_of_nat var_size_def del: add_2_eq_Suc')
    next
      case (Sum "is")
      then have n: "ld16 b (p + 2) = Some (word_of_nat (length is))" "length is < 2 ^ 16"
        using f ok by (simp_all add: el_fields_def holds_simps load_fields countable_element_def del: add_2_eq_Suc')
      have "ucast (word_of_nat (length is) :: u16) * 2 = (word_of_nat (2 * length is) :: u32)"
        using ucast_small [OF n(2)] by (simp add: mult.commute)
      then show ?thesis using n None ty Sum no_actions [OF None] sum_padded [OF n(2)]
        by (simp add: element_var_def action_count_def el_type_def var_size_def del: add_2_eq_Suc')
    qed (use None ty no_actions [OF None] in
        \<open>simp_all add: element_var_def action_count_def el_type_def num_actions_at_def el_actions_def var_size_def\<close>)
  qed
qed

lemma make_element_wire:
  assumes at: "lies_at e v b p" and ok: "countable_element e" and acts: "list_all (accepts env) (el_actions e)"
  shows "make_element env b i p = Some (Inr (made_element env i e, var_size e))"
proof -
  note ty = lies_at_type [OF at]
  have u: "unat (word_of_nat (length (el_actions e)) :: u32) = length (el_actions e)" using length_actions [OF ok] by (simp add: unat_of_nat)
  have num: "\<exists>num. (case num_actions_at (el_type e) of None \<Rightarrow> Some 0 | Some off \<Rightarrow> ld32 b (p + off)) = Some num \<and> unat num = length (el_actions e)"
    using u header_count [OF at] no_actions [of e] by (cases "num_actions_at (el_type e)") simp_all
  then obtain num where num: "(case num_actions_at (el_type e) of None \<Rightarrow> Some 0 | Some off \<Rightarrow> ld32 b (p + off)) = Some num"
    "unat num = length (el_actions e)" by blast
  let ?z = "zip (el_actions e) (kept_actions env (el_actions e))"
  have z: "map fst ?z = el_actions e" "map snd ?z = kept_actions env (el_actions e)" "?z = [] \<longleftrightarrow> el_actions e = []"
    by (simp_all add: kept_actions_def zip_eq_Nil_iff)
  have "(if el_type e = AuElementTypeBundle then length (r_tracks e) * sizeof_auInputTrack
      else if el_type e = AuElementTypeSum then unat (PAD4 (word_of_nat (2 * length (r_inputs e))))
      else unat num * sizeof_auElementAction) = var_size e"
  proof (cases e)
    case (Sum "is")
    then show ?thesis using ok sum_padded [of "is"] by (simp add: el_type_def var_size_def countable_element_def)
  qed (use num(2) in \<open>simp_all add: el_type_def var_size_def\<close>)
  with ty num lies_at_actions [OF at acts] header_element [OF at ok] z show ?thesis
    by (simp add: make_element_def made_element_def)
qed

section \<open>Whole requests\<close>

lemma encodes_first:
  assumes "encodes (e # es) b"
  obtains x v r where "b = x @ r" "length x = sizeof_auElement + var_size e" "encodes es r"
    "\<And>pre post. lies_at e v (pre @ b @ post) (length pre)"
proof -
  obtain h v r where b: "b = h @ v @ r" "length h = sizeof_auElement" "holds (el_fields e) h 0" "var_ok e v" "encodes es r"
    using assms by auto
  have "lies_at e v (pre @ b @ post) (length pre)" for pre post
    by (rule lies_at_intro [of _ pre h v "r @ post"]) (use b in simp_all)
  then show thesis using that [of "h @ v" r v] b length_var [OF b(4)] by simp
qed

lemma measure_elements_wire:
  "list_all countable_element es \<Longrightarrow> encodes es b \<Longrightarrow> length pre + length b \<le> len \<Longrightarrow>
   measure_elements (pre @ b @ post) len (length es) (length pre) v a =
   Some (Inr (v + word_of_nat (sum_list (map var_size es)), a + sum_list (map action_count es)))"
proof (induction es arbitrary: b pre v a)
  case (Cons e es)
  obtain x w r where b: "b = x @ r" "length x = sizeof_auElement + var_size e" "encodes es r"
      "lies_at e w (pre @ b @ post) (length pre)"
    using encodes_first [OF Cons.prems(2)] by metis
  have ok: "countable_element e" using Cons.prems(1) by simp
  have small: "\<not> sizeof_auElement * len \<le> length pre" using Cons.prems(3) b by simp
  have "measure_elements (pre @ b @ post) len (length es) (length pre + var_size e + sizeof_auElement)
      (v + word_of_nat (var_size e)) (a + action_count e) =
    measure_elements ((pre @ x) @ r @ post) len (length es) (length (pre @ x)) (v + word_of_nat (var_size e)) (a + action_count e)"
    using b by (simp add: ac_simps)
  also have "\<dots> = Some (Inr (v + word_of_nat (var_size e) + word_of_nat (sum_list (map var_size es)),
      a + action_count e + sum_list (map action_count es)))"
    using Cons.prems b by (intro Cons.IH) simp_all
  finally show ?case using small element_var_wire [OF b(4) ok] by (simp add: algebra_simps)
qed simp

lemma make_elements_wire:
  "list_all countable_element es \<Longrightarrow> list_all (\<lambda>e. list_all (accepts env) (el_actions e)) es \<Longrightarrow> encodes es b \<Longrightarrow> length is = length es \<Longrightarrow>
   make_elements env (pre @ b @ post) is (length pre) = Some (Inr (map2 (made_element env) is es))"
proof (induction es arbitrary: b pre "is")
  case (Cons e es)
  obtain i is' where is': "is = i # is'" "length is' = length es" using Cons.prems(4) by (cases "is") auto
  obtain x w r where b: "b = x @ r" "length x = sizeof_auElement + var_size e" "encodes es r"
      "lies_at e w (pre @ b @ post) (length pre)"
    using encodes_first [OF Cons.prems(3)] by metis
  have m: "make_element env (pre @ b @ post) i (length pre) = Some (Inr (made_element env i e, var_size e))"
    using Cons.prems by (intro make_element_wire [OF b(4)]) simp_all
  have "make_elements env (pre @ b @ post) is' (length pre + var_size e + sizeof_auElement) =
    make_elements env ((pre @ x) @ r @ post) is' (length (pre @ x))"
    using b by (simp add: ac_simps)
  also have "\<dots> = Some (Inr (map2 (made_element env) is' es))"
    using Cons.prems is'(2) b by (intro Cons.IH) simp_all
  finally show ?case using m is'(1) by simp
qed simp

lemma length_fits_small: "n < 2 ^ 31 \<Longrightarrow> len = n + k * sizeof_auElement \<Longrightarrow> length_fits (word_of_nat n) len k"
proof -
  assume n: "n < 2 ^ 31" and len: "len = n + k * sizeof_auElement"
  have "signed_take_bit 31 (int n) = int n" using n by (simp add: signed_take_bit_int_eq_self)
  then have "(scast (word_of_nat n :: s32) :: 64 word) = word_of_nat n"
    by (simp add: scast_eq signed_of_nat)
  with len show ?thesis by (simp add: length_fits_def)
qed

lemma encodes_length: "encodes es b \<Longrightarrow> length b = sum_list (map var_size es) + length es * sizeof_auElement"
  by (induction es arbitrary: b) (auto dest: length_var)

text \<open>
  The two passes over a \<open>SetElements\<close> request read what a client wrote: for every list of elements laid out as the
  protocol says, with any bytes between the fields, the measuring pass gets their variable size and their number of actions and
  its length check passes, and the second pass makes of the bytes exactly those elements, in order and numbered, each with its
  own actions or, without any, the default ones of its type.
\<close>

theorem set_elements_reads_wire:
  assumes "list_all countable_element es" "list_all (\<lambda>e. list_all (accepts env) (el_actions e)) es"
    and "encodes es b" "length b < 2 ^ 31"
  shows "measure_elements b (length b) (length es) 0 0 0 =
      Some (Inr (word_of_nat (sum_list (map var_size es)), sum_list (map action_count es))) \<and>
    length_fits (word_of_nat (sum_list (map var_size es))) (length b) (length es) \<and>
    make_elements env b [0..<length es] 0 = Some (Inr (map2 (made_element env) [0..<length es] es))"
proof (intro conjI)
  show "measure_elements b (length b) (length es) 0 0 0 =
      Some (Inr (word_of_nat (sum_list (map var_size es)), sum_list (map action_count es)))"
    using measure_elements_wire [OF assms(1,3), of "[]" "length b" "[]" 0 0] by simp
  show "make_elements env b [0..<length es] 0 = Some (Inr (map2 (made_element env) [0..<length es] es))"
    using make_elements_wire [OF assms(1-3), of "[0..<length es]" "[]" "[]"] by simp
  show "length_fits (word_of_nat (sum_list (map var_size es))) (length b) (length es)"
    using assms(4) encodes_length [OF assms(3)] by (intro length_fits_small) simp_all
qed

definition demo_env :: element_env where
  "demo_env = \<lparr>n_lookup = (\<lambda>i. if i = 7 then Some 3 else None), n_action = \<lparr>a_flow = 0, a_triggerState = 0, a_triggerPrevState = 0,
     a_triggerReason = 0, a_action = 0, a_elementNum = 0, a_newState = 0\<rparr>, n_element = element0, n_client = 1, n_flow = 3,
     n_numElements = 3\<rparr>"

definition demo_elements :: "au_element list" where
  "demo_elements = [ImportClient 8000 1 1 True 4000 1000 [],
     MultiplyConstant 0 0x8000,
     ExportDevice 8000 1 0 33 [\<lparr>ra_flow = 7, ra_element_num = 0, ra_trigger_state = AuStateStop, ra_trigger_prev_state = AuStateAny,
       ra_trigger_reason = AuReasonAny, ra_action = AuElementActionChangeState, ra_new_state = AuStateStop\<rparr>]]"

text \<open>Their bytes, with rubbish between the fields.\<close>

definition demo_wire :: "bytes list" where
  "demo_wire = [
     [0, 0, 0x40, 0x1F, 1, 1, 1, 0xAA, 0xA0, 0x0F, 0, 0, 0xE8, 3, 0, 0, 0, 0, 0, 0, 0xAA, 0xAA, 0xAA, 0xAA],
     [6, 0, 0, 0, 0, 0x80, 0, 0, 0xAA, 0xAA, 0xAA, 0xAA, 0xAA, 0xAA, 0xAA, 0xAA, 0, 0, 0, 0, 0, 0, 0, 0],
     [10, 0, 0x40, 0x1F, 1, 0, 0xAA, 0xAA, 0, 0, 0, 0, 33, 0, 0, 0, 1, 0, 0, 0, 0xAA, 0xAA, 0xAA, 0xAA],
     [7, 0, 0, 0, 0, AuStateStop, AuStateAny, AuReasonAny, AuElementActionChangeState, AuStateStop, 0xAA, 0xAA]]"

lemma demo_encodes: "encodes demo_elements (concat demo_wire)"
proof -
  note sums = holds_simps el_fields_def el_type_def load_def bytes16_def bytes32_def lo8_def hi8_def el_actions_def
    action_fields_def
  have 1: "var_ok (demo_elements ! 0) []" "var_ok (demo_elements ! 1) []" by (simp_all add: demo_elements_def var_ok_def el_actions_def)
  have v: "var_ok (demo_elements ! 2) (concat [demo_wire ! 3])"
    by (rule var_ok_actions) (simp_all add: demo_elements_def demo_wire_def num_actions_at_def sums)
  have "encodes demo_elements (demo_wire ! 0 @ [] @ demo_wire ! 1 @ [] @ demo_wire ! 2 @ demo_wire ! 3 @ [])"
    unfolding demo_elements_def demo_wire_def
    by (intro encodes_Cons encodes.simps(1) [THEN iffD2]) (use v 1 in \<open>simp_all add: sums demo_elements_def demo_wire_def\<close>)
  then show ?thesis by (simp add: demo_wire_def)
qed

lemma set_elements_reads_wire_witness:
  "\<exists>els. make_elements demo_env (concat demo_wire) [0..<3] 0 = Some (Inr els) \<and>
     map e_raw els = demo_elements \<and> map (length \<circ> e_actions) els = [5, 0, 1]"
proof -
  have 1: "list_all countable_element demo_elements" by (simp add: demo_elements_def countable_element_def el_actions_def)
  have 2: "list_all (\<lambda>e. list_all (accepts demo_env) (el_actions e)) demo_elements"
    by (simp add: demo_elements_def el_actions_def accepts_def make_action_def demo_env_def AuValidTriggerState_def AuValidState_def
      AuValidTriggerReason_def)
  have 3: "length (concat demo_wire) < 2 ^ 31" by (simp add: demo_wire_def)
  have n: "length demo_elements = 3" by (simp add: demo_elements_def)
  show ?thesis
    using set_elements_reads_wire [OF 1 2 demo_encodes 3, THEN conjunct2, THEN conjunct2] unfolding n
    by (simp add: demo_elements_def made_element_def el_actions_def default_actions_def el_type_def kept_actions_def upt_rec)
qed

text \<open>
  C40. The length check of \<open>SetElements\<close> can be passed without the data: an element that announces 2 ^ 30 actions has, in the
  32 bits of \<^verbatim>\<open>varLen\<close>, no variable data, so a request that holds nothing but its 24 bytes is accepted by the measuring pass
  and its length check, and the second pass reads actions behind the request.
\<close>

theorem set_elements_length_wraps:
  assumes "length b = sizeof_auElement" "ld16 b 0 = Some ty" "num_actions_at ty = Some off" "ld32 b off = Some 0x40000000"
  shows "measure_elements b (length b) 1 0 0 0 = Some (Inr (0, 0x40000000)) \<and> length_fits 0 (length b) 1 \<and>
    make_elements env b [0] 0 = None"
proof -
  have "measure_elements b (length b) 1 0 0 0 = Some (Inr (0, 0x40000000))"
    using assms by (simp add: element_var_def)
  moreover have "length_fits 0 (length b) 1" using assms(1) by (simp add: length_fits_def)
  moreover have "copy_actions env b (unat (0x40000000 :: u32)) sizeof_auElement = None"
  proof -
    have "0 < unat (0x40000000 :: u32)" by simp
    then obtain n where n: "unat (0x40000000 :: u32) = Suc n" using gr0_conv_Suc [of "unat (0x40000000 :: u32)"] by blast
    have "load_action b sizeof_auElement = None" using assms(1) by (simp add: load_action_def ld32_def ld16_def)
    then show ?thesis unfolding n by simp
  qed
  then have "make_elements env b [0] 0 = None" using assms by (simp add: make_element_def del: unat_numeral)
  ultimately show ?thesis by blast
qed

lemma set_elements_length_wraps_witness:
  "make_elements demo_env ([0, 0, 0, 0, 0, 0, 0, 0, 0, 0, 0, 0, 0, 0, 0, 0, 0, 0, 0, 0x40, 0, 0, 0, 0]) [0] 0 = None \<and>
     measure_elements ([0, 0, 0, 0, 0, 0, 0, 0, 0, 0, 0, 0, 0, 0, 0, 0, 0, 0, 0, 0x40, 0, 0, 0, 0]) 24 1 0 0 0 = Some (Inr (0, 0x40000000))"
proof -
  let ?b = "[0, 0, 0, 0, 0, 0, 0, 0, 0, 0, 0, 0, 0, 0, 0, 0, 0, 0, 0, 0x40, 0, 0, 0, 0] :: bytes"
  have 1: "length ?b = sizeof_auElement" by simp
  have 2: "ld16 ?b 0 = Some 0" by (simp add: ld16_def mk16_def)
  have 3: "num_actions_at 0 = Some 16" by (simp add: num_actions_at_def)
  have 4: "ld32 ?b 16 = Some 0x40000000" by (simp add: ld32_def ld16_def mk16_def mk32_def)
  from set_elements_length_wraps [OF 1 2 3 4, of demo_env] 1 show ?thesis by simp
qed

end
