(* ===== verification/Dispatch.thy ===== *)
theory Dispatch
  imports Resource_Table Wire_Elements
begin

text \<open>
  The requests of clients on devices, buckets and flows (\<^verbatim>\<open>server/dia/audispatch.c\<close>). The state is the server's, the resource
  table and what was written to clients. A request is the bytes of its buffer with its length in units of four bytes
  (\<^verbatim>\<open>stuff->length\<close>, which is also \<^verbatim>\<open>client->req_len\<close>), in the server's byte order.

  \<open>None\<close> is a crash: an access behind a block or through a bad pointer, or \<^verbatim>\<open>FatalError\<close>.
\<close>

section \<open>State\<close>

text \<open>The delete functions of the server's own resource types.\<close>

datatype delete_func = NoopDDA | DeleteComponent | DeleteFlow

fun delete_resource :: "nat \<Rightarrow> delete_func \<Rightarrow> nat option \<Rightarrow> u32 \<Rightarrow> server \<Rightarrow> server option" where
  "delete_resource fuel NoopDDA v i s = Some s"
| "delete_resource fuel DeleteComponent v i s = do { r \<leftarrow> v; AuFreeComponent r s }"
| "delete_resource fuel DeleteFlow v i s = do { r \<leftarrow> v; freeFlow fuel r s }"

record common_attributes =
  at_value_mask :: u32
  at_changable_mask :: u32
  at_id :: u32
  at_kind :: u8
  at_use :: u8
  at_format :: u8
  at_num_tracks :: u8
  at_access :: u32
  at_description_type :: u8
  at_description_len :: u32

record device_attributes = common_attributes +
  at_min_sample_rate :: u16
  at_max_sample_rate :: u16
  at_location :: u32
  at_gain :: s32
  at_line_mode :: u8
  at_num_children :: u8

record bucket_attributes = common_attributes +
  at_sample_rate :: u16
  at_num_samples :: u32

text \<open>
  What is written to a client: replies with their sequence number and length, the data that follow them. \<open>Data\<close> is a block
  \<^verbatim>\<open>WriteToClient\<close> pads to four bytes.
\<close>

datatype reply =
  ListDevicesReply u16 u32 u32
| GetDeviceAttributesReply u16 u32
| DeviceData device_attributes
| ChildrenData "u32 list"
| ListBucketsReply u16 u32 u32
| GetBucketAttributesReply u16 u32
| BucketData bucket_attributes
| GetElementsReply u16 u32 bool u32 u32
| ElementData au_element
| GetElementStatesReply u16 u32 u32
| ElementStateData u32 u8 u8
| ReadElementReply u16 u32 u32
| GetServerTimeReply u16 u32
| GetCloseDownModeReply u16 u8
| ErrorReply u16 u8 u8 u32
| SetupPrefix bool u8 u16
| Setup u32
| Data bytes

record dispatch =
  di_server :: server
  di_table :: "delete_func resources"
  di_auComponentType :: restype
  di_auFlowType :: restype
  di_out :: "(nat \<times> reply) list"

text \<open>What the server finds around it: the driver, the time, the contents of fresh memory, the depth of the stack.\<close>

record dispatch_env =
  de_driver :: driver
  de_time :: u32
  de_compile :: compile_env
  de_element :: flow_element
  de_action :: action
  de_fuel :: nat

record request =
  rq_client :: nat
  rq_len :: nat
  rq_buffer :: bytes

text \<open>A handler returns a code, or \<^verbatim>\<open>client->noClientException\<close>.\<close>

datatype request_status = Returns u8 | NoClientException

abbreviation (input) SuccessCode :: u8 where "SuccessCode \<equiv> 0"
abbreviation (input) AuBadAccess :: u8 where "AuBadAccess \<equiv> 10"
abbreviation (input) AuBadImplementation :: u8 where "AuBadImplementation \<equiv> 17"
abbreviation (input) AuAccessDestroyMask :: u8 where "AuAccessDestroyMask \<equiv> 4"
abbreviation (input) AuAccessListMask :: u8 where "AuAccessListMask \<equiv> 8"

type_synonym handler = "dispatch_env \<Rightarrow> request \<Rightarrow> dispatch \<Rightarrow> (request_status \<times> dispatch) option"

text \<open>\<^verbatim>\<open>REQUEST_SIZE_MATCH\<close> and \<^verbatim>\<open>REQUEST_AT_LEAST_SIZE\<close>; they leave \<^verbatim>\<open>errorValue\<close> alone.\<close>

definition size_match :: "nat \<Rightarrow> request \<Rightarrow> bool" where
  "size_match sz rq \<longleftrightarrow> sz div 4 = rq_len rq"

definition at_least_size :: "nat \<Rightarrow> request \<Rightarrow> bool" where
  "at_least_size sz rq \<longleftrightarrow> sz div 4 \<le> rq_len rq"

definition bad_length :: "dispatch \<Rightarrow> (request_status \<times> dispatch) option" where
  "bad_length d = Some (Returns AuBadLength, d)"

definition the_client :: "request \<Rightarrow> dispatch \<Rightarrow> client option" where
  "the_client rq d = sv_clients (di_server d) (rq_client rq)"

definition AU_ERROR :: "u8 \<Rightarrow> u32 \<Rightarrow> request \<Rightarrow> dispatch \<Rightarrow> (request_status \<times> dispatch) option" where
  "AU_ERROR e v rq d =
     do { cl \<leftarrow> the_client rq d;
          let s = di_server d;
          Some (Returns e, d\<lparr>di_server := s\<lparr>sv_clients := (sv_clients s)(rq_client rq \<mapsto> cl\<lparr>cl_errorValue := v\<rparr>)\<rparr>\<rparr>) }"

text \<open>The status of a function that was itself given the client.\<close>

definition return_status :: "au_status \<Rightarrow> request \<Rightarrow> dispatch \<Rightarrow> (request_status \<times> dispatch) option" where
  "return_status st rq d = (case st of AuSuccess \<Rightarrow> Some (Returns SuccessCode, d)
     | AuFailure e (Some v) \<Rightarrow> AU_ERROR e v rq d
     | AuFailure e None \<Rightarrow> Some (Returns e, d))"

definition put_server :: "server \<Rightarrow> dispatch \<Rightarrow> dispatch" where
  "put_server s d = d\<lparr>di_server := s\<rparr>"

definition write_client :: "request \<Rightarrow> reply list \<Rightarrow> dispatch \<Rightarrow> dispatch" where
  "write_client rq rs d = d\<lparr>di_out := di_out d @ map (\<lambda>r. (rq_client rq, r)) rs\<rparr>"

definition lookup :: "restype \<Rightarrow> u32 \<Rightarrow> dispatch \<Rightarrow> nat option option" where
  "lookup ty i d = LookupIDByType i ty (di_table d)"

section \<open>Attributes of components\<close>

definition xferCommonAttributes :: "component \<Rightarrow> common_attributes" where
  "xferCommonAttributes c = \<lparr>at_value_mask = c_valueMask c, at_changable_mask = c_changableMask c, at_id = c_id c,
     at_kind = c_kind c, at_use = c_use c, at_format = c_format c, at_num_tracks = c_numTracks c, at_access = ucast (c_access c),
     at_description_type = c_descriptionType c, at_description_len = word_of_nat (length (c_description c))\<rparr>"

definition xferDeviceAttributes :: "component \<Rightarrow> device_attributes" where
  "xferDeviceAttributes c = common_attributes.extend (xferCommonAttributes c)
     \<lparr>at_min_sample_rate = ucast (c_minSampleRate c), at_max_sample_rate = ucast (c_maxSampleRate c), at_location = c_location c,
      at_gain = c_gain c, at_line_mode = c_lineMode c, at_num_children = word_of_nat (length (c_children c))\<rparr>"

definition xferBucketAttributes :: "component \<Rightarrow> bucket_attributes" where
  "xferBucketAttributes c = common_attributes.extend (xferCommonAttributes c)
     \<lparr>at_sample_rate = ucast (c_sampleRate c), at_num_samples = c_numSamples c\<rparr>"

definition fetch_gains :: "driver \<Rightarrow> component \<Rightarrow> component" where
  "fetch_gains drv c =
     (if c_kind c = AuComponentKindPhysicalInput then
        c\<lparr>c_gain := AuGetInputGain drv (c_gain c), c_lineMode := AuGetInputMode drv (c_lineMode c)\<rparr>
      else if c_kind c = AuComponentKindPhysicalOutput then
        (let (g, m) = AuGetOutputGainAndMode drv in c\<lparr>c_gain := g, c_lineMode := m\<rparr>)
      else if c_kind c = AuComponentKindPhysicalFeedback then c\<lparr>c_gain := AuGetFeedbackGain drv (c_gain c)\<rparr>
      else c)"

text \<open>
  The length field of a reply counts units of four bytes; the sums are taken in 64 bits, those of the lists from numbers that
  are \<^verbatim>\<open>int\<close>.
\<close>

definition units :: "64 word \<Rightarrow> u32" where
  "units n = ucast (drop_bit 2 n)"

definition reply_length :: "nat \<Rightarrow> u32 \<Rightarrow> u32 \<Rightarrow> u32" where
  "reply_length sz n len = units (word_of_nat sz * scast n + scast len)"

definition pad_len :: "component \<Rightarrow> u32" where
  "pad_len c = PAD4 (word_of_nat (length (c_description c)))"

definition device_data :: "component \<Rightarrow> reply list" where
  "device_data c = [DeviceData (xferDeviceAttributes c), Data (c_description c)] @
     (if c_children c \<noteq> [] then [ChildrenData (c_children c)] else [])"

definition bucket_data :: "component \<Rightarrow> reply list" where
  "bucket_data c = [BucketData (xferBucketAttributes c), Data (c_description c)]"

text \<open>
  The check on the description in attributes \<open>a\<close> that have \<open>len\<close> bytes behind them: \<open>True\<close> is \<^verbatim>\<open>AuBadLength\<close>. \<^verbatim>\<open>PAD4\<close> wraps
  around for lengths next to \<open>2 ^ 32\<close>.
\<close>

definition bad_description :: "bytes \<Rightarrow> int \<Rightarrow> bool option" where
  "bad_description a len =
     do { m \<leftarrow> a_value_mask a;
          (if m AND AuCompCommonDescriptionMask \<noteq> 0
           then map_option (\<lambda>n. word_of_int len \<noteq> PAD4 n) (a_description_len a) else Some False) }"

section \<open>Devices\<close>

text \<open>The first pass: which devices match, and the number and size of them.\<close>

fun match_devices :: "driver \<Rightarrow> bytes \<Rightarrow> bytes \<Rightarrow> nat list \<Rightarrow> u32 \<Rightarrow> u32 \<Rightarrow> server \<Rightarrow> (u32 \<times> u32 \<times> server) option" where
  "match_devices drv a varData [] n len s = Some (n, len, s)"
| "match_devices drv a varData (r # rs) n len s =
     do { c \<leftarrow> get_comp r s;
          (ok, c) \<leftarrow> AuMatchAttributes drv a c varData;
          let s = put_comp r (c\<lparr>c_list := ok\<rparr>) s;
          (if ok then match_devices drv a varData rs (n + 1) (len + pad_len c + word_of_nat (4 * length (c_children c))) s
           else match_devices drv a varData rs n len s) }"

fun write_devices :: "driver \<Rightarrow> request \<Rightarrow> nat list \<Rightarrow> dispatch \<Rightarrow> dispatch option" where
  "write_devices drv rq [] d = Some d"
| "write_devices drv rq (r # rs) d =
     do { c \<leftarrow> get_comp r (di_server d);
          let d = (if c_list c then
              let c = fetch_gains drv c in write_client rq (device_data c) (put_server (put_comp r c (di_server d)) d)
            else d);
          write_devices drv rq rs d }"

definition ProcAuListDevices :: handler where
  "ProcAuListDevices env rq d =
     (if \<not> at_least_size 4 rq then bad_length d
      else let len = int (4 * rq_len rq) - 4 - int sizeof_auDeviceAttributes; a = drop 4 (rq_buffer rq) in
        if len < 0 then AU_ERROR AuBadLength 0 rq d
        else do { bad \<leftarrow> bad_description a len;
                  (if bad then AU_ERROR AuBadLength 0 rq d
                   else do { ds \<leftarrow> chain (sv_comp_links (di_server d)) (sv_auDevices (di_server d));
                             (n, len, s) \<leftarrow> match_devices (de_driver env) a (drop sizeof_auDeviceAttributes a) ds 0 0 (di_server d);
                             cl \<leftarrow> the_client rq d;
                             let d = write_client rq [ListDevicesReply (cl_sequence cl)
                                 (reply_length sizeof_auDeviceAttributes n len) n] (put_server s d);
                             d \<leftarrow> write_devices (de_driver env) rq ds d;
                             Some (NoClientException, d) }) })"

definition ProcAuGetDeviceAttributes :: handler where
  "ProcAuGetDeviceAttributes env rq d =
     (if \<not> size_match 8 rq then bad_length d
      else do { i \<leftarrow> ld32 (rq_buffer rq) 4;
                v \<leftarrow> lookup (di_auComponentType d) i d;
                (case v of
                   None \<Rightarrow> AU_ERROR AuBadDevice i rq d
                 | Some r \<Rightarrow>
                     do { c \<leftarrow> get_comp r (di_server d);
                          cl \<leftarrow> the_client rq d;
                          let len = word_of_nat sizeof_auDeviceAttributes + ucast (pad_len c) + word_of_nat (4 * length (c_children c));
                          let c = fetch_gains (de_driver env) c;
                          Some (NoClientException, write_client rq (GetDeviceAttributesReply (cl_sequence cl) (units len) # device_data c)
                            (put_server (put_comp r c (di_server d)) d)) }) })"

definition ProcAuSetDeviceAttributes :: handler where
  "ProcAuSetDeviceAttributes env rq d =
     (if \<not> at_least_size 8 rq then bad_length d
      else do { i \<leftarrow> ld32 (rq_buffer rq) 4;
                v \<leftarrow> lookup (di_auComponentType d) i d;
                (case v of
                   None \<Rightarrow> AU_ERROR AuBadDevice i rq d
                 | Some r \<Rightarrow>
                     let len = int (4 * rq_len rq) - 8 - int sizeof_auDeviceAttributes; a = drop 8 (rq_buffer rq) in
                     if len < 0 then AU_ERROR AuBadLength 0 rq d
                     else do { c \<leftarrow> get_comp r (di_server d);
                               m \<leftarrow> a_value_mask a;
                               (if m AND NOT (c_changableMask c) \<noteq> 0 then AU_ERROR AuBadValue m rq d
                                else do { bad \<leftarrow> bad_description a len;
                                          (if bad then AU_ERROR AuBadLength 0 rq d
                                           else do { c \<leftarrow> AuSetComponentAttributes a c None;
                                                     let s = put_comp r c (di_server d);
                                                     let s = (if c_kind c = AuComponentKindPhysicalInput then
                                                         AuSetInputGainAndLineMode (c_gain c) (c_lineMode c) s
                                                       else if c_kind c = AuComponentKindPhysicalOutput then
                                                         AuSetOutputGainAndMode (de_driver env) (c_gain c) (c_lineMode c) s
                                                       else if c_kind c = AuComponentKindPhysicalFeedback then
                                                         AuSetFeedbackGain (de_driver env) (c_gain c) s
                                                       else s);
                                                     Some (Returns SuccessCode, put_server s d) }) }) }) })"

section \<open>Buckets\<close>

text \<open>An allocation whose size wraps around is \<open>None\<close>: its block would be smaller than what is put into it.\<close>

definition new_bucket :: "u32 \<Rightarrow> u32 \<Rightarrow> u8 \<Rightarrow> u32 \<Rightarrow> server \<Rightarrow> component option" where
  "new_bucket dataSize sz tracks descriptionLen s =
     (if 2 ^ 32 \<le> sizeof_ComponentRec + unat (PAD4 dataSize) + unat (PAD4 descriptionLen) then None
      else Some (component0\<lparr>c_kind := AuComponentKindBucket, c_use := 3, c_valueMask := AuCompBucketAllMasks,
        c_data := replicate (unat dataSize) 0, c_dataSize := dataSize, c_read := 0, c_write := 0, c_physicalDeviceMask := 0,
        c_minibufSize := auNativeBytesPerSample * sv_auMinibufSamples s * ucast tracks, c_destroyed := False,
        c_bytesPerSample := ucast tracks * sz\<rparr>))"

definition link_bucket :: "component \<Rightarrow> server \<Rightarrow> (nat \<times> server) option" where
  "link_bucket c s =
     do { let (r, s) = new_comp c s;
          (h, L) \<leftarrow> AddToLinkedList (sv_auBuckets s) r ((sv_comp_links s)(r \<mapsto> \<lparr>l_prev = None, l_next = None\<rparr>));
          Some (r, s\<lparr>sv_auBuckets := h, sv_comp_links := L\<rparr>) }"

definition ProcAuCreateBucket :: handler where
  "ProcAuCreateBucket env rq d =
     (if \<not> at_least_size 8 rq then bad_length d
      else let len = int (4 * rq_len rq) - 8 - int sizeof_auBucketAttributes; a = drop 8 (rq_buffer rq) in
        if len < 0 then AU_ERROR AuBadLength 0 rq d
        else do { i \<leftarrow> ld32 (rq_buffer rq) 4;
                  m \<leftarrow> a_value_mask a;
                  (if m \<noteq> AuCompBucketAllMasks AND NOT (AuCompCommonKindMask OR AuCompCommonUseMask) then AU_ERROR AuBadValue m rq d
                   else do { bad \<leftarrow> bad_description a len;
                             (if bad then AU_ERROR AuBadLength 0 rq d
                              else do { fmt \<leftarrow> a_format a; tracks \<leftarrow> a_num_tracks a; num \<leftarrow> a_num_samples a;
                                        dlen \<leftarrow> a_description_len a;
                                        sz \<leftarrow> sizeofFormat fmt;
                                        (case aualloc (di_server d) of
                                           (False, s) \<Rightarrow> AU_ERROR AuBadAlloc 0 rq (put_server s d)
                                         | (True, s) \<Rightarrow>
                                             do { c \<leftarrow> new_bucket (num * sz * ucast tracks) sz tracks dlen s;
                                                  (r, s) \<leftarrow> link_bucket c s;
                                                  c \<leftarrow> AuSetComponentAttributes a c (Some (drop sizeof_auBucketAttributes a));
                                                  (ok, t, s) \<leftarrow> AddResource (delete_resource (de_fuel env)) i (di_auComponentType d) (Some r)
                                                    (di_table d, put_comp r c s);
                                                  let d = put_server s (d\<lparr>di_table := t\<rparr>);
                                                  (if ok then Some (Returns SuccessCode, d) else AU_ERROR AuBadAlloc 0 rq d) }) }) }) })"

definition ProcAuDestroyBucket :: handler where
  "ProcAuDestroyBucket env rq d =
     (if \<not> size_match 8 rq then bad_length d
      else do { i \<leftarrow> ld32 (rq_buffer rq) 4;
                v \<leftarrow> lookup (di_auComponentType d) i d;
                (case v of
                   None \<Rightarrow> AU_ERROR AuBadBucket i rq d
                 | Some r \<Rightarrow>
                     do { c \<leftarrow> get_comp r (di_server d);
                          cl \<leftarrow> the_client rq d;
                          (if c_access c AND AuAccessDestroyMask = 0 \<and> CLIENT_ID i \<noteq> cl_index cl then AU_ERROR AuBadAccess i rq d
                           else do { (t, s) \<leftarrow> FreeResource (delete_resource (de_fuel env)) i 0
                                       (di_table d, put_comp r (c\<lparr>c_destroyed := True\<rparr>) (di_server d));
                                     Some (Returns SuccessCode, put_server s (d\<lparr>di_table := t\<rparr>)) }) }) })"

text \<open>A bucket is listed if it is not destroyed, the client may list it, and it matches.\<close>

fun match_buckets :: "driver \<Rightarrow> nat \<Rightarrow> bytes \<Rightarrow> bytes \<Rightarrow> nat list \<Rightarrow> u32 \<Rightarrow> u32 \<Rightarrow> server \<Rightarrow> (u32 \<times> u32 \<times> server) option" where
  "match_buckets drv index a varData [] n len s = Some (n, len, s)"
| "match_buckets drv index a varData (r # rs) n len s =
     do { c \<leftarrow> get_comp r s;
          (ok, c) \<leftarrow> (if \<not> c_destroyed c \<and> (CLIENT_ID (c_id c) = index \<or> c_access c AND AuAccessListMask \<noteq> 0)
                      then AuMatchAttributes drv a c varData else Some (False, c));
          let s = put_comp r (c\<lparr>c_list := ok\<rparr>) s;
          (if ok then match_buckets drv index a varData rs (n + 1) (len + pad_len c) s
           else match_buckets drv index a varData rs n len s) }"

fun write_buckets :: "request \<Rightarrow> nat list \<Rightarrow> dispatch \<Rightarrow> dispatch option" where
  "write_buckets rq [] d = Some d"
| "write_buckets rq (r # rs) d =
     do { c \<leftarrow> get_comp r (di_server d);
          write_buckets rq rs (if c_list c then write_client rq (bucket_data c) d else d) }"

definition ProcAuListBuckets :: handler where
  "ProcAuListBuckets env rq d =
     (if \<not> at_least_size 4 rq then bad_length d
      else let len = int (4 * rq_len rq) - 4 - int sizeof_auBucketAttributes; a = drop 4 (rq_buffer rq) in
        if len < 0 then AU_ERROR AuBadLength 0 rq d
        else do { bad \<leftarrow> bad_description a len;
                  (if bad then AU_ERROR AuBadLength 0 rq d
                   else do { bs \<leftarrow> chain (sv_comp_links (di_server d)) (sv_auBuckets (di_server d));
                             cl \<leftarrow> the_client rq d;
                             (n, len, s) \<leftarrow> match_buckets (de_driver env) (cl_index cl) a (drop sizeof_auBucketAttributes a) bs 0 0 (di_server d);
                             let d = write_client rq [ListBucketsReply (cl_sequence cl)
                                 (reply_length sizeof_auBucketAttributes n len) n] (put_server s d);
                             d \<leftarrow> write_buckets rq bs d;
                             Some (NoClientException, d) }) })"

definition ProcAuGetBucketAttributes :: handler where
  "ProcAuGetBucketAttributes env rq d =
     (if \<not> size_match 8 rq then bad_length d
      else do { i \<leftarrow> ld32 (rq_buffer rq) 4;
                v \<leftarrow> lookup (di_auComponentType d) i d;
                (case v of
                   None \<Rightarrow> AU_ERROR AuBadBucket i rq d
                 | Some r \<Rightarrow>
                     do { c \<leftarrow> get_comp r (di_server d);
                          cl \<leftarrow> the_client rq d;
                          Some (NoClientException, write_client rq (GetBucketAttributesReply (cl_sequence cl)
                            (units (word_of_nat sizeof_auBucketAttributes + ucast (pad_len c))) # bucket_data c) d) }) })"

section \<open>Flows\<close>

definition ProcAuCreateFlow :: handler where
  "ProcAuCreateFlow env rq d =
     (if \<not> size_match 8 rq then bad_length d
      else do { i \<leftarrow> ld32 (rq_buffer rq) 4;
                (case aualloc (di_server d) of
                   (False, s) \<Rightarrow> AU_ERROR AuBadAlloc 0 rq (put_server s d)
                 | (True, s) \<Rightarrow>
                     do { let r = sv_next s;
                          let f = flow0\<lparr>f_flowId := i, f_state := AuStateStop, f_pendingState := AuStateStop,
                              f_compiled := compiled_flow0\<lparr>cf_freeComponents := True\<rparr>\<rparr>;
                          let s = put_flow r f (s\<lparr>sv_next := Suc r, sv_flow_links := (sv_flow_links s)(r \<mapsto> \<lparr>l_prev = None, l_next = None\<rparr>)\<rparr>);
                          (ok, t, s) \<leftarrow> AddResource (delete_resource (de_fuel env)) i (di_auFlowType d) (Some r) (di_table d, s);
                          let d = put_server s (d\<lparr>di_table := t\<rparr>);
                          (if ok then Some (Returns SuccessCode, d) else AU_ERROR AuBadAlloc 0 rq d) }) })"

definition ProcAuDestroyFlow :: handler where
  "ProcAuDestroyFlow env rq d =
     (if \<not> size_match 8 rq then bad_length d
      else do { i \<leftarrow> ld32 (rq_buffer rq) 4;
                v \<leftarrow> lookup (di_auFlowType d) i d;
                (case v of
                   None \<Rightarrow> AU_ERROR AuBadFlow i rq d
                 | Some r \<Rightarrow>
                     do { (t, s) \<leftarrow> FreeResource (delete_resource (de_fuel env)) i 0 (di_table d, di_server d);
                          Some (Returns SuccessCode, put_server s (d\<lparr>di_table := t\<rparr>)) }) })"

end
