(* ===== verification/Ring.thy ===== *)
theory Ring
  imports Prelude
begin

text \<open>
  Ring buffers. \<open>ring d r n\<close> are the \<open>n\<close> bytes that begin at offset \<open>r\<close> of the block \<open>d\<close> and wrap at its end;
  \<open>ring_put x w d\<close> writes \<open>x\<close> at offset \<open>w\<close>, wrapping at the end. The locale \<open>byte_fifo\<close> is the contract of the
  ports between a client and a flow, whose two ends run in different parts of the server: what comes out is
  what went in, in order.
\<close>

section \<open>Reading and writing with a wrap\<close>

definition ring :: "'a list \<Rightarrow> nat \<Rightarrow> nat \<Rightarrow> 'a list" where
  "ring d r n = take n (rotate r d)"

definition ring_put :: "'a list \<Rightarrow> nat \<Rightarrow> 'a list \<Rightarrow> 'a list" where
  "ring_put x w d = blit (drop (length d - w) x) 0 (blit (take (length d - w) x) w d)"

lemma length_ring [simp]: "length (ring d r n) = min (length d) n"
  by (simp add: ring_def min.commute)

lemma ring_0 [simp]: "ring d r 0 = []"
  by (simp add: ring_def)

lemma nth_ring: "i < n \<Longrightarrow> n \<le> length d \<Longrightarrow> ring d r n ! i = d ! ((r + i) mod length d)"
  by (simp add: ring_def nth_rotate)

lemma take_ring: "k \<le> n \<Longrightarrow> take k (ring d r n) = ring d r k"
  by (simp add: ring_def min_def)

lemma drop_ring: "k \<le> n \<Longrightarrow> n \<le> length d \<Longrightarrow> drop k (ring d r n) = ring d ((r + k) mod length d) (n - k)"
  by (rule nth_equalityI) (auto simp: nth_ring mod_simps ac_simps)

lemma ring_straight: "r + n \<le> length d \<Longrightarrow> ring d r n = take n (drop r d)"
  by (cases "d = []") (auto intro!: nth_equalityI simp: nth_ring)

lemma ring_wrap: "r \<le> length d \<Longrightarrow> length d \<le> r + n \<Longrightarrow> n \<le> length d \<Longrightarrow>
  ring d r n = drop r d @ take (r + n - length d) d"
proof (rule nth_equalityI)
  fix i
  assume a: "r \<le> length d" "length d \<le> r + n" "n \<le> length d" "i < length (ring d r n)"
  show "ring d r n ! i = (drop r d @ take (r + n - length d) d) ! i"
  proof (cases "r + i < length d")
    case False
    then have "(r + i) mod length d = r + i - length d"
      using a by (subst mod_if) (auto simp: mod_less)
    with False a show ?thesis by (auto simp: nth_ring nth_append intro: arg_cong [where f = "nth d"])
  qed (use a in \<open>auto simp: nth_ring nth_append\<close>)
qed auto

lemma length_blit_take: "w \<le> length d \<Longrightarrow> length (blit (take (length d - w) x) w d) = length d"
  by (rule length_blit) auto

lemma length_ring_put [simp]:
  assumes "w < length d" "length x \<le> length d"
  shows "length (ring_put x w d) = length d"
proof -
  have "w \<le> length d" using assms by simp
  from length_blit_take [OF this, of x] show ?thesis
    using assms by (simp add: ring_put_def length_blit)
qed

lemma nth_ring_put:
  assumes "w < length d" "length x \<le> length d" "i < length d"
  shows "ring_put x w d ! i =
    (if w \<le> i \<and> i < w + length x then x ! (i - w)
     else if i + length d < w + length x then x ! (i + length d - w) else d ! i)"
proof -
  have "length (blit (take (length d - w) x) w d) = length d"
    using assms by (intro length_blit_take) simp
  moreover have "blit (take (length d - w) x) w d ! i =
      (if w \<le> i \<and> i < w + length x then x ! (i - w) else d ! i)"
    using assms by (subst nth_blit) auto
  ultimately show ?thesis
    using assms by (auto simp: ring_put_def nth_blit intro: arg_cong [where f = "nth x"])
qed

text \<open>Writing behind the contents appends to them and leaves what was there.\<close>

lemma ring_put_ring:
  assumes "r < length d" "n + length x \<le> length d"
  shows "ring (ring_put x ((r + n) mod length d) d) r (n + length x) = ring d r n @ x"
proof (rule nth_equalityI)
  let ?L = "length d" and ?w = "(r + n) mod length d"
  have L: "0 < ?L" using assms(1) by (cases d) auto
  then have w: "?w < ?L" by simp
  have x: "length x \<le> ?L" using assms by simp
  show "length (ring (ring_put x ?w d) r (n + length x)) = length (ring d r n @ x)"
    using assms w x by simp
  fix i
  assume "i < length (ring (ring_put x ?w d) r (n + length x))"
  then have i: "i < n + length x" using assms w x by simp
  have wv: "?w = (if r + n < ?L then r + n else r + n - ?L)"
    using assms by (subst mod_if) (auto simp: mod_less)
  have jv: "(r + i) mod ?L = (if r + i < ?L then r + i else r + i - ?L)"
    using assms i by (subst mod_if) (auto simp: mod_less)
  have j: "(r + i) mod ?L < ?L" using L by simp
  have "ring (ring_put x ?w d) r (n + length x) ! i = ring_put x ?w d ! ((r + i) mod ?L)"
    using i assms w x by (simp add: nth_ring)
  also have "\<dots> = (if i < n then d ! ((r + i) mod ?L) else x ! (i - n))"
    unfolding nth_ring_put [OF w x j] using i assms unfolding wv jv
    by (auto intro: arg_cong [where f = "nth x"])
  also have "\<dots> = (ring d r n @ x) ! i"
    using i assms by (simp add: nth_append nth_ring)
  finally show "ring (ring_put x ?w d) r (n + length x) ! i = (ring d r n @ x) ! i" .
qed

section \<open>Masks\<close>

text \<open>\<^verbatim>\<open>x & ~(2^k - 1)\<close> is \<open>x\<close> rounded down to a multiple of \<open>2 ^ k\<close>.\<close>

lemma mask_down_eq:
  assumes "2 ^ k dvd unat (x :: u32)"
  shows "x AND NOT (2 ^ k - 1) = x"
proof (rule bit_word_eqI)
  fix i assume i: "i < LENGTH(32)"
  have "\<not> bit x i" if "i < k"
  proof -
    from assms obtain q where "unat x = 2 ^ k * q" by (auto simp: dvd_def)
    then have "\<not> bit (unat x) i" using that
      by (simp add: bit_push_bit_iff push_bit_eq_mult [symmetric] mult.commute)
    then show ?thesis by (simp add: bit_unsigned_iff)
  qed
  then show "bit (x AND NOT (2 ^ k - 1)) i = bit x i"
    using i by (auto simp: bit_simps mask_eq_exp_minus_1 [symmetric])
qed

section \<open>The contract of a port\<close>

text \<open>
  A queue of bytes that moves whole frames of \<open>frame\<close> bytes: \<open>put\<close> appends or refuses what does not fit,
  \<open>get n\<close> takes up to \<open>n\<close> bytes from the front.
\<close>

datatype port_op = Put "u8 list" | Get nat

fun port_run :: "(bytes \<Rightarrow> 's \<Rightarrow> 's option) \<Rightarrow> (nat \<Rightarrow> 's \<Rightarrow> (bytes \<times> 's) option) \<Rightarrow> port_op list \<Rightarrow> 's \<Rightarrow> (bytes \<times> bytes \<times> 's) option" where
  "port_run put get [] s = Some ([], [], s)"
| "port_run put get (Put x # ops) s =
     (case put x s of None \<Rightarrow> port_run put get ops s
      | Some s' \<Rightarrow> map_option (\<lambda>(i, out, t). (x @ i, out, t)) (port_run put get ops s'))"
| "port_run put get (Get n # ops) s =
     (case get n s of None \<Rightarrow> None
      | Some (y, s') \<Rightarrow> map_option (\<lambda>(i, out, t). (i, y @ out, t)) (port_run put get ops s'))"

fun op_frames :: "nat \<Rightarrow> nat \<Rightarrow> port_op \<Rightarrow> bool" where
  "op_frames frame m (Put x) = (frame dvd length x \<and> length x < m)"
| "op_frames frame m (Get n) = (frame dvd n \<and> n < m)"

locale byte_fifo =
  fixes frame max :: nat
    and inv :: "'s \<Rightarrow> bool"
    and contents :: "'s \<Rightarrow> bytes"
    and room :: "'s \<Rightarrow> nat"
    and put :: "bytes \<Rightarrow> 's \<Rightarrow> 's option"
    and get :: "nat \<Rightarrow> 's \<Rightarrow> (bytes \<times> 's) option"
  assumes put_fits: "inv s \<Longrightarrow> frame dvd length x \<Longrightarrow> length x < max \<Longrightarrow> length x \<le> room s \<Longrightarrow>
      \<exists>s'. put x s = Some s' \<and> inv s' \<and> contents s' = contents s @ x \<and> room s' + length x = room s"
    and put_full: "inv s \<Longrightarrow> frame dvd length x \<Longrightarrow> length x < max \<Longrightarrow> room s < length x \<Longrightarrow> put x s = None"
    and get_front: "inv s \<Longrightarrow> frame dvd n \<Longrightarrow> n < max \<Longrightarrow>
      \<exists>s'. get n s = Some (take n (contents s), s') \<and> inv s' \<and> contents s' = drop n (contents s) \<and>
        room s' = room s + min n (length (contents s))"
begin

text \<open>
  Whatever sequence of operations the two ends perform, none fails, and what has come out followed by what is
  still inside is what was inside followed by what was accepted.
\<close>

lemma stream:
  "inv s \<Longrightarrow> list_all (op_frames frame max) ops \<Longrightarrow>
   \<exists>i out s'. port_run put get ops s = Some (i, out, s') \<and> inv s' \<and> out @ contents s' = contents s @ i \<and>
     room s' + length (contents s') = room s + length (contents s)"
proof (induction ops arbitrary: s)
  case (Cons p ops)
  show ?case
  proof (cases p)
    case (Put x)
    show ?thesis
    proof (cases "length x \<le> room s")
      case True
      then obtain s1 where 1: "put x s = Some s1" "inv s1" "contents s1 = contents s @ x" "room s1 + length x = room s"
        using put_fits [of s x] Cons.prems Put by auto
      then obtain i out s2 where "port_run put get ops s1 = Some (i, out, s2)" "inv s2"
          "out @ contents s2 = contents s1 @ i" "room s2 + length (contents s2) = room s1 + length (contents s1)"
        using Cons.IH [of s1] Cons.prems by auto
      with 1 Put show ?thesis by auto
    next
      case False
      then have "put x s = None" using put_full [of s x] Cons.prems Put by auto
      with Cons Put show ?thesis by auto
    qed
  next
    case (Get n)
    then obtain s1 where 1: "get n s = Some (take n (contents s), s1)" "inv s1" "contents s1 = drop n (contents s)"
        "room s1 = room s + min n (length (contents s))"
      using get_front [of s n] Cons.prems by auto
    then obtain i out s2 where 2: "port_run put get ops s1 = Some (i, out, s2)" "inv s2"
        "out @ contents s2 = contents s1 @ i" "room s2 + length (contents s2) = room s1 + length (contents s1)"
      using Cons.IH [of s1] Cons.prems by auto
    have "(take n (contents s) @ out) @ contents s2 = contents s @ i"
      using 1(3) 2(3) by (metis append.assoc append_take_drop_id)
    with 1 2 Get show ?thesis by auto
  qed
qed simp

end

end
