(* ===== verification/Client_Port.thy ===== *)
theory Client_Port
  imports Port_IO Ring
begin

text \<open>
  The client's end of a port: the copies of \<open>ProcAuWriteElement\<close> (into an import port) and
  \<open>ProcAuReadElement\<close> (out of an export port) in \<^verbatim>\<open>server/dia/audispatch.c\<close>, and the proof that with the flow's
  end (\<open>readClient\<close>, \<open>writeClient\<close>) each port is a queue of bytes.
\<close>

section \<open>The client's end\<close>

text \<open>The bytes \<open>x\<close> of a request that was found to fit.\<close>

definition port_receive :: "bytes \<Rightarrow> component \<Rightarrow> component option" where
  "port_receive x c =
     (if x = [] then Some c
      else do { let num = (word_of_nat (length x) :: u32);
                let d = c_write c;
                let n = unat (aumin (to_end (c_data c) d) num);
                b \<leftarrow> store (take n x) d (c_data c);
                b \<leftarrow> (if n \<noteq> length x then store (drop n x) 0 b else Some b);
                let d = d + length x;
                let d = (if length (c_data c) \<le> d then d - unat (c_dataSize c) else d);
                Some (c\<lparr>c_data := b, c_write := d, c_currentSize := c_currentSize c + num, c_incoming := c_incoming c - num\<rparr>) })"

text \<open>
  The blocks handed to \<^verbatim>\<open>WriteToClient\<close>, which pads each of them to a multiple of four bytes: so every block but the
  last must be one. \<^verbatim>\<open>numBytes\<close> is unsigned, and a block that is not in the port's data is \<open>None\<close>.
\<close>

definition port_send :: "u32 \<Rightarrow> component \<Rightarrow> (bytes list \<times> component) option" where
  "port_send num_bytes c =
     do { let totalBytes = min num_bytes (c_currentSize c);
          let p = c_read c;
          (out, numBytes, p) \<leftarrow>
            (if length (c_data c) < p + unat totalBytes then
               do { let bytesLeft = (word_of_int (to_end (c_data c) p) :: u32);
                    (if bytesLeft AND 3 \<noteq> 0 then
                       do { let n = bytesLeft AND NOT 3;
                            x \<leftarrow> load (c_data c) p (unat n);
                            let numBytes = totalBytes - n;
                            let bytesLeft = bytesLeft AND 3;
                            y \<leftarrow> load (c_data c) (p + unat n) (unat bytesLeft);
                            let n = (if 4 - bytesLeft < numBytes then 4 - bytesLeft else numBytes);
                            z \<leftarrow> load (c_data c) 0 (unat n);
                            Some ([x, y @ z], numBytes - (bytesLeft + n), unat n) }
                     else do { x \<leftarrow> load (c_data c) p (unat bytesLeft);
                               Some ([x], totalBytes - bytesLeft, 0) }) }
             else Some ([], totalBytes, p));
          out \<leftarrow> (if numBytes = 0 then Some out
                 else do { x \<leftarrow> load (c_data c) p (unat numBytes); Some (out @ [x]) });
          let p = p + unat numBytes;
          let p = (if length (c_data c) \<le> p then p - unat (c_dataSize c) else p);
          Some (out, c\<lparr>c_outgoing := c_outgoing c - totalBytes, c_currentSize := c_currentSize c - totalBytes, c_read := p\<rparr>) }"

section \<open>The invariant of a port\<close>

text \<open>Frames have \<open>2 ^ k\<close> bytes.\<close>

definition port_inv :: "nat \<Rightarrow> component \<Rightarrow> bool" where
  "port_inv k c \<longleftrightarrow> k < 31 \<and> c_bytesPerSample c = 2 ^ k \<and> length (c_data c) = unat (c_dataSize c) \<and>
     unat (c_dataSize c) < 2 ^ 31 \<and> c_read c < unat (c_dataSize c) \<and>
     unat (c_currentSize c) \<le> unat (c_dataSize c) \<and> 2 ^ k dvd unat (c_currentSize c) \<and>
     c_write c = (c_read c + unat (c_currentSize c)) mod unat (c_dataSize c)"

definition port_bytes :: "component \<Rightarrow> bytes" where
  "port_bytes c = ring (c_data c) (c_read c) (unat (c_currentSize c))"

definition port_room :: "component \<Rightarrow> nat" where
  "port_room c = unat (c_dataSize c - c_currentSize c)"

lemma port_room: "port_inv k c \<Longrightarrow> port_room c = length (c_data c) - unat (c_currentSize c)"
  by (simp add: port_inv_def port_room_def unat_sub_if')

lemma length_port_bytes: "port_inv k c \<Longrightarrow> length (port_bytes c) = unat (c_currentSize c)"
  by (simp add: port_inv_def port_bytes_def)

lemma small_u32:
  assumes "m < 2 ^ 31"
  shows "unat (word_of_nat m :: u32) = m" "sint (word_of_nat m :: u32) = int m"
proof -
  show 1: "unat (word_of_nat m :: u32) = m" using assms by (simp add: unat_of_nat)
  have "uint (word_of_nat m :: u32) = int m" unfolding uint_nat 1 by (rule refl)
  then show "sint (word_of_nat m :: u32) = int m"
    using assms by (simp add: sint_uint signed_take_bit_eq_if_positive bit_iff_odd take_bit_int_eq_self)
qed

lemma sint_small: "unat (w :: u32) < 2 ^ 31 \<Longrightarrow> sint w = int (unat w)"
  using small_u32(2) [of "unat w"] by simp

lemma aumin_to_end:
  assumes "s \<le> length b"
  shows "aumin (to_end b s) n = word_of_nat (min (length b - s) (unat n))"
proof -
  have "min (to_end b s) (uint n) = int (min (length b - s) (unat n))"
    using assms by (simp add: to_end_def uint_nat of_nat_min of_nat_diff del: of_nat_unat)
  then show ?thesis by (simp only: aumin_def of_int_of_nat_eq)
qed

text \<open>Without conversion the rate converter copies.\<close>

lemma rateConvert_RcNull:
  assumes "unat want < 2 ^ 31" "unat avail < 2 ^ 31" "min (unat want) (unat avail) \<le> length src"
  shows "rateConvert RcNull el c src want avail =
    Some (take (min (unat want) (unat avail)) src, min (unat want) (unat avail), el)"
proof -
  have "min (sint want) (sint avail) = int (min (unat want) (unat avail))"
    using assms by (simp add: sint_small of_nat_min del: of_nat_unat)
  with assms(3) show ?thesis by (simp add: rateConvert_def rcNull_def load_def)
qed

section \<open>The flow's end, without rate conversion\<close>

lemma port_inv_simps:
  assumes "port_inv k c"
  shows "c_currentSize c AND NOT (c_bytesPerSample c - 1) = c_currentSize c"
    and "length (c_data c) < 2 ^ 31" and "unat (c_currentSize c) \<le> length (c_data c)" and "c_read c < length (c_data c)"
    and "unat (c_dataSize c) = length (c_data c)" and "0 < length (c_data c)"
    and "c_write c = (c_read c + unat (c_currentSize c)) mod length (c_data c)"
proof -
  have "c_bytesPerSample c = 2 ^ k" "2 ^ k dvd unat (c_currentSize c)" using assms by (simp_all add: port_inv_def)
  then show "c_currentSize c AND NOT (c_bytesPerSample c - 1) = c_currentSize c"
    by (simp add: mask_down_eq)
qed (use assms in \<open>auto simp: port_inv_def\<close>)

lemma mod_once: "r < L \<Longrightarrow> m \<le> L \<Longrightarrow> (r + m) mod L = (if r + m < L then r + m else r + m - L)" for r m L :: nat
  by (subst mod_if) (auto simp: mod_less)

text \<open>Reading takes the oldest bytes, and as many as are asked for if there are so many.\<close>

lemma port_read_RcNull:
  assumes I: "port_inv k c" and n: "unat (e_minibufChunk el) < 2 ^ 31" "unat (e_minibufChunk el) \<le> length mb"
    and m: "m = min (unat (e_minibufChunk el)) (unat (c_currentSize c))"
  shows "port_read RcNull el c mb =
    Some (el, c\<lparr>c_read := (c_read c + m) mod length (c_data c), c_currentSize := c_currentSize c - word_of_nat m\<rparr>,
      blit (ring (c_data c) (c_read c) m) 0 mb, word_of_nat m, c_currentSize c, c_currentSize c - word_of_nat m)"
proof -
  let ?d = "c_data c" and ?r = "c_read c" and ?cur = "unat (c_currentSize c)" and ?want = "unat (e_minibufChunk el)"
  let ?L = "length ?d"
  note s = port_inv_simps [OF I]
  define P where "P = min (?L - ?r) ?cur"
  define n1 where "n1 = min ?want P"
  have P31: "P < 2 ^ 31" and n31: "n1 < 2 ^ 31" and m31: "m < 2 ^ 31"
    using s n m by (auto simp: P_def n1_def min_def)
  have pass1: "aumin (to_end ?d ?r) (c_currentSize c) = word_of_nat P"
    using s by (simp add: aumin_to_end P_def)
  define x where "x = take n1 (drop ?r ?d)"
  have c1: "rateConvert RcNull el c (drop ?r ?d) (e_minibufChunk el) (word_of_nat P) = Some (x, n1, el)"
  proof -
    have "min ?want P \<le> length (drop ?r ?d)" unfolding P_def by auto
    then show ?thesis
      using rateConvert_RcNull [of "e_minibufChunk el" "word_of_nat P" "drop ?r ?d" el c] n P31
      by (simp add: small_u32(1) [OF P31] x_def flip: n1_def)
  qed
  have l1: "length x = n1" unfolding n1_def P_def x_def by auto
  have mb1: "store x 0 mb = Some (blit x 0 mb)"
    using l1 n by (simp add: store_def n1_def)
  have un1: "unat (word_of_nat n1 :: u32) = n1" using small_u32(1) [OF n31] .
  have uP: "unat (word_of_nat P :: u32) = P" using small_u32(1) [OF P31] .
  have umin: "unat (min (c_currentSize c) (e_minibufChunk el)) = m"
    using m by (auto simp: min_def word_le_nat_alt)
  have src: "drop_from ?r ?d = Some (drop ?r ?d)" using s by (simp add: drop_from_def)
  show ?thesis
  proof (cases "n1 < m \<and> P < ?cur")
    case False
    then have "m \<le> n1 \<or> ?cur \<le> P" by linarith
    then have nm: "n1 = m" using n1_def P_def m by (elim disjE; linarith)
    have le: "?r + m \<le> ?L" using nm s by (simp add: n1_def P_def)
    have mL: "m \<le> ?L" using le by simp
    have data: "ring ?d ?r m = x" using le nm by (simp add: ring_straight x_def)
    have no: "\<not> ((word_of_nat n1 :: u32) < min (c_currentSize c) (e_minibufChunk el) \<and> (word_of_nat P :: u32) < c_currentSize c)"
      using un1 unfolding word_less_nat_alt umin nm by simp
    have "(if ?r + n1 = ?L then 0 else ?r + n1) = (?r + m) mod ?L"
      using le nm mod_once [OF s(4) mL] by auto
    then show ?thesis
      unfolding port_read_def s(1) Let_def pass1
      using no by (simp only: src c1 mb1 l1 bind.bind_lunit prod.case if_False nm data)
  next
    case True
    with n1_def P_def m have P: "P = ?L - ?r" and n1: "n1 = ?L - ?r" by linarith+
    have w0: "?r + n1 = ?L" using n1 s by simp
    define n2 where "n2 = m - n1"
    define y where "y = take n2 ?d"
    have m_le: "m \<le> ?cur" "m \<le> ?want" using m by auto
    have n2: "n2 \<le> ?r" using s m_le n1 by (simp add: n2_def)
    have ucur: "unat (c_currentSize c - word_of_nat n1) = ?cur - n1" "unat (e_minibufChunk el - word_of_nat n1) = ?want - n1"
      using True m_le un1 by (simp_all add: unat_sub_if')
    have pass2: "aumin (to_end ?d 0) (c_currentSize c - word_of_nat n1) = word_of_nat (?cur - n1)"
    proof -
      have "min ?L (?cur - n1) = ?cur - n1" using s(3) by linarith
      then show ?thesis by (simp add: aumin_to_end ucur)
    qed
    have p31: "?cur - n1 < 2 ^ 31" using s by simp
    have min2: "min (?want - n1) (?cur - n1) = n2" unfolding n2_def m by auto
    have c2: "rateConvert RcNull el c ?d (e_minibufChunk el - word_of_nat n1) (word_of_nat (?cur - n1)) = Some (y, n2, el)"
      using rateConvert_RcNull [of "e_minibufChunk el - word_of_nat n1" "word_of_nat (?cur - n1)" ?d el c]
        ucur n small_u32(1) [OF p31] min2 n2 s by (simp add: y_def)
    have l2: "length y = n2" using n2 s by (simp add: y_def)
    have mb2: "store y n1 (blit x 0 mb) = Some (blit (ring ?d ?r m) 0 mb)"
    proof -
      have "?L \<le> ?r + m" "m \<le> ?L" "?r \<le> ?L" "?r + m - ?L = n2" using s m_le n1 n2_def True by linarith+
      then have r: "ring ?d ?r m = x @ y" using ring_wrap [of ?r ?d m] by (simp add: x_def y_def n1)
      have le: "0 + length x + length y \<le> length mb"
        using l1 l2 n m_le True by (simp add: n2_def)
      show ?thesis using blit_blit_adjacent [OF le] l1 l2 le by (simp add: r store_def length_blit)
    qed
    have yes: "(word_of_nat n1 :: u32) < min (c_currentSize c) (e_minibufChunk el) \<and> (word_of_nat P :: u32) < c_currentSize c"
      using True by (simp add: word_less_nat_alt umin un1 uP)
    have "n1 + n2 = m" using True by (simp add: n2_def)
    then have sum: "word_of_nat n1 + word_of_nat n2 = (word_of_nat m :: u32)" by (simp flip: of_nat_add)
    have "?L \<le> ?r + m" "m \<le> ?L" "?r + m - ?L = n2" using s m_le n1 n2_def True by linarith+
    then have off: "0 + n2 = (?r + m) mod ?L" using mod_once [OF s(4), of m] by simp
    have src0: "drop_from 0 ?d = Some ?d" by (simp add: drop_from_def)
    show ?thesis
      unfolding port_read_def s(1) Let_def pass1
      by (simp only: src c1 mb1 l1 l2 bind.bind_lunit prod.case yes w0 if_True pass2 src0 c2 mb2 sum off simp_thms)
  qed
qed

text \<open>What a port becomes when bytes are appended and when bytes are dropped at the front.\<close>

lemma port_append:
  assumes I: "port_inv k c" and x: "2 ^ k dvd length x" "length x \<le> port_room c"
    and c': "c' = c\<lparr>c_data := ring_put x (c_write c) (c_data c), c_write := (c_write c + length x) mod length (c_data c),
      c_currentSize := c_currentSize c + word_of_nat (length x), c_incoming := i\<rparr>"
  shows "port_inv k c' \<and> port_bytes c' = port_bytes c @ x \<and> port_room c' + length x = port_room c"
proof -
  let ?L = "length (c_data c)" and ?cur = "unat (c_currentSize c)"
  note s = port_inv_simps [OF I]
  have fit: "?cur + length x \<le> ?L" using x s port_room [OF I] by simp
  have w: "c_write c < ?L" using s by simp
  have cur': "unat (c_currentSize c + word_of_nat (length x)) = ?cur + length x"
    using fit s by (simp add: unat_word_ariths unat_of_nat)
  have I': "port_inv k c'"
    using I x fit w cur' by (auto simp: port_inv_def c' mod_simps ac_simps)
  moreover have "port_bytes c' = port_bytes c @ x"
    using ring_put_ring [OF s(4) fit] by (simp add: port_bytes_def c' cur' s(7))
  moreover have "port_room c' + length x = port_room c"
    using port_room [OF I] port_room [OF I'] fit w by (simp add: c' cur')
  ultimately show ?thesis by blast
qed

lemma port_drop:
  assumes I: "port_inv k c" and m: "2 ^ k dvd m" "m \<le> unat (c_currentSize c)"
    and c': "c' = c\<lparr>c_outgoing := o', c_currentSize := c_currentSize c - word_of_nat m, c_read := (c_read c + m) mod length (c_data c)\<rparr>"
  shows "port_inv k c' \<and> port_bytes c' = drop m (port_bytes c) \<and> port_room c' = port_room c + m"
proof -
  let ?L = "length (c_data c)" and ?cur = "unat (c_currentSize c)"
  note s = port_inv_simps [OF I]
  have um: "unat (word_of_nat m :: u32) = m" using m s by (intro small_u32(1)) linarith
  then have cur': "unat (c_currentSize c - word_of_nat m) = ?cur - m"
    using m by (simp add: unat_sub_if')
  have "c_read c + m + (?cur - m) = c_read c + ?cur" using m by simp
  then have "c_write c = ((c_read c + m) mod ?L + (?cur - m)) mod ?L" by (simp only: s(7) mod_add_left_eq)
  then have I': "port_inv k c'"
    using I m s by (auto simp: port_inv_def c' cur')
  moreover have "port_bytes c' = drop m (port_bytes c)"
    using m s by (simp add: port_bytes_def c' cur' drop_ring)
  moreover have "port_room c' = port_room c + m"
    using port_room [OF I] port_room [OF I'] m s by (simp add: c' cur')
  ultimately show ?thesis by blast
qed

text \<open>The two ways of appending: the client's, and the flow's when the mini-buffer fits.\<close>

lemma port_receive_eq:
  assumes I: "port_inv k c" and x: "length x \<le> port_room c"
  shows "port_receive x c = Some (c\<lparr>c_data := ring_put x (c_write c) (c_data c),
    c_write := (c_write c + length x) mod length (c_data c), c_currentSize := c_currentSize c + word_of_nat (length x),
    c_incoming := c_incoming c - word_of_nat (length x)\<rparr>)"
proof (cases "x = []")
  case True
  have w: "c_write c < length (c_data c)" using port_inv_simps [OF I] by simp
  then have "ring_put [] (c_write c) (c_data c) = c_data c" by (simp add: ring_put_def)
  with True w show ?thesis by (simp add: port_receive_def)
next
  case False
  let ?L = "length (c_data c)" and ?d = "c_data c" and ?w = "c_write c"
  note s = port_inv_simps [OF I]
  have w: "?w < ?L" using s by simp
  have xL: "length x \<le> ?L" using x s port_room [OF I] by simp
  then have x31: "length x < 2 ^ 31" using s by simp
  define n where "n = min (?L - ?w) (length x)"
  have n31: "n < 2 ^ 31" using x31 by (simp add: n_def)
  have n: "unat (aumin (to_end ?d ?w) (word_of_nat (length x))) = n"
    using w small_u32(1) [OF x31] small_u32(1) [OF n31] by (simp add: aumin_to_end n_def)
  have tk: "take n x = take (?L - ?w) x" "drop n x = drop (?L - ?w) x" by (simp_all add: n_def min_def)
  have first: "store (take n x) ?w ?d = Some (blit (take (?L - ?w) x) ?w ?d)"
    using w by (simp add: store_def n_def tk flip: tk)
  have len1: "length (blit (take (?L - ?w) x) ?w ?d) = ?L" using w by (intro length_blit_take) simp
  have second: "(if n \<noteq> length x then store (drop n x) 0 (blit (take (?L - ?w) x) ?w ?d)
      else Some (blit (take (?L - ?w) x) ?w ?d)) = Some (ring_put x ?w ?d)"
  proof (cases "n = length x")
    case True
    then have "drop (?L - ?w) x = []" by (simp add: n_def)
    with True show ?thesis by (simp add: ring_put_def)
  next
    case False
    then show ?thesis using xL len1 by (simp add: store_def ring_put_def tk)
  qed
  have off: "(if ?L \<le> ?w + length x then ?w + length x - ?L else ?w + length x) = (?w + length x) mod ?L"
    using mod_once [OF w xL] by auto
  show ?thesis
    unfolding port_receive_def Let_def n using False
    by (simp only: if_False first second bind.bind_lunit off s(5))
qed

text \<open>The sizes in \<open>port_write\<close> without conversion: the first pass, the second, and what they store.\<close>

lemma port_write_RcNull:
  assumes I: "port_inv k c" and n: "unat (e_minibufBytes el) = n" "n < 2 ^ 31" "n \<le> length mb"
    and P: "P = min (length (c_data c) - c_write c) (port_room c)"
  shows "port_write RcNull el c mb =
    (if P < n then
       do { let d = (if c_write c + P = length (c_data c) then 0 else c_write c + P);
            let Q = min (length (c_data c) - d) (n - P);
            let b = blit (take Q (drop P mb)) d (blit (take P mb) (c_write c) (c_data c));
            Some (el, c\<lparr>c_data := b, c_write := d + Q, c_currentSize := c_currentSize c + word_of_nat (P + Q)\<rparr>,
              port_room c < n, c_currentSize c) }
     else Some (el, c\<lparr>c_data := blit (take n mb) (c_write c) (c_data c),
            c_write := (if c_write c + n = length (c_data c) then 0 else c_write c + n),
            c_currentSize := c_currentSize c + word_of_nat n\<rparr>, False, c_currentSize c))"
proof -
  let ?L = "length (c_data c)" and ?w = "c_write c" and ?d = "c_data c" and ?size = "e_minibufBytes el"
  note s = port_inv_simps [OF I]
  have w: "?w < ?L" using s by simp
  have P31: "P < 2 ^ 31" and wP: "?w + P \<le> ?L" using w s(2) P by linarith+
  define free where "free = c_dataSize c - c_currentSize c"
  have free: "unat free = port_room c" by (simp add: free_def port_room_def)
  have pass1: "aumin (to_end ?d ?w) free = word_of_nat P"
    using w by (simp add: aumin_to_end free P)
  have uP: "unat (word_of_nat P :: u32) = P" using small_u32(1) [OF P31] .
  have over: "(free < ?size) = (port_room c < n)" by (simp add: word_less_nat_alt free n)
  have less: "((word_of_nat P :: u32) < ?size) = (P < n)" by (simp add: word_less_nat_alt uP n)
  define n1 where "n1 = min P n"
  define x where "x = take n1 mb"
  have c1: "rateConvert RcNull el c mb (word_of_nat P) ?size = Some (x, n1, el)"
    using rateConvert_RcNull [of "word_of_nat P" ?size mb el c] n P31 by (simp add: uP x_def n1_def)
  have l1: "length x = n1" using n by (simp add: x_def n1_def)
  have b1: "store x ?w ?d = Some (blit x ?w ?d)" using wP by (simp add: store_def l1 n1_def)
  have lb: "length (blit x ?w ?d) = ?L" using wP by (intro length_blit) (simp add: l1 n1_def)
  show ?thesis
  proof (cases "P < n")
    case True
    then have n1: "n1 = P" by (simp add: n1_def)
    define d where "d = (if ?w + P = ?L then 0 else ?w + P)"
    define Q where "Q = min (?L - d) (n - P)"
    define y where "y = take Q (drop P mb)"
    have dL: "d \<le> ?L" using wP by (simp add: d_def)
    have Q31: "Q < 2 ^ 31" using n by (simp add: Q_def)
    have uQ: "unat (word_of_nat Q :: u32) = Q" using small_u32(1) [OF Q31] .
    have usub: "unat (?size - word_of_nat P) = n - P" using True n uP by (simp add: unat_sub_if')
    have pass2: "aumin (to_end (blit x ?w ?d) d) (?size - word_of_nat P) = word_of_nat Q"
      using dL by (simp add: aumin_to_end lb usub Q_def)
    have src: "drop_from P mb = Some (drop P mb)" using True n by (simp add: drop_from_def)
    have "min Q (n - P) = Q" by (simp add: Q_def)
    then have c2: "rateConvert RcNull el c (drop P mb) (word_of_nat Q) (?size - word_of_nat P) = Some (y, Q, el)"
      using rateConvert_RcNull [of "word_of_nat Q" "?size - word_of_nat P" "drop P mb" el c] n Q31
      by (simp add: uQ usub y_def)
    have l2: "length y = Q" using n by (simp add: y_def Q_def)
    have b2: "store y d (blit x ?w ?d) = Some (blit y d (blit x ?w ?d))"
      using dL by (simp add: store_def l2 lb Q_def)
    have d': "(if ?w + P = length (blit x ?w ?d) then 0 else ?w + P) = d"
      by (simp add: d_def lb)
    have xP: "x = take P mb" by (simp add: x_def n1)
    show ?thesis
      unfolding port_write_def Let_def free_def [symmetric] pass1 over less d_def [symmetric] Q_def [symmetric] y_def [symmetric]
      using True
      by (simp only: c1 bind.bind_lunit prod.case b1 d' if_True n1 src pass2 c2 b2 l1 l2 of_nat_add xP [symmetric])
  next
    case False
    then have n1: "n1 = n" and nov: "\<not> port_room c < n" using P by (auto simp: n1_def)
    then have xn: "take n mb = x" by (simp add: x_def)
    show ?thesis
      unfolding port_write_def Let_def free_def [symmetric] pass1 over less
      using False nov by (simp only: if_False c1 bind.bind_lunit prod.case b1 l1 lb n1 xn)
  qed
qed

text \<open>A mini-buffer that fits is appended.\<close>

lemma port_write_fits:
  assumes I: "port_inv k c" and n: "unat (e_minibufBytes el) = n" "n < 2 ^ 31" "n \<le> length mb" "n \<le> port_room c"
  shows "port_write RcNull el c mb = Some (el, c\<lparr>c_data := ring_put (take n mb) (c_write c) (c_data c),
    c_write := (c_write c + n) mod length (c_data c), c_currentSize := c_currentSize c + word_of_nat n\<rparr>, False, c_currentSize c)"
proof -
  let ?L = "length (c_data c)" and ?w = "c_write c"
  note s = port_inv_simps [OF I]
  define P where "P = min (?L - ?w) (port_room c)"
  have w: "?w < ?L" using s by simp
  have nL: "n \<le> ?L" using n port_room [OF I] by simp
  note eq = port_write_RcNull [OF I n(1-3) P_def]
  show ?thesis
  proof (cases "P < n")
    case False
    then have "?w + n \<le> ?L" using w by (simp add: P_def)
    then have "(if ?w + n = ?L then 0 else ?w + n) = (?w + n) mod ?L"
        and "take (?L - ?w) (take n mb) = take n mb" "drop (?L - ?w) (take n mb) = []"
      using w mod_once [OF w nL] by auto
    moreover have "length (blit (take n mb) ?w (c_data c)) = ?L"
      using \<open>?w + n \<le> ?L\<close> by (intro length_blit) simp
    ultimately show ?thesis using eq False by (simp add: ring_put_def)
  next
    case True
    then have PL: "P = ?L - ?w" using n P_def by linarith
    then have "?w + P = ?L" using w by simp
    moreover have "min (?L - 0) (n - P) = n - P" using nL by simp
    moreover have "0 + (n - P) = (?w + n) mod ?L"
    proof -
      have "\<not> ?w + n < ?L" "0 + (n - P) = ?w + n - ?L" using w True PL by linarith+
      then show ?thesis using mod_once [OF w nL] by simp
    qed
    moreover have "ring_put (take n mb) ?w (c_data c) = blit (take (n - P) (drop P mb)) 0 (blit (take P mb) ?w (c_data c))"
      using True by (simp add: ring_put_def PL [symmetric] drop_take min_def)
    moreover have "\<not> port_room c < n" "P + (n - P) = n" using n True by auto
    ultimately show ?thesis using eq True by (simp add: Let_def del: of_nat_add)
  qed
qed

text \<open>One that does not fit makes the port fuller than it is large.\<close>

lemma port_write_overruns:
  assumes I: "port_inv k c" and n: "unat (e_minibufBytes el) = n" "n < 2 ^ 31" "n \<le> length mb" "port_room c < n"
  shows "\<exists>c'. port_write RcNull el c mb = Some (el, c', True, c_currentSize c) \<and> c_dataSize c' < c_currentSize c' \<and>
    c_dataSize c' = c_dataSize c"
proof -
  let ?L = "length (c_data c)" and ?w = "c_write c" and ?cur = "unat (c_currentSize c)"
  note s = port_inv_simps [OF I]
  define P where "P = min (?L - ?w) (port_room c)"
  define d where "d = (if ?w + P = ?L then 0 else ?w + P)"
  define Q where "Q = min (?L - d) (n - P)"
  have w: "?w < ?L" using s by simp
  have R: "port_room c = ?L - ?cur" using port_room [OF I] .
  have Pn: "P < n" using n P_def by linarith
  have "port_room c < P + Q"
  proof (cases "?w + P = ?L")
    case True
    then have "0 < P" "d = 0" using w by (auto simp: d_def)
    moreover have "?L \<le> n - P \<longrightarrow> Q = ?L" "\<not> ?L \<le> n - P \<longrightarrow> Q = n - P" using \<open>d = 0\<close> Q_def by auto
    ultimately show ?thesis using Pn n R s(6) by linarith
  next
    case False
    then have "P = port_room c" "?w + P < ?L" "d = ?w + P" using w P_def d_def by (auto simp: min_def split: if_splits)
    then show ?thesis using Pn Q_def by simp
  qed
  moreover have "P + Q \<le> n" using Pn by (simp add: Q_def)
  ultimately have "unat (c_dataSize c) < unat (c_currentSize c + word_of_nat (P + Q))"
    using s R n by (simp add: unat_word_ariths unat_of_nat)
  then show ?thesis
    using port_write_RcNull [OF I n(1-3) P_def] Pn n(4)
    by (simp add: Let_def word_less_nat_alt flip: d_def Q_def)
qed

section \<open>Sending to the client\<close>

lemma and_3: "unat (w AND 3 :: u32) = unat w mod 4"
proof -
  have "(3 :: u32) = mask 2" by (simp add: mask_eq_exp_minus_1)
  then have "w AND 3 = take_bit 2 w" by (simp only: take_bit_eq_mask)
  then show ?thesis by (simp add: take_bit_eq_mod unat_mod)
qed

lemma and_not_diff: "w AND NOT m = w - (w AND m)" for w m :: u32
proof -
  have "w - (w AND m) = w AND NOT (w AND m)"
    by (rule disjunctive_diff) (simp add: bit_and_iff)
  also have "\<dots> = w AND NOT m" by (rule bit_word_eqI) (auto simp: bit_and_iff bit_not_iff bit_or_iff)
  finally show ?thesis by (rule sym)
qed

lemma and_not_3: "unat (w AND NOT 3 :: u32) = unat w - unat w mod 4"
  unfolding and_not_diff by (simp add: unat_sub_if' and_3)

text \<open>The blocks written, when the copy succeeds.\<close>

definition send_result :: "nat \<Rightarrow> component \<Rightarrow> (bytes list \<times> component) option \<Rightarrow> bool" where
  "send_result n c res \<longleftrightarrow> (\<exists>out. res = Some (out, c\<lparr>c_outgoing := c_outgoing c - word_of_nat n,
       c_currentSize := c_currentSize c - word_of_nat n, c_read := (c_read c + n) mod length (c_data c)\<rparr>) \<and>
     concat out = take n (port_bytes c) \<and> (\<forall>x \<in> set (butlast out). 4 dvd length x))"

lemma port_send_straight:
  assumes I: "port_inv k c" and n: "n = min (unat num) (unat (c_currentSize c))"
    and straight: "c_read c + n \<le> length (c_data c)"
  shows "send_result n c (port_send num c)"
proof -
  let ?L = "length (c_data c)"
  note s = port_inv_simps [OF I]
  have un: "unat (min num (c_currentSize c)) = n" using n by (auto simp: min_def word_le_nat_alt)
  have wn: "word_of_nat n = min num (c_currentSize c)" using un by auto
  have nL: "n \<le> ?L" and nc: "n \<le> unat (c_currentSize c)" using straight n by auto
  have off: "(if ?L \<le> c_read c + n then c_read c + n - ?L else c_read c + n) = (c_read c + n) mod ?L"
    using mod_once [OF s(4) nL] by auto
  have data: "take n (port_bytes c) = take n (drop (c_read c) (c_data c))"
    using straight nc by (simp add: port_bytes_def take_ring ring_straight)
  have "port_send num c = Some (if n = 0 then [] else [take n (drop (c_read c) (c_data c))],
      c\<lparr>c_outgoing := c_outgoing c - word_of_nat n, c_currentSize := c_currentSize c - word_of_nat n,
        c_read := (c_read c + n) mod ?L\<rparr>)"
    unfolding port_send_def Let_def un wn [symmetric]
    using straight off s(4) by (auto simp: load_def un [symmetric] wn s(5) unat_eq_0)
  then show ?thesis by (auto simp: send_result_def data)
qed

lemma word_le_zero: "unat (w :: u32) = 0 \<longleftrightarrow> w = 0"
  by (simp add: unat_eq_0)

text \<open>The numbers of the wrapping case: \<open>B\<close> bytes up to the end, \<open>a\<close> of them in whole words, \<open>b\<close> over.\<close>

lemma port_send_wrap:
  assumes I: "port_inv k c" and n: "n = min (unat num) (unat (c_currentSize c))"
    and wrap: "length (c_data c) < c_read c + n"
    and B: "B = length (c_data c) - c_read c" "b = B mod 4" "a = B - b"
  shows "(b = 0 \<or> 4 \<le> n - a \<longrightarrow> send_result n c (port_send num c)) \<and>
    (b \<noteq> 0 \<and> n - a < 4 \<longrightarrow> port_send num c = None)"
proof -
  let ?L = "length (c_data c)" and ?d = "c_data c" and ?r = "c_read c"
  note s = port_inv_simps [OF I]
  have un: "unat (min num (c_currentSize c)) = n" using n by (auto simp: min_def word_le_nat_alt)
  define T where "T = min num (c_currentSize c)"
  have T: "unat T = n" "word_of_nat n = T" using un by (auto simp: T_def)
  have nc: "n \<le> unat (c_currentSize c)" and nL: "n \<le> ?L" using n s by auto
  have Bn: "B < n" "B \<le> ?L" using wrap B s by auto
  have B31: "B < 2 ^ 31" using Bn s by simp
  define bl where "bl = (word_of_int (to_end ?d ?r) :: u32)"
  have bl_nat: "bl = word_of_nat B" using s B by (simp add: bl_def to_end_def flip: of_nat_diff)
  have bl: "unat bl = B" using small_u32(1) [OF B31] by (simp add: bl_nat)
  define M where "M = bl AND 3"
  define A where "A = bl AND NOT 3"
  have b3: "unat M = b" "unat A = a" unfolding M_def A_def and_3 and_not_3 bl B by (rule refl)+
  have bz: "(M \<noteq> 0) = (b \<noteq> 0)" using b3 by (simp flip: word_le_zero)
  have ab: "a + b = B" "b < 4" unfolding B(2,3) by simp_all
  have geo: "?r + a + b = ?L" using ab(1) B(1) s(4) by linarith
  have wr: "(?L < ?r + unat T) = True" using wrap T by simp
  have rest: "n - B = ?r + n - ?L" "n - B < ?L" using B s wrap nL by auto
  have data: "take n (port_bytes c) = drop ?r ?d @ take (n - B) ?d"
    using wrap nc nL s(4) rest(1) by (simp add: port_bytes_def take_ring ring_wrap)
  have newp: "(?r + n) mod ?L = n - B" using mod_once [OF s(4) nL] wrap rest by simp
  show ?thesis
  proof (intro conjI impI)
    assume ok: "b = 0 \<or> 4 \<le> n - a"
    show "send_result n c (port_send num c)"
    proof (cases "b = 0")
      case True
      have u: "unat (T - bl) = n - B" using T bl Bn by (simp add: unat_sub_if')
      then have nz: "T - bl \<noteq> 0" using Bn by (metis diff_is_0_eq leD unat_0)
      have l1: "load ?d ?r B = Some (drop ?r ?d)" using B s by (simp add: load_def)
      have l2: "load ?d 0 (n - B) = Some (take (n - B) ?d)" using rest by (simp add: load_def)
      have p: "(if ?L \<le> 0 + (n - B) then 0 + (n - B) - unat (c_dataSize c) else 0 + (n - B)) = (?r + n) mod ?L"
        using rest newp by simp
      have "port_send num c = Some ([drop ?r ?d, take (n - B) ?d],
          c\<lparr>c_outgoing := c_outgoing c - T, c_currentSize := c_currentSize c - T, c_read := (?r + n) mod ?L\<rparr>)"
        unfolding port_send_def Let_def T_def [symmetric] wr bl_def [symmetric] M_def [symmetric] A_def [symmetric] bz
        using True nz by (simp only: if_True if_False simp_thms bl u l1 l2 bind.bind_lunit prod.case p append.simps)
      moreover have "4 dvd B" using True B by (simp add: mod_eq_0_iff_dvd)
      ultimately show ?thesis using B by (simp add: send_result_def data T(2))
    next
      case False
      then have four: "4 \<le> n - a" using ok by simp
      have uT: "unat (T - A) = n - a" using T b3 four by (simp add: unat_sub_if')
      have u4: "unat (4 - M) = 4 - b" using b3 ab by (simp add: unat_sub_if')
      have lt: "(4 - M < T - A) = True"
        using four False ab by (simp add: word_less_nat_alt uT u4)
      have s4: "unat (M + (4 - M)) = 4" by simp
      have u: "unat (T - A - (M + (4 - M))) = n - a - 4"
      proof -
        have "4 \<le> T - A" using four by (simp add: word_le_nat_alt uT)
        from unat_sub [OF this] show ?thesis by (simp add: uT)
      qed
      have l1: "load ?d ?r a = Some (take a (drop ?r ?d))" using geo by (simp add: load_def)
      have l2: "load ?d (?r + a) b = Some (drop (?r + a) ?d)" using geo by (auto simp: load_def)
      have l3: "load ?d 0 (4 - b) = Some (take (4 - b) ?d)" using rest four ab by (simp add: load_def)
      have l4: "load ?d (4 - b) (n - a - 4) = Some (take (n - a - 4) (drop (4 - b) ?d))"
        using rest four ab by (simp add: load_def)
      have pp: "4 - b + (n - a - 4) = n - B" using four ab by linarith
      have p: "(if ?L \<le> 4 - b + (n - a - 4) then 4 - b + (n - a - 4) - unat (c_dataSize c) else 4 - b + (n - a - 4)) = (?r + n) mod ?L"
        using rest newp pp by simp
      define out where "out = [take a (drop ?r ?d), drop (?r + a) ?d @ take (4 - b) ?d]"
      define out' where "out' = (if n - a - 4 = 0 then out else out @ [take (n - a - 4) (drop (4 - b) ?d)])"
      have tail: "take (4 - b) ?d @ take (n - a - 4) (drop (4 - b) ?d) = take (n - B) ?d"
        using pp by (metis take_add)
      have len: "length (take a (drop ?r ?d)) = a" "length (drop (?r + a) ?d) = b" using geo by auto
      have out: "concat out' = drop ?r ?d @ take (n - B) ?d"
      proof -
        have "take a (drop ?r ?d) @ drop (?r + a) ?d = drop ?r ?d"
          by (metis append_take_drop_id drop_drop add.commute)
        then have "concat out @ take (n - a - 4) (drop (4 - b) ?d) = drop ?r ?d @ take (n - B) ?d"
          using tail by (simp add: out_def)
        then show ?thesis by (cases "n - a - 4 = 0") (simp_all add: out'_def)
      qed
      have "4 dvd a" using B by (metis dvd_minus_mod)
      then have al: "\<forall>x \<in> set (butlast out'). 4 dvd length x"
        using len rest four ab by (auto simp: out'_def out_def butlast_append)
      have zero: "(T - A - (M + (4 - M)) = 0) = (n - a - 4 = 0)"
        using u by (metis word_le_zero)
      have step: "(if T - A - (M + (4 - M)) = 0 then Some out
          else load ?d (4 - b) (n - a - 4) \<bind> (\<lambda>x. Some (out @ [x]))) = Some out'"
        unfolding zero l4 by (simp add: out'_def)
      have "port_send num c = Some (out',
          c\<lparr>c_outgoing := c_outgoing c - T, c_currentSize := c_currentSize c - T, c_read := (?r + n) mod ?L\<rparr>)"
        unfolding port_send_def Let_def T_def [symmetric] wr bl_def [symmetric] M_def [symmetric] A_def [symmetric] bz
        using False by (simp only: if_True if_False simp_thms b3 l1 l2 lt u4 l3 bind.bind_lunit prod.case u
            out_def [symmetric] step p)
      then show ?thesis using out al by (simp add: send_result_def data T(2))
    qed
  next
    assume bad: "b \<noteq> 0 \<and> n - a < 4"
    let ?n2 = "if 4 - M < T - A then 4 - M else T - A"
    have uT: "unat (T - A) = n - a" using T b3 Bn ab by (simp add: unat_sub_if')
    have u4: "unat (4 - M) = 4 - b" using b3 ab by (simp add: unat_sub_if')
    have n2: "unat ?n2 < 4" "n - a < b + unat ?n2" using bad ab Bn by (auto simp: word_less_nat_alt uT u4)
    have sum: "unat (M + ?n2) = b + unat ?n2"
      using n2(1) ab b3 by (subst unat_word_ariths) simp
    have big: "2 ^ 31 \<le> unat (T - A - (M + ?n2))"
      using n2 bad sum uT ab by (subst unat_sub_if') (auto simp: word_le_nat_alt)
    have nz: "T - A - (M + ?n2) \<noteq> 0"
    proof
      assume "T - A - (M + ?n2) = 0"
      then show False using big by (simp only: unat_0) simp
    qed
    have none: "load ?d p (unat (T - A - (M + ?n2))) = None" for p
      using big s by (auto simp: load_def)
    have l1: "load ?d ?r a = Some (take a (drop ?r ?d))" using geo by (simp add: load_def)
    have l2: "load ?d (?r + a) b = Some (drop (?r + a) ?d)" using geo by (auto simp: load_def)
    show "port_send num c = None"
      unfolding port_send_def Let_def T_def [symmetric] wr bl_def [symmetric] M_def [symmetric] A_def [symmetric] bz
      using bad nz by (cases "load ?d 0 (unat ?n2)")
        (simp_all only: if_True if_False simp_thms b3 l1 l2 bind.bind_lunit bind.bind_lzero prod.case none)
  qed
qed

section \<open>Ports are queues\<close>

text \<open>
  The two ends of each port, as operations on its component: the client's, guarded as in \<open>ProcAuWriteElement\<close>,
  and the flow's, with a mini-buffer of the size asked for, guarded by the fit that \<open>writeClient\<close> does not check.
\<close>

definition import_put :: "bytes \<Rightarrow> component \<Rightarrow> component option" where
  "import_put x c = (if c_dataSize c - c_currentSize c < word_of_nat (length x) then None else port_receive x c)"

definition import_get :: "nat \<Rightarrow> component \<Rightarrow> (bytes \<times> component) option" where
  "import_get n c =
     do { (_, c, mb, bytesOut, _) \<leftarrow> port_read RcNull (element0\<lparr>e_minibufChunk := word_of_nat n\<rparr>) c (replicate n 0);
          Some (take (unat bytesOut) mb, c) }"

definition export_put :: "bytes \<Rightarrow> component \<Rightarrow> component option" where
  "export_put x c =
     (if port_room c < length x then None
      else do { (_, c, _) \<leftarrow> port_write RcNull (element0\<lparr>e_minibufBytes := word_of_nat (length x)\<rparr>) c x; Some c })"

definition export_get :: "nat \<Rightarrow> component \<Rightarrow> (bytes \<times> component) option" where
  "export_get n c = do { (out, c) \<leftarrow> port_send (word_of_nat n) c; Some (concat out, c) }"

definition export_inv :: "nat \<Rightarrow> component \<Rightarrow> bool" where
  "export_inv k c \<longleftrightarrow> port_inv k c \<and> 4 dvd length (c_data c) \<and> 4 dvd c_read c \<and> 4 dvd unat (c_currentSize c)"

lemma import_get_front:
  assumes I: "port_inv k c" and n: "2 ^ k dvd n" "n < 2 ^ 31"
  shows "\<exists>c'. import_get n c = Some (take n (port_bytes c), c') \<and> port_inv k c' \<and> port_bytes c' = drop n (port_bytes c) \<and>
    port_room c' = port_room c + min n (length (port_bytes c))"
proof -
  let ?cur = "unat (c_currentSize c)"
  note s = port_inv_simps [OF I]
  define m where "m = min n ?cur"
  define c' where "c' = c\<lparr>c_outgoing := c_outgoing c, c_currentSize := c_currentSize c - word_of_nat m,
    c_read := (c_read c + m) mod length (c_data c)\<rparr>"
  have c'_alt: "c\<lparr>c_read := (c_read c + m) mod length (c_data c), c_currentSize := c_currentSize c - word_of_nat m\<rparr> = c'"
    by (cases c) (simp add: c'_def)
  have un: "unat (word_of_nat n :: u32) = n" using small_u32(1) [OF n(2)] .
  have um: "unat (word_of_nat m :: u32) = m" using n by (intro small_u32(1)) (simp add: m_def)
  have dvd: "2 ^ k dvd m" using I n by (auto simp: m_def port_inv_def min_def)
  have mc: "m \<le> ?cur" by (simp add: m_def)
  have "port_read RcNull (element0\<lparr>e_minibufChunk := word_of_nat n\<rparr>) c (replicate n 0) =
      Some (element0\<lparr>e_minibufChunk := word_of_nat n\<rparr>, c', blit (ring (c_data c) (c_read c) m) 0 (replicate n 0), word_of_nat m,
        c_currentSize c, c_currentSize c - word_of_nat m)"
    using port_read_RcNull [OF I, of "element0\<lparr>e_minibufChunk := word_of_nat n\<rparr>" "replicate n 0" m] n un
    by (simp add: m_def [symmetric] c'_alt)
  moreover have "take m (blit (ring (c_data c) (c_read c) m) 0 (replicate n 0)) = take n (port_bytes c)"
    using s mc by (simp add: blit_def port_bytes_def take_ring m_def min_def split: if_splits)
  ultimately have "import_get n c = Some (take n (port_bytes c), c')" by (simp add: import_get_def um)
  moreover have "drop m (port_bytes c) = drop n (port_bytes c)" "min n (length (port_bytes c)) = m"
    using length_port_bytes [OF I] by (simp_all add: m_def min_def)
  ultimately show ?thesis using port_drop [OF I dvd mc c'_def] by auto
qed

lemma import_put_law:
  assumes I: "port_inv k c" and x: "2 ^ k dvd length x" "length x < 2 ^ 31"
  shows "length x \<le> port_room c \<Longrightarrow> \<exists>c'. import_put x c = Some c' \<and> port_inv k c' \<and> port_bytes c' = port_bytes c @ x \<and>
      port_room c' + length x = port_room c"
    and "port_room c < length x \<Longrightarrow> import_put x c = None"
proof -
  have guard: "(c_dataSize c - c_currentSize c < word_of_nat (length x)) = (port_room c < length x)"
    using small_u32(1) [OF x(2)] by (simp add: word_less_nat_alt port_room_def)
  show "port_room c < length x \<Longrightarrow> import_put x c = None" by (simp add: import_put_def guard)
  show "\<exists>c'. import_put x c = Some c' \<and> port_inv k c' \<and> port_bytes c' = port_bytes c @ x \<and>
      port_room c' + length x = port_room c" if "length x \<le> port_room c"
    using port_append [OF I x(1) that refl] port_receive_eq [OF I that] that
    by (simp add: import_put_def guard)
qed

interpretation import_port: byte_fifo "2 ^ k" "2 ^ 31" "port_inv k" port_bytes port_room import_put import_get for k
  by unfold_locales (use import_put_law import_get_front in blast)+

lemma export_put_law:
  assumes I: "export_inv k c" and x: "2 ^ max 2 k dvd length x" "length x < 2 ^ 31" "length x \<le> port_room c"
  shows "\<exists>c'. export_put x c = Some c' \<and> export_inv k c' \<and> port_bytes c' = port_bytes c @ x \<and>
      port_room c' + length x = port_room c"
proof -
  have P: "port_inv k c" using I by (simp add: export_inv_def)
  define c' where "c' = c\<lparr>c_data := ring_put x (c_write c) (c_data c), c_write := (c_write c + length x) mod length (c_data c),
      c_currentSize := c_currentSize c + word_of_nat (length x), c_incoming := c_incoming c\<rparr>"
  have c'_alt: "c\<lparr>c_data := ring_put x (c_write c) (c_data c), c_write := (c_write c + length x) mod length (c_data c),
      c_currentSize := c_currentSize c + word_of_nat (length x)\<rparr> = c'"
    by (cases c) (simp add: c'_def)
  have k: "2 ^ k dvd length x" "4 dvd length x"
    using x(1) le_imp_power_dvd [of k "max 2 k" "2::nat"] le_imp_power_dvd [of 2 "max 2 k" "2::nat"]
    by (auto intro: dvd_trans)
  have app: "port_inv k c' \<and> port_bytes c' = port_bytes c @ x \<and> port_room c' + length x = port_room c"
    using port_append [OF P k(1) x(3) c'_def] .
  then have "unat (c_currentSize c') = unat (c_currentSize c) + length x"
    using length_port_bytes [of k c'] length_port_bytes [OF P] by simp
  moreover have "length (c_data c') = length (c_data c)" "c_read c' = c_read c"
    using x(3) port_room [OF P] port_inv_simps [OF P] by (simp_all add: c'_def)
  ultimately have "export_inv k c'" using I app k by (simp add: export_inv_def)
  moreover have "port_write RcNull (element0\<lparr>e_minibufBytes := word_of_nat (length x)\<rparr>) c x =
      Some (element0\<lparr>e_minibufBytes := word_of_nat (length x)\<rparr>, c', False, c_currentSize c)"
    using port_write_fits [OF P, of "element0\<lparr>e_minibufBytes := word_of_nat (length x)\<rparr>" "length x" x] x small_u32(1) [OF x(2)]
    by (simp add: c'_alt)
  ultimately show ?thesis using app x(3) by (simp add: export_put_def)
qed

lemma export_get_front:
  assumes I: "export_inv k c" and n: "2 ^ max 2 k dvd n" "n < 2 ^ 31"
  shows "\<exists>c'. export_get n c = Some (take n (port_bytes c), c') \<and> export_inv k c' \<and> port_bytes c' = drop n (port_bytes c) \<and>
    port_room c' = port_room c + min n (length (port_bytes c))"
proof -
  have P: "port_inv k c" using I by (simp add: export_inv_def)
  let ?cur = "unat (c_currentSize c)" and ?L = "length (c_data c)"
  note s = port_inv_simps [OF P]
  define m where "m = min n ?cur"
  define c' where "c' = c\<lparr>c_outgoing := c_outgoing c - word_of_nat m, c_currentSize := c_currentSize c - word_of_nat m,
    c_read := (c_read c + m) mod ?L\<rparr>"
  have k: "2 ^ k dvd n" "4 dvd n"
    using n(1) le_imp_power_dvd [of k "max 2 k" "2::nat"] le_imp_power_dvd [of 2 "max 2 k" "2::nat"]
    by (auto intro: dvd_trans)
  have un: "unat (word_of_nat n :: u32) = n" using small_u32(1) [OF n(2)] .
  have m: "m = min (unat (word_of_nat n :: u32)) ?cur" by (simp add: m_def un)
  have dvd: "2 ^ k dvd m" "4 dvd m" using I k by (auto simp: m_def export_inv_def port_inv_def min_def)
  have mc: "m \<le> ?cur" by (simp add: m_def)
  have "send_result m c (port_send (word_of_nat n) c)"
  proof (cases "c_read c + m \<le> ?L")
    case True
    then show ?thesis using port_send_straight [OF P m] by simp
  next
    case False
    moreover have "(?L - c_read c) mod 4 = 0" using I by (simp add: export_inv_def dvd_diff_nat mod_eq_0_iff_dvd)
    ultimately show ?thesis using port_send_wrap [OF P m _ refl refl refl] by simp
  qed
  then have "export_get n c = Some (take m (port_bytes c), c')" by (auto simp: send_result_def export_get_def c'_def)
  moreover have "drop m (port_bytes c) = drop n (port_bytes c)" "take m (port_bytes c) = take n (port_bytes c)"
      "min n (length (port_bytes c)) = m"
    using length_port_bytes [OF P] by (simp_all add: m_def min_def)
  moreover have drop: "port_inv k c' \<and> port_bytes c' = drop m (port_bytes c) \<and> port_room c' = port_room c + m"
    using port_drop [OF P dvd(1) mc c'_def] .
  moreover have "export_inv k c'"
  proof -
    have "unat (c_currentSize c') = ?cur - m"
      using drop length_port_bytes [of k c'] length_port_bytes [OF P] by simp
    moreover have "4 dvd (c_read c + m) mod ?L" using I dvd by (simp add: export_inv_def dvd_mod)
    ultimately show ?thesis using I drop dvd by (simp add: export_inv_def c'_def dvd_diff_nat)
  qed
  ultimately show ?thesis by auto
qed

interpretation export_port: byte_fifo "2 ^ max 2 k" "2 ^ 31" "export_inv k" port_bytes port_room export_put export_get for k
proof
  show "export_put x s = None" if "port_room s < length x" for x s
    using that by (simp add: export_put_def)
qed (use export_put_law export_get_front in blast)+

section \<open>Properties of ports\<close>

definition demo_port :: "nat \<Rightarrow> u32 \<Rightarrow> bytes \<Rightarrow> nat \<Rightarrow> nat \<Rightarrow> u32 \<Rightarrow> component" where
  "demo_port k n d r w cur = component0\<lparr>c_bytesPerSample := 2 ^ k, c_dataSize := n, c_data := d, c_read := r,
     c_write := w, c_currentSize := cur\<rparr>"







text \<open>
  \<open>ProcAuReadElement\<close> sends the oldest bytes, split so that every block but the last is a whole number of words.
  It crashes exactly when the transfer wraps, the bytes up to the end are no whole number of words, and after
  the whole words among them fewer than four bytes remain: then it fills a word with bytes that were not asked
  for, and the number of bytes left becomes negative.
\<close>

theorem read_element_copy:
  assumes "port_inv k c" and n: "n = min (unat num) (unat (c_currentSize c))"
    and "B = length (c_data c) - c_read c"
  shows "(port_send num c = None \<longleftrightarrow> B < n \<and> B mod 4 \<noteq> 0 \<and> n - (B - B mod 4) < 4) \<and>
    (port_send num c \<noteq> None \<longrightarrow> send_result n c (port_send num c))"
proof -
  have B: "(B < n) = (length (c_data c) < c_read c + n)" using port_inv_simps [OF assms(1)] assms(3) by auto
  have "send_result n c None = False" by (simp add: send_result_def)
  then show ?thesis
    using port_send_straight [OF assms(1) n] port_send_wrap [OF assms(1) n _ assms(3) refl refl] B
    by (metis linorder_not_less)
qed

theorem read_element_copy_witness:
  "port_send 3 (demo_port 0 8 [1, 2, 3, 0, 0, 0, 0, 9] 7 3 4) = None"
  using read_element_copy [of 0 "demo_port 0 8 [1, 2, 3, 0, 0, 0, 0, 9] 7 3 4" 3 3 1]
  by (simp add: port_inv_def demo_port_def component0_def)

end
