(* ===== verification/Element_Requests.thy ===== *)
theory Element_Requests
  imports Dispatch Client_Port
begin

text \<open>
  The requests of clients on the elements of flows and the data of their ports (\<^verbatim>\<open>server/dia/audispatch.c\<close>), the requests on
  the connection itself, and the table of all requests (\<^verbatim>\<open>server/dia/autables.c\<close>).
\<close>

section \<open>Elements\<close>

fun raw_elements :: "flow_element list \<Rightarrow> reply list" where
  "raw_elements [] = []"
| "raw_elements (el # els) = ElementData (e_raw el) # raw_elements els"

definition flow_elements :: "flow \<Rightarrow> flow_element list" where
  "flow_elements f = (case f_elements f of None \<Rightarrow> [] | Some els \<Rightarrow> els)"

definition ProcAuGetElements :: handler where
  "ProcAuGetElements env rq d =
     (if \<not> size_match 8 rq then bad_length d
      else do { i \<leftarrow> ld32 (rq_buffer rq) 4;
                v \<leftarrow> lookup (di_auFlowType d) i d;
                (case v of
                   None \<Rightarrow> AU_ERROR AuBadFlow i rq d
                 | Some r \<Rightarrow>
                     do { f \<leftarrow> get_flow r (di_server d);
                          cl \<leftarrow> the_client rq d;
                          let n = word_of_nat (f_numElements f);
                          Some (Returns SuccessCode, write_client rq
                            (GetElementsReply (cl_sequence cl) (units (word_of_nat sizeof_auElement * ucast n + ucast (f_varLen f))) (f_clocked f) (f_flowId f) n #
                             raw_elements (flow_elements f)) d) }) })"

text \<open>A flow is trivial if its two elements move data between a client and a bucket.\<close>

definition is_export_client :: "au_element \<Rightarrow> bool" where
  "is_export_client e = (case e of ExportClient _ _ _ _ _ _ _ _ \<Rightarrow> True | _ \<Rightarrow> False)"

definition trivial_flow :: "flow \<Rightarrow> bool" where
  "trivial_flow f =
     (case map e_raw (flow_elements f) of
        [x, y] \<Rightarrow> (is_import_client x \<and> is_export_bucket y \<or> is_import_client y \<and> is_export_bucket x) \<or>
                 is_import_bucket x \<and> is_export_client y \<or> is_import_bucket y \<and> is_export_client x
      | _ \<Rightarrow> False)"

text \<open>The environments the compiler and the second pass are given.\<close>

definition resource_lookup :: "restype \<Rightarrow> dispatch \<Rightarrow> u32 \<Rightarrow> nat option" where
  "resource_lookup ty d i = (case lookup ty i d of Some v \<Rightarrow> v | None \<Rightarrow> None)"

definition compile_env_of :: "dispatch_env \<Rightarrow> dispatch \<Rightarrow> compile_env" where
  "compile_env_of env d = (de_compile env)\<lparr>v_lookup := resource_lookup (di_auComponentType d) d\<rparr>"

definition element_env_of :: "dispatch_env \<Rightarrow> request \<Rightarrow> nat \<Rightarrow> nat \<Rightarrow> dispatch \<Rightarrow> element_env" where
  "element_env_of env rq flow num d =
     \<lparr>n_lookup = resource_lookup (di_auFlowType d) d, n_action = de_action env, n_element = de_element env,
      n_client = rq_client rq, n_flow = flow, n_numElements = num\<rparr>"

definition link_flow :: "nat \<Rightarrow> server \<Rightarrow> server option" where
  "link_flow r s =
     do { f \<leftarrow> get_flow r s;
          (if f_clocked f then
             do { (h, L) \<leftarrow> AddToLinkedList (sv_auClockedFlows s) r (sv_flow_links s);
                  Some (s\<lparr>sv_auClockedFlows := h, sv_flow_links := L\<rparr>) }
           else
             do { (h, L) \<leftarrow> AddToLinkedList (sv_auUnclockedFlows s) r (sv_flow_links s);
                  Some (s\<lparr>sv_auUnclockedFlows := h, sv_flow_links := L\<rparr>) }) }"

text \<open>From the second pass on: make the elements, link and compile the flow. An error releases what there is of the elements.\<close>

definition install_elements :: "dispatch_env \<Rightarrow> request \<Rightarrow> nat \<Rightarrow> bytes \<Rightarrow> nat \<Rightarrow> dispatch \<Rightarrow> (request_status \<times> dispatch) option" where
  "install_elements env rq r b num d =
     do { els \<leftarrow> make_elements (element_env_of env rq r num d) b [0..<num] 0;
          (case els of
             Inl e \<Rightarrow>
               do { s \<leftarrow> upd_flow r (\<lambda>f. f\<lparr>f_elements := Some (replicate num (de_element env))\<rparr>) (di_server d);
                    s \<leftarrow> AuFreeFlowElements (de_fuel env) r s;
                    return_status e rq (put_server s d) }
           | Inr els \<Rightarrow>
               do { s \<leftarrow> upd_flow r (\<lambda>f. f\<lparr>f_elements := Some els\<rparr>) (di_server d);
                    s \<leftarrow> link_flow r s;
                    (status, s) \<leftarrow> AuCompileFlow (de_fuel env) (compile_env_of env d) r s;
                    s \<leftarrow> (if status = AuSuccess then upd_flow r (\<lambda>f. f\<lparr>f_trivial := trivial_flow f, f_count := 0\<rparr>) s
                          else AuFreeFlowElements (de_fuel env) r s);
                    return_status status rq (put_server s d) }) }"

definition ProcAuSetElements :: handler where
  "ProcAuSetElements env rq d =
     (if \<not> at_least_size 12 rq then bad_length d
      else do { clocked \<leftarrow> ld8 (rq_buffer rq) 1;
                i \<leftarrow> ld32 (rq_buffer rq) 4;
                v \<leftarrow> lookup (di_auFlowType d) i d;
                (case v of
                   None \<Rightarrow> AU_ERROR AuBadFlow i rq d
                 | Some r \<Rightarrow>
                     do { num \<leftarrow> ld32 (rq_buffer rq) 8;
                          let num = unat num;
                          let b = drop 12 (rq_buffer rq);
                          let len = 4 * rq_len rq - 12;
                          m \<leftarrow> measure_elements b len num 0 0 0;
                          (case m of
                             Inl e \<Rightarrow> return_status e rq d
                           | Inr (varLen, numActions) \<Rightarrow>
                               if \<not> length_fits varLen len num then AU_ERROR AuBadLength 0 rq d
                               else do { f \<leftarrow> get_flow r (di_server d);
                                         s \<leftarrow> (if f_elements f \<noteq> None then AuFreeFlowElements (de_fuel env) r (di_server d)
                                               else Some (di_server d));
                                         (case aualloc s of
                                            (False, s) \<Rightarrow> AU_ERROR AuBadAlloc 0 rq (put_server s d)
                                          | (True, s) \<Rightarrow>
                                              do { s \<leftarrow> upd_flow r (\<lambda>f. f\<lparr>f_clocked := clocked \<noteq> 0, f_state := AuStateStop, f_varLen := varLen\<rparr>) s;
                                                   install_elements env rq r (take len b) num (put_server s d) }) }) }) })"

section \<open>States\<close>

text \<open>The checked list of flows, elements and states at \<open>p\<close>, or the error of the first that is not right.\<close>

fun check_states :: "dispatch \<Rightarrow> bytes \<Rightarrow> nat \<Rightarrow> nat \<Rightarrow> (au_status + (nat \<times> u8 \<times> u8) list) option" where
  "check_states d b 0 p = Some (Inr [])"
| "check_states d b (Suc n) p =
     do { i \<leftarrow> ld32 b p; num \<leftarrow> ld8 b (p + 4); st \<leftarrow> ld8 b (p + 5);
          v \<leftarrow> lookup (di_auFlowType d) i d;
          (case v of
             None \<Rightarrow> Some (Inl (AuFailure AuBadFlow (Some i)))
           | Some r \<Rightarrow>
               do { f \<leftarrow> get_flow r (di_server d);
                    (if ucast num \<noteq> AuElementAll \<and> (f_numElements f \<le> unat num \<or> \<not> e_isComponent (flow_elements f ! unat num))
                     then Some (Inl (AuFailure AuBadElement (Some (ucast num))))
                     else map_option (\<lambda>res. map_sum id ((#) (r, num, st)) res) (check_states d b n (p + 8))) }) }"

definition ProcAuSetElementStates :: handler where
  "ProcAuSetElementStates env rq d =
     (if \<not> at_least_size 8 rq then bad_length d
      else do { num \<leftarrow> ld32 (rq_buffer rq) 4;
                (if rq_len rq \<noteq> (8 + unat num * 8) div 4 then AU_ERROR AuBadLength 0 rq d
                 else (case aualloc (di_server d) of
                    (False, s) \<Rightarrow> AU_ERROR AuBadAlloc 0 rq (put_server s d)
                  | (True, s) \<Rightarrow>
                      do { let d = put_server s d;
                           sts \<leftarrow> check_states d (drop 8 (rq_buffer rq)) (unat num) 0;
                           (case sts of
                              Inl e \<Rightarrow> return_status e rq d
                            | Inr sts \<Rightarrow> do { s \<leftarrow> AuProcessStateChanges (de_fuel env) sts (di_server d);
                                             Some (Returns SuccessCode, put_server s d) }) })) })"

definition state_range :: "flow \<Rightarrow> u8 \<Rightarrow> nat list" where
  "state_range f num = (if ucast num = AuElementAll then [0..<f_numElements f] else [unat num])"

text \<open>The states that are asked for, with the flow numbers of the request.\<close>

fun state_data :: "dispatch \<Rightarrow> bytes \<Rightarrow> (nat \<times> u8 \<times> u8) list \<Rightarrow> nat \<Rightarrow> reply list option" where
  "state_data d b [] p = Some []"
| "state_data d b ((r, num, _) # sts) p =
     do { i \<leftarrow> ld32 b p;
          f \<leftarrow> get_flow r (di_server d);
          let xs = map (\<lambda>j. ElementStateData i (word_of_nat j) (e_state (flow_elements f ! j))) (state_range f num);
          ys \<leftarrow> state_data d b sts (p + 8);
          Some (xs @ ys) }"

definition ProcAuGetElementStates :: handler where
  "ProcAuGetElementStates env rq d =
     (if \<not> at_least_size 8 rq then bad_length d
      else do { num \<leftarrow> ld32 (rq_buffer rq) 4;
                (if rq_len rq \<noteq> (8 + unat num * 8) div 4 then AU_ERROR AuBadLength 0 rq d
                 else (case aualloc (di_server d) of
                    (False, s) \<Rightarrow> AU_ERROR AuBadAlloc 0 rq (put_server s d)
                  | (True, s) \<Rightarrow>
                      do { let d = put_server s d;
                           let b = drop 8 (rq_buffer rq);
                           sts \<leftarrow> check_states d b (unat num) 0;
                           (case sts of
                              Inl e \<Rightarrow> return_status e rq d
                            | Inr sts \<Rightarrow>
                                do { xs \<leftarrow> state_data d b sts 0;
                                     cl \<leftarrow> the_client rq d;
                                     let total = word_of_nat (length xs);
                                     Some (Returns SuccessCode, write_client rq
                                       (GetElementStatesReply (cl_sequence cl) (reply_length 8 total 0) total # xs) d) }) })) })"

section \<open>Parameters\<close>

definition set_parameter :: "bytes \<Rightarrow> nat \<Rightarrow> au_element \<Rightarrow> (au_element \<times> bool) option" where
  "set_parameter b p e =
     (case e of
        ImportBucket rate num bucket off as \<Rightarrow> do { v \<leftarrow> ld32 b p; Some (ImportBucket rate num bucket v as, True) }
      | ImportWaveForm rate num wave freq as \<Rightarrow>
          do { v \<leftarrow> ld32 b p; n \<leftarrow> ld32 b (p + 4); Some (ImportWaveForm rate n wave v as, False) }
      | MultiplyConstant input c \<Rightarrow> do { v \<leftarrow> ld32 b p; Some (MultiplyConstant input v, False) }
      | AddConstant input c \<Rightarrow> do { v \<leftarrow> ld32 b p; Some (AddConstant input v, False) }
      | ExportBucket input num bucket off as \<Rightarrow> do { v \<leftarrow> ld32 b p; Some (ExportBucket input num bucket v as, True) }
      | _ \<Rightarrow> Some (e, False))"

text \<open>\<open>len\<close> grows by the parameters where it should shrink: \<^verbatim>\<open>len -= sizeof(auElementParameters) - num_parameters * sizeof(CARD32)\<close>.\<close>

fun set_parameters :: "request \<Rightarrow> bytes \<Rightarrow> nat \<Rightarrow> s32 \<Rightarrow> nat \<Rightarrow> dispatch \<Rightarrow> (au_status \<times> dispatch) option" where
  "set_parameters rq b 0 len p d = Some (AuSuccess, d)"
| "set_parameters rq b (Suc n) len p d =
     (if len = 0 then Some (AuSuccess, d)
      else do { i \<leftarrow> ld32 b p;
                v \<leftarrow> lookup (di_auFlowType d) i d;
                (case v of
                   None \<Rightarrow> Some (AuFailure AuBadFlow (Some i), d)
                 | Some r \<Rightarrow>
                     do { num \<leftarrow> ld8 b (p + 4);
                          f \<leftarrow> get_flow r (di_server d);
                          (if f_numElements f \<le> unat num then Some (AuFailure AuBadElement (Some (ucast num)), d)
                           else do { k \<leftarrow> ld8 b (p + 5);
                                     let len = len - (8 - ucast k * 4);
                                     (if sint len < 0 then Some (AuSuccess, d)
                                      else do { el \<leftarrow> get_el (r, unat num) (di_server d);
                                                (raw, bucket) \<leftarrow> set_parameter b (p + 8) (e_raw el);
                                                let s = put_el (r, unat num) (el\<lparr>e_raw := raw, e_parmsChanged := True\<rparr>) (di_server d);
                                                s \<leftarrow> upd_flow r (\<lambda>f. f\<lparr>f_count := (if bucket then 0 else f_count f), f_needsRecompile := True\<rparr>) s;
                                                set_parameters rq b n len (p + 8 + 4 * unat k) (put_server s d) }) }) }) })"

fun recompile_flows :: "dispatch_env \<Rightarrow> nat list \<Rightarrow> dispatch \<Rightarrow> (au_status \<times> dispatch) option" where
  "recompile_flows env [] d = Some (AuSuccess, d)"
| "recompile_flows env (r # rs) d =
     do { f \<leftarrow> get_flow r (di_server d);
          (if f_needsRecompile f then
             do { (status, s) \<leftarrow> AuCompileFlow (de_fuel env) (compile_env_of env d) r (di_server d);
                  s \<leftarrow> upd_flow r (\<lambda>f. f\<lparr>f_needsRecompile := False\<rparr>) s;
                  (if status = AuSuccess then recompile_flows env rs (put_server s d) else Some (status, put_server s d)) }
           else recompile_flows env rs d) }"

definition ProcAuSetElementParameters :: handler where
  "ProcAuSetElementParameters env rq d =
     (if \<not> at_least_size 8 rq then bad_length d
      else do { num \<leftarrow> ld32 (rq_buffer rq) 4;
                (status, d) \<leftarrow> set_parameters rq (drop 8 (rq_buffer rq)) (unat num) (word_of_nat (4 * rq_len rq - 8)) 0 d;
                (if status \<noteq> AuSuccess then return_status status rq d
                 else do { fs \<leftarrow> chain (sv_flow_links (di_server d)) (sv_auUnclockedFlows (di_server d));
                           (status, d) \<leftarrow> recompile_flows env fs d;
                           (if status \<noteq> AuSuccess then return_status status rq d
                            else do { let d = put_server (AuProcessUnclockedFlows (di_server d)) d;
                                      fs \<leftarrow> chain (sv_flow_links (di_server d)) (sv_auClockedFlows (di_server d));
                                      (status, d) \<leftarrow> recompile_flows env fs d;
                                      (if status \<noteq> AuSuccess then return_status status rq d
                                       else do { s \<leftarrow> AuProcessClockedFlows (di_server d);
                                                 Some (Returns SuccessCode, put_server s d) }) }) }) })"

section \<open>The data of ports\<close>

abbreviation (input) AuTransferStateReady :: u8 where "AuTransferStateReady \<equiv> 0"
abbreviation (input) AuTransferStatePending :: u8 where "AuTransferStatePending \<equiv> 1"
abbreviation (input) AuTransferStateEnd :: u8 where "AuTransferStateEnd \<equiv> 2"

definition AuValidDataTransferState :: "u8 \<Rightarrow> bool" where
  "AuValidDataTransferState st \<longleftrightarrow> st = AuTransferStateReady \<or> st = AuTransferStatePending \<or> st = AuTransferStateEnd"

text \<open>The component and the position in it of the bucket of a trivial flow whose other element is \<open>num\<close>.\<close>

definition trivial_bucket :: "nat \<Rightarrow> u8 \<Rightarrow> server \<Rightarrow> (nat \<times> component \<times> nat) option" where
  "trivial_bucket r num s =
     do { f \<leftarrow> get_flow r s;
          el \<leftarrow> get_el (r, if num \<noteq> 0 then 0 else 1) s;
          k \<leftarrow> e_component el;
          c \<leftarrow> get_comp k s;
          off \<leftarrow> (case e_raw el of ImportBucket _ _ _ off _ \<Rightarrow> Some off | ExportBucket _ _ _ off _ \<Rightarrow> Some off | _ \<Rightarrow> None);
          Some (k, c, unat (off * c_bytesPerSample c) + unat (f_count f)) }"

definition write_trivial :: "request \<Rightarrow> nat \<Rightarrow> u8 \<Rightarrow> u8 \<Rightarrow> u32 \<Rightarrow> dispatch \<Rightarrow> (request_status \<times> dispatch) option" where
  "write_trivial rq r num st n d =
     do { (k, c, p) \<leftarrow> trivial_bucket r num (di_server d);
          (if length (c_data c) < p + unat n then AU_ERROR AuBadValue n rq d
           else do { x \<leftarrow> load (rq_buffer rq) 16 (unat n);
                     b \<leftarrow> store x p (c_data c);
                     s \<leftarrow> upd_flow r (\<lambda>f. f\<lparr>f_count := (if st = AuTransferStateEnd then 0 else f_count f + n)\<rparr>)
                       (put_comp k (c\<lparr>c_data := b\<rparr>) (di_server d));
                     Some (Returns SuccessCode, put_server s d) }) }"

text \<open>Starting a paused port again.\<close>

definition restart_port :: "nat \<Rightarrow> nat \<times> nat \<Rightarrow> server \<Rightarrow> server option" where
  "restart_port fuel p s =
     do { el \<leftarrow> get_el p s;
          (if e_state el = AuStatePause then
             map_option snd (AuChangeElementState fuel (fst p) (word_of_nat (snd p)) AuStateStart True AuReasonUser s)
           else Some s) }"

definition write_port :: "nat \<Rightarrow> request \<Rightarrow> nat \<Rightarrow> u8 \<Rightarrow> u8 \<Rightarrow> u32 \<Rightarrow> dispatch \<Rightarrow> (request_status \<times> dispatch) option" where
  "write_port fuel rq r num st n d =
     do { el \<leftarrow> get_el (r, unat num) (di_server d);
          k \<leftarrow> e_component el;
          c \<leftarrow> get_comp k (di_server d);
          (if c_dataSize c - c_currentSize c < n then AU_ERROR AuBadValue n rq d
           else do { x \<leftarrow> load (rq_buffer rq) 16 (unat n);
                     c \<leftarrow> port_receive x c;
                     let s = put_comp k (if st = AuTransferStateEnd then c\<lparr>c_eof := True, c_incoming := 0\<rparr> else c) (di_server d);
                     s \<leftarrow> (if st \<noteq> AuTransferStatePending \<and> n \<noteq> 0 then restart_port fuel (r, unat num) s else Some s);
                     Some (Returns SuccessCode, put_server s d) }) }"

definition ProcAuWriteElement :: handler where
  "ProcAuWriteElement env rq d =
     (if \<not> at_least_size 16 rq then bad_length d
      else do { num \<leftarrow> ld8 (rq_buffer rq) 1;
                i \<leftarrow> ld32 (rq_buffer rq) 4;
                n \<leftarrow> ld32 (rq_buffer rq) 8;
                st \<leftarrow> ld8 (rq_buffer rq) 12;
                v \<leftarrow> lookup (di_auFlowType d) i d;
                (case v of
                   None \<Rightarrow> AU_ERROR AuBadFlow i rq d
                 | Some r \<Rightarrow>
                     do { f \<leftarrow> get_flow r (di_server d);
                          (if f_numElements f \<le> unat num \<or> \<not> is_import_client (e_raw (flow_elements f ! unat num))
                           then AU_ERROR AuBadElement (ucast num) rq d
                           else if \<not> AuValidDataTransferState st then AU_ERROR AuBadValue (ucast st) rq d
                           else if rq_len rq - 4 \<noteq> unat (drop_bit 2 (PAD4 n)) then AU_ERROR AuBadLength 0 rq d
                           else if f_trivial f then write_trivial rq r num st n d
                           else write_port (de_fuel env) rq r num st n d) }) })"

text \<open>The number of bytes left in the bucket is a signed difference, cut to 32 bits when it is the smaller one.\<close>

definition read_trivial :: "request \<Rightarrow> nat \<Rightarrow> u8 \<Rightarrow> u32 \<Rightarrow> dispatch \<Rightarrow> (request_status \<times> dispatch) option" where
  "read_trivial rq r num n d =
     do { (k, c, p) \<leftarrow> trivial_bucket r num (di_server d);
          cl \<leftarrow> the_client rq d;
          let numBytes = aumin (to_end (c_data c) p) n;
          x \<leftarrow> load (c_data c) p (unat numBytes);
          s \<leftarrow> upd_flow r (\<lambda>f. f\<lparr>f_count := f_count f + numBytes\<rparr>) (di_server d);
          Some (Returns SuccessCode, write_client rq
            [ReadElementReply (cl_sequence cl) (drop_bit 2 (numBytes + 3)) numBytes, Data x] (put_server s d)) }"

definition read_port :: "nat \<Rightarrow> request \<Rightarrow> nat \<Rightarrow> u8 \<Rightarrow> u32 \<Rightarrow> dispatch \<Rightarrow> (request_status \<times> dispatch) option" where
  "read_port fuel rq r num n d =
     do { el \<leftarrow> get_el (r, unat num) (di_server d);
          k \<leftarrow> e_component el;
          c \<leftarrow> get_comp k (di_server d);
          cl \<leftarrow> the_client rq d;
          let numBytes = min n (c_currentSize c);
          (out, c) \<leftarrow> port_send n c;
          s \<leftarrow> restart_port fuel (r, unat num) (put_comp k c (di_server d));
          Some (NoClientException, write_client rq
            (ReadElementReply (cl_sequence cl) (drop_bit 2 (numBytes + 3)) numBytes # map Data out) (put_server s d)) }"

definition ProcAuReadElement :: handler where
  "ProcAuReadElement env rq d =
     (if \<not> size_match 12 rq then bad_length d
      else do { num \<leftarrow> ld8 (rq_buffer rq) 1;
                i \<leftarrow> ld32 (rq_buffer rq) 4;
                n \<leftarrow> ld32 (rq_buffer rq) 8;
                v \<leftarrow> lookup (di_auFlowType d) i d;
                (case v of
                   None \<Rightarrow> AU_ERROR AuBadFlow i rq d
                 | Some r \<Rightarrow>
                     do { f \<leftarrow> get_flow r (di_server d);
                          (if f_numElements f \<le> unat num \<or> \<not> is_export_client (e_raw (flow_elements f ! unat num))
                           then AU_ERROR AuBadElement (ucast num) rq d
                           else if f_trivial f then read_trivial rq r num n d
                           else read_port (de_fuel env) rq r num n d) }) })"

section \<open>The connection\<close>

abbreviation (input) AuCloseDownDestroy :: u8 where "AuCloseDownDestroy \<equiv> 0"
abbreviation (input) AuCloseDownRetainPermanent :: u8 where "AuCloseDownRetainPermanent \<equiv> 1"
abbreviation (input) AuCloseDownRetainTemporary :: u8 where "AuCloseDownRetainTemporary \<equiv> 2"

definition ProcAuGetServerTime :: handler where
  "ProcAuGetServerTime env rq d =
     (if \<not> size_match 4 rq then bad_length d
      else do { cl \<leftarrow> the_client rq d;
                Some (NoClientException, write_client rq [GetServerTimeReply (cl_sequence cl) (de_time env)] d) })"

definition ProcAuGetCloseDownMode :: handler where
  "ProcAuGetCloseDownMode env rq d =
     (if \<not> size_match 4 rq then bad_length d
      else do { cl \<leftarrow> the_client rq d;
                Some (NoClientException, write_client rq [GetCloseDownModeReply (cl_sequence cl) (cl_closeDownMode cl)] d) })"

definition ProcAuSetCloseDownMode :: handler where
  "ProcAuSetCloseDownMode env rq d =
     (if \<not> size_match 4 rq then bad_length d
      else do { m \<leftarrow> ld8 (rq_buffer rq) 1;
                (if m = AuCloseDownDestroy \<or> m = AuCloseDownRetainPermanent \<or> m = AuCloseDownRetainTemporary then
                   do { cl \<leftarrow> the_client rq d;
                        let s = di_server d;
                        Some (NoClientException,
                          put_server (s\<lparr>sv_clients := (sv_clients s)(rq_client rq \<mapsto> cl\<lparr>cl_closeDownMode := m\<rparr>)\<rparr>) d) }
                 else AU_ERROR AuBadValue (ucast m) rq d) })"

definition ProcAuNoOperation :: handler where
  "ProcAuNoOperation env rq d = Some (Returns SuccessCode, d)"

definition ProcAuNotImplemented :: handler where
  "ProcAuNotImplemented env rq d = AU_ERROR AuBadImplementation 0 rq d"

section \<open>Writing to a port\<close>

text \<open>\<open>rq\<close> asks to write \<open>x\<close> to element \<open>num\<close> of the flow with number \<open>i\<close>, and is as long as it says.\<close>

definition asks_to_write :: "request \<Rightarrow> u8 \<Rightarrow> u32 \<Rightarrow> u8 \<Rightarrow> bytes \<Rightarrow> bool" where
  "asks_to_write rq num i st x \<longleftrightarrow> length x + 3 < 2 ^ 32 \<and> rq_len rq = 4 + (length x + 3) div 4 \<and>
     ld8 (rq_buffer rq) 1 = Some num \<and> ld32 (rq_buffer rq) 4 = Some i \<and> ld32 (rq_buffer rq) 8 = Some (word_of_nat (length x)) \<and>
     ld8 (rq_buffer rq) 12 = Some st \<and> AuValidDataTransferState st \<and> load (rq_buffer rq) 16 (length x) = Some x"

text \<open>Element \<open>num\<close> of the flow with number \<open>i\<close>, at \<open>r\<close>, is a client's import, and \<open>c\<close>, at \<open>k\<close>, is its port.\<close>

definition import_port_of :: "dispatch \<Rightarrow> u32 \<Rightarrow> u8 \<Rightarrow> nat \<Rightarrow> nat \<Rightarrow> component \<Rightarrow> bool" where
  "import_port_of d i num r k c \<longleftrightarrow> lookup (di_auFlowType d) i d = Some (Some r) \<and>
     (\<exists>f el. get_flow r (di_server d) = Some f \<and> unat num < f_numElements f \<and> \<not> f_trivial f \<and>
        is_import_client (e_raw (flow_elements f ! unat num)) \<and>
        get_el (r, unat num) (di_server d) = Some el \<and> e_component el = Some k \<and> get_comp k (di_server d) = Some c)"

lemma write_port_reached:
  assumes rq: "asks_to_write rq num i st x" and port: "import_port_of d i num r k c"
  shows "ProcAuWriteElement env rq d = write_port (de_fuel env) rq r num st (word_of_nat (length x)) d"
proof -
  have n: "unat (word_of_nat (length x) :: u32) = length x" using rq by (simp add: asks_to_write_def unat_of_nat)
  have "unat (drop_bit 2 (PAD4 (word_of_nat (length x)))) = (length x + 3) div 4"
    using PAD4_div [of "word_of_nat (length x)"] rq n by (simp add: asks_to_write_def drop_bit_eq_div unat_div)
  then show ?thesis
    using rq port unfolding asks_to_write_def import_port_of_def by (auto simp: ProcAuWriteElement_def at_least_size_def)
qed


definition write_dispatch :: dispatch where
  "write_dispatch = \<lparr>di_server = (server_init 2)\<lparr>
       sv_comps := [7 \<mapsto> demo_port 1 4 [0, 0, 9, 9] 2 0 2],
       sv_flows := [3 \<mapsto> flow0\<lparr>f_elements := Some [element0\<lparr>e_raw := ImportClient 8000 6 1 False 4 0 [], e_component := Some 7\<rparr>]\<rparr>]\<rparr>,
     di_table = \<lparr>rt_clientTable = replicate 2 \<lparr>cr_resources = (replicate INITBUCKETS [])[5 := [\<lparr>rs_id = 0x400005, rs_type = 2, rs_value = Some 3\<rparr>]],
         cr_elements = 1, cr_buckets = INITBUCKETS, cr_hashsize = INITHASHSIZE, cr_fakeID = 0, cr_endFakeID = 0, cr_expectID = 0\<rparr>,
       rt_lastResourceType = 2, rt_lastResourceClass = 0, rt_TypeAuMask = 3, rt_DeleteFuncs = [], rt_exceptions = [], rt_mallocs = []\<rparr>,
     di_auComponentType = 1, di_auFlowType = 2, di_out = []\<rparr>"


end
