(* ===== verification/Client_Frame.thy ===== *)
theory Client_Frame
  imports Element_Requests
begin

text \<open>
  What the requests leave alone. The functions of the server that requests call change components, flows, the event queue and
  the running flow, but neither the records of the clients nor what was delivered to them, nor the settings of the server:
  each has one lemma here, which says that its \<open>surroundings\<close> stay as they are. The lemmas for the requests themselves rest on
  them.
\<close>

section \<open>The surroundings of the server\<close>

definition surroundings :: "server \<Rightarrow> (nat \<rightharpoonup> client) \<times> (nat \<times> u16 \<times> au_event) list \<times> s32 \<times> u32 \<times> u32 \<times> u32 \<times> bool \<times>
    (u32 \<Rightarrow> u32) option \<times> (nat \<Rightarrow> bytes option)" where
  "surroundings s = (sv_clients s, sv_written s, sv_maxOutputGain s, sv_auMinibufSamples s, sv_minSampleRate s, sv_maxSampleRate s,
     sv_auAverageFlows s, sv_setSampleRate s, sv_readPhysicalInputs s)"

lemma surroundings_update [simp]:
  "surroundings (s\<lparr>sv_comps := a\<rparr>) = surroundings s"
  "surroundings (s\<lparr>sv_comp_links := b\<rparr>) = surroundings s"
  "surroundings (s\<lparr>sv_flows := c\<rparr>) = surroundings s"
  "surroundings (s\<lparr>sv_flow_links := b\<rparr>) = surroundings s"
  "surroundings (s\<lparr>sv_next := n\<rparr>) = surroundings s"
  "surroundings (s\<lparr>sv_auDevices := h\<rparr>) = surroundings s"
  "surroundings (s\<lparr>sv_auBuckets := h\<rparr>) = surroundings s"
  "surroundings (s\<lparr>sv_auClockedFlows := h\<rparr>) = surroundings s"
  "surroundings (s\<lparr>sv_auUnclockedFlows := h\<rparr>) = surroundings s"
  "surroundings (s\<lparr>sv_auFlow := f\<rparr>) = surroundings s"
  "surroundings (s\<lparr>sv_readTag := t\<rparr>) = surroundings s"
  "surroundings (s\<lparr>sv_processFlowEnabled := e\<rparr>) = surroundings s"
  "surroundings (s\<lparr>sv_desiredOutputGain := g\<rparr>) = surroundings s"
  "surroundings (s\<lparr>sv_auCurrentSampleRate := r\<rparr>) = surroundings s"
  "surroundings (s\<lparr>sv_events := q\<rparr>) = surroundings s"
  "surroundings (s\<lparr>sv_event_links := b\<rparr>) = surroundings s"
  "surroundings (s\<lparr>sv_AuEventQueue := h\<rparr>) = surroundings s"
  "surroundings (s\<lparr>sv_AuEventQueueTail := h\<rparr>) = surroundings s"
  "surroundings (s\<lparr>sv_calls := k\<rparr>) = surroundings s"
  "surroundings (s\<lparr>sv_mallocs := m\<rparr>) = surroundings s"
  by (simp_all add: surroundings_def)

lemma surroundings_access [simp]:
  "surroundings (put_comp r c s) = surroundings s"
  "surroundings (put_flow r f s) = surroundings s"
  "surroundings (put_el p el s) = surroundings s"
  "surroundings (AuCallback call s) = surroundings s"
  "surroundings (snd (new_comp c s)) = surroundings s"
  "surroundings (snd (new_event q s)) = surroundings s"
  "surroundings (free_event k s) = surroundings s"
  "surroundings (AuProcessUnclockedFlows s) = surroundings s"
  by (simp_all add: put_comp_def put_flow_def put_el_def AuCallback_def new_comp_def new_event_def free_event_def
      AuProcessUnclockedFlows_def split: option.splits)

lemma keeps_update:
  "upd_comp r g s = Some s' \<Longrightarrow> surroundings s' = surroundings s"
  "upd_flow r g' s = Some s' \<Longrightarrow> surroundings s' = surroundings s"
  "upd_el p g'' s = Some s' \<Longrightarrow> surroundings s' = surroundings s"
  "aualloc s = (b, s') \<Longrightarrow> surroundings s' = surroundings s"
  "new_comp c s = (k, s') \<Longrightarrow> surroundings s' = surroundings s"
  "new_event q s = (k, s') \<Longrightarrow> surroundings s' = surroundings s"
  by (auto simp: upd_comp_def upd_flow_def upd_el_def aualloc_def new_comp_def new_event_def split: bind_splits list.splits)

section \<open>Events\<close>

lemma keeps_fillInEvent: "fillInEvent kind reason p s = Some (ev, s') \<Longrightarrow> surroundings s' = surroundings s"
  by (auto simp: fillInEvent_def Let_def split: au_element.splits bind_splits if_splits)

lemma keeps_AddToEventQueue: "AddToEventQueue e s = Some s' \<Longrightarrow> surroundings s' = surroundings s"
  by (auto simp: AddToEventQueue_def split: bind_splits option.splits)

lemma keeps_AuRequestElementNotifyEvent:
  "AuRequestElementNotifyEvent kind reason p s = Some s' \<Longrightarrow> surroundings s' = surroundings s"
  unfolding AuRequestElementNotifyEvent_def Let_def
  by (auto split: prod.splits bool.splits bind_splits if_splits dest!: keeps_update(4,6) keeps_fillInEvent keeps_AddToEventQueue)

lemma keeps_unlink_event: "unlink_event e s = Some s' \<Longrightarrow> surroundings s' = surroundings s"
  by (auto simp: unlink_event_def Let_def split: bind_splits)

lemma keeps_dequeue_loop: "dequeue_loop flow p s = Some s' \<Longrightarrow> surroundings s' = surroundings s"
proof -
  assume "dequeue_loop flow p s = Some s'"
  then show ?thesis
    by (rule dequeue_loop.raw_induct [where P = "\<lambda>flow p s s'. surroundings s' = surroundings s", rotated])
      (auto split: option.splits bind_splits if_splits dest!: keeps_unlink_event)
qed

section \<open>Flows\<close>

lemma keeps_AuFreeComponent: "AuFreeComponent r s = Some s' \<Longrightarrow> surroundings s' = surroundings s"
  by (auto simp: AuFreeComponent_def unlink_comp_def Let_def split: bind_splits if_splits)

lemma keeps_free_inputs: "free_inputs ins s = Some s' \<Longrightarrow> surroundings s' = surroundings s"
  by (induction ins arbitrary: s) (auto simp: Let_def split: bind_splits dest!: keeps_AuFreeComponent)

lemma keeps_free_outputs: "free_outputs b outs s = Some s' \<Longrightarrow> surroundings s' = surroundings s"
  by (induction outs arbitrary: s)
    (auto simp: Let_def split: bind_splits if_splits dest!: keeps_free_inputs keeps_AuFreeComponent)

lemma keeps_freeCompiledFlow: "freeCompiledFlow fl s = Some s' \<Longrightarrow> surroundings s' = surroundings s"
  by (simp add: freeCompiledFlow_def keeps_free_outputs)

lemma keeps_doSetup: "doSetup p rate b s = Some (rc, s') \<Longrightarrow> surroundings s' = surroundings s"
  by (auto simp: doSetup_def Let_def split: bind_splits if_splits)

lemma keeps_setup_inputs: "setup_inputs rate ins s = Some (ins', s') \<Longrightarrow> surroundings s' = surroundings s"
  by (induction ins arbitrary: s ins' s') (fastforce split: bind_splits dest!: keeps_doSetup)+

lemma keeps_setup_outputs: "setup_outputs rate outs s = Some (outs', s') \<Longrightarrow> surroundings s' = surroundings s"
  by (induction outs arbitrary: s outs' s') (fastforce split: bind_splits dest!: keeps_doSetup keeps_setup_inputs)+

lemma keeps_chosen_rate: "chosen_rate rate s = (r, s') \<Longrightarrow> surroundings s' = surroundings s"
  by (auto simp: chosen_rate_def Let_def split: if_splits option.splits)

lemma keeps_AuSetupCompiledFlow: "AuSetupCompiledFlow fl rate s = Some (fl', s') \<Longrightarrow> surroundings s' = surroundings s"
  by (auto simp: AuSetupCompiledFlow_def Let_def split: prod.splits bind_splits dest!: keeps_setup_outputs keeps_chosen_rate)

lemma keeps_clear_outputs: "clear_outputs outs s = Some s' \<Longrightarrow> surroundings s' = surroundings s"
  by (induction outs arbitrary: s) (auto split: bind_splits dest!: keeps_update)

lemma keeps_clear_processed: "clear_processed fl s = Some s' \<Longrightarrow> surroundings s' = surroundings s"
  by (induction fl arbitrary: s) (auto split: bind_splits dest!: keeps_clear_outputs)

lemma keeps_collect_outputs: "collect_outputs r outs g s = Some (res, s') \<Longrightarrow> surroundings s' = surroundings s"
  by (induction outs arbitrary: s g) (auto split: bind_splits if_splits prod.splits bool.splits dest!: keeps_update)

lemma keeps_collect_flows: "collect_flows r fl g s = Some (res, s') \<Longrightarrow> surroundings s' = surroundings s"
  by (induction fl arbitrary: s g) (fastforce split: bind_splits if_splits option.splits dest!: keeps_collect_outputs)+

lemma keeps_merge_outputs: "merge_outputs fl outs new m s = Some (res, s') \<Longrightarrow> surroundings s' = surroundings s"
  by (induction outs arbitrary: new m s)
    (auto simp: Let_def split: bind_splits if_splits prod.splits bool.splits option.splits
      dest!: keeps_update keeps_collect_flows)

lemma keeps_merge_flows: "merge_flows fl fs new m s = Some (res, s') \<Longrightarrow> surroundings s' = surroundings s"
  by (induction fs arbitrary: new m s) (fastforce split: bind_splits if_splits option.splits dest!: keeps_merge_outputs)+

lemma keeps_commit_states: "commit_states fl s = Some s' \<Longrightarrow> surroundings s' = surroundings s"
  by (induction fl arbitrary: s) (auto split: bind_splits dest!: keeps_update)

lemma keeps_AuProcessFlows: "AuProcessFlows fl s = Some (res, s') \<Longrightarrow> surroundings s' = surroundings s"
  by (auto simp: AuProcessFlows_def split: bind_splits prod.splits bool.splits option.splits
      dest!: keeps_update keeps_clear_processed keeps_merge_flows keeps_commit_states keeps_AuSetupCompiledFlow)

lemma keeps_reset_tags: "reset_tags ins s = Some s' \<Longrightarrow> surroundings s' = surroundings s"
  by (induction ins arbitrary: s) (auto split: bind_splits read_tag.splits dest!: keeps_update)

lemma keeps_AuStartFlow: "AuStartFlow new s = Some (st, old, s') \<Longrightarrow> surroundings s' = surroundings s"
  by (auto simp: AuStartFlow_def Let_def split: bind_splits option.splits if_splits dest!: keeps_reset_tags)

lemma keeps_AuProcessClockedFlows: "AuProcessClockedFlows s = Some s' \<Longrightarrow> surroundings s' = surroundings s"
  by (auto simp: AuProcessClockedFlows_def split: bind_splits option.splits if_splits
      dest!: keeps_AuProcessFlows keeps_AuStartFlow keeps_freeCompiledFlow)

section \<open>Element states\<close>

lemma keeps_change_element: "change_element p st s = Some (b, s') \<Longrightarrow> surroundings s' = surroundings s"
  by (auto simp: change_element_def split: bind_splits if_splits)

lemma keeps_change_elements: "change_elements flow is st s = Some (b, s') \<Longrightarrow> surroundings s' = surroundings s"
  by (induction "is" arbitrary: s b s') (fastforce split: bind_splits dest!: keeps_change_element)+

definition change_stays :: "change \<Rightarrow> bool" where
  "change_stays change \<longleftrightarrow> (\<forall>flow n st pf reason s b s'. change flow n st pf reason s = Some (b, s') \<longrightarrow> surroundings s' = surroundings s)"

lemma change_staysD: "change flow n st pf reason s = Some (b, s') \<Longrightarrow> change_stays change \<Longrightarrow> surroundings s' = surroundings s"
  by (simp add: change_stays_def)

lemma keeps_run_actions:
  "run_actions change as st pst p pf reason s = Some s' \<Longrightarrow> change_stays change \<Longrightarrow> surroundings s' = surroundings s"
  by (induction "as" arbitrary: s)
    (auto split: bind_splits if_splits dest!: keeps_AuRequestElementNotifyEvent change_staysD)

lemma keeps_checkForTriggeredActions:
  "checkForTriggeredActions change p pf reason s = Some s' \<Longrightarrow> change_stays change \<Longrightarrow> surroundings s' = surroundings s"
  by (auto simp: checkForTriggeredActions_def split: bind_splits dest: keeps_run_actions)

lemma keeps_trigger_element:
  "trigger_element change p pf reason s = Some s' \<Longrightarrow> change_stays change \<Longrightarrow> surroundings s' = surroundings s"
  unfolding trigger_element_def
  by (auto split: bind_splits if_splits dest!: keeps_update keeps_checkForTriggeredActions)

lemma keeps_trigger_elements:
  "trigger_elements change flow is pf reason s = Some s' \<Longrightarrow> change_stays change \<Longrightarrow> surroundings s' = surroundings s"
  by (induction "is" arbitrary: s) (auto split: bind_splits dest!: keeps_trigger_element)

lemma keeps_setFlowState: "setFlowState flow s = Some s' \<Longrightarrow> surroundings s' = surroundings s"
  by (simp add: setFlowState_def keeps_update)

lemma AuChangeElementState_stays: "change_stays (AuChangeElementState fuel)"
proof (induction fuel)
  case (Suc fuel)
  show ?case
    unfolding change_stays_def
  proof (intro allI impI)
    fix flow n st pf reason s b s'
    assume "AuChangeElementState (Suc fuel) flow n st pf reason s = Some (b, s')"
    then obtain f ran where f: "get_flow flow s = Some f" and ran: "ran = (if n = AuElementAll then [0..<f_numElements f] else [unat n])"
      and run: "do { (stateChange, s) \<leftarrow> change_elements flow ran st s;
          s \<leftarrow> trigger_elements (AuChangeElementState fuel) flow ran pf reason s;
          s \<leftarrow> (if stateChange then setFlowState flow s else Some s);
          f \<leftarrow> get_flow flow s;
          s \<leftarrow> (if pf \<and> f_state f \<noteq> f_pendingState f then
                  (if f_clocked f then AuProcessClockedFlows s else Some (AuProcessUnclockedFlows s))
                else Some s);
          f \<leftarrow> get_flow flow s;
          Some (f_state f \<noteq> f_pendingState f, s) } = Some (b, s')"
      by (cases "get_flow flow s") (simp_all add: Let_def)
    from run obtain ch s1 where s1: "change_elements flow ran st s = Some (ch, s1)"
      by (cases "change_elements flow ran st s") auto
    from run s1 obtain s2 where s2: "trigger_elements (AuChangeElementState fuel) flow ran pf reason s1 = Some s2"
      by (cases "trigger_elements (AuChangeElementState fuel) flow ran pf reason s1") auto
    from run s1 s2 obtain s3 where s3: "(if ch then setFlowState flow s2 else Some s2) = Some s3"
      by (cases "if ch then setFlowState flow s2 else Some s2") auto
    from run s1 s2 s3 have "surroundings s' = surroundings s3"
      by (auto split: bind_splits if_splits dest: keeps_AuProcessClockedFlows)
    moreover have "surroundings s3 = surroundings s2" using s3 by (auto split: if_splits dest: keeps_setFlowState)
    ultimately show "surroundings s' = surroundings s"
      using keeps_change_elements [OF s1] keeps_trigger_elements [OF s2 Suc.IH] by simp
  qed
qed (simp add: change_stays_def)

lemmas keeps_AuChangeElementState = change_staysD [OF _ AuChangeElementState_stays]

lemma keeps_change_states: "change_states fuel sts s = Some s' \<Longrightarrow> surroundings s' = surroundings s"
  by (induction fuel sts s rule: change_states.induct) (auto split: bind_splits dest!: keeps_AuChangeElementState)

lemma keeps_AuProcessStateChanges: "AuProcessStateChanges fuel sts s = Some s' \<Longrightarrow> surroundings s' = surroundings s"
  by (auto simp: AuProcessStateChanges_def split: bind_splits dest!: keeps_change_states keeps_AuProcessClockedFlows)

section \<open>Compiling and releasing\<close>

lemma keeps_create:
  "createPort env f n ns lo hi d s = Some (res, s') \<Longrightarrow> surroundings s' = surroundings s"
  "createMonitor env f n s = Some (res, s') \<Longrightarrow> surroundings s' = surroundings s"
  "createWaveForm env form s = Some (res, s') \<Longrightarrow> surroundings s' = surroundings s"
  unfolding createPort_def createMonitor_def createWaveForm_def Let_def
  by (auto split: bind_splits if_splits prod.splits bool.splits dest!: keeps_update)

lemma keeps_import_component: "import_component env p raw s = Some (res, s') \<Longrightarrow> surroundings s' = surroundings s"
  by (cases raw) (auto simp: import_component_def split: bind_splits option.splits dest!: keeps_create keeps_update)

lemma keeps_import_minibuf: "import_minibuf env p raw r s = Some (ok, s') \<Longrightarrow> surroundings s' = surroundings s"
  by (auto simp: import_minibuf_def split: bind_splits if_splits prod.splits bool.splits dest!: keeps_update)

lemma keeps_compile_import:
  "compile_import env p re raw cmp m a us f k = Some (st, k') \<Longrightarrow> surroundings (k_server k') = surroundings (k_server k)"
  by (auto simp: compile_import_def Let_def split: bind_splits if_splits prod.splits bool.splits sum.splits
      dest!: keeps_update keeps_import_component keeps_import_minibuf)

lemma keeps_sum_loop:
  "sum_loop rec is k = Some (st, k') \<Longrightarrow>
   (\<And>i k st k'. rec i k = Some (st, k') \<Longrightarrow> surroundings (k_server k') = surroundings (k_server k)) \<Longrightarrow>
   surroundings (k_server k') = surroundings (k_server k)"
proof (induction "is" arbitrary: k)
  case (Cons i "is")
  then obtain st1 k1 where 1: "rec (ucast i) k = Some (st1, k1)"
      and rest: "(if st1 = AuSuccess then sum_loop rec is k1 else Some (st1, k1)) = Some (st, k')"
    by (auto split: bind_splits)
  have "surroundings (k_server k') = surroundings (k_server k1)"
    using rest Cons.IH [OF _ Cons.prems(2)] by (auto split: if_splits)
  then show ?case using Cons.prems(2) [OF 1] by simp
qed simp

lemma keeps_bundle_loop:
  "bundle_loop rec ts n us f k = Some (st, n', us', f', k') \<Longrightarrow>
   (\<And>i us f k st k'. rec i us f k = Some (st, k') \<Longrightarrow> surroundings (k_server k') = surroundings (k_server k)) \<Longrightarrow>
   surroundings (k_server k') = surroundings (k_server k)"
proof (induction rec ts n us f k rule: bundle_loop.induct)
  case (2 rec en t ts n us f k)
  from 2(2) obtain st1 us1 f1 k1 where 1: "(if us \<noteq> [] \<and> ucast en \<noteq> n then
               do { (status, k) \<leftarrow> rec n us f k; Some (status, [], f + word_of_nat (length us), k) }
             else Some (AuSuccess, us, f, k)) = Some (st1, us1, f1, k1)"
    and rest: "(if st1 \<noteq> AuSuccess then Some (st1, n, us1, f1, k1)
           else if auMaxTracks \<le> length us1 then None
           else bundle_loop rec ts (ucast en) (us1 @ [t]) f1 k1) = Some (st, n', us', f', k')"
    by (auto split: bind_splits)
  have "surroundings (k_server k1) = surroundings (k_server k)"
    using 1 by (auto split: if_splits bind_splits dest!: 2(3))
  moreover have "surroundings (k_server k') = surroundings (k_server k1)"
  proof (cases "st1 = AuSuccess \<and> \<not> auMaxTracks \<le> length us1")
    case True
    have "bundle_loop rec ts (ucast en) (us1 @ [t]) f1 k1 = Some (st, n', us', f', k')" using rest True by simp
    then show ?thesis using 2(1) [OF 1] True 2(3) by simp
  qed (use rest in \<open>auto split: if_splits\<close>)
  ultimately show ?case by simp
qed simp

lemma keeps_compileInputs:
  "compileInputs fuel env flow re i m a us f k = Some (st, k') \<Longrightarrow> surroundings (k_server k') = surroundings (k_server k)"
proof (induction fuel arbitrary: i m a us f k st k')
  case (Suc fuel)
  from Suc.prems obtain el s where el: "get_el (flow, unat i) (k_server k) = Some el"
      and s: "upd_el (flow, unat i) (\<lambda>e. e\<lparr>e_compiled := True\<rparr>) (k_server k) = Some s"
    by (auto simp: Let_def split: bind_splits)
  note s' = keeps_update(3) [OF s]
  have sum: "surroundings (k_server k') = surroundings (k_server (k\<lparr>k_server := s\<rparr>))"
    if "sum_loop (\<lambda>i. compileInputs fuel env flow re i m a us f) is (k\<lparr>k_server := s\<rparr>) = Some (st, k')" for "is"
    by (rule keeps_sum_loop [OF that]) (rule Suc.IH)
  have tracks: "surroundings (k_server k1) = surroundings (k_server (k\<lparr>k_server := s\<rparr>))"
    if "bundle_loop (\<lambda>i. compileInputs fuel env flow re i m a) ts (- 1) [] f (k\<lparr>k_server := s\<rparr>) = Some (st1, n1, us1, f1, k1)"
    for ts st1 n1 us1 f1 k1
    by (rule keeps_bundle_loop [OF that]) (rule Suc.IH)
  show ?case
    using Suc.prems el s s'
    by (cases "e_raw el") (auto simp: Let_def split: bind_splits if_splits dest!: Suc.IH sum tracks keeps_compile_import)
qed simp

lemma keeps_export_component: "export_component env p raw s = Some (res, s') \<Longrightarrow> surroundings s' = surroundings s"
  by (cases raw) (auto simp: export_component_def split: bind_splits option.splits dest!: keeps_create keeps_update)

lemma keeps_export_minibuf: "export_minibuf env p raw r s = Some (ok, s') \<Longrightarrow> surroundings s' = surroundings s"
  by (auto simp: export_minibuf_def split: bind_splits if_splits prod.splits bool.splits dest!: keeps_update)

lemma keeps_new_output: "new_output env p raw s = Some (st, s') \<Longrightarrow> surroundings s' = surroundings s"
  unfolding new_output_def add_output_def
  by (auto split: bind_splits if_splits prod.splits bool.splits sum.splits
      dest!: keeps_update keeps_export_component keeps_export_minibuf)

lemma keeps_compile_output: "compile_output fuel env flow re n s = Some (st, s') \<Longrightarrow> surroundings s' = surroundings s"
  by (auto simp: compile_output_def Let_def split: bind_splits if_splits dest!: keeps_compileInputs keeps_update)

lemma keeps_compile_exports: "compile_exports fuel env flow re is n s = Some (st, s') \<Longrightarrow> surroundings s' = surroundings s"
  by (induction "is" arbitrary: n s) (auto split: bind_splits if_splits dest!: keeps_new_output keeps_compile_output)

lemma keeps_AuCompileFlow: "AuCompileFlow fuel env flow s = Some (st, s') \<Longrightarrow> surroundings s' = surroundings s"
  by (auto simp: AuCompileFlow_def split: bind_splits dest!: keeps_compile_exports)

lemma keeps_AuFreeFlowElements: "AuFreeFlowElements fuel flow s = Some s' \<Longrightarrow> surroundings s' = surroundings s"
  by (auto simp: AuFreeFlowElements_def unlink_flow_def split: bind_splits if_splits
      dest!: keeps_AuChangeElementState keeps_freeCompiledFlow keeps_update)

lemma keeps_freeFlow: "freeFlow fuel flow s = Some s' \<Longrightarrow> surroundings s' = surroundings s"
  by (auto simp: freeFlow_def AuDequeueEvents_def split: bind_splits if_splits dest!: keeps_AuFreeFlowElements keeps_dequeue_loop)

lemma keeps_delete_resource: "delete_resource fuel k v i s = Some s' \<Longrightarrow> surroundings s' = surroundings s"
  by (cases k) (auto split: bind_splits dest!: keeps_AuFreeComponent keeps_freeFlow)

section \<open>The turn of the clock\<close>

lemma keeps_put_port [simp]: "surroundings (put_port p r el c mb s) = surroundings s"
  "surroundings (put_el p el s) = surroundings s" "surroundings (put_comp r c s) = surroundings s"
  by (simp_all add: put_port_def put_el_def put_comp_def put_flow_def split: option.splits)

lemmas keeps_port = keeps_AuChangeElementState keeps_AuRequestElementNotifyEvent keeps_update

lemma keeps_readClient: "readClient fuel i s = Some (b, s') \<Longrightarrow> surroundings s' = surroundings s"
  by (auto simp: readClient_def Let_def split: bind_splits if_splits dest!: keeps_port)

lemma keeps_readBucket: "readBucket fuel i s = Some (b, s') \<Longrightarrow> surroundings s' = surroundings s"
  unfolding readBucket_def Let_def bind_eq_Some_conv
  by (elim exE conjE) (auto split: prod.splits if_splits bind_splits dest!: keeps_port)

lemma keeps_readDevice: "readDevice fuel i s = Some (b, s') \<Longrightarrow> surroundings s' = surroundings s"
  by (auto simp: readDevice_def Let_def split: bind_splits if_splits dest!: keeps_port)

lemma keeps_readWaveForm: "readWaveForm fuel i s = Some (b, s') \<Longrightarrow> surroundings s' = surroundings s"
  unfolding readWaveForm_def Let_def bind_eq_Some_conv
  by (elim exE conjE) (auto split: prod.splits if_splits bind_splits dest!: keeps_port)

lemma keeps_convert_minibuf: "convert_minibuf cv p s = Some s' \<Longrightarrow> surroundings s' = surroundings s"
  by (auto simp: convert_minibuf_def split: option.splits bind_splits)

lemma keeps_set_tag: "set_tag i t s = Some s' \<Longrightarrow> surroundings s' = surroundings s"
  by (auto simp: set_tag_def split: read_tag.splits dest!: keeps_update)

lemma keeps_readInput: "readInput fuel i s = Some (b, s') \<Longrightarrow> surroundings s' = surroundings s"
  by (auto simp: readInput_def Let_def split: bind_splits read_input.splits dest!: keeps_update keeps_readClient
      keeps_readBucket keeps_readDevice keeps_readWaveForm keeps_convert_minibuf keeps_set_tag)

lemma keeps_writeClient: "writeClient fuel out s = Some (b, s') \<Longrightarrow> surroundings s' = surroundings s"
  by (auto simp: writeClient_def Let_def split: bind_splits if_splits dest!: keeps_port)

lemma keeps_writeBucket: "writeBucket fuel out s = Some (b, s') \<Longrightarrow> surroundings s' = surroundings s"
  unfolding writeBucket_def Let_def bind_eq_Some_conv
  by (elim exE conjE) (auto split: prod.splits if_splits bind_splits dest!: keeps_port)

lemma keeps_writeDevice: "writeDevice fuel out s = Some (b, s') \<Longrightarrow> surroundings s' = surroundings s"
  by (auto simp: writeDevice_def Let_def split: bind_splits if_splits dest!: keeps_port)

lemma keeps_post_monitor: "post_monitor n p blk d s = Some (b, s') \<Longrightarrow> surroundings s' = surroundings s"
  by (induction n arbitrary: d s)
    (auto split: prod.splits bool.splits bind_splits dest!: keeps_update(4,6) keeps_AddToEventQueue)

lemma keeps_monitor_events: "monitor_events n p tracks b a s = Some s' \<Longrightarrow> surroundings s' = surroundings s"
proof (induction n arbitrary: a s)
  case (Suc n)
  then obtain s1 where s1: "AuRequestMonitorNotifyEvent p b a s = Some s1" "monitor_events n p tracks b (a + 2 * tracks) s1 = Some s'"
    by (auto split: bind_splits)
  have "surroundings s1 = surroundings s"
    using s1(1) unfolding AuRequestMonitorNotifyEvent_def Let_def
    by (auto split: bind_splits if_splits dest!: keeps_post_monitor)
  with Suc.IH [OF s1(2)] show ?case by simp
qed simp

lemma keeps_writeMonitor: "writeMonitor out s = Some (b, s') \<Longrightarrow> surroundings s' = surroundings s"
  by (auto simp: writeMonitor_def Let_def split: bind_splits if_splits dest!: keeps_monitor_events)

lemma keeps_writeOutput: "writeOutput fuel out s = Some (b, s') \<Longrightarrow> surroundings s' = surroundings s"
  unfolding writeOutput_def Let_def bind_eq_Some_conv
  by (elim exE conjE) (auto split: write_output.splits dest!: keeps_writeClient keeps_writeBucket keeps_writeDevice keeps_writeMonitor)

lemma keeps_process_inputs: "process_inputs fuel k out st ins s = Some (b, s') \<Longrightarrow> surroundings s' = surroundings s"
proof (induction ins arbitrary: b s)
  case (Cons i ins)
  then obtain b1 b2 s1 where s1: "process_input fuel k out st i s = Some (b1, s1)" "process_inputs fuel k out st ins s1 = Some (b2, s')"
    by (fastforce simp: bind_eq_Some_conv)
  have "surroundings s1 = surroundings s"
    using s1(1) by (auto simp: process_input_def accumulate_input_def Let_def split: bind_splits if_splits dest!: keeps_readInput)
  with Cons.IH [OF s1(2)] show ?case by simp
qed simp

lemma keeps_clear_minibuf: "clear_minibuf out s = Some s' \<Longrightarrow> surroundings s' = surroundings s"
  by (auto simp: clear_minibuf_def Let_def split: bind_splits)

lemma keeps_process_outputs: "process_outputs fuel k outs s = Some (b, s') \<Longrightarrow> surroundings s' = surroundings s"
proof (induction outs arbitrary: b s)
  case (Cons out outs)
  then obtain b1 b2 s1 where s1: "process_output fuel k out s = Some (b1, s1)" "process_outputs fuel k outs s1 = Some (b2, s')"
    by (fastforce simp: bind_eq_Some_conv)
  have "surroundings s1 = surroundings s"
    using s1(1) by (auto simp: process_output_def Let_def split: bind_splits if_splits
        dest!: keeps_update keeps_clear_minibuf keeps_process_inputs keeps_writeOutput)
  with Cons.IH [OF s1(2)] show ?case by simp
qed simp

lemma keeps_clear_physical_outputs: "clear_physical_outputs rs s = Some s' \<Longrightarrow> surroundings s' = surroundings s"
  by (induction rs arbitrary: s) (auto split: bind_splits dest!: keeps_update)

lemma keeps_AuProcessData: "AuProcessData fuel s = Some s' \<Longrightarrow> surroundings s' = surroundings s"
  by (auto simp: AuProcessData_def AuProcessFlow_def read_physical_inputs_def Let_def split: option.splits bind_splits if_splits
      dest!: keeps_process_outputs keeps_clear_physical_outputs keeps_AuProcessClockedFlows)

section \<open>Requests\<close>

text \<open>
  A request is confined to its client: the record of no other client changes, and of the client's own only the error value
  and the close-down mode, which stays or becomes a valid one; replies go to the client only; no event is delivered; and the
  settings of the server stay as they are.
\<close>

definition valid_mode :: "u8 \<Rightarrow> bool" where
  "valid_mode m \<longleftrightarrow> m = AuCloseDownDestroy \<or> m = AuCloseDownRetainPermanent \<or> m = AuCloseDownRetainTemporary"

definition same_client :: "client \<Rightarrow> client \<Rightarrow> bool" where
  "same_client cl cl' \<longleftrightarrow> cl'\<lparr>cl_errorValue := 0, cl_closeDownMode := 0\<rparr> = cl\<lparr>cl_errorValue := 0, cl_closeDownMode := 0\<rparr> \<and>
     (cl_closeDownMode cl' = cl_closeDownMode cl \<or> valid_mode (cl_closeDownMode cl'))"

definition confined :: "request \<Rightarrow> dispatch \<Rightarrow> dispatch \<Rightarrow> bool" where
  "confined rq d d' \<longleftrightarrow>
     (\<forall>c. c \<noteq> rq_client rq \<longrightarrow> sv_clients (di_server d') c = sv_clients (di_server d) c) \<and>
     rel_option same_client (the_client rq d) (the_client rq d') \<and>
     (\<exists>rs. di_out d' = di_out d @ map (Pair (rq_client rq)) rs) \<and>
     snd (surroundings (di_server d')) = snd (surroundings (di_server d))"

lemma same_client_refl [simp]: "same_client cl cl"
  by (simp add: same_client_def)

lemma same_client_trans: "same_client a b \<Longrightarrow> same_client b c \<Longrightarrow> same_client a c"
  by (auto simp: same_client_def)

lemma confined_refl [simp, intro]: "confined rq d d"
  by (auto simp: confined_def intro: exI [of _ "[]"] option.rel_refl)

lemma confined_trans [trans]: "confined rq a b \<Longrightarrow> confined rq b c \<Longrightarrow> confined rq a c"
proof -
  assume ab: "confined rq a b" and bc: "confined rq b c"
  obtain rs where rs: "di_out b = di_out a @ map (Pair (rq_client rq)) rs" using ab by (auto simp: confined_def)
  obtain rs' where rs': "di_out c = di_out b @ map (Pair (rq_client rq)) rs'" using bc by (auto simp: confined_def)
  have "rel_option same_client (the_client rq a) (the_client rq c)"
    using ab bc unfolding confined_def option_rel_Some1 by (cases "the_client rq a"; cases "the_client rq b"; cases "the_client rq c")
      (auto intro: same_client_trans)
  then show ?thesis using ab bc rs rs' unfolding confined_def by (auto intro: exI [of _ "rs @ rs'"])
qed

text \<open>The steps requests are made of.\<close>

lemma the_client_surroundings: "the_client rq d = fst (surroundings (di_server d)) (rq_client rq)"
  by (simp add: the_client_def surroundings_def)

lemma di_server_put [simp]: "di_server (put_server s d) = s" "di_out (put_server s d) = di_out d"
    "di_server (write_client rq rs d) = di_server d" "the_client rq (put_server s d) = sv_clients s (rq_client rq)"
    "the_client rq (write_client rq' rs d) = the_client rq d"
    "the_client rq (d\<lparr>di_table := t\<rparr>) = the_client rq d"
  by (simp_all add: put_server_def write_client_def the_client_def)

lemma confined_put: "confined rq d d1 \<Longrightarrow> surroundings s = surroundings (di_server d1) \<Longrightarrow> confined rq d (put_server s d1)"
  by (simp add: confined_def the_client_surroundings) (auto simp: surroundings_def)

lemma confined_table [simp]: "confined rq d (d1\<lparr>di_table := t\<rparr>) = confined rq d d1"
  by (simp add: confined_def)

lemma confined_write: "confined rq d d1 \<Longrightarrow> confined rq d (write_client rq rs d1)"
proof -
  assume c: "confined rq d d1"
  then obtain rs0 where "di_out d1 = di_out d @ map (Pair (rq_client rq)) rs0" by (auto simp: confined_def)
  then have "di_out (write_client rq rs d1) = di_out d @ map (Pair (rq_client rq)) (rs0 @ rs)" by (simp add: write_client_def)
  then show ?thesis using c unfolding confined_def by (auto intro: exI [of _ "rs0 @ rs"])
qed

definition put_own :: "client \<Rightarrow> request \<Rightarrow> dispatch \<Rightarrow> dispatch" where
  "put_own cl rq d = put_server ((di_server d)\<lparr>sv_clients := (sv_clients (di_server d))(rq_client rq \<mapsto> cl)\<rparr>) d"

lemma confined_own: "confined rq d d1 \<Longrightarrow> the_client rq d1 = Some cl \<Longrightarrow> same_client cl cl' \<Longrightarrow> confined rq d (put_own cl' rq d1)"
proof -
  assume c: "confined rq d d1" and cl: "the_client rq d1 = Some cl" "same_client cl cl'"
  then obtain cl0 where "the_client rq d = Some cl0" "same_client cl0 cl'"
    by (auto simp: confined_def option_rel_Some2 intro: same_client_trans)
  then show ?thesis using c by (simp add: confined_def put_own_def) (auto simp: surroundings_def)
qed

lemma AU_ERROR_Some:
  "AU_ERROR e v rq d = Some (st, d') \<longleftrightarrow>
   (\<exists>cl. the_client rq d = Some cl \<and> st = Returns e \<and> d' = put_own (cl\<lparr>cl_errorValue := v\<rparr>) rq d)"
  by (auto simp: AU_ERROR_def Let_def put_own_def put_server_def split: bind_splits)

lemma confined_AU_ERROR: "AU_ERROR e v rq d1 = Some (st, d') \<Longrightarrow> confined rq d d1 \<Longrightarrow> confined rq d d'"
  by (auto simp: AU_ERROR_Some same_client_def intro: confined_own)

lemma confined_return_status: "return_status e rq d1 = Some (st, d') \<Longrightarrow> confined rq d d1 \<Longrightarrow> confined rq d d'"
  by (auto simp: return_status_def split: au_status.splits option.splits dest: confined_AU_ERROR)

lemma confined_bad_length: "bad_length d1 = Some (st, d') \<Longrightarrow> d' = d1"
  by (simp add: bad_length_def)

lemma same_client_error [simp]: "same_client cl (cl\<lparr>cl_errorValue := v\<rparr>)"
  by (simp add: same_client_def)

lemma return_status_Some:
  "return_status e rq d = Some (st, d') \<Longrightarrow>
   d' = d \<or> (\<exists>cl v. the_client rq d = Some cl \<and> d' = put_own (cl\<lparr>cl_errorValue := v\<rparr>) rq d)"
  by (auto simp: return_status_def AU_ERROR_Some split: au_status.splits option.splits)

lemmas confined_simps = AU_ERROR_Some bad_length_def Let_def
lemmas confined_intros = confined_own confined_put confined_write

lemma keeps_match_devices: "match_devices drv a vd rs n len s = Some (n', len', s') \<Longrightarrow> surroundings s' = surroundings s"
  by (induction rs arbitrary: n len s) (auto simp: Let_def split: bind_splits if_splits)

lemma confined_write_devices: "write_devices drv rq rs d1 = Some d' \<Longrightarrow> confined rq d d1 \<Longrightarrow> confined rq d d'"
proof (induction rs arbitrary: d1)
  case (Cons r rs)
  then obtain c where c: "get_comp r (di_server d1) = Some c"
      "write_devices drv rq rs (if c_list c then write_client rq (device_data (fetch_gains drv c))
         (put_server (put_comp r (fetch_gains drv c) (di_server d1)) d1) else d1) = Some d'"
    by (auto simp: Let_def split: bind_splits cong: if_cong)
  show ?case by (rule Cons.IH [OF c(2)]) (use Cons.prems(2) in \<open>auto intro!: confined_intros\<close>)
qed simp

lemma keeps_match_buckets: "match_buckets drv i a vd rs n len s = Some (n', len', s') \<Longrightarrow> surroundings s' = surroundings s"
  by (induction rs arbitrary: n len s) (auto simp: Let_def split: bind_splits if_splits)

lemma confined_write_buckets: "write_buckets rq rs d1 = Some d' \<Longrightarrow> confined rq d d1 \<Longrightarrow> confined rq d d'"
  by (induction rs arbitrary: d1) (auto simp: Let_def split: bind_splits if_splits intro!: confined_intros)

lemma keeps_gains:
  "surroundings (AuSetInputGainAndLineMode g m s) = surroundings s"
  "surroundings (AuSetOutputGainAndMode drv g m s) = surroundings s"
  "surroundings (AuSetFeedbackGain drv g s) = surroundings s"
  by (simp_all add: AuSetInputGainAndLineMode_def AuSetOutputGainAndMode_def AuSetFeedbackGain_def Let_def)

lemma confined_ListDevices: "ProcAuListDevices env rq d = Some (st, d') \<Longrightarrow> confined rq d d'"
  by (auto simp: ProcAuListDevices_def confined_simps split: if_splits bind_splits
      dest!: keeps_match_devices confined_write_devices intro!: confined_intros)

lemma confined_GetDeviceAttributes: "ProcAuGetDeviceAttributes env rq d = Some (st, d') \<Longrightarrow> confined rq d d'"
  by (auto simp: ProcAuGetDeviceAttributes_def confined_simps split: if_splits bind_splits option.splits intro!: confined_intros)

lemma confined_SetDeviceAttributes: "ProcAuSetDeviceAttributes env rq d = Some (st, d') \<Longrightarrow> confined rq d d'"
  by (auto simp: ProcAuSetDeviceAttributes_def confined_simps keeps_gains split: if_splits bind_splits option.splits
      intro!: confined_intros)

text \<open>Adding and freeing resources runs delete functions.\<close>

lemma keeps_run_delete: "run_delete (delete_resource fuel) t ty v i s = Some s' \<Longrightarrow> surroundings s' = surroundings s"
  by (auto simp: run_delete_def Let_def split: if_splits dest: keeps_delete_resource)

lemma keeps_AddResource:
  "AddResource (delete_resource fuel) i ty v (t, s) = Some (ok, t', s') \<Longrightarrow> surroundings s' = surroundings s"
  by (auto simp: AddResource_def Let_def split: bind_splits if_splits prod.splits bool.splits dest!: keeps_run_delete)

lemma keeps_free_chain:
  "free_chain (delete_resource fuel) t i skip rs s = Some (rs', n, s') \<Longrightarrow> surroundings s' = surroundings s"
  by (induction rs arbitrary: s rs' n) (auto split: bind_splits if_splits dest!: keeps_run_delete)

lemma keeps_FreeResource:
  "FreeResource (delete_resource fuel) i skip (t, s) = Some (t', s') \<Longrightarrow> surroundings s' = surroundings s"
  by (auto simp: FreeResource_def Let_def split: bind_splits if_splits dest!: keeps_free_chain)

lemma keeps_link_bucket: "link_bucket c s = Some (r, s') \<Longrightarrow> surroundings s' = surroundings s"
  by (auto simp: link_bucket_def Let_def split: bind_splits prod.splits dest!: keeps_update)

lemma confined_CreateBucket: "ProcAuCreateBucket env rq d = Some (st, d') \<Longrightarrow> confined rq d d'"
  by (auto simp: ProcAuCreateBucket_def confined_simps split: if_splits bind_splits prod.splits bool.splits
      dest!: keeps_update keeps_link_bucket keeps_AddResource intro!: confined_intros)

lemma confined_DestroyBucket: "ProcAuDestroyBucket env rq d = Some (st, d') \<Longrightarrow> confined rq d d'"
  by (auto simp: ProcAuDestroyBucket_def confined_simps split: if_splits bind_splits option.splits
      dest!: keeps_FreeResource intro!: confined_intros)

lemma confined_ListBuckets: "ProcAuListBuckets env rq d = Some (st, d') \<Longrightarrow> confined rq d d'"
  by (auto simp: ProcAuListBuckets_def confined_simps split: if_splits bind_splits
      dest!: keeps_match_buckets confined_write_buckets intro!: confined_intros)

lemma confined_GetBucketAttributes: "ProcAuGetBucketAttributes env rq d = Some (st, d') \<Longrightarrow> confined rq d d'"
  by (auto simp: ProcAuGetBucketAttributes_def confined_simps split: if_splits bind_splits option.splits intro!: confined_intros)

lemma confined_CreateFlow: "ProcAuCreateFlow env rq d = Some (st, d') \<Longrightarrow> confined rq d d'"
  by (auto simp: ProcAuCreateFlow_def confined_simps split: if_splits bind_splits prod.splits bool.splits
      dest!: keeps_update keeps_AddResource intro!: confined_intros)

lemma confined_DestroyFlow: "ProcAuDestroyFlow env rq d = Some (st, d') \<Longrightarrow> confined rq d d'"
  by (auto simp: ProcAuDestroyFlow_def confined_simps split: if_splits bind_splits option.splits
      dest!: keeps_FreeResource intro!: confined_intros)

lemma confined_GetElements: "ProcAuGetElements env rq d = Some (st, d') \<Longrightarrow> confined rq d d'"
  by (auto simp: ProcAuGetElements_def confined_simps split: if_splits bind_splits option.splits intro!: confined_intros)

lemma keeps_link_flow: "link_flow r s = Some s' \<Longrightarrow> surroundings s' = surroundings s"
  by (auto simp: link_flow_def split: bind_splits if_splits)

lemma confined_return_put:
  "return_status e rq (put_server s d) = Some (st, d') \<Longrightarrow> surroundings s = surroundings (di_server d) \<Longrightarrow> confined rq d d'"
  by (drule return_status_Some) (auto intro!: confined_intros)

lemma confined_return: "return_status e rq d = Some (st, d') \<Longrightarrow> confined rq d d'"
  by (drule return_status_Some) (auto intro!: confined_intros)

lemma confined_install_elements: "install_elements env rq r b num d = Some (st, d') \<Longrightarrow> confined rq d d'"
  by (auto simp: install_elements_def split: bind_splits if_splits sum.splits
      dest!: keeps_update keeps_link_flow keeps_AuCompileFlow keeps_AuFreeFlowElements elim!: confined_return_put)

lemma confined_alloc_elements:
  assumes "(case aualloc s of
      (False, s) \<Rightarrow> AU_ERROR AuBadAlloc 0 rq (put_server s d)
    | (True, s) \<Rightarrow> do { s \<leftarrow> upd_flow r g s; install_elements env rq r b num (put_server s d) }) = Some (st, d')"
    and "surroundings s = surroundings (di_server d)"
  shows "confined rq d d'"
proof -
  obtain ok s1 where s1: "aualloc s = (ok, s1)" by (cases "aualloc s")
  note k1 = keeps_update(4) [OF s1]
  show ?thesis
  proof (cases ok)
    case True
    then obtain s2 where s2: "upd_flow r g s1 = Some s2" "install_elements env rq r b num (put_server s2 d) = Some (st, d')"
      using assms(1) s1 by (auto split: bind_splits)
    have "confined rq d (put_server s2 d)" using keeps_update(2) [OF s2(1)] k1 assms(2) by (intro confined_put) auto
    also have "confined rq (put_server s2 d) d'" by (rule confined_install_elements [OF s2(2)])
    finally show ?thesis .
  qed (use assms s1 k1 in \<open>auto simp: AU_ERROR_Some intro!: confined_intros\<close>)
qed

lemma confined_SetElements: "ProcAuSetElements env rq d = Some (st, d') \<Longrightarrow> confined rq d d'"
proof -
  assume run: "ProcAuSetElements env rq d = Some (st, d')"
  show ?thesis
  proof (cases "at_least_size 12 rq")
    case True
    from run True obtain clocked i v where v: "ld8 (rq_buffer rq) 1 = Some clocked" "ld32 (rq_buffer rq) 4 = Some i"
        "lookup (di_auFlowType d) i d = Some v"
      by (auto simp: ProcAuSetElements_def split: bind_splits)
    show ?thesis
    proof (cases v)
      case (Some r)
      define b where "b = drop 12 (rq_buffer rq)"
      define len where "len = 4 * rq_len rq - 12"
      from run True v Some obtain num m where m: "ld32 (rq_buffer rq) 8 = Some num"
          "measure_elements b len (unat num) 0 0 0 = Some m"
        by (auto simp: ProcAuSetElements_def Let_def b_def len_def split: bind_splits)
      show ?thesis
      proof (cases m)
        case (Inr p)
        obtain varLen numActions where p: "p = (varLen, numActions)" by (cases p)
        show ?thesis
        proof (cases "length_fits varLen len (unat num)")
          case fits: True
          from run True v Some m Inr p fits obtain f s where f: "get_flow r (di_server d) = Some f"
            and s: "(if f_elements f \<noteq> None then AuFreeFlowElements (de_fuel env) r (di_server d) else Some (di_server d)) = Some s"
            and rest: "(case aualloc s of
                (False, s) \<Rightarrow> AU_ERROR AuBadAlloc 0 rq (put_server s d)
              | (True, s) \<Rightarrow>
                  do { s \<leftarrow> upd_flow r (\<lambda>f. f\<lparr>f_clocked := clocked \<noteq> 0, f_state := AuStateStop, f_varLen := varLen\<rparr>) s;
                       install_elements env rq r (take len b) (unat num) (put_server s d) }) = Some (st, d')"
            by (auto simp: ProcAuSetElements_def Let_def b_def [symmetric] len_def [symmetric] split: bind_splits)
          show ?thesis
            by (rule confined_alloc_elements [OF rest]) (use s in \<open>auto split: if_splits dest: keeps_AuFreeFlowElements\<close>)
        qed (use run True v Some m Inr p in \<open>auto simp: ProcAuSetElements_def confined_simps b_def len_def intro!: confined_intros\<close>)
      qed (use run True v Some m in \<open>auto simp: ProcAuSetElements_def confined_simps b_def len_def dest: confined_return\<close>)
    qed (use run True v in \<open>auto simp: ProcAuSetElements_def confined_simps intro!: confined_intros\<close>)
  qed (use run in \<open>simp add: ProcAuSetElements_def confined_simps\<close>)
qed

lemma confined_SetElementStates: "ProcAuSetElementStates env rq d = Some (st, d') \<Longrightarrow> confined rq d d'"
  by (auto simp: ProcAuSetElementStates_def confined_simps split: if_splits bind_splits sum.splits prod.splits bool.splits
      dest!: keeps_update keeps_AuProcessStateChanges intro!: confined_intros intro: confined_return_put)

lemma confined_GetElementStates: "ProcAuGetElementStates env rq d = Some (st, d') \<Longrightarrow> confined rq d d'"
  by (auto simp: ProcAuGetElementStates_def confined_simps split: if_splits bind_splits sum.splits prod.splits bool.splits
      dest!: keeps_update intro!: confined_intros intro: confined_return_put)

lemma confined_set_parameters: "set_parameters rq b n len p d = Some (st, d') \<Longrightarrow> confined rq d d'"
proof (induction n arbitrary: len p d)
  case (Suc n)
  show ?case
  proof (cases "len = 0")
    case False
    with Suc.prems obtain i v where v: "ld32 b p = Some i" "lookup (di_auFlowType d) i d = Some v" by (auto split: bind_splits)
    show ?thesis
    proof (cases v)
      case (Some r)
      with Suc.prems False v obtain num f where num: "ld8 b (p + 4) = Some num" "get_flow r (di_server d) = Some f"
        by (auto split: bind_splits)
      show ?thesis
      proof (cases "f_numElements f \<le> unat num")
        case ok: False
        with Suc.prems False v Some num obtain k where k: "ld8 b (p + 5) = Some k" by (auto split: bind_splits)
        define len' where "len' = len - (8 - ucast k * 4)"
        show ?thesis
        proof (cases "sint len' < 0")
          case pos: False
          with Suc.prems False v Some num ok k obtain el raw bucket s where
              "get_el (r, unat num) (di_server d) = Some el" "set_parameter b (p + 8) (e_raw el) = Some (raw, bucket)"
              and s: "upd_flow r (\<lambda>f. f\<lparr>f_count := (if bucket then 0 else f_count f), f_needsRecompile := True\<rparr>)
                (put_el (r, unat num) (el\<lparr>e_raw := raw, e_parmsChanged := True\<rparr>) (di_server d)) = Some s"
              and rest: "set_parameters rq b n len' (p + 8 + 4 * unat k) (put_server s d) = Some (st, d')"
            by (auto simp: Let_def len'_def split: bind_splits)
          have "confined rq d (put_server s d)" using keeps_update(2) [OF s] by (intro confined_put) auto
          also have "confined rq (put_server s d) d'" by (rule Suc.IH [OF rest])
          finally show ?thesis .
        qed (use Suc.prems False v Some num ok k in \<open>auto simp: Let_def len'_def\<close>)
      qed (use Suc.prems False v Some num in auto)
    qed (use Suc.prems False v in auto)
  qed (use Suc.prems in simp)
qed simp

lemma confined_recompile_flows: "recompile_flows env fs d = Some (st, d') \<Longrightarrow> confined rq d d'"
proof (induction fs arbitrary: d)
  case (Cons r fs)
  then obtain f where f: "get_flow r (di_server d) = Some f" by (auto split: bind_splits)
  show ?case
  proof (cases "f_needsRecompile f")
    case True
    with Cons.prems f obtain st1 s1 s2 where s: "AuCompileFlow (de_fuel env) (compile_env_of env d) r (di_server d) = Some (st1, s1)"
        "upd_flow r (\<lambda>f. f\<lparr>f_needsRecompile := False\<rparr>) s1 = Some s2"
      and rest: "(if st1 = AuSuccess then recompile_flows env fs (put_server s2 d) else Some (st1, put_server s2 d)) = Some (st, d')"
      by (auto split: bind_splits)
    have "confined rq d (put_server s2 d)"
      using keeps_AuCompileFlow [OF s(1)] keeps_update(2) [OF s(2)] by (intro confined_put) auto
    then show ?thesis using rest Cons.IH by (auto split: if_splits intro: confined_trans)
  qed (use Cons f in simp)
qed simp

lemma confined_SetElementParameters:
  assumes run: "ProcAuSetElementParameters env rq d = Some (st, d')"
  shows "confined rq d d'"
proof (cases "at_least_size 8 rq")
  case True
  with run obtain num st1 d1 where d1: "ld32 (rq_buffer rq) 4 = Some num"
      "set_parameters rq (drop 8 (rq_buffer rq)) (unat num) (word_of_nat (4 * rq_len rq - 8)) 0 d = Some (st1, d1)"
    by (auto simp: ProcAuSetElementParameters_def split: bind_splits)
  note c1 = confined_set_parameters [OF d1(2)]
  show ?thesis
  proof (cases "st1 = AuSuccess")
    case ok1: True
    with run True d1 obtain fs st2 d2 where d2: "recompile_flows env fs d1 = Some (st2, d2)"
      and run2: "(if st2 \<noteq> AuSuccess then return_status st2 rq d2
        else do { let d = put_server (AuProcessUnclockedFlows (di_server d2)) d2;
                  fs \<leftarrow> chain (sv_flow_links (di_server d)) (sv_auClockedFlows (di_server d));
                  (status, d) \<leftarrow> recompile_flows env fs d;
                  (if status \<noteq> AuSuccess then return_status status rq d
                   else do { s \<leftarrow> AuProcessClockedFlows (di_server d);
                             Some (Returns SuccessCode, put_server s d) }) }) = Some (st, d')"
      by (auto simp: ProcAuSetElementParameters_def split: bind_splits)
    note c2 = confined_trans [OF c1 confined_recompile_flows [OF d2]]
    show ?thesis
    proof (cases "st2 = AuSuccess")
      case ok2: True
      define d3 where "d3 = put_server (AuProcessUnclockedFlows (di_server d2)) d2"
      have c3: "confined rq d d3" unfolding d3_def by (rule confined_put [OF c2]) simp
      from run2 ok2 obtain gs st4 d4 where d4: "recompile_flows env gs d3 = Some (st4, d4)"
        and run4: "(if st4 \<noteq> AuSuccess then return_status st4 rq d4
           else do { s \<leftarrow> AuProcessClockedFlows (di_server d4); Some (Returns SuccessCode, put_server s d4) }) = Some (st, d')"
        by (auto simp: Let_def d3_def split: bind_splits)
      note c4 = confined_trans [OF c3 confined_recompile_flows [OF d4]]
      have "confined rq d4 d'"
        using run4 by (auto split: if_splits bind_splits dest!: keeps_AuProcessClockedFlows dest: confined_return intro!: confined_put)
      with c4 show ?thesis by (rule confined_trans)
    qed (use run2 c2 in \<open>auto dest: confined_return intro: confined_trans\<close>)
  qed (use run True d1 c1 in \<open>auto simp: ProcAuSetElementParameters_def dest: confined_return intro: confined_trans\<close>)
qed (use run in \<open>simp add: ProcAuSetElementParameters_def bad_length_def\<close>)

lemma keeps_restart_port: "restart_port fuel p s = Some s' \<Longrightarrow> surroundings s' = surroundings s"
  by (auto simp: restart_port_def split: bind_splits if_splits dest!: keeps_AuChangeElementState)

lemma confined_write_trivial: "write_trivial rq r num t n d = Some (st, d') \<Longrightarrow> confined rq d d'"
  by (auto simp: write_trivial_def confined_simps split: if_splits bind_splits dest!: keeps_update intro!: confined_intros)

lemma confined_write_port: "write_port fuel rq r num t n d = Some (st, d') \<Longrightarrow> confined rq d d'"
  by (auto simp: write_port_def confined_simps split: if_splits bind_splits dest!: keeps_restart_port intro!: confined_intros)

lemma confined_WriteElement: "ProcAuWriteElement env rq d = Some (st, d') \<Longrightarrow> confined rq d d'"
  by (auto simp: ProcAuWriteElement_def confined_simps split: if_splits bind_splits option.splits
      dest!: confined_write_trivial confined_write_port intro!: confined_intros)

lemma confined_read_trivial: "read_trivial rq r num n d = Some (st, d') \<Longrightarrow> confined rq d d'"
  by (auto simp: read_trivial_def confined_simps split: if_splits bind_splits dest!: keeps_update intro!: confined_intros)

lemma confined_read_port: "read_port fuel rq r num n d = Some (st, d') \<Longrightarrow> confined rq d d'"
  by (auto simp: read_port_def confined_simps split: if_splits bind_splits dest!: keeps_restart_port intro!: confined_intros)

lemma confined_ReadElement: "ProcAuReadElement env rq d = Some (st, d') \<Longrightarrow> confined rq d d'"
  by (auto simp: ProcAuReadElement_def confined_simps split: if_splits bind_splits option.splits
      dest!: confined_read_trivial confined_read_port intro!: confined_intros)

lemma confined_GetServerTime: "ProcAuGetServerTime env rq d = Some (st, d') \<Longrightarrow> confined rq d d'"
  by (auto simp: ProcAuGetServerTime_def confined_simps split: if_splits bind_splits intro!: confined_intros)

lemma confined_GetCloseDownMode: "ProcAuGetCloseDownMode env rq d = Some (st, d') \<Longrightarrow> confined rq d d'"
  by (auto simp: ProcAuGetCloseDownMode_def confined_simps split: if_splits bind_splits intro!: confined_intros)

lemma put_own_fold:
  "put_server ((di_server d)\<lparr>sv_clients := (sv_clients (di_server d))(rq_client rq \<mapsto> cl)\<rparr>) d = put_own cl rq d"
  by (simp add: put_own_def)

lemma confined_SetCloseDownMode: "ProcAuSetCloseDownMode env rq d = Some (st, d') \<Longrightarrow> confined rq d d'"
  by (auto simp: ProcAuSetCloseDownMode_def confined_simps put_own_fold same_client_def valid_mode_def
      split: if_splits bind_splits intro!: confined_intros)

lemma confined_rest:
  "ProcAuNoOperation env rq d = Some (st, d') \<Longrightarrow> confined rq d d'"
  "ProcAuNotImplemented env rq d = Some (st, d') \<Longrightarrow> confined rq d d'"
  by (auto simp: ProcAuNoOperation_def ProcAuNotImplemented_def confined_simps intro!: confined_intros)

end
