(* ===== verification/Clients.thy ===== *)
theory Clients
  imports Client_Frame
begin

text \<open>
  The clients of the server and its main loop (\<^verbatim>\<open>server/dia/dispatch.c\<close>): how clients come and go, the table of requests
  (\<^verbatim>\<open>autables.c\<close>), \<open>ProcAuKillClient\<close> and the answers of \<^verbatim>\<open>audispatch.c\<close> to connections and errors.

  A client is its index in the array \<^verbatim>\<open>clients\<close>, which is \<open>sv_clients\<close>. What the loop waits for is a list of events; sockets and
  buffers (\<^verbatim>\<open>server/os\<close>) are not modelled, nor are clients of the other byte order.
\<close>

section \<open>State\<close>

text \<open>
  \<open>dx_established\<close>: \<^verbatim>\<open>client->requestVector\<close> is no longer \<^verbatim>\<open>InitialVector\<close>. \<open>dx_exception\<close>: \<^verbatim>\<open>client->noClientException\<close> is -1.
  \<open>dx_dangling\<close>: the entry of \<^verbatim>\<open>clients\<close> points to freed memory.
\<close>

record dix =
  dx_dispatch :: dispatch
  dx_established :: "nat \<Rightarrow> bool"
  dx_exception :: "nat \<Rightarrow> bool"
  dx_dangling :: "nat \<Rightarrow> bool"
  dx_nextFreeClientID :: nat
  dx_nClients :: int
  dx_currentMaxClients :: nat
  dx_dispatchException :: u8
  dx_terminateAtReset :: bool

abbreviation (input) DE_RESET :: u8 where "DE_RESET \<equiv> 1"
abbreviation (input) DE_TERMINATE :: u8 where "DE_TERMINATE \<equiv> 2"

definition client_of :: "nat \<Rightarrow> dix \<Rightarrow> client option" where
  "client_of c x = sv_clients (di_server (dx_dispatch x)) c"

definition set_client :: "nat \<Rightarrow> client option \<Rightarrow> dix \<Rightarrow> dix" where
  "set_client c cl x = (let d = dx_dispatch x; s = di_server d in
     x\<lparr>dx_dispatch := d\<lparr>di_server := s\<lparr>sv_clients := (sv_clients s)(c := cl)\<rparr>\<rparr>, dx_dangling := (dx_dangling x)(c := False)\<rparr>)"

definition used :: "dix \<Rightarrow> nat \<Rightarrow> bool" where
  "used x c \<longleftrightarrow> client_of c x \<noteq> None \<or> dx_dangling x c"

definition put_resources :: "delete_func resources \<times> server \<Rightarrow> dix \<Rightarrow> dix" where
  "put_resources ts x = x\<lparr>dx_dispatch := put_server (snd ts) ((dx_dispatch x)\<lparr>di_table := fst ts\<rparr>)\<rparr>"

definition resources_of :: "dix \<Rightarrow> delete_func resources \<times> server" where
  "resources_of x = (di_table (dx_dispatch x), di_server (dx_dispatch x))"

section \<open>Closing clients\<close>

text \<open>\<^verbatim>\<open>while (!clients[currentMaxClients - 1]) currentMaxClients--;\<close>\<close>

fun shrink_clients :: "(nat \<Rightarrow> bool) \<Rightarrow> nat \<Rightarrow> nat option" where
  "shrink_clients us 0 = None"
| "shrink_clients us (Suc n) = (if us n then Some (Suc n) else shrink_clients us n)"

definition release_client :: "nat \<Rightarrow> nat \<Rightarrow> dix \<Rightarrow> dix option" where
  "release_client fuel c x =
     do { ts \<leftarrow> FreeClientResources (delete_resource fuel) (Some c) (resources_of x);
          let x = put_resources ts x;
          Some (set_client c None (if c < dx_nextFreeClientID x then x\<lparr>dx_nextFreeClientID := c\<rparr> else x)) }"

definition CloseDownClient :: "nat \<Rightarrow> nat \<Rightarrow> dix \<Rightarrow> dix option" where
  "CloseDownClient fuel c x =
     do { cl \<leftarrow> client_of c x;
          x \<leftarrow> (if \<not> cl_clientGone cl then
                 let x = set_client c (Some (cl\<lparr>cl_clientGone := True\<rparr>)) x in
                 if cl_closeDownMode cl = AuCloseDownDestroy then
                   do { x \<leftarrow> release_client fuel c x;
                        let x = x\<lparr>dx_nClients := dx_nClients x - 1\<rparr>;
                        Some (if dx_nClients x = 0 \<and> dx_established x c then
                            x\<lparr>dx_dispatchException := dx_dispatchException x OR
                              (if dx_terminateAtReset x then DE_TERMINATE else DE_RESET)\<rparr>
                          else x) }
                 else Some (x\<lparr>dx_nClients := dx_nClients x - 1\<rparr>)
               else release_client fuel c x);
          n \<leftarrow> shrink_clients (used x) (dx_currentMaxClients x);
          Some (x\<lparr>dx_currentMaxClients := n\<rparr>) }"

lemma shrink_clients_le: "shrink_clients us n = Some m \<Longrightarrow> m \<le> n"
  by (induction n) (auto split: if_splits)

lemma release_client_max: "release_client fuel c x = Some x' \<Longrightarrow> dx_currentMaxClients x' = dx_currentMaxClients x"
  by (auto simp: release_client_def put_resources_def set_client_def Let_def split: bind_splits if_splits)

lemma CloseDownClient_max: "CloseDownClient fuel c x = Some x' \<Longrightarrow> dx_currentMaxClients x' \<le> dx_currentMaxClients x"
  by (auto simp: CloseDownClient_def Let_def set_client_def split: bind_splits if_splits
      dest!: release_client_max shrink_clients_le)

text \<open>
  The loop of \<open>KillAllClients\<close> and \<open>CloseDownRetainedResources\<close>, which closes those of the clients that \<open>P\<close> holds for. Its bound
  is read anew in every turn.
\<close>

function close_clients :: "(client \<Rightarrow> bool) \<Rightarrow> nat \<Rightarrow> nat \<Rightarrow> dix \<Rightarrow> dix option" where
  "close_clients P fuel i x =
     (if dx_currentMaxClients x \<le> i then Some x
      else do { x' \<leftarrow> (if used x i then do { cl \<leftarrow> client_of i x; if P cl then CloseDownClient fuel i x else Some x } else Some x);
                close_clients P fuel (Suc i) x' })"
  by auto

termination
  by (relation "measure (\<lambda>(P, fuel, i, x). dx_currentMaxClients x - i)")
    (auto split: if_splits bind_splits dest!: CloseDownClient_max)

declare close_clients.simps [simp del]

definition KillAllClients :: "nat \<Rightarrow> dix \<Rightarrow> dix option" where
  "KillAllClients fuel x = close_clients (\<lambda>cl. True) fuel 1 x"

definition CloseDownRetainedResources :: "nat \<Rightarrow> dix \<Rightarrow> dix option" where
  "CloseDownRetainedResources fuel x =
     close_clients (\<lambda>cl. cl_closeDownMode cl = AuCloseDownRetainTemporary \<and> cl_clientGone cl) fuel 1 x"

section \<open>New clients\<close>

definition clientAsMask :: "nat \<Rightarrow> u32" where
  "clientAsMask i = push_bit 22 (word_of_nat i)"

text \<open>\<open>junk\<close> is what the fresh record's \<^verbatim>\<open>errorValue\<close> happens to be.\<close>

definition InitClient :: "u32 \<Rightarrow> nat \<Rightarrow> dix \<Rightarrow> dix" where
  "InitClient junk i x = (set_client i (Some \<lparr>cl_index = i, cl_sequence = 0, cl_clientGone = False, cl_errorValue = junk,
       cl_closeDownMode = AuCloseDownDestroy\<rparr>) x)\<lparr>dx_established := (dx_established x)(i := False),
       dx_exception := (dx_exception x)(i := False)\<rparr>"

fun next_free :: "(nat \<Rightarrow> bool) \<Rightarrow> nat \<Rightarrow> nat \<Rightarrow> nat" where
  "next_free us 0 i = i"
| "next_free us (Suc n) i = (if us i then next_free us n (Suc i) else i)"

text \<open>The entry of a client whose record was freed again still points to it.\<close>

definition drop_client :: "nat \<Rightarrow> dix \<Rightarrow> dix" where
  "drop_client i x = (let x = set_client i None x in x\<lparr>dx_dangling := (dx_dangling x)(i := True)\<rparr>)"

text \<open>\<open>inserted\<close> tells whether \<^verbatim>\<open>InsertFakeRequest\<close> succeeds. The result is the new client.\<close>

definition NextAvailableClient :: "nat \<Rightarrow> u32 \<Rightarrow> bool \<Rightarrow> dix \<Rightarrow> (nat option \<times> dix) option" where
  "NextAvailableClient fuel junk inserted x =
     (let i = dx_nextFreeClientID x in
      if i = MAXCLIENTS then Some (None, x)
      else (case xalloc (di_table (dx_dispatch x)) of
         (False, t) \<Rightarrow> Some (None, set_client i None (put_resources (t, di_server (dx_dispatch x)) x))
       | (True, t) \<Rightarrow>
           do { let x = InitClient junk i (put_resources (t, di_server (dx_dispatch x)) x);
                (ok, t) \<leftarrow> InitClientResources NoopDDA i (clientAsMask i) False (di_table (dx_dispatch x));
                let x = put_resources (t, di_server (dx_dispatch x)) x;
                (if \<not> ok then Some (None, drop_client i x)
                 else if \<not> inserted then
                   do { ts \<leftarrow> FreeClientResources (delete_resource fuel) (Some i) (resources_of x);
                        Some (None, drop_client i (put_resources ts x)) }
                 else (let x = (if i = dx_currentMaxClients x then x\<lparr>dx_currentMaxClients := Suc i\<rparr> else x)
                       in Some (Some i, x\<lparr>dx_nextFreeClientID := next_free (used x) (MAXCLIENTS - i) i\<rparr>))) }))"

section \<open>Setting up a connection\<close>

text \<open>What \<open>AuInitSetupReply\<close> and the driver's \<^verbatim>\<open>AuInitDevice\<close> leave for the answers; \<open>su_len\<close> is the size of the lists.\<close>

record setup_reply =
  su_len :: u32
  su_vendor :: bytes
  su_formats :: bytes
  su_elementTypes :: bytes
  su_waveForms :: bytes
  su_actions :: bytes
  su_devices :: "nat list"
  su_buckets :: "nat list"

abbreviation (input) sizeof_auConnSetup :: nat where "sizeof_auConnSetup \<equiv> 28"

definition setup_length :: "setup_reply \<Rightarrow> u16" where
  "setup_length su = ucast (units (word_of_nat sizeof_auConnSetup + scast (su_len su) + ucast (PAD4 (word_of_nat (length (su_vendor su))))))"

fun setup_devices :: "driver \<Rightarrow> request \<Rightarrow> nat list \<Rightarrow> dispatch \<Rightarrow> dispatch option" where
  "setup_devices drv rq [] d = Some d"
| "setup_devices drv rq (r # rs) d =
     do { c \<leftarrow> get_comp r (di_server d);
          let c = fetch_gains drv c;
          setup_devices drv rq rs (write_client rq (device_data c) (put_server (put_comp r c (di_server d)) d)) }"

fun setup_buckets :: "request \<Rightarrow> nat list \<Rightarrow> dispatch \<Rightarrow> dispatch option" where
  "setup_buckets rq [] d = Some d"
| "setup_buckets rq (r # rs) d = do { c \<leftarrow> get_comp r (di_server d); setup_buckets rq rs (write_client rq (bucket_data c) d) }"

definition AuSendInitResponse :: "setup_reply \<Rightarrow> handler" where
  "AuSendInitResponse su env rq d =
     do { cl \<leftarrow> the_client rq d;
          let d = write_client rq [SetupPrefix True 0 (setup_length su), Setup (clientAsMask (cl_index cl)), Data (su_vendor su),
            Data (su_formats su), Data (su_elementTypes su), Data (su_waveForms su), Data (su_actions su)] d;
          d \<leftarrow> setup_devices (de_driver env) rq (su_devices su) d;
          d \<leftarrow> setup_buckets rq (su_buckets su) d;
          Some (NoClientException, d) }"

text \<open>
  \<open>authorized\<close> is \<^verbatim>\<open>ClientAuthorized\<close>: the reason for which a client is refused, if it is, given the name and the data of its
  authorization protocol. \<^verbatim>\<open>WriteToClient\<close> pads what it writes, and the padding written behind the reason is padded again.
\<close>

definition refusal :: "(bytes \<Rightarrow> bytes \<Rightarrow> bytes option) \<Rightarrow> bytes \<Rightarrow> bytes option option" where
  "refusal authorized b =
     do { major \<leftarrow> ld16 b 6; np \<leftarrow> ld16 b 10; ns \<leftarrow> ld16 b 12;
          (if major \<noteq> 2 then Some (Some (map (\<lambda>ch. of_char ch) ''Protocol version mismatch''))
           else do { proto \<leftarrow> load b 16 (unat np);
                     str \<leftarrow> load b (16 + unat (PAD4 (ucast np))) (unat ns);
                     Some (authorized proto str) }) }"

definition ProcEstablishConnection :: "setup_reply \<Rightarrow> (bytes \<Rightarrow> bytes \<Rightarrow> bytes option) \<Rightarrow> dispatch_env \<Rightarrow> request \<Rightarrow> dix \<Rightarrow>
    (request_status \<times> dix) option" where
  "ProcEstablishConnection su authorized env rq x =
     (let c = rq_client rq in
      do { reason \<leftarrow> refusal authorized (rq_buffer rq);
           (case reason of
              Some r \<Rightarrow>
                let n = word_of_nat (length r) :: u8;
                    pad = (if n AND 3 \<noteq> 0 then [Data (fresh_bytes (de_compile env) (4 - unat (n AND 3)))] else [])
                in Some (NoClientException, x\<lparr>dx_dispatch := write_client rq (SetupPrefix False n (drop_bit 2 (ucast n + 3)) #
                     Data (take (unat n) r) # pad) (dx_dispatch x), dx_exception := (dx_exception x)(c := True)\<rparr>)
            | None \<Rightarrow>
                do { cl \<leftarrow> client_of c x;
                     let x = (set_client c (Some (cl\<lparr>cl_sequence := 0\<rparr>)) x)\<lparr>dx_nClients := dx_nClients x + 1,
                       dx_established := (dx_established x)(c := True)\<rparr>;
                     (st, d) \<leftarrow> AuSendInitResponse su env rq (dx_dispatch x);
                     Some (st, x\<lparr>dx_dispatch := d\<rparr>) }) })"


section \<open>The table of requests\<close>

text \<open>
  \<^verbatim>\<open>AuProcVector\<close> with its entries filled in by \<^verbatim>\<open>AuInitProcVectors\<close>. The requests \<^verbatim>\<open>autables.c\<close> names but does not implement
  are \<open>ProcAuNotImplemented\<close>.
\<close>

datatype procedure = Proc handler | KillClient

definition ProcBadRequest :: handler where
  "ProcBadRequest env rq d = Some (Returns 1, d)"

definition procedures :: "procedure list" where
  "procedures = map Proc [ProcAuNotImplemented, ProcAuListDevices, ProcAuGetDeviceAttributes, ProcAuSetDeviceAttributes,
       ProcAuCreateBucket, ProcAuDestroyBucket, ProcAuListBuckets, ProcAuGetBucketAttributes, ProcAuNotImplemented,
       ProcAuNotImplemented, ProcAuNotImplemented, ProcAuNotImplemented, ProcAuNotImplemented, ProcAuNotImplemented,
       ProcAuCreateFlow, ProcAuDestroyFlow, ProcAuNotImplemented, ProcAuNotImplemented, ProcAuGetElements, ProcAuSetElements,
       ProcAuGetElementStates, ProcAuSetElementStates, ProcAuNotImplemented, ProcAuSetElementParameters, ProcAuWriteElement,
       ProcAuReadElement, ProcAuNotImplemented, ProcAuNotImplemented, ProcAuNotImplemented, ProcAuNotImplemented,
       ProcAuNotImplemented, ProcAuNotImplemented, ProcAuNotImplemented, ProcAuGetCloseDownMode, ProcAuSetCloseDownMode] @
     [KillClient] @ map Proc [ProcAuGetServerTime, ProcAuNoOperation]"

definition AuProcVector :: "u8 \<Rightarrow> procedure" where
  "AuProcVector op = (if unat op < length procedures then procedures ! unat op else Proc ProcBadRequest)"

text \<open>The number 0 asks for all clients that are gone and retained their resources temporarily.\<close>

definition ProcAuKillClient :: "nat \<Rightarrow> request \<Rightarrow> dix \<Rightarrow> (request_status \<times> dix) option" where
  "ProcAuKillClient fuel rq x =
     (if \<not> size_match 8 rq then Some (Returns AuBadLength, x)
      else do { i \<leftarrow> ld32 (rq_buffer rq) 4;
                (if i = ucast AuCloseDownDestroy then do { x \<leftarrow> CloseDownRetainedResources fuel x; Some (NoClientException, x) }
                 else do { v \<leftarrow> LookupIDByClass i RC_ANY (di_table (dx_dispatch x));
                           let c = CLIENT_ID i;
                           live \<leftarrow> (if c \<noteq> 0 \<and> v \<noteq> None \<and> used x c \<and> i AND SERVER_BIT = 0 then
                                     (if dx_dangling x c then None else Some (dx_established x c)) else Some False);
                           (if live then
                              do { x \<leftarrow> CloseDownClient fuel c x;
                                   Some (if rq_client rq = c then Returns SuccessCode else NoClientException, x) }
                            else do { (st, d) \<leftarrow> AU_ERROR AuBadValue i rq (dx_dispatch x);
                                      Some (st, x\<lparr>dx_dispatch := d\<rparr>) }) }) })"

section \<open>The main loop\<close>

definition SendAuErrorToClient :: "request \<Rightarrow> u8 \<Rightarrow> u8 \<Rightarrow> dix \<Rightarrow> dix option" where
  "SendAuErrorToClient rq majorCode errorCode x =
     do { cl \<leftarrow> client_of (rq_client rq) x;
          Some (x\<lparr>dx_dispatch := write_client rq [ErrorReply (cl_sequence cl) errorCode majorCode (cl_errorValue cl)] (dx_dispatch x)\<rparr>) }"

definition call_request :: "dispatch_env \<Rightarrow> request \<Rightarrow> u8 \<Rightarrow> dix \<Rightarrow> (request_status \<times> dix) option" where
  "call_request env rq op x =
     (case AuProcVector op of
        Proc h \<Rightarrow> do { (st, d) \<leftarrow> h env rq (dx_dispatch x); Some (st, x\<lparr>dx_dispatch := d\<rparr>) }
      | KillClient \<Rightarrow> ProcAuKillClient (de_fuel env) rq x)"

text \<open>
  What follows a call: a result other than \<^verbatim>\<open>AuSuccess\<close> closes the client if it is marked, or is sent to it. The length of a
  request is compared with \<^verbatim>\<open>MAX_BIG_REQUEST_SIZE\<close>.
\<close>

definition finish_request :: "nat \<Rightarrow> request \<Rightarrow> u8 \<Rightarrow> request_status \<Rightarrow> dix \<Rightarrow> dix option" where
  "finish_request fuel rq op st x =
     (let c = rq_client rq; e = (case st of Returns e \<Rightarrow> e | NoClientException \<Rightarrow> if dx_exception x c then - 1 else 0) in
      if e = SuccessCode then Some x
      else if dx_exception x c then CloseDownClient fuel c x else SendAuErrorToClient rq op e x)"

definition serve_request :: "dispatch_env \<Rightarrow> request \<Rightarrow> dix \<Rightarrow> dix option" where
  "serve_request env rq x =
     do { cl \<leftarrow> client_of (rq_client rq) x;
          op \<leftarrow> ld8 (rq_buffer rq) 0;
          let x = set_client (rq_client rq) (Some (cl\<lparr>cl_sequence := cl_sequence cl + 1\<rparr>)) x;
          (st, x) \<leftarrow> (if 1048575 < rq_len rq then Some (Returns AuBadLength, x) else call_request env rq op x);
          finish_request (de_fuel env) rq op st x }"

text \<open>
  What happens to the server: a connection, the request that sets it up, a request, an end of a connection, a failed write
  (\<^verbatim>\<open>MarkClientException\<close>), the delivery of events, and a turn of the audio clock, which the driver takes. A request is only
  read from a client that is not gone, and goes to \<^verbatim>\<open>AuProcVector\<close> once the client is established; anything else does not
  happen and changes nothing.
\<close>

datatype dix_event = Connect u32 bool | Establish request "bytes \<Rightarrow> bytes \<Rightarrow> bytes option" | Request request | Hangup nat |
  WriteFails nat | Deliver | Clock

definition connected :: "dix \<Rightarrow> nat \<Rightarrow> bool" where
  "connected x c \<longleftrightarrow> c \<noteq> 0 \<and> (\<exists>cl. client_of c x = Some cl \<and> \<not> cl_clientGone cl)"

fun dix_step :: "setup_reply \<Rightarrow> dispatch_env \<Rightarrow> dix_event \<Rightarrow> dix \<Rightarrow> dix option" where
  "dix_step su env (Connect junk inserted) x = map_option snd (NextAvailableClient (de_fuel env) junk inserted x)"
| "dix_step su env (Establish rq authorized) x =
     (if connected x (rq_client rq) \<and> \<not> dx_established x (rq_client rq) then
        do { cl \<leftarrow> client_of (rq_client rq) x;
             (st, x) \<leftarrow> ProcEstablishConnection su authorized env rq
               (set_client (rq_client rq) (Some (cl\<lparr>cl_sequence := cl_sequence cl + 1\<rparr>)) x);
             finish_request (de_fuel env) rq 2 st x }
      else Some x)"
| "dix_step su env (Request rq) x =
     (if connected x (rq_client rq) \<and> dx_established x (rq_client rq) then serve_request env rq x else Some x)"
| "dix_step su env (Hangup c) x = (if connected x c then CloseDownClient (de_fuel env) c x else Some x)"
| "dix_step su env (WriteFails c) x =
     (if connected x c then Some (x\<lparr>dx_exception := (dx_exception x)(c := True)\<rparr>) else Some x)"
| "dix_step su env Deliver x =
     do { s \<leftarrow> ProcessAudioEvents (di_server (dx_dispatch x)); Some (x\<lparr>dx_dispatch := put_server s (dx_dispatch x)\<rparr>) }"
| "dix_step su env Clock x =
     do { s \<leftarrow> AuProcessData (de_fuel env) (di_server (dx_dispatch x)); Some (x\<lparr>dx_dispatch := put_server s (dx_dispatch x)\<rparr>) }"

fun dix_run :: "setup_reply \<Rightarrow> dispatch_env \<Rightarrow> dix_event list \<Rightarrow> dix \<Rightarrow> dix option" where
  "dix_run su env [] x = Some x"
| "dix_run su env (ev # evs) x = do { x \<leftarrow> dix_step su env ev x; dix_run su env evs x }"

text \<open>The events are those that happen until the loop ends.\<close>

definition Dispatch :: "setup_reply \<Rightarrow> dispatch_env \<Rightarrow> dix_event list \<Rightarrow> dix \<Rightarrow> dix option" where
  "Dispatch su env evs x =
     do { x \<leftarrow> dix_run su env evs (x\<lparr>dx_nextFreeClientID := 1, dx_nClients := 0\<rparr>);
          x \<leftarrow> KillAllClients (de_fuel env) x;
          Some (x\<lparr>dx_dispatchException := dx_dispatchException x AND NOT DE_RESET\<rparr>) }"

section \<open>The clients over a run\<close>

text \<open>Clients that are established, and those that are not yet.\<close>

definition active :: "dix \<Rightarrow> nat set" where
  "active x = {c. connected x c \<and> dx_established x c}"

definition waiting :: "dix \<Rightarrow> nat set" where
  "waiting x = {c. connected x c \<and> \<not> dx_established x c}"

text \<open>A client's record has the client's own index and one of the three close-down modes.\<close>

definition clients_typed :: "dix \<Rightarrow> bool" where
  "clients_typed x \<longleftrightarrow> (\<forall>c cl. client_of c x = Some cl \<longrightarrow> cl_index cl = c \<and> valid_mode (cl_closeDownMode cl))"

text \<open>\<open>k\<close> is the number of clients that were closed before they were established.\<close>

definition dix_inv :: "dix \<Rightarrow> int \<Rightarrow> bool" where
  "dix_inv x k \<longleftrightarrow> clients_typed x \<and> client_of 0 x \<noteq> None \<and> finite {c. client_of c x \<noteq> None} \<and>
     dx_nextFreeClientID x \<le> MAXCLIENTS \<and> (\<forall>c < dx_nextFreeClientID x. used x c) \<and>
     (dx_nextFreeClientID x < MAXCLIENTS \<longrightarrow> client_of (dx_nextFreeClientID x) x = None) \<and>
     dx_nClients x + k = int (card (active x)) \<and>
     (\<forall>c cl. client_of c x = Some cl \<longrightarrow> c \<noteq> 0 \<longrightarrow> \<not> dx_established x c \<longrightarrow> cl_closeDownMode cl = AuCloseDownDestroy \<and> \<not> cl_clientGone cl)"

lemma finite_active: "finite {c. client_of c x \<noteq> None} \<Longrightarrow> finite (active x)"
  by (rule finite_subset [of _ "{c. client_of c x \<noteq> None}"]) (auto simp: active_def connected_def)

lemma client_of_set [simp]:
  "client_of c' (set_client c cl x) = (if c' = c then cl else client_of c' x)"
  "dx_dangling (set_client c cl x) = (dx_dangling x)(c := False)"
  "dx_established (set_client c cl x) = dx_established x"
  "dx_exception (set_client c cl x) = dx_exception x"
  "dx_nextFreeClientID (set_client c cl x) = dx_nextFreeClientID x"
  "dx_nClients (set_client c cl x) = dx_nClients x"
  "dx_currentMaxClients (set_client c cl x) = dx_currentMaxClients x"
  by (simp_all add: set_client_def client_of_def Let_def)

lemma put_resources_simps [simp]:
  "dx_dangling (put_resources ts x) = dx_dangling x"
  "dx_established (put_resources ts x) = dx_established x"
  "dx_nextFreeClientID (put_resources ts x) = dx_nextFreeClientID x"
  "dx_nClients (put_resources ts x) = dx_nClients x"
  "client_of c (put_resources ts x) = sv_clients (snd ts) c"
  by (simp_all add: put_resources_def client_of_def)

lemma client_of_updates [simp]:
  "client_of c (x\<lparr>dx_nClients := a\<rparr>) = client_of c x"
  "client_of c (x\<lparr>dx_nextFreeClientID := b\<rparr>) = client_of c x"
  "client_of c (x\<lparr>dx_currentMaxClients := b\<rparr>) = client_of c x"
  "client_of c (x\<lparr>dx_dispatchException := e\<rparr>) = client_of c x"
  "client_of c (x\<lparr>dx_established := f\<rparr>) = client_of c x"
  "client_of c (x\<lparr>dx_exception := f\<rparr>) = client_of c x"
  "client_of c (x\<lparr>dx_dangling := f\<rparr>) = client_of c x"
  by (simp_all add: client_of_def)

lemma keeps_delete_all: "delete_all (delete_resource fuel) t rs s = Some s' \<Longrightarrow> surroundings s' = surroundings s"
  by (induction rs arbitrary: s) (auto split: bind_splits dest!: keeps_run_delete)

lemma clients_of_surroundings: "surroundings s' = surroundings s \<Longrightarrow> sv_clients s' = sv_clients s"
  by (simp add: surroundings_def)

lemma FreeClientResources_clients:
  "FreeClientResources (delete_resource fuel) c (t, s) = Some (t', s') \<Longrightarrow> sv_clients s' = sv_clients s"
  by (auto simp: FreeClientResources_def Let_def split: option.splits bind_splits
      dest!: keeps_delete_all clients_of_surroundings)

text \<open>What closing does to the array and to the numbers.\<close>

lemma release_client_effect:
  assumes "release_client fuel c x = Some x'"
  shows "(\<forall>c'. client_of c' x' = (if c' = c then None else client_of c' x)) \<and> dx_dangling x' = (dx_dangling x)(c := False) \<and>
    dx_established x' = dx_established x \<and> dx_nClients x' = dx_nClients x \<and>
    dx_nextFreeClientID x' = min c (dx_nextFreeClientID x)"
proof -
  obtain ts where ts: "FreeClientResources (delete_resource fuel) (Some c) (resources_of x) = Some ts"
      "x' = set_client c None (if c < dx_nextFreeClientID (put_resources ts x) then (put_resources ts x)\<lparr>dx_nextFreeClientID := c\<rparr>
         else put_resources ts x)"
    using assms by (auto simp: release_client_def Let_def split: bind_splits)
  have "sv_clients (snd ts) = sv_clients (di_server (dx_dispatch x))"
    using ts(1) FreeClientResources_clients by (cases ts) (simp add: resources_of_def)
  then have "client_of c' (put_resources ts x) = client_of c' x" for c' by (simp add: put_resources_def client_of_def)
  then show ?thesis by (auto simp: ts(2) min_def simp del: put_resources_simps(5))
qed

lemma CloseDownClient_effect:
  assumes run: "CloseDownClient fuel c x = Some x'" and cl: "client_of c x = Some cl"
  defines "keep \<equiv> \<not> cl_clientGone cl \<and> cl_closeDownMode cl \<noteq> AuCloseDownDestroy"
  shows "client_of c' x' = (if c' = c then (if keep then Some (cl\<lparr>cl_clientGone := True\<rparr>) else None) else client_of c' x)"
    "dx_dangling x' = (dx_dangling x)(c := False)" "dx_established x' = dx_established x"
    "dx_nClients x' = dx_nClients x - (if cl_clientGone cl then 0 else 1)"
    "dx_nextFreeClientID x' = (if keep then dx_nextFreeClientID x else min c (dx_nextFreeClientID x))"
proof -
  have "\<exists>m. dx_currentMaxClients x' = m \<and>
      client_of c' x' = (if c' = c then (if keep then Some (cl\<lparr>cl_clientGone := True\<rparr>) else None) else client_of c' x) \<and>
      dx_dangling x' = (dx_dangling x)(c := False) \<and> dx_established x' = dx_established x \<and>
      dx_nClients x' = dx_nClients x - (if cl_clientGone cl then 0 else 1) \<and>
      dx_nextFreeClientID x' = (if keep then dx_nextFreeClientID x else min c (dx_nextFreeClientID x))"
    using run cl
    by (auto simp: CloseDownClient_def keep_def Let_def split: bind_splits if_splits dest!: release_client_effect)
  then show "client_of c' x' = (if c' = c then (if keep then Some (cl\<lparr>cl_clientGone := True\<rparr>) else None) else client_of c' x)"
    "dx_dangling x' = (dx_dangling x)(c := False)" "dx_established x' = dx_established x"
    "dx_nClients x' = dx_nClients x - (if cl_clientGone cl then 0 else 1)"
    "dx_nextFreeClientID x' = (if keep then dx_nextFreeClientID x else min c (dx_nextFreeClientID x))"
    by blast+
qed

text \<open>Steps that open and close no client.\<close>

definition evolves :: "bool \<Rightarrow> client \<Rightarrow> client \<Rightarrow> bool" where
  "evolves est a b \<longleftrightarrow> cl_clientGone b = cl_clientGone a \<and> cl_index b = cl_index a \<and>
     (cl_closeDownMode b = cl_closeDownMode a \<or> est \<and> valid_mode (cl_closeDownMode b))"

lemma evolves_refl [simp]: "evolves est a a"
  by (simp add: evolves_def)

definition alike :: "dix \<Rightarrow> dix \<Rightarrow> bool" where
  "alike x x' \<longleftrightarrow> (\<forall>c. used x' c = used x c) \<and> dx_established x' = dx_established x \<and>
     dx_nextFreeClientID x' = dx_nextFreeClientID x \<and> dx_nClients x' = dx_nClients x \<and>
     (\<forall>c. rel_option (evolves (dx_established x c))
        (client_of c x) (client_of c x'))"

lemma alike_refl [simp]: "alike x x"
  by (auto simp: alike_def intro: option.rel_refl)

lemma alike_trans [trans]: "alike x y \<Longrightarrow> alike y z \<Longrightarrow> alike x z"
proof -
  assume xy: "alike x y" and yz: "alike y z"
  have "rel_option (evolves (dx_established x c))
        (client_of c x) (client_of c z)" for c
  proof -
    have 1: "rel_option (evolves (dx_established x c))
        (client_of c x) (client_of c y)" using xy by (auto simp: alike_def)
    have 2: "rel_option (evolves (dx_established x c))
        (client_of c y) (client_of c z)" using xy yz by (simp add: alike_def)
    from 1 2 show ?thesis by (cases "client_of c x"; cases "client_of c y"; cases "client_of c z") (auto simp: evolves_def)
  qed
  with xy yz show ?thesis by (simp add: alike_def)
qed

lemma alike_clients:
  assumes "alike x x'"
  shows "client_of c x' = None \<longleftrightarrow> client_of c x = None" "connected x' c = connected x c" "used x' c = used x c"
    "active x' = active x" "waiting x' = waiting x"
proof -
  have r: "rel_option (evolves (dx_established x c))
        (client_of c x) (client_of c x')" for c using assms by (simp add: alike_def)
  show 1: "client_of c x' = None \<longleftrightarrow> client_of c x = None" for c
    using r [of c] by (cases "client_of c x"; cases "client_of c x'") auto
  show 2: "connected x' c = connected x c" for c
    using r [of c] by (cases "client_of c x"; cases "client_of c x'") (auto simp: connected_def evolves_def)
  show "used x' c = used x c" using assms by (simp add: alike_def)
  show "active x' = active x" "waiting x' = waiting x" using 2 assms by (simp_all add: active_def waiting_def alike_def)
qed

lemma alike_inv: "alike x x' \<Longrightarrow> dix_inv x k \<Longrightarrow> dix_inv x' k"
proof -
  assume a: "alike x x'" and inv: "dix_inv x k"
  have "cl_closeDownMode cl = AuCloseDownDestroy \<and> \<not> cl_clientGone cl"
    if cl: "client_of c x' = Some cl" and c: "c \<noteq> 0" and new: "\<not> dx_established x' c" for c cl
  proof -
    have "rel_option (evolves (dx_established x c))
        (client_of c x) (client_of c x')" using a by (simp add: alike_def)
    moreover have est: "\<not> dx_established x c" using new a by (simp add: alike_def)
    ultimately obtain cl0 where "client_of c x = Some cl0" "cl_clientGone cl = cl_clientGone cl0"
        "cl_closeDownMode cl = cl_closeDownMode cl0"
      using cl est by (cases "client_of c x") (auto simp: evolves_def)
    then show ?thesis using inv c est by (simp add: dix_inv_def)
  qed
  moreover have "clients_typed x'"
    unfolding clients_typed_def
  proof (intro allI impI)
    fix c cl assume cl: "client_of c x' = Some cl"
    have "rel_option (evolves (dx_established x c)) (client_of c x) (client_of c x')" using a by (simp add: alike_def)
    with cl obtain cl0 where "client_of c x = Some cl0" "evolves (dx_established x c) cl0 cl" by (cases "client_of c x") auto
    then show "cl_index cl = c \<and> valid_mode (cl_closeDownMode cl)"
      using inv by (auto simp: dix_inv_def clients_typed_def evolves_def)
  qed
  moreover note alike_clients [OF a]
  ultimately show ?thesis using inv a unfolding dix_inv_def by (simp add: alike_def)
qed

lemma CloseDownClient_inv:
  assumes inv: "dix_inv x k" and c: "c \<noteq> 0" "client_of c x = Some cl" and run: "CloseDownClient fuel c x = Some x'"
  shows "dix_inv x' (k + (if c \<in> waiting x then 1 else 0))" "connected x' c' \<longleftrightarrow> connected x c' \<and> c' \<noteq> c"
    "active x' = active x - {c}" "waiting x' = waiting x - {c}"
proof -
  note e = CloseDownClient_effect [OF run c(2)]
  show con: "connected x' c' \<longleftrightarrow> connected x c' \<and> c' \<noteq> c" for c' by (auto simp: connected_def e(1))
  show act: "active x' = active x - {c}" and "waiting x' = waiting x - {c}"
    using con e(3) by (auto simp: active_def waiting_def)
  have fin: "finite (active x)" using inv by (intro finite_active) (simp add: dix_inv_def)
  have "dx_nClients x' + (k + (if c \<in> waiting x then 1 else 0)) = int (card (active x'))"
  proof (cases "cl_clientGone cl")
    case True
    then have "\<not> connected x c" using c(2) by (simp add: connected_def)
    then have "c \<notin> active x" "c \<notin> waiting x" by (auto simp: active_def waiting_def)
    then show ?thesis using inv act True e(4) by (simp add: dix_inv_def)
  next
    case False
    then have con: "connected x c" using c by (simp add: connected_def)
    show ?thesis
    proof (cases "dx_established x c")
      case True
      then have m: "c \<in> active x" "c \<notin> waiting x" using con by (auto simp: active_def waiting_def)
      then have "card (active x) > 0" using fin by (auto simp: card_gt_0_iff)
      then have "int (card (active x')) = int (card (active x)) - 1" using m fin act by (simp add: card_Diff_singleton)
      then show ?thesis using inv m False e(4) by (simp add: dix_inv_def)
    next
      case est: False
      then have m: "c \<notin> active x" "c \<in> waiting x" using con by (auto simp: active_def waiting_def)
      then show ?thesis using inv act False e(4) by (simp add: dix_inv_def)
    qed
  qed
  moreover have "finite {c. client_of c x' \<noteq> None}"
  proof (rule finite_subset)
    show "{c. client_of c x' \<noteq> None} \<subseteq> {c. client_of c x \<noteq> None}" using c(2) by (auto simp: e(1) split: if_splits)
    show "finite {c. client_of c x \<noteq> None}" using inv by (simp add: dix_inv_def)
  qed
  moreover have "\<forall>c' < dx_nextFreeClientID x'. used x' c'"
    using inv by (auto simp: dix_inv_def used_def e(1,2,5) split: if_splits)
  moreover have "dx_nextFreeClientID x' < MAXCLIENTS \<longrightarrow> client_of (dx_nextFreeClientID x') x' = None"
    using inv c(2) by (auto simp: dix_inv_def e(1,5) min_def split: if_splits)
  moreover have "dx_nextFreeClientID x' \<le> MAXCLIENTS" "client_of 0 x' \<noteq> None"
    using inv c(1) by (auto simp: dix_inv_def e(1,5))
  moreover have "\<forall>c' cl'. client_of c' x' = Some cl' \<longrightarrow> c' \<noteq> 0 \<longrightarrow> \<not> dx_established x' c' \<longrightarrow>
      cl_closeDownMode cl' = AuCloseDownDestroy \<and> \<not> cl_clientGone cl'"
    using inv c by (auto simp: dix_inv_def e(1,3) split: if_splits)
  moreover have "clients_typed x'"
    using inv c(2) by (auto simp: dix_inv_def clients_typed_def e(1) split: if_splits)
  ultimately show "dix_inv x' (k + (if c \<in> waiting x then 1 else 0))" unfolding dix_inv_def by blast
qed

lemma gone_not_waiting: "client_of c x = Some cl \<Longrightarrow> cl_clientGone cl \<Longrightarrow> c \<notin> active x \<and> c \<notin> waiting x"
  by (auto simp: active_def waiting_def connected_def)

text \<open>Closing the retained resources of clients that are gone.\<close>

lemma close_gone_inv:
  "close_clients P fuel i x = Some x' \<Longrightarrow> 0 < i \<Longrightarrow> (\<And>cl. P cl \<Longrightarrow> cl_clientGone cl) \<Longrightarrow> dix_inv x k \<Longrightarrow>
   dix_inv x' k \<and> active x' = active x \<and> waiting x' = waiting x \<and> (\<forall>c. connected x' c = connected x c)"
proof (induction P fuel i x rule: close_clients.induct)
  case (1 P fuel i x)
  show ?case
  proof (cases "dx_currentMaxClients x \<le> i")
    case False
    with 1(2) obtain x1 where x1: "(if used x i then do { cl \<leftarrow> client_of i x; if P cl then CloseDownClient fuel i x else Some x } else Some x) = Some x1"
        and rest: "close_clients P fuel (Suc i) x1 = Some x'"
      by (auto simp: close_clients.simps [of P fuel i x] split: bind_splits)
    have "dix_inv x1 k \<and> active x1 = active x \<and> waiting x1 = waiting x \<and> (\<forall>c. connected x1 c = connected x c)"
    proof (cases "x1 = x")
      case False
      then obtain cl where cl: "client_of i x = Some cl" "P cl" "CloseDownClient fuel i x = Some x1"
        using x1 by (auto split: if_splits bind_splits)
      note e = CloseDownClient_inv [OF 1(5) _ cl(1,3)] and g = gone_not_waiting [OF cl(1) 1(4) [OF cl(2)]]
      have "\<not> connected x i" using cl 1(4) by (simp add: connected_def)
      then show ?thesis using e g 1(3) by auto
    qed (use 1(5) in simp)
    moreover from this have "dix_inv x' k \<and> active x' = active x1 \<and> waiting x' = waiting x1 \<and> (\<forall>c. connected x' c = connected x1 c)"
      using 1(1) [OF False x1 rest] 1(4) by simp
    ultimately show ?thesis by simp
  qed (use 1 in \<open>simp add: close_clients.simps\<close>)
qed

lemma alike_put_resources: "sv_clients s = sv_clients (di_server (dx_dispatch x)) \<Longrightarrow> alike x (put_resources (t, s) x)"
  by (auto simp: alike_def used_def client_of_def put_resources_def intro: option.rel_refl)

lemma next_free_spec:
  "\<forall>c < i. us c \<Longrightarrow> i \<le> next_free us n i \<and> next_free us n i \<le> i + n \<and> (\<forall>c < next_free us n i. us c) \<and>
    (next_free us n i < i + n \<longrightarrow> \<not> us (next_free us n i))"
proof (induction n arbitrary: i)
  case (Suc n)
  show ?case
  proof (cases "us i")
    case True
    then have "\<forall>c < Suc i. us c" using Suc.prems less_Suc_eq by auto
    with Suc.IH [OF this] True show ?thesis by auto
  qed (use Suc.prems in auto)
qed simp

text \<open>A new client waits to be established; a failure leaves the others as they are.\<close>

definition opened :: "nat \<Rightarrow> dix \<Rightarrow> dix \<Rightarrow> bool" where
  "opened i x x' \<longleftrightarrow> (\<forall>c. c \<noteq> i \<longrightarrow> client_of c x' = client_of c x \<and> dx_dangling x' c = dx_dangling x c \<and>
     dx_established x' c = dx_established x c) \<and> dx_nClients x' = dx_nClients x \<and>
     (case client_of i x' of None \<Rightarrow> True | Some cl \<Rightarrow> cl_index cl = i \<and> \<not> cl_clientGone cl \<and> cl_closeDownMode cl = AuCloseDownDestroy \<and> \<not> dx_established x' i)"

lemma opened_inv:
  assumes o: "opened i x x'" and inv: "dix_inv x k" and i: "i = dx_nextFreeClientID x" "i < MAXCLIENTS"
    and free: "dx_nextFreeClientID x' \<le> MAXCLIENTS" "\<forall>c < dx_nextFreeClientID x'. used x' c"
      "dx_nextFreeClientID x' < MAXCLIENTS \<longrightarrow> client_of (dx_nextFreeClientID x') x' = None"
  shows "dix_inv x' k" "waiting x \<subseteq> waiting x'" "active x' = active x"
proof -
  have none: "client_of i x = None" using inv i by (simp add: dix_inv_def)
  then have "i \<noteq> 0" using inv unfolding dix_inv_def by metis
  have other: "connected x' c = connected x c" "dx_established x' c = dx_established x c" if "c \<noteq> i" for c
    using o that by (auto simp: opened_def connected_def)
  have "\<not> connected x i" "\<not> (connected x' i \<and> dx_established x' i)"
    using none o by (auto simp: connected_def opened_def)
  then show a: "active x' = active x" and "waiting x \<subseteq> waiting x'"
    using other by (auto simp: active_def waiting_def) (metis+)
  have "finite {c. client_of c x' \<noteq> None}"
  proof (rule finite_subset)
    show "{c. client_of c x' \<noteq> None} \<subseteq> insert i {c. client_of c x \<noteq> None}" using o by (auto simp: opened_def)
    show "finite (insert i {c. client_of c x \<noteq> None})" using inv by (simp add: dix_inv_def)
  qed
  moreover have "client_of 0 x' \<noteq> None" using o inv \<open>i \<noteq> 0\<close> by (auto simp: opened_def dix_inv_def)
  moreover have "cl_closeDownMode cl = AuCloseDownDestroy \<and> \<not> cl_clientGone cl"
    if "client_of c x' = Some cl" "c \<noteq> 0" "\<not> dx_established x' c" for c cl
    using that o inv by (cases "c = i") (auto simp: opened_def dix_inv_def)
  moreover have "clients_typed x'"
    unfolding clients_typed_def
  proof (intro allI impI)
    fix c cl assume "client_of c x' = Some cl"
    then show "cl_index cl = c \<and> valid_mode (cl_closeDownMode cl)"
      using o inv by (cases "c = i") (auto simp: opened_def dix_inv_def clients_typed_def valid_mode_def)
  qed
  ultimately show "dix_inv x' k" using inv free a o unfolding dix_inv_def by (auto simp: opened_def)
qed

lemma NextAvailableClient_inv:
  assumes run: "NextAvailableClient fuel junk inserted x = Some (r, x')" and inv: "dix_inv x k"
  shows "dix_inv x' k \<and> waiting x \<subseteq> waiting x'"
proof (cases "dx_nextFreeClientID x = MAXCLIENTS")
  case False
  define i where "i = dx_nextFreeClientID x"
  have i: "i = dx_nextFreeClientID x" "i < MAXCLIENTS" using False inv by (simp_all add: i_def dix_inv_def)
  have below: "\<forall>c < i. used x c" using inv i by (simp add: dix_inv_def)
  obtain ok t where t: "xalloc (di_table (dx_dispatch x)) = (ok, t)" by (cases "xalloc (di_table (dx_dispatch x))")
  have keep: "dix_inv x' k \<and> waiting x \<subseteq> waiting x'"
    if o: "opened i x x'" and n: "dx_nextFreeClientID x' = i" and f: "client_of i x' = None"
  proof -
    have "\<forall>c < dx_nextFreeClientID x'. used x' c" using o below n by (auto simp: used_def opened_def)
    then show ?thesis using opened_inv [OF o inv i] n f i by auto
  qed
  show ?thesis
  proof (cases ok)
    case False
    then have "x' = set_client i None (put_resources (t, di_server (dx_dispatch x)) x)"
      using run t \<open>dx_nextFreeClientID x \<noteq> MAXCLIENTS\<close> by (simp add: NextAvailableClient_def Let_def i_def)
    then show ?thesis by (intro keep) (auto simp: opened_def client_of_def [symmetric] i)
  next
    case True
    define x1 where "x1 = InitClient junk i (put_resources (t, di_server (dx_dispatch x)) x)"
    have x1: "opened i x x1" "dx_nextFreeClientID x1 = i" "client_of i x1 \<noteq> None" "\<not> dx_dangling x1 i"
      by (auto simp: opened_def x1_def InitClient_def client_of_def [symmetric] i)
    from run t True False obtain ok2 t2 where t2: "InitClientResources NoopDDA i (clientAsMask i) False (di_table (dx_dispatch x1)) = Some (ok2, t2)"
      by (auto simp: NextAvailableClient_def Let_def i_def x1_def split: bind_splits)
    define x2 where "x2 = put_resources (t2, di_server (dx_dispatch x1)) x1"
    have c2: "client_of c x2 = client_of c x1" for c by (simp add: x2_def client_of_def put_resources_def)
    have x2: "opened i x x2" "dx_nextFreeClientID x2 = i" "client_of i x2 \<noteq> None" "\<not> dx_dangling x2 i"
      using x1 c2 by (auto simp: opened_def x2_def simp del: put_resources_simps(5))
    have drop: "opened i x (drop_client i y)" "client_of i (drop_client i y) = None" "dx_nextFreeClientID (drop_client i y) = dx_nextFreeClientID y"
      if "opened i x y" for y using that by (auto simp: opened_def drop_client_def Let_def)
    from run t True False t2 have run2: "(if \<not> ok2 then Some (None, drop_client i x2)
       else if \<not> inserted then
         do { ts \<leftarrow> FreeClientResources (delete_resource fuel) (Some i) (resources_of x2);
              Some (None, drop_client i (put_resources ts x2)) }
       else (let x = (if i = dx_currentMaxClients x2 then x2\<lparr>dx_currentMaxClients := Suc i\<rparr> else x2)
             in Some (Some i, x\<lparr>dx_nextFreeClientID := next_free (used x) (MAXCLIENTS - i) i\<rparr>))) = Some (r, x')"
      unfolding x2_def x1_def i_def by (simp add: NextAvailableClient_def Let_def cong: if_cong)
    show ?thesis
    proof (cases "ok2 \<and> inserted")
      case True
      define y where "y = (if i = dx_currentMaxClients x2 then x2\<lparr>dx_currentMaxClients := Suc i\<rparr> else x2)"
      have x': "x' = y\<lparr>dx_nextFreeClientID := next_free (used y) (MAXCLIENTS - i) i\<rparr>"
        using run2 True by (simp add: Let_def y_def)
      have us: "used y = used x2" by (auto simp: fun_eq_iff y_def used_def)
      have "\<forall>c < i. used y c" using below x2(1) unfolding us by (auto simp: used_def opened_def)
      note nf = next_free_spec [OF this, of "MAXCLIENTS - i"]
      have o: "opened i x x'" using x2(1) by (auto simp: x' y_def opened_def split: option.splits)
      have us': "used x' = used y" by (auto simp: fun_eq_iff x' used_def)
      have "dx_nextFreeClientID x' < MAXCLIENTS \<longrightarrow> client_of (dx_nextFreeClientID x') x' = None"
      proof
        assume "dx_nextFreeClientID x' < MAXCLIENTS"
        then have "\<not> used x' (dx_nextFreeClientID x')" using nf i unfolding us' by (simp add: x')
        then show "client_of (dx_nextFreeClientID x') x' = None" by (simp add: used_def)
      qed
      then show ?thesis using opened_inv [OF o inv i] nf i unfolding us' by (simp add: x')
    next
      case False
      show ?thesis
      proof (cases ok2)
        case False
        then have "x' = drop_client i x2" using run2 by simp
        then show ?thesis using drop [OF x2(1)] x2(2) by (intro keep) simp_all
      next
        case True
        then obtain ts where ts: "FreeClientResources (delete_resource fuel) (Some i) (resources_of x2) = Some ts"
            "x' = drop_client i (put_resources ts x2)"
          using run2 \<open>\<not> (ok2 \<and> inserted)\<close> by (auto split: bind_splits)
        have "sv_clients (snd ts) = sv_clients (di_server (dx_dispatch x2))"
          using ts(1) FreeClientResources_clients by (cases ts) (simp add: resources_of_def)
        then have "client_of c (put_resources ts x2) = client_of c x2" for c by (simp add: client_of_def put_resources_def)
        then have o: "opened i x (put_resources ts x2)" using x2(1)
          by (auto simp: opened_def simp del: put_resources_simps(5) split: option.splits)
        then show ?thesis using drop [OF o] x2(2) ts(2) by (intro keep) simp_all
      qed
    qed
  qed
qed (use run inv in \<open>simp add: NextAvailableClient_def\<close>)

text \<open>Requests.\<close>

lemma same_client_fields:
  "same_client cl cl' \<Longrightarrow> cl_clientGone cl' = cl_clientGone cl \<and> cl_index cl' = cl_index cl \<and> cl_sequence cl' = cl_sequence cl \<and>
    (cl_closeDownMode cl' = cl_closeDownMode cl \<or> valid_mode (cl_closeDownMode cl'))"
  by (cases cl; cases cl') (simp add: same_client_def)

lemma alike_dispatch:
  assumes "confined rq (dx_dispatch x) d'" and "dx_established x (rq_client rq)"
  shows "alike x (x\<lparr>dx_dispatch := d'\<rparr>)"
proof -
  have "rel_option (evolves (dx_established x c))
      (client_of c x) (client_of c (x\<lparr>dx_dispatch := d'\<rparr>))" for c
  proof (cases "c = rq_client rq")
    case True
    have "rel_option same_client (client_of c x) (client_of c (x\<lparr>dx_dispatch := d'\<rparr>))"
      using assms(1) True by (simp add: confined_def client_of_def the_client_def)
    then show ?thesis
      by (rule option.rel_mono_strong) (auto simp: True assms(2) evolves_def dest: same_client_fields)
  next
    case False
    then have "client_of c (x\<lparr>dx_dispatch := d'\<rparr>) = client_of c x" using assms(1) by (simp add: confined_def client_of_def)
    then show ?thesis by (simp add: option.rel_refl)
  qed
  note rel = this
  have "client_of c (x\<lparr>dx_dispatch := d'\<rparr>) = None \<longleftrightarrow> client_of c x = None" for c
    using rel [of c] by (cases "client_of c x"; cases "client_of c (x\<lparr>dx_dispatch := d'\<rparr>)") auto
  then show ?thesis using rel by (simp add: alike_def used_def)
qed

lemma alike_sequence:
  "client_of c x = Some cl \<Longrightarrow> alike x (set_client c (Some (cl\<lparr>cl_sequence := n\<rparr>)) x)"
  by (auto simp: alike_def used_def evolves_def intro: option.rel_refl)

lemma AuProcVector_confined:
  assumes "AuProcVector op = Proc h" and "h env rq d = Some (st, d')"
  shows "confined rq d d'"
proof -
  have "list_all (\<lambda>p. case p of Proc h \<Rightarrow> \<forall>env rq d st d'. h env rq d = Some (st, d') \<longrightarrow> confined rq d d' | KillClient \<Rightarrow> True) procedures"
    by (simp add: procedures_def) (intro conjI allI impI; erule confined_ListDevices confined_GetDeviceAttributes
      confined_SetDeviceAttributes confined_CreateBucket confined_DestroyBucket confined_ListBuckets confined_GetBucketAttributes
      confined_CreateFlow confined_DestroyFlow confined_GetElements confined_SetElements confined_GetElementStates
      confined_SetElementStates confined_SetElementParameters confined_WriteElement confined_ReadElement confined_GetServerTime
      confined_GetCloseDownMode confined_SetCloseDownMode confined_rest)
  moreover have "confined rq d d'" if "ProcBadRequest env rq d = Some (st, d')" using that by (simp add: ProcBadRequest_def)
  ultimately show ?thesis
    using assms unfolding AuProcVector_def list_all_length by (auto split: if_splits)
qed

lemma used_resources: "used (x\<lparr>dx_dispatch := d\<rparr>) c \<longleftrightarrow> sv_clients (di_server d) c \<noteq> None \<or> dx_dangling x c"
  by (simp add: used_def client_of_def)
text \<open>Steps that close no waiting client.\<close>

definition steady :: "dix \<Rightarrow> dix \<Rightarrow> bool" where
  "steady x x' \<longleftrightarrow> (\<forall>k. dix_inv x k \<longrightarrow> dix_inv x' k \<and> waiting x' = waiting x)"

lemma steady_refl [simp]: "steady x x"
  by (simp add: steady_def)

lemma steady_trans [trans]: "steady x y \<Longrightarrow> steady y z \<Longrightarrow> steady x z"
  unfolding steady_def by metis

lemma alike_steady: "alike x x' \<Longrightarrow> steady x x'"
  by (simp add: steady_def alike_inv alike_clients)

lemma close_steady:
  assumes "CloseDownClient fuel c x = Some x'" and "c \<noteq> 0" "c \<notin> waiting x"
  shows "steady x x'"
proof -
  obtain cl where "client_of c x = Some cl" using assms(1) by (auto simp: CloseDownClient_def split: bind_splits)
  then show ?thesis using CloseDownClient_inv [OF _ assms(2) _ assms(1)] assms(3) by (simp add: steady_def)
qed

lemma close_gone_steady:
  "close_clients P fuel i x = Some x' \<Longrightarrow> 0 < i \<Longrightarrow> (\<And>cl. P cl \<Longrightarrow> cl_clientGone cl) \<Longrightarrow> steady x x'"
  using close_gone_inv by (simp add: steady_def)

lemma kill_steady:
  assumes run: "ProcAuKillClient fuel rq x = Some (st, x')" and est: "dx_established x (rq_client rq)"
  shows "steady x x'"
proof (cases "size_match 8 rq")
  case True
  with run obtain i where i: "ld32 (rq_buffer rq) 4 = Some i" by (auto simp: ProcAuKillClient_def split: bind_splits)
  show ?thesis
  proof (cases "i = 0")
    case True
    with run i \<open>size_match 8 rq\<close> have "CloseDownRetainedResources fuel x = Some x'"
      by (auto simp: ProcAuKillClient_def split: bind_splits)
    then show ?thesis unfolding CloseDownRetainedResources_def by (rule close_gone_steady) simp_all
  next
    case False
    define c where "c = CLIENT_ID i"
    from run i True False obtain v live where "LookupIDByClass i RC_ANY (di_table (dx_dispatch x)) = Some v"
      and live: "(if c \<noteq> 0 \<and> v \<noteq> None \<and> used x c \<and> i AND SERVER_BIT = 0 then
                   (if dx_dangling x c then None else Some (dx_established x c)) else Some False) = Some live"
      and rest: "(if live then
                do { x \<leftarrow> CloseDownClient fuel c x; Some (if rq_client rq = c then Returns SuccessCode else NoClientException, x) }
              else do { (st, d) \<leftarrow> AU_ERROR AuBadValue i rq (dx_dispatch x); Some (st, x\<lparr>dx_dispatch := d\<rparr>) }) = Some (st, x')"
      unfolding c_def by (auto simp: ProcAuKillClient_def Let_def bind_eq_Some_conv)
    show ?thesis
    proof (cases live)
      case True
      then have "c \<noteq> 0" "dx_established x c" using live by (auto split: if_splits)
      moreover have "CloseDownClient fuel c x = Some x'" using rest True by (auto split: bind_splits)
      ultimately show ?thesis by (intro close_steady) (auto simp: waiting_def)
    next
      case False
      then obtain d' where "AU_ERROR AuBadValue i rq (dx_dispatch x) = Some (st, d')" "x' = x\<lparr>dx_dispatch := d'\<rparr>"
        using rest by (auto split: bind_splits)
      then show ?thesis using confined_AU_ERROR est by (auto intro!: alike_steady alike_dispatch)
    qed
  qed
qed (use run in \<open>simp add: ProcAuKillClient_def\<close>)

lemma call_steady:
  assumes "call_request env rq op x = Some (st, x')" and "dx_established x (rq_client rq)"
  shows "steady x x'"
proof (cases "AuProcVector op")
  case (Proc h)
  then obtain d' where "h env rq (dx_dispatch x) = Some (st, d')" "x' = x\<lparr>dx_dispatch := d'\<rparr>"
    using assms(1) by (auto simp: call_request_def split: bind_splits)
  then show ?thesis using AuProcVector_confined [OF Proc] assms(2) by (auto intro!: alike_steady alike_dispatch)
next
  case KillClient
  then show ?thesis using assms by (auto simp: call_request_def intro: kill_steady)
qed

lemma finish_steady:
  assumes run: "finish_request fuel rq op st x = Some x'" and c: "rq_client rq \<noteq> 0" "rq_client rq \<notin> waiting x"
  shows "steady x x'"
proof -
  have "steady x x'" if "SendAuErrorToClient rq op e x = Some x'" for e
  proof -
    have "alike x (x\<lparr>dx_dispatch := write_client rq rs (dx_dispatch x)\<rparr>)" for rs
      by (auto simp: alike_def client_of_def used_def intro: option.rel_refl)
    then show ?thesis using that by (auto simp: SendAuErrorToClient_def intro: alike_steady split: bind_splits)
  qed
  moreover have "steady x x'" if "CloseDownClient fuel (rq_client rq) x = Some x'" using close_steady [OF that c] .
  ultimately show ?thesis using run by (auto simp: finish_request_def Let_def split: if_splits request_status.splits)
qed

lemma serve_steady:
  assumes run: "serve_request env rq x = Some x'" and con: "connected x (rq_client rq)" "dx_established x (rq_client rq)"
  shows "steady x x'"
proof -
  obtain cl op where cl: "client_of (rq_client rq) x = Some cl" "ld8 (rq_buffer rq) 0 = Some op"
    using run by (auto simp: serve_request_def split: bind_splits)
  define y where "y = set_client (rq_client rq) (Some (cl\<lparr>cl_sequence := cl_sequence cl + 1\<rparr>)) x"
  obtain st z where z: "(if 1048575 < rq_len rq then Some (Returns AuBadLength, y) else call_request env rq op y) = Some (st, z)"
      "finish_request (de_fuel env) rq op st z = Some x'"
    using run cl unfolding y_def by (auto simp: serve_request_def Let_def bind_eq_Some_conv)
  have xy: "steady x y" unfolding y_def using alike_sequence [OF cl(1)] by (rule alike_steady)
  have "steady y z" using z(1) con(2) call_steady by (auto simp: y_def split: if_splits)
  with xy have xz: "steady x z" by (rule steady_trans)
  have "rq_client rq \<noteq> 0" "rq_client rq \<notin> waiting x" using con by (auto simp: connected_def waiting_def)
  then have "steady z x'" if "dix_inv x k" for k using finish_steady [OF z(2)] xz that by (auto simp: steady_def)
  then show ?thesis using xz by (auto simp: steady_def)
qed

text \<open>Clients closed before they were established: refused ones, and ones that hang up.\<close>

fun closes_early :: "setup_reply \<Rightarrow> dispatch_env \<Rightarrow> dix_event \<Rightarrow> dix \<Rightarrow> nat" where
  "closes_early su env (Establish rq authorized) x =
     (case dix_step su env (Establish rq authorized) x of
        None \<Rightarrow> 0
      | Some x' \<Rightarrow> if rq_client rq \<in> waiting x \<and> \<not> dx_established x' (rq_client rq) then 1 else 0)"
| "closes_early su env (Hangup c) x = (if c \<in> waiting x then 1 else 0)"
| "closes_early su env _ x = 0"

fun early_closings :: "setup_reply \<Rightarrow> dispatch_env \<Rightarrow> dix_event list \<Rightarrow> dix \<Rightarrow> nat" where
  "early_closings su env [] x = 0"
| "early_closings su env (ev # evs) x =
     closes_early su env ev x + (case dix_step su env ev x of None \<Rightarrow> 0 | Some x' \<Rightarrow> early_closings su env evs x')"

lemma setup_devices_keeps: "setup_devices drv rq rs d1 = Some d' \<Longrightarrow> confined rq d d1 \<Longrightarrow> confined rq d d'"
proof (induction rs arbitrary: d1)
  case (Cons r rs)
  then obtain c where "get_comp r (di_server d1) = Some c"
      and rest: "setup_devices drv rq rs (write_client rq (device_data (fetch_gains drv c))
        (put_server (put_comp r (fetch_gains drv c) (di_server d1)) d1)) = Some d'"
    by (auto simp: Let_def split: bind_splits)
  show ?case by (rule Cons.IH [OF rest]) (auto intro!: confined_intros Cons.prems)
qed simp

lemma setup_buckets_keeps: "setup_buckets rq rs d1 = Some d' \<Longrightarrow> confined rq d d1 \<Longrightarrow> confined rq d d'"
  by (induction rs arbitrary: d1) (auto split: bind_splits intro!: confined_intros)

lemma AuSendInitResponse_confined: "AuSendInitResponse su env rq d = Some (st, d') \<Longrightarrow> confined rq d d'"
  by (auto simp: AuSendInitResponse_def Let_def split: bind_splits
      dest!: setup_devices_keeps [where d = d] setup_buckets_keeps [where d = d] intro!: confined_intros)

text \<open>A waiting client is established.\<close>

lemma establish_inv:
  assumes inv: "dix_inv x k" and c: "c \<in> waiting x" "client_of c x = Some cl"
    and y: "y = (set_client c (Some (cl\<lparr>cl_sequence := n\<rparr>)) x)\<lparr>dx_nClients := dx_nClients x + 1, dx_established := (dx_established x)(c := True)\<rparr>"
  shows "dix_inv y k" "c \<notin> waiting y"
proof -
  have con: "connected x c" "\<not> dx_established x c" "c \<noteq> 0" "\<not> cl_clientGone cl"
    using c by (auto simp: waiting_def connected_def)
  have cons: "connected y c' = connected x c'" for c' using c con by (auto simp: connected_def y)
  have "active y = insert c (active x)" using cons con by (auto simp: active_def y)
  moreover have "finite (active x)" using inv by (intro finite_active) (simp add: dix_inv_def)
  moreover have "c \<notin> active x" using con by (simp add: active_def)
  ultimately have "dx_nClients y + k = int (card (active y))" using inv by (simp add: dix_inv_def y)
  moreover have "{c. client_of c y \<noteq> None} = {c. client_of c x \<noteq> None}" using c by (auto simp: y)
  moreover have "used y c' = used x c'" for c' using c by (auto simp: used_def y)
  moreover have "clients_typed y" using inv c by (auto simp: dix_inv_def clients_typed_def y)
  ultimately show "dix_inv y k" using inv c con(3,4) unfolding dix_inv_def by (auto simp: y)
  show "c \<notin> waiting y" by (simp add: waiting_def y)
qed

lemma finish_established: "finish_request fuel rq op st x = Some x' \<Longrightarrow> dx_established x' = dx_established x"
proof -
  have "dx_established x' = dx_established x" if run: "CloseDownClient fuel c x = Some x'" for c
  proof -
    obtain cl where "client_of c x = Some cl" using run by (cases "client_of c x") (auto simp: CloseDownClient_def)
    then show ?thesis using CloseDownClient_effect(3) [OF run] by blast
  qed
  then show "finish_request fuel rq op st x = Some x' \<Longrightarrow> ?thesis"
    by (auto simp: finish_request_def Let_def SendAuErrorToClient_def split: if_splits request_status.splits bind_splits)
qed

lemma ProcEstablishConnection_accepts:
  assumes "ProcEstablishConnection su authorized env rq x = Some (st, x')" and "refusal authorized (rq_buffer rq) = Some None"
    and "client_of (rq_client rq) x = Some cl"
    and a: "a = (set_client (rq_client rq) (Some (cl\<lparr>cl_sequence := 0\<rparr>)) x)\<lparr>dx_nClients := dx_nClients x + 1,
      dx_established := (dx_established x)(rq_client rq := True)\<rparr>"
  shows "\<exists>d. AuSendInitResponse su env rq (dx_dispatch a) = Some (st, d) \<and> x' = a\<lparr>dx_dispatch := d\<rparr>"
  using assms(1-3) unfolding ProcEstablishConnection_def Let_def
  by (simp add: bind_eq_Some_conv flip: a) (auto simp: a)

lemma Establish_inv:
  assumes run: "dix_step su env (Establish rq authorized) x = Some x'" and inv: "dix_inv x k"
  shows "dix_inv x' (k + int (closes_early su env (Establish rq authorized) x))"
proof (cases "rq_client rq \<in> waiting x")
  case True
  define c where "c = rq_client rq"
  have con: "connected x c" "\<not> dx_established x c" "c \<noteq> 0" using True by (auto simp: waiting_def connected_def c_def)
  then obtain cl where cl: "client_of c x = Some cl" by (auto simp: connected_def)
  define y where "y = set_client c (Some (cl\<lparr>cl_sequence := cl_sequence cl + 1\<rparr>)) x"
  from run con cl obtain st z where z: "ProcEstablishConnection su authorized env rq y = Some (st, z)"
      and fin: "finish_request (de_fuel env) rq 2 st z = Some x'"
    unfolding y_def c_def by (auto simp: bind_eq_Some_conv)
  have xy: "alike x y" unfolding y_def by (rule alike_sequence [OF cl])
  have inv_y: "dix_inv y k" and w: "waiting y = waiting x" using alike_inv [OF xy inv] alike_clients [OF xy] by simp_all
  have cl_y: "client_of c y = Some (cl\<lparr>cl_sequence := cl_sequence cl + 1\<rparr>)" by (simp add: y_def)
  from z obtain reason where reason: "refusal authorized (rq_buffer rq) = Some reason"
    by (auto simp: ProcEstablishConnection_def Let_def bind_eq_Some_conv)
  show ?thesis
  proof (cases reason)
    case None
    define a where "a = (set_client c (Some (cl\<lparr>cl_sequence := 0\<rparr>)) y)\<lparr>dx_nClients := dx_nClients y + 1,
       dx_established := (dx_established y)(c := True)\<rparr>"
    obtain d where d: "AuSendInitResponse su env rq (dx_dispatch a) = Some (st, d)" "z = a\<lparr>dx_dispatch := d\<rparr>"
      using ProcEstablishConnection_accepts [OF z reason [unfolded None] cl_y [unfolded c_def] _] a_def unfolding c_def by fastforce
    have a: "dix_inv a k" "c \<notin> waiting a"
      using establish_inv [OF inv_y _ cl_y, of a 0] w True by (simp_all add: a_def c_def)
    have az: "alike a z" unfolding d(2)
      by (rule alike_dispatch [OF AuSendInitResponse_confined [OF d(1)]]) (simp add: a_def c_def)
    then have inv_z: "dix_inv z k" "c \<notin> waiting z" "dx_established z c"
      using alike_inv [OF az a(1)] alike_clients(5) [OF az] a(2) az by (simp_all add: alike_def a_def)
    have "steady z x'" using finish_steady [OF fin] con inv_z by (simp add: c_def)
    moreover have "dx_established x' c" using finish_established [OF fin] inv_z(3) by simp
    ultimately show ?thesis using inv_z(1) run by (simp add: steady_def c_def del: dix_step.simps)
  next
    case (Some r)
    from z Some obtain rs where zy: "st = NoClientException"
        "z = y\<lparr>dx_dispatch := write_client rq rs (dx_dispatch y), dx_exception := (dx_exception y)(c := True)\<rparr>"
      by (auto simp: ProcEstablishConnection_def Let_def reason c_def)
    then have yz: "alike y z" by (auto simp: alike_def client_of_def used_def intro: option.rel_refl)
    have inv_z: "dix_inv z k" "c \<in> waiting z"
      using alike_inv [OF yz inv_y] alike_clients [OF yz] w True by (simp_all add: c_def)
    have close: "CloseDownClient (de_fuel env) c z = Some x'" using fin zy by (simp add: finish_request_def Let_def c_def)
    have "client_of c z = client_of c y" using zy by (simp add: client_of_def)
    then have "dix_inv x' (k + 1)" using CloseDownClient_inv(1) [OF inv_z(1) con(3) _ close] cl_y inv_z(2) by simp
    moreover have "dx_established x' = dx_established x"
      using finish_established [OF fin] zy by (simp add: y_def)
    ultimately show ?thesis using run con(2) True by (simp add: c_def del: dix_step.simps)
  qed
next
  case False
  then have "x' = x" using run by (auto simp: waiting_def)
  then show ?thesis using inv False by (simp add: split: option.splits)
qed

text \<open>Every step keeps the account.\<close>

lemma WriteAuEventsToClient_clients: "WriteAuEventsToClient c ev s = Some s' \<Longrightarrow> sv_clients s' = sv_clients s"
  by (auto simp: WriteAuEventsToClient_def split: bind_splits if_splits)

lemma ProcessAudioEvents_clients: "ProcessAudioEvents s = Some s' \<Longrightarrow> sv_clients s' = sv_clients s"
proof -
  have "sv_clients s' = sv_clients s" if "process_events p s = Some s'" for p
    using that
    by (rule process_events.raw_induct [where P = "\<lambda>p s s'. sv_clients s' = sv_clients s", rotated])
      (auto simp: free_event_def split: option.splits bind_splits if_splits
        dest!: keeps_unlink_event keeps_AuProcessClockedFlows WriteAuEventsToClient_clients clients_of_surroundings)
  then show "ProcessAudioEvents s = Some s' \<Longrightarrow> ?thesis" by (auto simp: ProcessAudioEvents_def)
qed

lemma same_clients_alike: "sv_clients s = sv_clients (di_server (dx_dispatch x)) \<Longrightarrow>
    alike x (x\<lparr>dx_dispatch := put_server s (dx_dispatch x)\<rparr>)"
  by (auto simp: alike_def client_of_def used_def intro: option.rel_refl)

lemma Hangup_inv:
  assumes run: "dix_step su env (Hangup c) x = Some x'" and inv: "dix_inv x k"
  shows "dix_inv x' (k + int (closes_early su env (Hangup c) x))"
proof (cases "connected x c")
  case True
  then obtain cl where cl: "c \<noteq> 0" "client_of c x = Some cl" by (auto simp: connected_def)
  then show ?thesis using CloseDownClient_inv(1) [OF inv cl, of "de_fuel env" x'] run True by (simp split: if_splits)
next
  case False
  then have "c \<notin> waiting x" by (simp add: waiting_def)
  then show ?thesis using run inv False by simp
qed

lemma dix_step_inv:
  assumes run: "dix_step su env ev x = Some x'" and inv: "dix_inv x k"
  shows "dix_inv x' (k + int (closes_early su env ev x))"
proof (cases ev)
  case (Connect junk inserted)
  then show ?thesis using run inv NextAvailableClient_inv by fastforce
next
  case (Establish rq authorized)
  then show ?thesis using Establish_inv run inv by blast
next
  case (Request rq)
  then show ?thesis using run inv serve_steady by (fastforce simp: steady_def split: if_splits)
next
  case (Hangup c)
  then show ?thesis using Hangup_inv run inv by blast
next
  case (WriteFails c)
  have "alike x (x\<lparr>dx_exception := e\<rparr>)" for e
    by (auto simp: alike_def client_of_def used_def intro: option.rel_refl)
  then show ?thesis using run inv WriteFails alike_inv by (auto split: if_splits)
next
  case Deliver
  then show ?thesis using run inv same_clients_alike [OF ProcessAudioEvents_clients] alike_inv by (fastforce split: bind_splits)
next
  case Clock
  then show ?thesis
    using run inv same_clients_alike [OF clients_of_surroundings [OF keeps_AuProcessData]] alike_inv by (fastforce split: bind_splits)
qed

lemma dix_run_inv:
  "dix_run su env evs x = Some x' \<Longrightarrow> dix_inv x k \<Longrightarrow> dix_inv x' (k + int (early_closings su env evs x))"
proof (induction evs arbitrary: x k)
  case (Cons ev evs)
  then obtain y where y: "dix_step su env ev x = Some y" "dix_run su env evs y = Some x'" by (auto split: bind_splits)
  show ?case using Cons.IH [OF y(2) dix_step_inv [OF y(1) Cons.prems(2)]] y(1) by (simp add: add.assoc)
qed simp

section \<open>Theorems\<close>

text \<open>
  C10. A request is confined to the client it comes from: whatever entry of \<^verbatim>\<open>AuProcVector\<close> serves it, with whatever contents,
  no other client's record changes, and of the client's own only the error value and a valid close-down mode; what is written
  goes to that client; no event is delivered; and the server's settings stay as they are. (\<open>ProcAuKillClient\<close>, whose purpose is
  another client, is the entry that is not a \<open>Proc\<close>.)
\<close>

theorem requests_confined:
  assumes "AuProcVector op = Proc h" and "h env rq d = Some (st, d')"
  shows "confined rq d d'"
  using assms by (rule AuProcVector_confined)

text \<open>The state in which \<open>Dispatch\<close> starts to serve: the server's own client is the only one.\<close>

definition booted :: "dix \<Rightarrow> bool" where
  "booted x \<longleftrightarrow> clients_typed x \<and> (\<forall>c. client_of c x = None \<longleftrightarrow> c \<noteq> 0) \<and> dx_nextFreeClientID x = 1 \<and> dx_nClients x = 0"

lemma booted_inv: "booted x \<Longrightarrow> dix_inv x 0"
proof -
  assume x: "booted x"
  then have none: "client_of c x = None \<longleftrightarrow> c \<noteq> 0" for c by (simp add: booted_def)
  then have other: "client_of c x = None" if "c \<noteq> 0" for c using that by blast
  then have "active x = {}" by (auto simp: active_def connected_def)
  moreover have "{c. client_of c x \<noteq> None} = {0}" using none by auto
  moreover have "\<not> (client_of c x = Some cl \<and> c \<noteq> 0)" for c cl using other [of c] by (cases "c = 0") auto
  ultimately show ?thesis using x none unfolding dix_inv_def by (auto simp: booted_def used_def)
qed

text \<open>
  C2. The account of the clients: from the state after start-up, over any sequence of connections, set-ups, requests, hang-ups,
  failed writes, deliveries and turns of the clock, \<^verbatim>\<open>nClients\<close> and the number of clients that were closed before they were
  established add up to the number of established clients. Every index below \<^verbatim>\<open>nextFreeClientID\<close> is taken, and that index
  itself, if it is one, is free: no client is ever given the place of another.
\<close>

theorem client_count:
  assumes "booted x" and "dix_run su env evs x = Some x'"
  shows "dx_nClients x' + int (early_closings su env evs x) = int (card (active x')) \<and>
    (\<forall>c < dx_nextFreeClientID x'. used x' c) \<and>
    (dx_nextFreeClientID x' < MAXCLIENTS \<longrightarrow> client_of (dx_nextFreeClientID x') x' = None)"
  using dix_run_inv [OF assms(2) booted_inv [OF assms(1)]] by (simp add: dix_inv_def)

text \<open>
  C25. The types of the clients' records: over any such run, the record at an index of \<^verbatim>\<open>clients\<close> has that index, so that what a
  handler writes to its client reaches the connection the request came from, and its close-down mode is one of the three that
  \<open>CloseDownClient\<close> and \<open>CloseDownRetainedResources\<close> tell apart.
\<close>

theorem clients_stay_typed:
  assumes "booted x" and "dix_run su env evs x = Some x'" and "client_of c x' = Some cl"
  shows "cl_index cl = c \<and> valid_mode (cl_closeDownMode cl)"
  using dix_run_inv [OF assms(2) booted_inv [OF assms(1)]] assms(3) by (simp add: dix_inv_def clients_typed_def)

text \<open>What \<open>KillAllClients\<close> leaves.\<close>

lemma shrink_clients_spec: "shrink_clients us n = Some m \<Longrightarrow> m \<le> c \<Longrightarrow> c < n \<Longrightarrow> \<not> us c"
  by (induction n) (auto split: if_splits simp: less_Suc_eq)

lemma CloseDownClient_unused:
  assumes run: "CloseDownClient fuel c x = Some x'" and n: "dx_currentMaxClients x' \<le> c'" "c' < dx_currentMaxClients x"
  shows "client_of c' x' = None"
  using run n
  by (auto simp: CloseDownClient_def Let_def used_def split: bind_splits if_splits
      dest!: release_client_max shrink_clients_spec [where c = c'])

definition closed :: "client option \<Rightarrow> client option" where
  "closed c = (case c of None \<Rightarrow> None
     | Some cl \<Rightarrow> if \<not> cl_clientGone cl \<and> cl_closeDownMode cl \<noteq> AuCloseDownDestroy then Some (cl\<lparr>cl_clientGone := True\<rparr>) else None)"

lemma closed_None [simp]: "closed None = None"
  by (simp add: closed_def)

lemma close_all_left:
  "close_clients P fuel i x = Some x' \<Longrightarrow> P = (\<lambda>cl. True) \<Longrightarrow>
   client_of c x' = (if i \<le> c \<and> c < dx_currentMaxClients x then closed (client_of c x) else client_of c x)"
proof (induction P fuel i x rule: close_clients.induct)
  case (1 P fuel i x)
  show ?case
  proof (cases "dx_currentMaxClients x \<le> i")
    case False
    with 1(2) obtain x1 where x1: "(if used x i then do { cl \<leftarrow> client_of i x; if P cl then CloseDownClient fuel i x else Some x } else Some x) = Some x1"
        and rest: "close_clients P fuel (Suc i) x1 = Some x'"
      by (auto simp: close_clients.simps [of P fuel i x] split: bind_splits)
    note IH = 1(1) [OF False x1 rest 1(3)]
    have "client_of c x1 = (if c = i then closed (client_of c x) else client_of c x) \<and>
        (dx_currentMaxClients x1 \<le> c \<longrightarrow> c < dx_currentMaxClients x \<longrightarrow> client_of c x1 = None) \<and>
        dx_currentMaxClients x1 \<le> dx_currentMaxClients x"
    proof (cases "used x i")
      case True
      then obtain cl where cl: "client_of i x = Some cl" "CloseDownClient fuel i x = Some x1" using x1 1(3) by (auto split: bind_splits)
      show ?thesis
        using CloseDownClient_effect(1) [OF cl(2,1)] CloseDownClient_unused [OF cl(2)] CloseDownClient_max [OF cl(2)] cl(1)
        by (auto simp: closed_def)
    qed (use x1 in \<open>auto simp: used_def\<close>)
    then show ?thesis using IH False by (auto split: if_splits)
  qed (use 1 in \<open>auto simp: close_clients.simps\<close>)
qed

text \<open>
  C24. \<open>KillAllClients\<close>, at the end of \<open>Dispatch\<close>, settles every client below \<^verbatim>\<open>currentMaxClients\<close> although the loop's bound
  shrinks while it runs: one that is still there and retains its resources stays in the array, marked as gone; every other one,
  also one whose resources were retained by an earlier end, is released; and the server's own client is untouched.
\<close>

theorem KillAllClients_settles:
  assumes "KillAllClients fuel x = Some x'"
  shows "client_of c x' = (if 1 \<le> c \<and> c < dx_currentMaxClients x then closed (client_of c x) else client_of c x)"
  using assms close_all_left unfolding KillAllClients_def by blast

section \<open>A run\<close>

definition demo_boot :: dix where
  "demo_boot = \<lparr>dx_dispatch = \<lparr>di_server = (server_init 2)\<lparr>sv_clients := [0 \<mapsto> \<lparr>cl_index = 0, cl_sequence = 0,
       cl_clientGone = False, cl_errorValue = 0, cl_closeDownMode = 0\<rparr>]\<rparr>,
     di_table = \<lparr>rt_clientTable = replicate MAXCLIENTS \<lparr>cr_resources = [], cr_elements = 0, cr_buckets = 0, cr_hashsize = 0,
       cr_fakeID = 0, cr_endFakeID = 0, cr_expectID = 0\<rparr>, rt_lastResourceType = 0, rt_lastResourceClass = 0, rt_TypeAuMask = 0,
       rt_DeleteFuncs = [], rt_exceptions = [], rt_mallocs = []\<rparr>, di_auComponentType = 0, di_auFlowType = 0, di_out = []\<rparr>,
     dx_established = (\<lambda>_. False), dx_exception = (\<lambda>_. False), dx_dangling = (\<lambda>_. False), dx_nextFreeClientID = 1,
     dx_nClients = 0, dx_currentMaxClients = 1, dx_dispatchException = 0, dx_terminateAtReset = False\<rparr>"

definition demo_dispatch_env :: dispatch_env where
  "demo_dispatch_env = \<lparr>de_driver = \<lparr>d_outputGain = 0, d_outputMode = None, d_inputGain = None, d_inputMode = None,
     d_feedbackGain = None, d_hasOutputMode = False, d_hasFeedbackGain = False\<rparr>, de_time = 0, de_compile =
       \<lparr>v_lookup = (\<lambda>_. None), v_junk = component0, v_bytes = (\<lambda>_. 0),
         v_input = \<lparr>ci_component = 0, ci_flowEl = (0, 0), ci_multiplyConstant = 0, ci_addConstant = 0, ci_tracks = [],
           ci_rateConvert = RcNull, ci_preadTag = TagComponent, ci_readInput = ReadClient\<rparr>,
         v_output = \<lparr>co_component = 0, co_flowEl = (0, 0), co_firstInput = 0, co_inputs = [], co_rateConvert = RcNull,
           co_writeOutput = WriteClient\<rparr>\<rparr>,
     de_element = element0, de_action = \<lparr>a_flow = 0, a_triggerState = 0, a_triggerPrevState = 0, a_triggerReason = 0,
       a_action = 0, a_elementNum = 0, a_newState = 0\<rparr>, de_fuel = 2\<rparr>"

definition demo_setup :: setup_reply where
  "demo_setup = \<lparr>su_len = 0, su_vendor = [], su_formats = [], su_elementTypes = [], su_waveForms = [], su_actions = [],
     su_devices = [], su_buckets = []\<rparr>"

text \<open>Client \<open>c\<close> asks for version 2 of the protocol, without authorization.\<close>

definition demo_request :: "nat \<Rightarrow> request" where
  "demo_request c = \<lparr>rq_client = c, rq_len = 4, rq_buffer = [2, 0, 0, 0, 108, 0, 2, 0, 0, 0, 0, 0, 0, 0, 0, 0]\<rparr>"

definition demo_events :: "dix_event list" where
  "demo_events = [Connect 0 True, Establish (demo_request 1) (\<lambda>_ _. None), Connect 0 True,
     Establish (demo_request 2) (\<lambda>_ _. Some [110, 111])]"

lemma numeral_steps:
  "shrink_clients us (numeral k) = (if us (pred_numeral k) then Some (numeral k) else shrink_clients us (pred_numeral k))"
  "next_free us (numeral k) i = (if us i then next_free us (pred_numeral k) (Suc i) else i)"
  by (simp_all add: numeral_eq_Suc)

lemma demo_refusal: "refusal authorized [2, 0, 0, 0, 108, 0, 2, 0, 0, 0, 0, 0, 0, 0, 0, 0] = Some (authorized [] [])"
proof -
  have "mk16 2 0 = 2" "mk16 0 0 = 0" by code_simp+
  then show ?thesis by (simp add: refusal_def ld16_def load_def PAD4_def)
qed

lemmas demo_simps = demo_boot_def demo_events_def NextAvailableClient_def Let_def InitClient_def set_client_def put_resources_def xalloc_def
  InitClientResources_def get_client_def put_client_def used_def client_of_def numeral_steps put_server_def connected_def ProcEstablishConnection_def demo_refusal finish_request_def waiting_def
  AuSendInitResponse_def the_client_def write_client_def demo_request_def demo_setup_def demo_dispatch_env_def CloseDownClient_def
  release_client_def FreeClientResources_def resources_of_def numeral_2_eq_2 [symmetric]

lemma demo_run: "\<exists>x. dix_run demo_setup demo_dispatch_env demo_events demo_boot = Some x \<and> dx_nextFreeClientID x = 2 \<and> dx_nClients x = 0 \<and>
   early_closings demo_setup demo_dispatch_env demo_events demo_boot = 1"
  by (simp add: demo_simps)

lemma requests_confined_witness:
  "AuProcVector 34 = Proc ProcAuSetCloseDownMode \<and>
   (\<exists>st d'. ProcAuSetCloseDownMode demo_dispatch_env \<lparr>rq_client = 0, rq_len = 1, rq_buffer = [34, 1, 0, 0]\<rparr> (dx_dispatch demo_boot) = Some (st, d') \<and>
     confined \<lparr>rq_client = 0, rq_len = 1, rq_buffer = [34, 1, 0, 0]\<rparr> (dx_dispatch demo_boot) d')"
proof -
  have p: "AuProcVector 34 = Proc ProcAuSetCloseDownMode" by (simp add: AuProcVector_def procedures_def)
  let ?rq = "\<lparr>rq_client = 0, rq_len = 1, rq_buffer = [34, 1, 0, 0]\<rparr> :: request"
  obtain st d' where r: "ProcAuSetCloseDownMode demo_dispatch_env ?rq (dx_dispatch demo_boot) = Some (st, d')"
    by (auto simp: ProcAuSetCloseDownMode_def demo_simps size_match_def ld8_def)
  show ?thesis using p r requests_confined [OF p r] by blast
qed

lemma client_count_witness:
  "\<exists>x. dix_run demo_setup demo_dispatch_env demo_events demo_boot = Some x \<and> dx_nClients x = 0 \<and> card (active x) = 1 \<and> used x 1"
proof -
  obtain x where x: "dix_run demo_setup demo_dispatch_env demo_events demo_boot = Some x" "dx_nextFreeClientID x = 2" "dx_nClients x = 0"
      "early_closings demo_setup demo_dispatch_env demo_events demo_boot = 1" using demo_run by blast
  have "booted demo_boot" by (auto simp: booted_def demo_boot_def client_of_def clients_typed_def valid_mode_def)
  from client_count [OF this x(1)] x show ?thesis by simp
qed

lemma clients_stay_typed_witness:
  "\<exists>x cl. dix_run demo_setup demo_dispatch_env (demo_events @ [Hangup 1]) demo_boot = Some x \<and> client_of 0 x = Some cl \<and> cl_index cl = 0"
proof -
  obtain x cl where x: "dix_run demo_setup demo_dispatch_env (demo_events @ [Hangup 1]) demo_boot = Some x" "client_of 0 x = Some cl"
    by (auto simp: demo_simps)
  have "booted demo_boot" by (auto simp: booted_def demo_boot_def client_of_def clients_typed_def valid_mode_def)
  from clients_stay_typed [OF this x] x show ?thesis by auto
qed

definition demo_three :: dix where
  "demo_three = demo_boot\<lparr>dx_dispatch := put_server ((server_init 2)\<lparr>sv_clients := (\<lambda>c. if c < 3 then
     Some \<lparr>cl_index = c, cl_sequence = 0, cl_clientGone = False, cl_errorValue = 0, cl_closeDownMode = (if c = 1 then 1 else 0)\<rparr>
     else None)\<rparr>) (dx_dispatch demo_boot), dx_currentMaxClients := 3\<rparr>"

lemma KillAllClients_settles_witness:
  "\<exists>x cl. KillAllClients 0 demo_three = Some x \<and> client_of 1 x = Some cl \<and> cl_clientGone cl \<and> client_of 2 x = None \<and> client_of 0 x = client_of 0 demo_three"
proof -
  obtain x where x: "KillAllClients 0 demo_three = Some x"
    by (auto simp: KillAllClients_def close_clients.simps [of _ _ "Suc 0"] close_clients.simps [of _ _ 2] close_clients.simps [of _ _ 3]
      demo_three_def demo_simps)
  note s = KillAllClients_settles [OF x]
  show ?thesis using x s [of 0] s [of 1] s [of 2] by (auto simp: closed_def demo_three_def client_of_def put_server_def)
qed

text \<open>
  A refused client makes the account of \<^verbatim>\<open>nClients\<close> too low. The next client that is served and leaves then seems to have been
  the last one: the loop ends to reset the server, and closes a client that is still being served.
\<close>

lemma reset_with_active_client:
  "\<exists>x. dix_run demo_setup demo_dispatch_env (demo_events @ [Connect 0 True, Establish (demo_request 2) (\<lambda>_ _. None), Hangup 2]) demo_boot = Some x \<and>
    dx_dispatchException x = DE_RESET \<and> connected x 1 \<and> dx_established x 1"
  by (simp add: demo_simps)

end
