(* ===== verification/Lib_Transport.thy ===== *)
theory Lib_Transport
  imports Prelude
begin

text \<open>
  The ends of a connection in the client library (\<^verbatim>\<open>lib/audio/Alibint.c\<close>, macros of \<^verbatim>\<open>Alibint.h\<close>): the output buffer
  requests are written to, flushing it, sending data that does not fit, and reading an exact number of bytes. A system call takes
  or gives as many bytes as it likes: its results are a list, and a loop that is not finished when the list is used up is \<open>None\<close>.

  What the server has been sent is \<open>wire\<close>. The library's promise is that \<open>wire\<close> and the filled part of the buffer together are
  what was put in, in order, whatever the results of the calls.
\<close>

section \<open>System calls\<close>

text \<open>
  \<open>Moves n\<close>: \<open>n\<close> bytes of those asked for, all when there are fewer; \<open>Blocks\<close>: \<^verbatim>\<open>EAGAIN\<close>; \<open>TooBig\<close>: \<^verbatim>\<open>EMSGSIZE\<close>;
  \<open>Interrupted\<close>: \<^verbatim>\<open>EINTR\<close>; \<open>Fails\<close>: any other error. After an error \<^verbatim>\<open>_AuIOError\<close> ends the program, which is \<open>Inl ()\<close>.
\<close>

datatype io_result = Moves nat | Blocks | TooBig | Interrupted | Fails

type_synonym 'a io = "((unit + 'a) \<times> io_result list) option"

fun io_bind :: "'a io \<Rightarrow> ('a \<Rightarrow> io_result list \<Rightarrow> 'b io) \<Rightarrow> 'b io" where
  "io_bind (Some (Inr x, rs)) f = f x rs"
| "io_bind (Some (Inl e, rs)) f = Some (Inl e, rs)"
| "io_bind None f = None"

lemma io_bind_Inr: "io_bind m f = Some (Inr y, rs') \<longleftrightarrow> (\<exists>x rs. m = Some (Inr x, rs) \<and> f x rs = Some (Inr y, rs'))"
  by (cases "(m, f)" rule: io_bind.cases) auto

lemma io_bind_cong [fundef_cong]:
  "m = m' \<Longrightarrow> (\<And>x rs. m' = Some (Inr x, rs) \<Longrightarrow> f x rs = g x rs) \<Longrightarrow> io_bind m f = io_bind m' g"
  by (cases "(m', f)" rule: io_bind.cases) auto

section \<open>Output\<close>

abbreviation (input) BUFSIZE :: nat where "BUFSIZE \<equiv> 2048"

record aud_out =
  buffer :: bytes
  bufptr :: nat
  request :: u32
  wire :: bytes

text \<open>\<open>i\<close> is \<^verbatim>\<open>bufindex\<close>; \<open>w\<close> is what has been sent. A message that is too big is tried again in half.\<close>

fun flush_loop :: "bytes \<Rightarrow> nat \<Rightarrow> nat \<Rightarrow> nat \<Rightarrow> bytes \<Rightarrow> io_result list \<Rightarrow> bytes io" where
  "flush_loop b i sz todo w [] = (if sz = 0 then Some (Inr w, []) else None)"
| "flush_loop b i sz todo w (r # rs) =
     (if sz = 0 then Some (Inr w, r # rs)
      else case r of
        Moves n \<Rightarrow> let n = min n todo in flush_loop b (i + n) (sz - n) (sz - n) (w @ take n (drop i b)) rs
      | Blocks \<Rightarrow> flush_loop b i sz todo w rs
      | TooBig \<Rightarrow> flush_loop b i sz (if 1 < todo then todo div 2 else todo) w rs
      | Interrupted \<Rightarrow> flush_loop b i sz todo w rs
      | Fails \<Rightarrow> Some (Inl (), rs))"

definition AuFlush :: "aud_out \<Rightarrow> io_result list \<Rightarrow> aud_out io" where
  "AuFlush s rs = io_bind (flush_loop (buffer s) 0 (bufptr s) (bufptr s) (wire s) rs) (\<lambda>w rs. Some (Inr (s\<lparr>bufptr := 0, wire := w\<rparr>), rs))"

text \<open>
  The pieces for \<^verbatim>\<open>writev\<close>. \<open>before\<close> is how much of the pieces from here on is written already, \<open>remain\<close> how much may be
  written now; both are C integers.
\<close>

definition InsertIOV :: "bytes \<Rightarrow> int \<times> int \<times> bytes list \<Rightarrow> int \<times> int \<times> bytes list" where
  "InsertIOV p st = (case st of (before, remain, iov) \<Rightarrow>
     let len = min (int (length p) - before) remain in
     if len \<le> 0 then (- len, remain, iov) else (0, remain - len, iov @ [take (nat len) (drop (nat before) p)]))"

definition offered :: "bytes list \<Rightarrow> nat \<Rightarrow> nat \<Rightarrow> bytes" where
  "offered ps before todo = (case fold InsertIOV ps (int before, int todo, []) of (_, _, iov) \<Rightarrow> concat iov)"

fun send_loop :: "bytes list \<Rightarrow> nat \<Rightarrow> nat \<Rightarrow> nat \<Rightarrow> bytes \<Rightarrow> io_result list \<Rightarrow> bytes io" where
  "send_loop ps skip tot todo w [] = (if tot = 0 then Some (Inr w, []) else None)"
| "send_loop ps skip tot todo w (r # rs) =
     (if tot = 0 then Some (Inr w, r # rs)
      else case r of
        Moves n \<Rightarrow>
          let x = take n (offered ps skip todo)
          in send_loop ps (skip + length x) (tot - length x) (tot - length x) (w @ x) rs
      | Blocks \<Rightarrow> send_loop ps skip tot todo w rs
      | TooBig \<Rightarrow> send_loop ps skip tot (if 1 < todo then todo div 2 else todo) w rs
      | Interrupted \<Rightarrow> send_loop ps skip tot todo w rs
      | Fails \<Rightarrow> Some (Inl (), rs))"

definition padlength :: "nat list" where
  "padlength = [0, 3, 2, 1]"

definition AuSend :: "bytes \<Rightarrow> aud_out \<Rightarrow> io_result list \<Rightarrow> aud_out io" where
  "AuSend d s rs =
     (let audbufsize = bufptr s; padsize = padlength ! (length d mod 4); tot = audbufsize + length d + padsize in
      io_bind (send_loop [take audbufsize (buffer s), d, replicate padsize 0] 0 tot tot (wire s) rs)
        (\<lambda>w rs. Some (Inr (s\<lparr>bufptr := 0, wire := w\<rparr>), rs)))"

text \<open>\<^verbatim>\<open>_AuData\<close>: the bytes behind data in the buffer that make it whole words stay what they were.\<close>

definition AuData :: "bytes \<Rightarrow> aud_out \<Rightarrow> io_result list \<Rightarrow> aud_out io" where
  "AuData d s rs =
     (if bufptr s + length d \<le> BUFSIZE then
        Some (Inr (s\<lparr>buffer := blit d (bufptr s) (buffer s), bufptr := bufptr s + (length d + 3) div 4 * 4\<rparr>), rs)
      else AuSend d s rs)"

text \<open>
  \<^verbatim>\<open>_AuGetReq\<close> and its relatives: a place of \<open>n\<close> bytes in the buffer, into which the caller then stores the fields, given with
  their offsets. What no field covers stays what it was.
\<close>

definition put_fields :: "(nat \<times> bytes) list \<Rightarrow> nat \<Rightarrow> bytes \<Rightarrow> bytes" where
  "put_fields fs p b = fold (\<lambda>(k, x). blit x (p + k)) fs b"

definition AuGetReq :: "nat \<Rightarrow> (nat \<times> bytes) list \<Rightarrow> aud_out \<Rightarrow> io_result list \<Rightarrow> aud_out io" where
  "AuGetReq n fs s rs =
     io_bind (if BUFSIZE < bufptr s + n then AuFlush s rs else Some (Inr s, rs))
       (\<lambda>s rs. Some (Inr (s\<lparr>buffer := put_fields fs (bufptr s) (buffer s), bufptr := bufptr s + n, request := request s + 1\<rparr>), rs))"

text \<open>A library function writes a sequence of requests and data.\<close>

datatype put = PutReq nat "(nat \<times> bytes) list" | PutData bytes

fun run_put :: "put \<Rightarrow> aud_out \<Rightarrow> io_result list \<Rightarrow> aud_out io" where
  "run_put (PutReq n fs) s rs = AuGetReq n fs s rs"
| "run_put (PutData d) s rs = AuData d s rs"

fun run_puts :: "put list \<Rightarrow> aud_out \<Rightarrow> io_result list \<Rightarrow> aud_out io" where
  "run_puts [] s rs = Some (Inr s, rs)"
| "run_puts (p # ps) s rs = io_bind (run_put p s rs) (run_puts ps)"

section \<open>What is sent\<close>

definition out_ok :: "aud_out \<Rightarrow> bool" where
  "out_ok s \<longleftrightarrow> length (buffer s) = BUFSIZE \<and> bufptr s \<le> BUFSIZE \<and> 4 dvd bufptr s"

definition stream :: "aud_out \<Rightarrow> bytes" where
  "stream s = wire s @ take (bufptr s) (buffer s)"

fun valid_put :: "put \<Rightarrow> bool" where
  "valid_put (PutReq n fs) \<longleftrightarrow> 4 dvd n \<and> n \<le> BUFSIZE \<and> list_all (\<lambda>(k, x). k + length x \<le> n) fs"
| "valid_put (PutData d) \<longleftrightarrow> True"

text \<open>The bytes an operation stands for, up to those nobody has set.\<close>

fun carries :: "put \<Rightarrow> bytes \<Rightarrow> bool" where
  "carries (PutReq n fs) x \<longleftrightarrow> (\<exists>y. length y = n \<and> x = put_fields fs 0 y)"
| "carries (PutData d) x \<longleftrightarrow> (\<exists>pad. x = d @ pad \<and> length pad = padlength ! (length d mod 4))"

lemma InsertIOV_concat:
  "0 \<le> bf \<Longrightarrow> 0 \<le> rm \<Longrightarrow> fold InsertIOV ps (bf, rm, iov) = (bf', rm', iov') \<Longrightarrow>
   concat iov' = concat iov @ take (nat rm) (drop (nat bf) (concat ps))"
proof (induction ps arbitrary: bf rm iov)
  case (Cons p ps)
  let ?len = "min (int (length p) - bf) rm"
  show ?case
  proof (cases "?len \<le> 0")
    case True
    then have "concat iov' = concat iov @ take (nat rm) (drop (nat (- ?len)) (concat ps))"
      using Cons.prems by (intro Cons.IH [where rm = rm]) (simp_all add: InsertIOV_def)
    moreover have "rm = 0 \<or> nat (- ?len) = nat bf - length p \<and> length p \<le> nat bf" using True Cons.prems(1,2) by auto
    ultimately show ?thesis by auto
  next
    case False
    let ?x = "take (nat ?len) (drop (nat bf) p)"
    have "concat iov' = concat (iov @ [?x]) @ take (nat (rm - ?len)) (drop (nat 0) (concat ps))"
      using False Cons.prems by (intro Cons.IH) (simp_all add: InsertIOV_def Let_def)
    moreover have "nat (rm - ?len) = nat rm - (length p - nat bf)" "nat bf \<le> length p" "nat ?len = min (length p - nat bf) (nat rm)"
      using False Cons.prems(1,2) by auto
    moreover have "take (min (length p - nat bf) (nat rm)) (drop (nat bf) p) = take (nat rm) (drop (nat bf) p)"
      by (simp add: min_def)
    ultimately show ?thesis by simp
  qed
qed simp

lemma offered_part: "offered ps skip todo = take todo (drop skip (concat ps))"
  using InsertIOV_concat [of "int skip" "int todo" ps "[]"] by (simp add: offered_def split: prod.split)

lemma send_loop_sends:
  "send_loop ps skip tot todo w rs = Some (Inr w', rs') \<Longrightarrow> todo \<le> tot \<Longrightarrow> skip + tot = length (concat ps) \<Longrightarrow>
   w' = w @ drop skip (concat ps)"
proof (induction ps skip tot todo w rs rule: send_loop.induct)
  case (2 ps skip tot todo w r rs)
  show ?case
  proof (cases r)
    case (Moves n)
    show ?thesis
    proof (cases "tot = 0")
      case False
      let ?x = "take n (offered ps skip todo)"
      have x: "?x = take (length ?x) (drop skip (concat ps))" "length ?x \<le> tot"
        using 2(6,7) by (simp_all add: offered_part del: length_concat)
      have "w' = (w @ ?x) @ drop (skip + length ?x) (concat ps)"
        using 2(1) [OF False Moves refl] 2(5-7) x(2) False Moves by (simp add: Let_def del: length_concat)
      moreover have "drop skip (concat ps) = ?x @ drop (skip + length ?x) (concat ps)"
        using append_take_drop_id [of "length ?x" "drop skip (concat ps)"] x(1) by (simp only: drop_drop add.commute)
      ultimately show ?thesis by (simp only: append_assoc)
    qed (use 2(5,7) Moves in simp)
  qed (use 2 in \<open>auto split: if_splits\<close>)
qed (simp split: if_splits)

text \<open>Flushing is sending a single piece.\<close>

lemma flush_loop_send:
  "todo \<le> sz \<Longrightarrow> i + sz \<le> length b \<Longrightarrow> flush_loop b i sz todo w rs = send_loop [take (i + sz) b] i sz todo w rs"
proof (induction b i sz todo w rs rule: flush_loop.induct)
  case (2 b i sz todo w r rs)
  show ?case
  proof (cases "\<exists>n. r = Moves n \<and> sz \<noteq> 0")
    case True
    then obtain n where n: "r = Moves n" "sz \<noteq> 0" by blast
    have x: "take n (offered [take (i + sz) b] i todo) = take (min n todo) (drop i b)"
      using 2(5,6) by (simp add: offered_part drop_take min_absorb1)
    have "i + min n todo + (sz - min n todo) = i + sz" "length (take (min n todo) (drop i b)) = min n todo" using 2(5,6) by simp_all
    then show ?thesis using 2(1) [OF n(2,1) refl] 2(5,6) n x by (simp add: Let_def)
  qed (use 2 in \<open>auto split: io_result.split\<close>)
qed simp

lemma blit_inside: "k + length x \<le> length y \<Longrightarrow> blit x (length pre + k) (pre @ y @ post) = pre @ blit x k y @ post"
  by (simp add: blit_def add.assoc)

lemma put_fields_inside:
  "list_all (\<lambda>(k, x). k + length x \<le> length y) fs \<Longrightarrow>
   put_fields fs (length pre) (pre @ y @ post) = pre @ put_fields fs 0 y @ post \<and> length (put_fields fs 0 y) = length y"
  unfolding put_fields_def by (induction fs arbitrary: y) (auto simp: blit_inside length_blit)

lemma put_fields_at:
  assumes "p + n \<le> length b" "list_all (\<lambda>(k, x). k + length x \<le> n) fs"
  shows "put_fields fs p b = take p b @ put_fields fs 0 (take n (drop p b)) @ drop (p + n) b"
proof -
  have "b = take p b @ take n (drop p b) @ drop (p + n) b"
    by (metis append_take_drop_id drop_drop add.commute)
  then show ?thesis using put_fields_inside [of "take n (drop p b)" fs "take p b" "drop (p + n) b"] assms by simp
qed

lemma AuFlush_stream: "AuFlush s rs = Some (Inr s', rs') \<Longrightarrow> out_ok s \<Longrightarrow> out_ok s' \<and> stream s' = stream s \<and> bufptr s' = 0"
  by (auto simp: AuFlush_def io_bind_Inr out_ok_def stream_def flush_loop_send dest!: send_loop_sends)

lemma AuSend_stream:
  assumes "AuSend d s rs = Some (Inr s', rs')" "out_ok s"
  shows "out_ok s' \<and> stream s' = stream s @ d @ replicate (padlength ! (length d mod 4)) 0"
proof -
  obtain w where w: "s' = s\<lparr>bufptr := 0, wire := w\<rparr>"
    and l: "send_loop [take (bufptr s) (buffer s), d, replicate (padlength ! (length d mod 4)) 0] 0
      (bufptr s + length d + padlength ! (length d mod 4)) (bufptr s + length d + padlength ! (length d mod 4)) (wire s) rs = Some (Inr w, rs')"
    using assms(1) by (auto simp: AuSend_def Let_def io_bind_Inr)
  have "w = wire s @ concat [take (bufptr s) (buffer s), d, replicate (padlength ! (length d mod 4)) 0]"
    using send_loop_sends [OF l] assms(2) by (simp add: out_ok_def)
  with w assms(2) show ?thesis by (simp add: out_ok_def stream_def)
qed

lemma padlength_rounds: "n + padlength ! (n mod 4) = (n + 3) div 4 * 4"
proof -
  define q where "q = n div 4"
  have "n = 4 * q \<or> n = 4 * q + 1 \<or> n = 4 * q + 2 \<or> n = 4 * q + 3" unfolding q_def by presburger
  moreover have "(4 * q) mod 4 = 0" "(4 * q + 1) mod 4 = 1" "(4 * q + 2) mod 4 = 2" "(4 * q + 3) mod 4 = 3"
    "(4 * q + 3) div 4 = q" "(4 * q + 1 + 3) div 4 = q + 1" "(4 * q + 2 + 3) div 4 = q + 1" "(4 * q + 3 + 3) div 4 = q + 1"
    by presburger+
  ultimately show ?thesis unfolding padlength_def by (elim disjE) simp_all
qed

lemma run_put_stream:
  assumes "run_put p s rs = Some (Inr s', rs')" "out_ok s" "valid_put p"
  shows "out_ok s' \<and> (\<exists>x. carries p x \<and> stream s' = stream s @ x)"
proof (cases p)
  case (PutReq n fs)
  obtain t rs1 where t: "(if BUFSIZE < bufptr s + n then AuFlush s rs else Some (Inr s, rs)) = Some (Inr t, rs1)"
    and s': "s' = t\<lparr>buffer := put_fields fs (bufptr t) (buffer t), bufptr := bufptr t + n, request := request t + 1\<rparr>"
    using assms(1) by (auto simp: PutReq AuGetReq_def io_bind_Inr)
  have ok: "out_ok t" "stream t = stream s" "bufptr t + n \<le> BUFSIZE"
    using t assms(2,3) AuFlush_stream [of s rs t rs1] by (auto simp: PutReq split: if_splits)
  have f: "put_fields fs (bufptr t) (buffer t) =
      take (bufptr t) (buffer t) @ put_fields fs 0 (take n (drop (bufptr t) (buffer t))) @ drop (bufptr t + n) (buffer t)"
    using ok(1,3) assms(3) by (intro put_fields_at) (simp_all add: out_ok_def PutReq)
  have n: "length (take n (drop (bufptr t) (buffer t))) = n" using ok by (simp add: out_ok_def)
  have len: "length (put_fields fs 0 (take n (drop (bufptr t) (buffer t)))) = n"
    using put_fields_inside [of "take n (drop (bufptr t) (buffer t))" fs, unfolded n] assms(3) by (simp add: PutReq)
  have "stream s' = stream s @ put_fields fs 0 (take n (drop (bufptr t) (buffer t)))"
    using ok(1) len unfolding ok(2) [symmetric] by (simp add: s' stream_def f out_ok_def)
  moreover have "out_ok s'" using ok len assms(3) by (simp add: s' out_ok_def f PutReq)
  ultimately show ?thesis unfolding PutReq carries.simps using n by blast
next
  case (PutData d)
  show ?thesis
  proof (cases "bufptr s + length d \<le> BUFSIZE")
    case True
    let ?e = "(length d + 3) div 4 * 4"
    have s': "s' = s\<lparr>buffer := blit d (bufptr s) (buffer s), bufptr := bufptr s + ?e\<rparr>"
      using assms(1) True by (simp add: PutData AuData_def)
    obtain k where k: "bufptr s = 4 * k" using assms(2) by (auto simp: out_ok_def)
    have e: "bufptr s + ?e \<le> BUFSIZE" "length d \<le> ?e" using True unfolding k by presburger+
    let ?pad = "take (?e - length d) (drop (bufptr s + length d) (buffer s))"
    have "take (bufptr s + ?e) (blit d (bufptr s) (buffer s)) = take (bufptr s) (buffer s) @ d @ ?pad"
      using assms(2) e by (simp add: blit_def out_ok_def)
    moreover have "length ?pad = padlength ! (length d mod 4)"
      using assms(2) e padlength_rounds [of "length d"] by (simp add: out_ok_def)
    ultimately have "stream s' = stream s @ (d @ ?pad)" "carries p (d @ ?pad)" by (auto simp: s' stream_def PutData)
    moreover have "out_ok s'" using assms(2) e by (simp add: s' out_ok_def length_blit)
    ultimately show ?thesis by blast
  next
    case False
    then show ?thesis using assms(1,2) AuSend_stream [of d s rs s' rs'] by (auto simp: PutData AuData_def)
  qed
qed

text \<open>
  C18. What the server receives is what the library has put in, whatever the system calls do: after any sequence of requests and
  data, however many bytes each write took and however often it had to be tried again, the bytes sent followed by the filled part
  of the buffer are those there were before followed by the bytes of each operation in order, data padded to whole words; and
  the buffer keeps its size and its alignment.
\<close>

theorem output_stream_exact:
  assumes "run_puts ps s rs = Some (Inr s', rs')" "out_ok s" "list_all valid_put ps"
  shows "out_ok s' \<and> (\<exists>xs. list_all2 carries ps xs \<and> wire s' @ take (bufptr s') (buffer s') = wire s @ take (bufptr s) (buffer s) @ concat xs)"
proof -
  have "out_ok s' \<and> (\<exists>xs. list_all2 carries ps xs \<and> stream s' = stream s @ concat xs)"
    using assms
  proof (induction ps arbitrary: s rs)
    case (Cons p ps)
    obtain t rs1 where t: "run_put p s rs = Some (Inr t, rs1)" "run_puts ps t rs1 = Some (Inr s', rs')"
      using Cons.prems(1) by (auto simp: io_bind_Inr)
    obtain x where x: "out_ok t" "carries p x" "stream t = stream s @ x" using run_put_stream [OF t(1) Cons.prems(2)] Cons.prems(3) by auto
    obtain xs where "out_ok s'" "list_all2 carries ps xs" "stream s' = stream t @ concat xs"
      using Cons.IH [OF t(2) x(1)] Cons.prems(3) by auto
    then have "out_ok s' \<and> list_all2 carries (p # ps) (x # xs) \<and> stream s' = stream s @ concat (x # xs)" using x by simp
    then show ?case by blast
  qed auto
  then show ?thesis by (simp add: stream_def)
qed

definition fresh_out :: aud_out where
  "fresh_out = \<lparr>buffer = replicate BUFSIZE 0, bufptr = 0, request = 0, wire = []\<rparr>"

lemma output_stream_exact_witness:
  "\<exists>s rs. run_puts [PutReq 4 [(0, [7]), (2, [1, 0])], PutData (replicate 2047 9)] fresh_out [Moves 3, TooBig, Blocks, Moves 5000, Moves 5000]
      = Some (Inr s, rs) \<and> out_ok s \<and> rs = []"
proof -
  let ?ps = "[PutReq 4 [(0, [7]), (2, [1, 0])], PutData (replicate 2047 9)]"
  have run: "\<exists>s. run_puts ?ps fresh_out [Moves 3, TooBig, Blocks, Moves 5000, Moves 5000] = Some (Inr s, [])"
    by (simp add: AuGetReq_def AuData_def AuSend_def fresh_out_def put_fields_def padlength_def offered_part Let_def min_def length_blit)
  then obtain s where s: "run_puts ?ps fresh_out [Moves 3, TooBig, Blocks, Moves 5000, Moves 5000] = Some (Inr s, [])" by blast
  have "out_ok fresh_out" "list_all valid_put ?ps" by (simp_all add: out_ok_def fresh_out_def)
  from output_stream_exact [OF s this] s show ?thesis by blast
qed

section \<open>Output is not held up\<close>

fun moves_something :: "io_result \<Rightarrow> bool" where
  "moves_something (Moves n) \<longleftrightarrow> 0 < n"
| "moves_something _ \<longleftrightarrow> False"

definition progress :: "io_result list \<Rightarrow> nat" where
  "progress rs = length (filter moves_something rs)"

lemma progress_simps [simp]:
  "progress [] = 0" "progress (r # rs) = (if moves_something r then Suc (progress rs) else progress rs)"
  by (simp_all add: progress_def)

lemma send_loop_returns:
  "Fails \<notin> set rs \<Longrightarrow> tot \<le> progress rs \<Longrightarrow> todo \<le> tot \<Longrightarrow> 0 < tot \<longrightarrow> 0 < todo \<Longrightarrow> skip + tot = length (concat ps) \<Longrightarrow>
   \<exists>w' rs'. send_loop ps skip tot todo w rs = Some (Inr w', rs') \<and> Fails \<notin> set rs' \<and> progress rs \<le> progress rs' + tot"
proof (induction ps skip tot todo w rs rule: send_loop.induct)
  case (2 ps skip tot todo w r rs)
  show ?case
  proof (cases "\<exists>n. r = Moves n \<and> tot \<noteq> 0")
    case True
    then obtain n where n: "r = Moves n" "tot \<noteq> 0" by blast
    let ?x = "take n (offered ps skip todo)"
    have x: "length ?x = min n todo" using 2(7,9) by (simp add: offered_part del: length_concat)
    show ?thesis
    proof (cases "n = 0")
      case False
      then have "0 < min n todo" "min n todo \<le> tot" using 2(7,8) n(2) by auto
      moreover have "\<exists>w' rs'. send_loop ps (skip + length ?x) (tot - length ?x) (tot - length ?x) (w @ ?x) rs = Some (Inr w', rs') \<and>
          Fails \<notin> set rs' \<and> progress rs \<le> progress rs' + (tot - length ?x)"
        using 2(5-9) n False \<open>0 < min n todo\<close> \<open>min n todo \<le> tot\<close> unfolding x
        by (intro 2(1) [OF n(2,1) refl, unfolded x]) (auto simp del: length_concat)
      ultimately show ?thesis using n False x by (auto simp: Let_def)
    next
      case True
      then show ?thesis using 2(1) [OF n(2,1) refl] 2(5-9) n by (auto simp: Let_def simp del: length_concat)
    qed
  next
    case False
    have "todo div 2 \<le> tot" using 2(7) by (meson div_le_dividend le_trans)
    then show ?thesis using 2 False by (cases r) (auto simp del: length_concat)
  qed
qed auto

lemma AuFlush_returns:
  assumes "Fails \<notin> set rs" "bufptr s \<le> progress rs" "out_ok s"
  shows "\<exists>s' rs'. AuFlush s rs = Some (Inr s', rs') \<and> Fails \<notin> set rs' \<and> progress rs \<le> progress rs' + bufptr s"
proof -
  obtain w rs' where "send_loop [take (bufptr s) (buffer s)] 0 (bufptr s) (bufptr s) (wire s) rs = Some (Inr w, rs')"
      "Fails \<notin> set rs'" "progress rs \<le> progress rs' + bufptr s"
    using send_loop_returns [of rs "bufptr s" "bufptr s" 0 "[take (bufptr s) (buffer s)]" "wire s"] assms by (auto simp: out_ok_def)
  then show ?thesis using assms(3) by (auto simp: AuFlush_def out_ok_def flush_loop_send)
qed

lemma AuSend_returns:
  assumes "Fails \<notin> set rs" "bufptr s + (length d + 3) div 4 * 4 \<le> progress rs" "out_ok s"
  shows "\<exists>s' rs'. AuSend d s rs = Some (Inr s', rs') \<and> bufptr s' = 0 \<and> Fails \<notin> set rs' \<and>
    progress rs \<le> progress rs' + (bufptr s + (length d + 3) div 4 * 4)"
proof -
  let ?t = "bufptr s + length d + padlength ! (length d mod 4)"
  let ?ps = "[take (bufptr s) (buffer s), d, replicate (padlength ! (length d mod 4)) 0]"
  have t: "?t = bufptr s + (length d + 3) div 4 * 4" using padlength_rounds [of "length d"] by simp
  obtain w rs' where "send_loop ?ps 0 ?t ?t (wire s) rs = Some (Inr w, rs')" "Fails \<notin> set rs'" "progress rs \<le> progress rs' + ?t"
    using send_loop_returns [of rs ?t ?t 0 ?ps "wire s"] assms t by (auto simp: out_ok_def)
  then show ?thesis unfolding t by (auto simp: AuSend_def t Let_def)
qed

fun put_size :: "put \<Rightarrow> nat" where
  "put_size (PutReq n fs) = n"
| "put_size (PutData d) = (length d + 3) div 4 * 4"

lemma run_put_returns:
  assumes "Fails \<notin> set rs" "bufptr s + put_size p \<le> progress rs" "out_ok s"
  shows "\<exists>s' rs'. run_put p s rs = Some (Inr s', rs') \<and> Fails \<notin> set rs' \<and>
    bufptr s' + progress rs \<le> progress rs' + bufptr s + put_size p"
proof (cases p)
  case (PutReq n fs)
  show ?thesis
  proof (cases "BUFSIZE < bufptr s + n")
    case True
    obtain t rs' where t: "AuFlush s rs = Some (Inr t, rs')" "Fails \<notin> set rs'" "progress rs \<le> progress rs' + bufptr s"
      using AuFlush_returns [of rs s] assms PutReq by auto
    then have "bufptr t = 0" using AuFlush_stream [OF t(1) assms(3)] by simp
    with t True show ?thesis by (simp add: PutReq AuGetReq_def)
  qed (use assms(1) in \<open>simp add: PutReq AuGetReq_def\<close>)
next
  case (PutData d)
  then show ?thesis using AuSend_returns [of rs s d] assms by (auto simp: AuData_def)
qed

text \<open>
  C26. Output is not held up by partial writes: unless a call fails for good, a sequence of requests and data is put in and the
  function returns as soon as the calls have moved as many times as there are bytes in the buffer and in the operations, with
  any number of calls in between that block, are interrupted or refuse the size.
\<close>

theorem output_returns:
  assumes "Fails \<notin> set rs" "bufptr s + sum_list (map put_size ps) \<le> progress rs" "out_ok s" "list_all valid_put ps"
  shows "\<exists>s' rs'. run_puts ps s rs = Some (Inr s', rs')"
  using assms
proof (induction ps arbitrary: s rs)
  case (Cons p ps)
  obtain t rs1 where t: "run_put p s rs = Some (Inr t, rs1)" "Fails \<notin> set rs1" "bufptr t + progress rs \<le> progress rs1 + bufptr s + put_size p"
    using run_put_returns [of rs s p] Cons.prems by auto
  have "out_ok t" using run_put_stream [OF t(1) Cons.prems(3)] Cons.prems(4) by simp
  then obtain s' rs' where "run_puts ps t rs1 = Some (Inr s', rs')" using Cons.IH [of rs1 t] Cons.prems t(2,3) by fastforce
  with t(1) show ?case by simp
qed simp

lemma output_returns_witness:
  "\<exists>s' rs'. run_puts [PutReq 4 [(0, [7])], PutData (replicate 3000 9)] fresh_out (replicate 4000 (Moves 1) @ [Blocks]) = Some (Inr s', rs')"
proof (rule output_returns)
  have "progress (replicate n (Moves 1) @ xs) = n + progress xs" for n xs by (induction n) simp_all
  then show "bufptr fresh_out + sum_list (map put_size [PutReq 4 [(0, [7])], PutData (replicate 3000 9)]) \<le> progress (replicate 4000 (Moves 1) @ [Blocks])"
    by (simp add: fresh_out_def)
qed (simp_all add: out_ok_def fresh_out_def)

section \<open>Input\<close>

text \<open>
  Reading \<open>sz\<close> bytes of \<open>inp\<close>, what the server still sends: \<open>Moves 0\<close>, or the end of \<open>inp\<close>, is the end of the connection. The
  results are the bytes and what is left.
\<close>

fun read_loop :: "nat \<Rightarrow> bytes \<Rightarrow> bytes \<Rightarrow> io_result list \<Rightarrow> (bytes \<times> bytes) io" where
  "read_loop sz got inp [] = None"
| "read_loop sz got inp (r # rs) =
     (case r of
        Moves n \<Rightarrow>
          let x = take (min n sz) inp in
          if length x = sz then Some (Inr (got @ x, drop sz inp), rs)
          else if x \<noteq> [] then read_loop (sz - length x) (got @ x) (drop (length x) inp) rs
          else Some (Inl (), rs)
      | Blocks \<Rightarrow> read_loop sz got inp rs
      | TooBig \<Rightarrow> Some (Inl (), rs)
      | Interrupted \<Rightarrow> read_loop sz got inp rs
      | Fails \<Rightarrow> Some (Inl (), rs))"

definition AuRead :: "nat \<Rightarrow> bytes \<Rightarrow> io_result list \<Rightarrow> (bytes \<times> bytes) io" where
  "AuRead n inp rs = (if n = 0 then Some (Inr ([], inp), rs) else read_loop n [] inp rs)"

text \<open>
  Reading data and its padding into two places. \<open>len0\<close> is \<^verbatim>\<open>iov[0].iov_len\<close>, a \<^verbatim>\<open>size_t\<close>: the test whether it has become
  negative is never true. \<^verbatim>\<open>readv\<close> fails with \<^verbatim>\<open>EINVAL\<close> if the lengths add up to more than a \<^verbatim>\<open>ssize_t\<close> holds.
\<close>

fun read_pad_loop :: "nat \<Rightarrow> 64 word \<Rightarrow> nat \<Rightarrow> bytes \<Rightarrow> bytes \<Rightarrow> io_result list \<Rightarrow> (bytes \<times> bytes) io" where
  "read_pad_loop sz len0 len1 got inp [] = None"
| "read_pad_loop sz len0 len1 got inp (r # rs) =
     (if 2 ^ 63 \<le> unat len0 + len1 then Some (Inl (), rs)
      else case r of
        Moves n \<Rightarrow>
          let x = take (min n (unat len0 + len1)) inp in
          if length x = sz then Some (Inr (got @ take (unat len0) x, drop sz inp), rs)
          else if x \<noteq> [] then
            read_pad_loop (sz - length x) (len0 - word_of_nat (length x)) len1 (got @ take (unat len0) x) (drop (length x) inp) rs
          else Some (Inl (), rs)
      | Blocks \<Rightarrow> read_pad_loop sz len0 len1 got inp rs
      | TooBig \<Rightarrow> Some (Inl (), rs)
      | Interrupted \<Rightarrow> read_pad_loop sz len0 len1 got inp rs
      | Fails \<Rightarrow> Some (Inl (), rs))"

definition AuReadPad :: "nat \<Rightarrow> bytes \<Rightarrow> io_result list \<Rightarrow> (bytes \<times> bytes) io" where
  "AuReadPad n inp rs =
     (if n = 0 then Some (Inr ([], inp), rs)
      else read_pad_loop (n + padlength ! (n mod 4)) (word_of_nat n) (padlength ! (n mod 4)) [] inp rs)"

lemma read_loop_exact:
  "read_loop sz got inp rs = Some (Inr (x, rest), rs') \<Longrightarrow> x = got @ take sz inp \<and> rest = drop sz inp \<and> sz \<le> length inp"
proof (induction sz got inp rs rule: read_loop.induct)
  case (2 sz got inp r rs)
  show ?case
  proof (cases r)
    case (Moves n)
    define k where "k = min (min n sz) (length inp)"
    have k: "take (min n sz) inp = take k inp" "length (take k inp) = k" "k \<le> sz" "k \<le> length inp" by (auto simp: k_def min_def)
    show ?thesis
    proof (cases "k = sz")
      case False
      have "x = (got @ take k inp) @ take (sz - k) (drop k inp) \<and> rest = drop (sz - k) (drop k inp) \<and> sz - k \<le> length (drop k inp)"
        using 2(1) [OF Moves refl, unfolded k(1,2)] 2(4) Moves False k by (auto simp: Let_def k(1) split: if_splits)
      moreover have "take k inp @ take (sz - k) (drop k inp) = take sz inp" using take_add [of k "sz - k" inp] k(3) by simp
      ultimately show ?thesis using k(3,4) by (simp add: le_diff_iff)
    qed (use 2(4) Moves k in \<open>simp add: Let_def\<close>)
  qed (use 2 in \<open>auto\<close>)
qed simp

lemma AuRead_exact: "AuRead n inp rs = Some (Inr (x, rest), rs') \<Longrightarrow> x = take n inp \<and> rest = drop n inp \<and> n \<le> length inp"
  by (auto simp: AuRead_def dest!: read_loop_exact split: if_splits)

text \<open>With lengths that have not wrapped, reading the padding goes well until a call ends inside of it; then every other one fails.\<close>

lemma read_pad_loop_wrapped: "2 ^ 63 \<le> unat len0 + len1 \<Longrightarrow> read_pad_loop sz len0 len1 got inp rs \<noteq> Some (Inr y, rs')"
  by (cases rs) auto

lemma read_pad_loop_exact:
  "read_pad_loop sz len0 len1 got inp rs = Some (Inr (x, rest), rs') \<Longrightarrow> unat len0 + len1 = sz \<Longrightarrow> len1 < 4 \<Longrightarrow>
   x = got @ take (unat len0) inp \<and> rest = drop sz inp \<and> sz \<le> length inp"
proof (induction sz len0 len1 got inp rs rule: read_pad_loop.induct)
  case (2 sz len0 len1 got inp r rs)
  have small: "\<not> 2 ^ 63 \<le> unat len0 + len1" using 2(4) by (auto split: if_splits)
  show ?case
  proof (cases r)
    case (Moves n)
    define k where "k = min (min n sz) (length inp)"
    have k: "take (min n (unat len0 + len1)) inp = take k inp" "length (take k inp) = k" "k \<le> sz" "k \<le> length inp"
      using 2(5) by (auto simp: k_def min_def)
    show ?thesis
    proof (cases "k = sz")
      case False
      have run: "read_pad_loop (sz - k) (len0 - word_of_nat k) len1 (got @ take (unat len0) (take k inp)) (drop k inp) rs = Some (Inr (x, rest), rs')"
        and ne: "take k inp \<noteq> []"
        using 2(4) small Moves k False by (auto simp: Let_def split: if_splits)
      show ?thesis
      proof (cases "k \<le> unat len0")
        case True
        have len: "unat (len0 - word_of_nat k) = unat len0 - k"
          using True small by (simp add: unat_sub word_le_nat_alt unat_of_nat)
        have "x = (got @ take (unat len0) (take k inp)) @ take (unat len0 - k) (drop k inp) \<and> rest = drop (sz - k) (drop k inp) \<and>
            sz - k \<le> length (drop k inp)"
          using 2(1) [OF small Moves refl, unfolded k(1,2)] run ne False 2(5,6) True len by auto
        moreover have "take k inp @ take (unat len0 - k) (drop k inp) = take (unat len0) inp"
          using take_add [of k "unat len0 - k" inp] True by simp
        ultimately show ?thesis using k(3,4) True by (simp add: le_diff_iff min_absorb2)
      next
        case F: False
        have "unat (len0 - word_of_nat k) = 2 ^ 64 + unat len0 - k"
          using F k(3) 2(5,6) small by (simp add: unat_sub_if' unat_of_nat)
        then have "2 ^ 63 \<le> unat (len0 - word_of_nat k) + len1" using F k(3) 2(5,6) by simp
        from read_pad_loop_wrapped [OF this] run show ?thesis by blast
      qed
    qed (use 2(4,5) small Moves k in \<open>auto simp: Let_def min_absorb2\<close>)
  qed (use 2 small in auto)
qed simp

lemma padlength_less: "padlength ! (n mod 4) < 4"
  using padlength_rounds [of n] by presburger

lemma AuReadPad_exact:
  assumes "AuReadPad n inp rs = Some (Inr (x, rest), rs')" "n < 2 ^ 63"
  shows "x = take n inp \<and> rest = drop ((n + 3) div 4 * 4) inp \<and> (n + 3) div 4 * 4 \<le> length inp"
proof (cases "n = 0")
  case False
  have "unat (word_of_nat n :: 64 word) = n" using assms(2) by (simp add: unat_of_nat)
  with read_pad_loop_exact [of "n + padlength ! (n mod 4)" "word_of_nat n" "padlength ! (n mod 4)" "[]" inp rs] assms(1) False
  show ?thesis by (simp add: AuReadPad_def padlength_less padlength_rounds)
qed (use assms in \<open>simp add: AuReadPad_def\<close>)

text \<open>
  C36. A read that ends inside the padding behind data ends the program: \<^verbatim>\<open>_AuReadPad\<close> takes the bytes read off the length of the
  first piece, which is unsigned, so it wraps to almost 2 ^ 64, and the next \<^verbatim>\<open>readv\<close> is refused whatever the server has sent.
\<close>

theorem read_into_padding_fails:
  assumes "n < k" "k < (n + 3) div 4 * 4" "k \<le> length inp" "n < 2 ^ 62" "0 < n"
  shows "AuReadPad n inp (Moves k # r # rs) = Some (Inl (), rs)"
proof -
  let ?pad = "padlength ! (n mod 4)"
  have u: "unat (word_of_nat n :: 64 word) = n" using assms(4) by (simp add: unat_of_nat)
  have pad: "k < n + ?pad" "?pad < 4" using assms(2) padlength_rounds [of n] padlength_less by simp_all
  have "unat (word_of_nat n - word_of_nat k :: 64 word) = 2 ^ 64 + n - k"
    using assms(1,4) pad by (simp add: unat_sub_if' unat_of_nat)
  then have "2 ^ 63 \<le> unat (word_of_nat n - word_of_nat k :: 64 word) + ?pad" using pad by simp
  then have "read_pad_loop (n + ?pad - k) (word_of_nat n - word_of_nat k) ?pad (take n (take k inp)) (drop k inp) (r # rs) = Some (Inl (), rs)"
    by simp
  moreover have "read_pad_loop (n + ?pad) (word_of_nat n) ?pad [] inp (Moves k # r # rs) =
      read_pad_loop (n + ?pad - k) (word_of_nat n - word_of_nat k) ?pad (take n (take k inp)) (drop k inp) (r # rs)"
    using assms(1,3,4) pad u by (auto simp: Let_def min_def)
  ultimately show ?thesis using assms(5) by (simp add: AuReadPad_def)
qed

lemma read_into_padding_fails_witness:
  "AuReadPad 5 [1, 2, 3, 4, 5, 0, 0, 0] [Moves 6, Moves 2] = Some (Inl (), []) \<and>
   AuReadPad 5 [1, 2, 3, 4, 5, 0, 0, 0] [Moves 5, Moves 3] = Some (Inr ([1, 2, 3, 4, 5], []), [])"
proof (rule conjI)
  show "AuReadPad 5 [1, 2, 3, 4, 5, 0, 0, 0] [Moves 6, Moves 2] = Some (Inl (), [])"
    by (rule read_into_padding_fails) simp_all
  show "AuReadPad 5 [1, 2, 3, 4, 5, 0, 0, 0] [Moves 5, Moves 3] = Some (Inr ([1, 2, 3, 4, 5], []), [])"
    by (simp add: AuReadPad_def padlength_def Let_def)
qed

end
