(* ===== verification/Lib_Requests.thy ===== *)
theory Lib_Requests
  imports Lib_Transport Element_Requests
begin

text \<open>
  The requests of the client library on elements (\<^verbatim>\<open>lib/audio/SetElement.c\<close>, \<^verbatim>\<open>SetElState.c\<close>, \<^verbatim>\<open>WriteEl.c\<close>,
  \<^verbatim>\<open>GetElement.c\<close>): what the library writes for them, as sequences of requests and data, and how it reads elements back.
  The server's handlers are run on what the library has written.

  The structures the library fills for the wire are local variables: what no field covers is whatever they held, which for
  a variable that is used again is the element or action before. Unknown types of elements, which \<^verbatim>\<open>AuSetElements\<close> refuses
  before it writes anything, are not in the type \<open>au_element\<close>; allocations succeed.
\<close>

section \<open>Writing elements\<close>

abbreviation (input) Au_SetElements :: u8 where "Au_SetElements \<equiv> 19"
abbreviation (input) Au_SetElementStates :: u8 where "Au_SetElementStates \<equiv> 21"
abbreviation (input) Au_WriteElement :: u8 where "Au_WriteElement \<equiv> 24"

text \<open>The local variables \<^verbatim>\<open>e\<close>, \<^verbatim>\<open>a\<close>, \<^verbatim>\<open>t\<close>, \<^verbatim>\<open>s\<close> before they are set.\<close>

record locals =
  k_element :: bytes
  k_action :: bytes
  k_track :: bytes
  k_state :: bytes

definition locals_ok :: "locals \<Rightarrow> bool" where
  "locals_ok J \<longleftrightarrow> length (k_element J) = sizeof_auElement \<and> length (k_action J) = sizeof_auElementAction \<and>
     length (k_track J) = sizeof_auInputTrack \<and> length (k_state J) = 8"

fun writeActions :: "bytes \<Rightarrow> raw_action list \<Rightarrow> put list" where
  "writeActions a [] = []"
| "writeActions a (act # acts) = (let a = put_fields (action_fields act) 0 a in PutData a # writeActions a acts)"

fun write_tracks :: "bytes \<Rightarrow> (u8 \<times> u8) list \<Rightarrow> put list" where
  "write_tracks t [] = []"
| "write_tracks t (tr # trs) = (let t = put_fields [(0, [fst tr]), (1, [snd tr])] 0 t in PutData t # write_tracks t trs)"

definition element_data :: "locals \<Rightarrow> au_element \<Rightarrow> put list" where
  "element_data J el = (case el of
     Bundle ts \<Rightarrow> write_tracks (k_track J) ts
   | Sum is \<Rightarrow> [PutData (concat (map bytes16 is))]
   | MultiplyConstant _ _ \<Rightarrow> []
   | AddConstant _ _ \<Rightarrow> []
   | ExportMonitor _ _ _ _ \<Rightarrow> []
   | _ \<Rightarrow> writeActions (k_action J) (el_actions el))"

fun write_elements :: "locals \<Rightarrow> bytes \<Rightarrow> au_element list \<Rightarrow> put list" where
  "write_elements J e [] = []"
| "write_elements J e (el # els) =
     (let e = put_fields (el_fields el) 0 e in PutData e # element_data J el @ write_elements J e els)"

text \<open>The amount of variable data, a C integer.\<close>

definition client_var_len :: "au_element list \<Rightarrow> s32" where
  "client_var_len els = sum_list (map (\<lambda>el. case el of
     Bundle ts \<Rightarrow> word_of_nat (length ts * sizeof_auInputTrack)
   | Sum is \<Rightarrow> word_of_nat ((length is * 2 + 3) div 4 * 4)
   | MultiplyConstant _ _ \<Rightarrow> 0
   | AddConstant _ _ \<Rightarrow> 0
   | ExportMonitor _ _ _ _ \<Rightarrow> 0
   | _ \<Rightarrow> word_of_nat (length (el_actions el) * sizeof_auElementAction)) els)"

text \<open>The length of the request has 16 bits.\<close>

definition AuSetElements :: "locals \<Rightarrow> u32 \<Rightarrow> s32 \<Rightarrow> au_element list \<Rightarrow> put list" where
  "AuSetElements J flow clocked els =
     (let len = 3 + ucast (signed_drop_bit 2 (word_of_nat (length els * sizeof_auElement) + client_var_len els)) in
      PutReq 12 [(0, [Au_SetElements]), (1, [ucast clocked]), (2, bytes16 len), (4, bytes32 flow), (8, bytes32 (word_of_nat (length els)))] #
      write_elements J (k_element J) els)"

fun write_states :: "bytes \<Rightarrow> (u32 \<times> u8 \<times> u8) list \<Rightarrow> put list" where
  "write_states s [] = []"
| "write_states s ((flow, num, st) # sts) =
     (let s = put_fields [(0, bytes32 flow), (4, [num]), (5, [st])] 0 s in PutData s # write_states s sts)"

definition AuSetElementStates :: "locals \<Rightarrow> (u32 \<times> u8 \<times> u8) list \<Rightarrow> put list" where
  "AuSetElementStates J sts =
     (let len = 2 + ucast (signed_drop_bit 2 (word_of_nat (length sts * 8) :: s32)) in
      PutReq 8 [(0, [Au_SetElementStates]), (2, bytes16 len), (4, bytes32 (word_of_nat (length sts)))] # write_states (k_state J) sts)"

section \<open>Writing data\<close>

definition write_request :: "u32 \<Rightarrow> u8 \<Rightarrow> u8 \<Rightarrow> bytes \<Rightarrow> put list" where
  "write_request flow num st x =
     (let n = word_of_nat (length x); len = 4 + ucast (drop_bit 2 (PAD4 n)) in
      [PutReq 16 [(0, [Au_WriteElement]), (1, [num]), (2, bytes16 len), (4, bytes32 flow), (8, bytes32 n), (12, [st])], PutData x])"

text \<open>
  The loop of \<^verbatim>\<open>AuWriteElement\<close>: the requests it sends, given whether each of them was answered without an error, or always
  \<open>True\<close> if the caller did not ask for the status. It ends after an error or with the last of the data.
\<close>

fun write_chunks :: "u32 \<Rightarrow> u32 \<Rightarrow> u8 \<Rightarrow> u8 \<Rightarrow> bytes \<Rightarrow> bool list \<Rightarrow> put list list option" where
  "write_chunks maxBytes flow num finalState x [] = None"
| "write_chunks maxBytes flow num finalState x (ok # oks) =
     (let n = (if unat maxBytes < length x then unat maxBytes else length x);
          rest = drop n x;
          rq = write_request flow num (if rest \<noteq> [] then AuTransferStatePending else finalState) (take n x) in
      if ok \<and> rest \<noteq> [] then map_option ((#) rq) (write_chunks maxBytes flow num finalState rest oks) else Some [rq])"

definition AuWriteElement :: "u32 \<Rightarrow> u32 \<Rightarrow> u8 \<Rightarrow> bool \<Rightarrow> bytes \<Rightarrow> bool list \<Rightarrow> put list list option" where
  "AuWriteElement max_request_size flow num end_of_data x oks =
     (let finalState = (if end_of_data then AuTransferStateEnd else AuTransferStateReady); maxBytes = max_request_size - 16 in
      write_chunks maxBytes flow num finalState x oks)"

section \<open>Reading elements\<close>

fun read_actions :: "nat \<Rightarrow> bytes \<Rightarrow> io_result list \<Rightarrow> (raw_action list \<times> bytes) io" where
  "read_actions 0 inp rs = Some (Inr ([], inp), rs)"
| "read_actions (Suc n) inp rs =
     io_bind (AuReadPad sizeof_auElementAction inp rs) (\<lambda>(a, inp) rs.
       case load_action a 0 of
         None \<Rightarrow> None
       | Some act \<Rightarrow> io_bind (read_actions n inp rs) (\<lambda>(acts, inp) rs. Some (Inr (act # acts, inp), rs)))"

fun read_tracks :: "nat \<Rightarrow> bytes \<Rightarrow> io_result list \<Rightarrow> ((u8 \<times> u8) list \<times> bytes) io" where
  "read_tracks 0 inp rs = Some (Inr ([], inp), rs)"
| "read_tracks (Suc n) inp rs =
     io_bind (AuReadPad sizeof_auInputTrack inp rs) (\<lambda>(t, inp) rs.
       case (ld8 t 0, ld8 t 1) of
         (Some x, Some y) \<Rightarrow> io_bind (read_tracks n inp rs) (\<lambda>(trs, inp) rs. Some (Inr ((x, y) # trs, inp), rs))
       | _ \<Rightarrow> None)"

text \<open>What is read behind the fixed part \<open>h\<close> of an element.\<close>

definition read_rest :: "bytes \<Rightarrow> bytes \<Rightarrow> io_result list \<Rightarrow> (au_element \<times> bytes) io" where
  "read_rest e inp rs =
     (case ld16 e 0 of
        None \<Rightarrow> None
      | Some ty \<Rightarrow>
          (case num_actions_at ty of
             Some off \<Rightarrow>
               (case ld32 e off of
                  None \<Rightarrow> None
                | Some n \<Rightarrow>
                    io_bind (read_actions (unat n) inp rs) (\<lambda>(acts, inp) rs.
                      map_option (\<lambda>el. (Inr (el, inp), rs)) (load_element e 0 ty acts)))
           | None \<Rightarrow>
               if ty = AuElementTypeBundle then
                 (case ld16 e 2 of
                    None \<Rightarrow> None
                  | Some n \<Rightarrow> io_bind (read_tracks (unat n) inp rs) (\<lambda>(trs, inp) rs. Some (Inr (Bundle trs, inp), rs)))
               else if ty = AuElementTypeSum then
                 (case ld16 e 2 of
                    None \<Rightarrow> None
                  | Some n \<Rightarrow>
                      io_bind (AuReadPad (2 * unat n) inp rs) (\<lambda>(x, inp) rs.
                        Some (Inr (Sum (map (\<lambda>k. mk16 (x ! (2 * k)) (x ! (2 * k + 1))) [0..<unat n]), inp), rs)))
               else map_option (\<lambda>el. (Inr (el, inp), rs)) (load_element e 0 ty [])))"

text \<open>One element: its fixed part, then what its type says.\<close>

definition read_element :: "bytes \<Rightarrow> io_result list \<Rightarrow> (au_element \<times> bytes) io" where
  "read_element inp rs = io_bind (AuReadPad sizeof_auElement inp rs) (\<lambda>(e, inp) rs. read_rest e inp rs)"

fun AuGetElements :: "nat \<Rightarrow> bytes \<Rightarrow> io_result list \<Rightarrow> (au_element list \<times> bytes) io" where
  "AuGetElements 0 inp rs = Some (Inr ([], inp), rs)"
| "AuGetElements (Suc n) inp rs =
     io_bind (read_element inp rs) (\<lambda>(el, inp) rs.
       io_bind (AuGetElements n inp rs) (\<lambda>(els, inp) rs. Some (Inr (el # els, inp), rs)))"

section \<open>What the structures hold\<close>

text \<open>Fields one behind the other from \<open>k\<close>, all before \<open>n\<close>.\<close>

fun apart :: "(nat \<times> bytes) list \<Rightarrow> nat \<Rightarrow> nat \<Rightarrow> bool" where
  "apart [] k n \<longleftrightarrow> k \<le> n"
| "apart ((p, x) # fs) k n \<longleftrightarrow> k \<le> p \<and> apart fs (p + length x) n"

lemma apart_le: "apart fs k n \<Longrightarrow> k \<le> n"
  by (induction fs k n rule: apart.induct) auto

lemma apart_inside: "apart fs k n \<Longrightarrow> list_all (\<lambda>(p, x). p + length x \<le> n) fs"
  by (induction fs k n rule: apart.induct) (auto dest: apart_le)

lemma put_fields_Cons: "put_fields ((p, x) # fs) 0 b = put_fields fs 0 (blit x p b)"
  by (simp add: put_fields_def)

lemma put_fields_holds:
  "apart fs k n \<Longrightarrow> n \<le> length b \<Longrightarrow>
   length (put_fields fs 0 b) = length b \<and> take k (put_fields fs 0 b) = take k b \<and> holds fs (put_fields fs 0 b) 0"
proof (induction fs arbitrary: k b)
  case (Cons f fs)
  obtain p x where f: "f = (p, x)" by force
  have ap: "k \<le> p" "apart fs (p + length x) n" "p + length x \<le> n" using Cons.prems(1) apart_le [of fs "p + length x" n] by (simp_all add: f)
  let ?b = "blit x p b" and ?r = "put_fields (f # fs) 0 b"
  have len: "length ?b = length b" using ap(3) Cons.prems(2) by (simp add: length_blit)
  have ih: "length ?r = length b" "take (p + length x) ?r = take (p + length x) ?b" "holds fs ?r 0"
    using Cons.IH [OF ap(2), of ?b] Cons.prems(2) len by (simp_all add: f put_fields_Cons)
  have "load ?r p (length x) = Some (take (length x) (drop p ?r))" using ih(1) ap(3) Cons.prems(2) by (simp add: load_def)
  also have "take (length x) (drop p ?r) = drop p (take (p + length x) ?r)" by (simp add: drop_take)
  also have "\<dots> = x" using ap(3) Cons.prems(2) unfolding ih(2) by (simp add: blit_def)
  finally have "holds (f # fs) ?r 0" using ih(3) by (simp add: f holds_simps)
  moreover have "take k ?r = take k ?b" using arg_cong [OF ih(2), of "take k"] ap(1) by (simp add: min_absorb1)
  then have "take k ?r = take k b" using ap(1,3) Cons.prems(2) by (simp add: blit_def)
  ultimately show ?case using ih(1) by blast
qed (simp add: put_fields_def holds_simps)

lemma apart_elements: "apart (el_fields e) 0 sizeof_auElement"
  by (cases e) (simp_all add: el_fields_def bytes16_def)

lemma apart_action: "apart (action_fields a) 0 sizeof_auElementAction"
  by (simp add: action_fields_def)

lemma carries_whole: "carries (PutData d) x \<Longrightarrow> 4 dvd length d \<Longrightarrow> x = d"
  by (auto simp: padlength_def elim!: dvdE)

lemma carries_actions:
  "list_all2 carries (writeActions a acts) ys \<Longrightarrow> length a = sizeof_auElementAction \<Longrightarrow>
   list_all2 (\<lambda>act w. length w = sizeof_auElementAction \<and> holds (action_fields act) w 0) acts ys"
proof (induction acts arbitrary: a ys)
  case (Cons act acts)
  let ?a = "put_fields (action_fields act) 0 a"
  have a: "length ?a = sizeof_auElementAction" "holds (action_fields act) ?a 0"
    using put_fields_holds [OF apart_action, of a act] Cons.prems(2) by simp_all
  obtain y ys' where y: "ys = y # ys'" "carries (PutData ?a) y" "list_all2 carries (writeActions ?a acts) ys'"
    using Cons.prems(1) by (auto simp: Let_def list_all2_Cons1)
  have "y = ?a" using carries_whole [OF y(2)] a(1) by simp
  with Cons.IH [OF y(3) a(1)] a y(1) show ?case by simp
qed simp

lemma carries_tracks:
  "list_all2 carries (write_tracks t ts) ys \<Longrightarrow> length t = sizeof_auInputTrack \<Longrightarrow>
   list_all2 (\<lambda>t w. length w = sizeof_auInputTrack \<and> holds [(0, [fst t]), (1, [snd t])] w 0) ts ys"
proof (induction ts arbitrary: t ys)
  case (Cons tr ts)
  let ?t = "put_fields [(0, [fst tr]), (1, [snd tr])] 0 t"
  have t: "length ?t = sizeof_auInputTrack" "holds [(0, [fst tr]), (1, [snd tr])] ?t 0"
    using put_fields_holds [of "[(0, [fst tr]), (1, [snd tr])]" 0 sizeof_auInputTrack t] Cons.prems(2) by simp_all
  obtain y ys' where y: "ys = y # ys'" "carries (PutData ?t) y" "list_all2 carries (write_tracks ?t ts) ys'"
    using Cons.prems(1) by (auto simp: Let_def list_all2_Cons1)
  have "y = ?t" using carries_whole [OF y(2)] t(1) by simp
  with Cons.IH [OF y(3) t(1)] t y(1) show ?case by simp
qed simp

lemma carries_data:
  assumes "list_all2 carries (element_data J el) ys" "locals_ok J"
  shows "var_ok el (concat ys)"
proof -
  have J: "length (k_action J) = sizeof_auElementAction" "length (k_track J) = sizeof_auInputTrack" using assms(2) by (simp_all add: locals_ok_def)
  show ?thesis
  proof (cases el)
    case (Bundle ts)
    then show ?thesis using carries_tracks [OF _ J(2), of ts ys] assms(1) by (auto simp: element_data_def var_ok_def)
  next
    case (Sum "is")
    then obtain pad where pad: "concat ys = concat (map bytes16 is) @ pad" "length pad = padlength ! ((2 * length is) mod 4)"
      using assms(1) by (auto simp: element_data_def list_all2_Cons1 length_inputs)
    have "padlength ! ((2 * length is) mod 4) = 2 * (length is mod 2)"
    proof -
      have "(2 * length is) mod 4 = 2 * (length is mod 2)" by presburger
      moreover have "length is mod 2 = 0 \<or> length is mod 2 = 1" by presburger
      ultimately show ?thesis by (auto simp: padlength_def)
    qed
    with pad Sum show ?thesis by (simp add: var_ok_def)
  qed (use carries_actions [OF _ J(1), of "el_actions el" ys] assms(1) in
      \<open>auto simp: element_data_def var_ok_def el_actions_def list_all2_Nil\<close>)
qed

lemma carries_elements:
  "list_all2 carries (write_elements J e els) xs \<Longrightarrow> length e = sizeof_auElement \<Longrightarrow> locals_ok J \<Longrightarrow> encodes els (concat xs)"
proof (induction els arbitrary: e xs)
  case (Cons el els)
  let ?e = "put_fields (el_fields el) 0 e"
  have e: "length ?e = sizeof_auElement" "holds (el_fields el) ?e 0"
    using put_fields_holds [OF apart_elements, of e el] Cons.prems(2) by simp_all
  obtain x ys zs where xs: "xs = x # ys @ zs" "carries (PutData ?e) x" "list_all2 carries (element_data J el) ys"
      "list_all2 carries (write_elements J ?e els) zs"
    using Cons.prems(1) by (auto simp: Let_def list_all2_Cons1 list_all2_append1)
  have "x = ?e" using carries_whole [OF xs(2)] e(1) by simp
  with encodes_Cons [OF e carries_data [OF xs(3) Cons.prems(3)] Cons.IH [OF xs(4) e(1) Cons.prems(3)]] xs(1) show ?case
    by simp
qed simp

lemma client_var_len: "client_var_len els = word_of_nat (sum_list (map var_size els))"
proof (induction els)
  case (Cons el els)
  have "(length is * 2 + 3) div 4 * 4 = 2 * length is + 2 * (length is mod 2)" for "is" :: "u16 list" by presburger
  then have "client_var_len (el # els) = word_of_nat (var_size el) + client_var_len els"
    by (cases el) (simp_all add: client_var_len_def var_size_def el_actions_def mult.commute)
  with Cons.IH show ?case by simp
qed (simp add: client_var_len_def)

lemma signed_words: "n < 2 ^ 31 \<Longrightarrow> ucast (signed_drop_bit 2 (word_of_nat n :: s32)) = (word_of_nat (n div 4) :: u16)"
proof -
  assume n: "n < 2 ^ 31"
  have "sint (signed_drop_bit 2 (word_of_nat n :: s32)) = int (n div 4)"
    using n by (simp add: sint_signed_drop_bit_eq signed_of_nat signed_take_bit_int_eq_self drop_bit_eq_div zdiv_int)
  then have "word_of_int (sint (signed_drop_bit 2 (word_of_nat n :: s32))) = (word_of_int (int (n div 4)) :: s32)" by (rule arg_cong)
  then have "signed_drop_bit 2 (word_of_nat n :: s32) = word_of_nat (n div 4)" by (simp only: of_int_sint of_int_of_nat_eq scast_id)
  then show ?thesis using n by (simp add: unsigned_of_nat take_bit_nat_eq_self)
qed

section \<open>Elements from the library to the server\<close>

text \<open>The bytes of a request: its header, and what is behind it.\<close>

lemma carries_header:
  assumes "carries (PutReq n fs) h" "apart fs 0 n"
  shows "length h = n \<and> holds fs (h @ body) 0"
proof -
  obtain y where y: "length y = n" "h = put_fields fs 0 y" using assms(1) by auto
  have "length h = n" "holds fs h 0" using put_fields_holds [OF assms(2), of y] y by simp_all
  then show ?thesis using holds_part [of fs h "[]" body] by simp
qed

definition elements_size :: "au_element list \<Rightarrow> nat" where
  "elements_size els = length els * sizeof_auElement + sum_list (map var_size els)"

lemma var_size_words: "4 dvd var_size e"
proof (cases e)
  case (Sum "is")
  have "4 dvd 2 * n + 2 * (n mod 2)" for n :: nat by presburger
  with Sum show ?thesis by (simp add: var_size_def)
qed (simp_all add: var_size_def dvd_mult2)

lemma elements_size_words: "4 dvd elements_size els"
proof -
  have "4 dvd sum_list (map var_size els)" by (induction els) (auto intro: dvd_add var_size_words)
  then show ?thesis unfolding elements_size_def by (intro dvd_add dvd_mult) simp_all
qed

lemma AuSetElements_bytes:
  assumes "list_all2 carries (AuSetElements J flow clocked els) xs" "locals_ok J" "12 + elements_size els < 2 ^ 18"
  shows "\<exists>h body. concat xs = h @ body \<and> length h = 12 \<and> encodes els body \<and> length body = elements_size els \<and>
    ld8 (h @ body) 0 = Some Au_SetElements \<and> ld8 (h @ body) 1 = Some (ucast clocked) \<and>
    ld16 (h @ body) 2 = Some (word_of_nat (length (concat xs) div 4)) \<and>
    ld32 (h @ body) 4 = Some flow \<and> ld32 (h @ body) 8 = Some (word_of_nat (length els))"
proof -
  let ?len = "3 + ucast (signed_drop_bit 2 (word_of_nat (length els * sizeof_auElement) + client_var_len els)) :: u16"
  let ?fs = "[(0, [Au_SetElements]), (1, [ucast clocked]), (2, bytes16 ?len), (4, bytes32 flow), (8, bytes32 (word_of_nat (length els)))]"
  obtain h ys where xs: "xs = h # ys" "carries (PutReq 12 ?fs) h" "list_all2 carries (write_elements J (k_element J) els) ys"
    using assms(1) by (auto simp: AuSetElements_def list_all2_Cons1)
  have enc: "encodes els (concat ys)" using carries_elements [OF xs(3) _ assms(2)] assms(2) by (simp add: locals_ok_def)
  have size: "length (concat ys) = elements_size els" using encodes_length [OF enc] by (simp add: elements_size_def)
  have "apart ?fs 0 12" by (simp add: bytes16_def)
  note h = carries_header [OF xs(2) this, of "concat ys"]
  have "word_of_nat (length els * sizeof_auElement) + client_var_len els = (word_of_nat (elements_size els) :: s32)"
    by (simp add: client_var_len elements_size_def)
  then have "?len = word_of_nat (elements_size els div 4 + 3)" using signed_words [of "elements_size els"] assms(3) by simp
  moreover have "length (concat xs) div 4 = elements_size els div 4 + 3" using h size xs(1) by simp
  ultimately show ?thesis
    using h enc size by (rule_tac exI [of _ h], rule_tac exI [of _ "concat ys"]) (simp add: xs(1) holds_simps load_fields del: length_concat add_2_eq_Suc')
qed

text \<open>The request as the server delivers it to the handler.\<close>

definition delivered :: "nat \<Rightarrow> bytes \<Rightarrow> request" where
  "delivered client x = \<lparr>rq_client = client, rq_len = length x div 4, rq_buffer = x\<rparr>"

text \<open>What setting the elements \<open>els\<close> of the flow \<open>f\<close>, at \<open>r\<close>, comes to.\<close>

definition replace_elements :: "dispatch_env \<Rightarrow> request \<Rightarrow> nat \<Rightarrow> flow \<Rightarrow> bool \<Rightarrow> au_element list \<Rightarrow> dispatch \<Rightarrow> (request_status \<times> dispatch) option" where
  "replace_elements env rq r f clocked els d =
    do { s \<leftarrow> (if f_elements f \<noteq> None then AuFreeFlowElements (de_fuel env) r (di_server d) else Some (di_server d));
         (case aualloc s of
            (False, s) \<Rightarrow> AU_ERROR AuBadAlloc 0 rq (put_server s d)
          | (True, s) \<Rightarrow>
              do { s \<leftarrow> upd_flow r (\<lambda>f. f\<lparr>f_clocked := clocked, f_state := AuStateStop,
                     f_varLen := word_of_nat (sum_list (map var_size els))\<rparr>) s;
                   s \<leftarrow> upd_flow r (\<lambda>f. f\<lparr>f_elements := Some (map2 (made_element (element_env_of env rq r (length els) d)) [0..<length els] els)\<rparr>) s;
                   s \<leftarrow> link_flow r s;
                   (status, s) \<leftarrow> AuCompileFlow (de_fuel env) (compile_env_of env d) r s;
                   s \<leftarrow> (if status = AuSuccess then upd_flow r (\<lambda>f. f\<lparr>f_trivial := trivial_flow f, f_count := 0\<rparr>) s
                         else AuFreeFlowElements (de_fuel env) r s);
                   return_status status rq (put_server s d) }) }"

text \<open>
  C6. What a client sets is what the server installs: the bytes \<^verbatim>\<open>AuSetElements\<close> writes for a list of elements, whatever its
  structures held before, make the handler of the server replace the elements of the flow by exactly these, numbered in order, each
  with its own actions or, without any, the default ones of its type, and link and compile the flow; provided the length of the
  request fits into its 16 bits and the server has no objection to an action.
\<close>

theorem set_elements_end_to_end:
  assumes "list_all2 carries (AuSetElements J i clocked els) xs" "locals_ok J" "12 + elements_size els < 2 ^ 18"
    and "list_all countable_element els" "rq = delivered client (concat xs)"
    and "lookup (di_auFlowType d) i d = Some (Some r)" "get_flow r (di_server d) = Some f"
    and "list_all (\<lambda>e. list_all (accepts (element_env_of env rq r (length els) d)) (el_actions e)) els"
  shows "ProcAuSetElements env rq d = replace_elements env rq r f ((ucast clocked :: u8) \<noteq> 0) els d"
proof -
  obtain h body where b: "concat xs = h @ body" "length h = 12" "encodes els body" "length body = elements_size els"
      "ld8 (h @ body) 1 = Some (ucast clocked)" "ld32 (h @ body) 4 = Some i" "ld32 (h @ body) 8 = Some (word_of_nat (length els))"
    using AuSetElements_bytes [OF assms(1-3)] by auto
  have "length els \<le> elements_size els" by (simp add: elements_size_def)
  then have n: "unat (word_of_nat (length els) :: u32) = length els" using assms(3) by (simp add: unat_of_nat)
  have words: "4 * ((12 + elements_size els) div 4) = 12 + elements_size els" using elements_size_words [of els] by presburger
  have size: "at_least_size 12 rq" using words b(2,4) by (simp add: assms(5) delivered_def b(1) at_least_size_def)
  have len: "4 * rq_len rq - 12 = length body" using words b(2,4) by (simp add: assms(5) delivered_def b(1))
  have buf: "rq_buffer rq = h @ body" "drop 12 (h @ body) = body" using b(2) by (simp_all add: assms(5) delivered_def b(1))
  have small: "length body < 2 ^ 31" using b(4) assms(3) by simp
  have "resource_lookup ty (put_server s d) = resource_lookup ty d" for ty s
    by (rule ext) (simp add: resource_lookup_def lookup_def put_server_def)
  then have env: "element_env_of env rq r (length els) (put_server s d) = element_env_of env rq r (length els) d"
      "compile_env_of env (put_server s d) = compile_env_of env d" for s
    by (simp_all add: element_env_of_def compile_env_of_def) (simp_all add: put_server_def)
  note reads = set_elements_reads_wire [OF assms(4,8) b(3) small, THEN conjunct1]
    set_elements_reads_wire [OF assms(4,8) b(3) small, THEN conjunct2, THEN conjunct1]
    set_elements_reads_wire [OF assms(4,8) b(3) small, THEN conjunct2, THEN conjunct2]
  have "install_elements env rq r body (length els) (put_server s d) =
      do { s \<leftarrow> upd_flow r (\<lambda>f. f\<lparr>f_elements := Some (map2 (made_element (element_env_of env rq r (length els) d)) [0..<length els] els)\<rparr>) s;
           s \<leftarrow> link_flow r s;
           (status, s) \<leftarrow> AuCompileFlow (de_fuel env) (compile_env_of env d) r s;
           s \<leftarrow> (if status = AuSuccess then upd_flow r (\<lambda>f. f\<lparr>f_trivial := trivial_flow f, f_count := 0\<rparr>) s
                 else AuFreeFlowElements (de_fuel env) r s);
           return_status status rq (put_server s d) }" for s
    by (simp only: install_elements_def env reads(3) Option.bind.bind_lunit sum.case) (simp add: put_server_def)
  then show ?thesis
    using size by (simp only: ProcAuSetElements_def replace_elements_def buf len b(5-7) assms(6,7) n reads(1,2) Let_def Option.bind.bind_lunit option.case sum.case prod.case
      not_True_eq_False not_not if_True if_False take_all order_refl)
qed

fun plain_bytes :: "put \<Rightarrow> bytes" where
  "plain_bytes (PutReq n fs) = put_fields fs 0 (replicate n 0)"
| "plain_bytes (PutData d) = d @ replicate (padlength ! (length d mod 4)) 0"

lemma carries_plain: "list_all2 carries ps (map plain_bytes ps)"
proof (induction ps)
  case (Cons p ps)
  have "carries p (plain_bytes p)" by (cases p) (auto intro: exI [of _ "replicate n 0" for n])
  with Cons show ?case by simp
qed simp

definition demo_locals :: locals where
  "demo_locals = \<lparr>k_element = replicate 24 7, k_action = replicate 12 7, k_track = replicate 4 7, k_state = replicate 8 7\<rparr>"

lemma set_elements_end_to_end_witness:
  "\<forall>env. ProcAuSetElements env
      (delivered 1 (concat (map plain_bytes (AuSetElements demo_locals 0x400005 1 [ImportClient 8000 6 1 False 4 2 [], Sum [0, 0, 0], ExportDevice 8000 1 0 9 []]))))
      write_dispatch =
    replace_elements env
      (delivered 1 (concat (map plain_bytes (AuSetElements demo_locals 0x400005 1 [ImportClient 8000 6 1 False 4 2 [], Sum [0, 0, 0], ExportDevice 8000 1 0 9 []]))))
      3 (flow0\<lparr>f_elements := Some [element0\<lparr>e_raw := ImportClient 8000 6 1 False 4 0 [], e_component := Some 7\<rparr>]\<rparr>) True
      [ImportClient 8000 6 1 False 4 2 [], Sum [0, 0, 0], ExportDevice 8000 1 0 9 []] write_dispatch"
proof -
  let ?els = "[ImportClient 8000 6 1 False 4 2 [], Sum [0, 0, 0], ExportDevice 8000 1 0 9 []]"
  let ?f = "flow0\<lparr>f_elements := Some [element0\<lparr>e_raw := ImportClient 8000 6 1 False 4 0 [], e_component := Some 7\<rparr>]\<rparr>"
  have 1: "locals_ok demo_locals" by (simp add: locals_ok_def demo_locals_def)
  have 2: "12 + elements_size ?els < 2 ^ 18" by (simp add: elements_size_def var_size_def el_actions_def)
  have 3: "list_all countable_element ?els" by (simp add: countable_element_def el_actions_def)
  have "Hash 6 0x400005 = Some 5" "CLIENT_ID 0x400005 = 1" by (simp_all add: Hash_def CLIENT_ID_def)
  then have 4: "lookup (di_auFlowType write_dispatch) 0x400005 write_dispatch = Some (Some 3)"
    by (simp add: write_dispatch_def lookup_def LookupIDByType_def get_client_def chain_of_def bucket_of_def)
  have 5: "get_flow 3 (di_server write_dispatch) = Some ?f" by (simp add: write_dispatch_def get_flow_def)
  have 6: "list_all (\<lambda>e. list_all (accepts env) (el_actions e)) ?els" for env by (simp add: el_actions_def)
  show ?thesis
    using set_elements_end_to_end [OF carries_plain [of "AuSetElements demo_locals 0x400005 1 ?els"] 1 2 3 refl 4 5 6, where client = 1] by simp
qed

section \<open>Data from the library to a port\<close>

text \<open>A port whose contents need not be whole frames: how much of a frame there is does not matter to the requests that fill it.\<close>

definition port_ok :: "component \<Rightarrow> bool" where
  "port_ok c \<longleftrightarrow> port_inv 0 (c\<lparr>c_bytesPerSample := 1\<rparr>)"

lemma port_bytes_bps [simp]: "port_bytes (c\<lparr>c_bytesPerSample := b\<rparr>) = port_bytes c" "port_room (c\<lparr>c_bytesPerSample := b\<rparr>) = port_room c"
  by (simp_all add: port_bytes_def port_room_def)

lemma port_receive_bps:
  "port_receive x (c\<lparr>c_bytesPerSample := b\<rparr>) = map_option (\<lambda>c. c\<lparr>c_bytesPerSample := b\<rparr>) (port_receive x c)"
  by (cases "x = []") (auto simp: port_receive_def Let_def map_option_bind intro!: Option.bind_cong)

lemma port_receive_appends:
  assumes "port_ok c" "length x \<le> port_room c"
  shows "\<exists>c'. port_receive x c = Some c' \<and> port_ok c' \<and> port_bytes c' = port_bytes c @ x \<and> port_room c' + length x = port_room c"
proof -
  let ?c = "c\<lparr>c_bytesPerSample := 1\<rparr>"
  have inv: "port_inv 0 ?c" using assms(1) by (simp add: port_ok_def)
  have room: "length x \<le> port_room ?c" using assms(2) by simp
  define c0 where "c0 = ?c\<lparr>c_data := ring_put x (c_write ?c) (c_data ?c), c_write := (c_write ?c + length x) mod length (c_data ?c),
    c_currentSize := c_currentSize ?c + word_of_nat (length x), c_incoming := c_incoming ?c - word_of_nat (length x)\<rparr>"
  have r: "port_receive x ?c = Some c0" using port_receive_eq [OF inv room] by (simp add: c0_def)
  have c0: "port_inv 0 c0 \<and> port_bytes c0 = port_bytes ?c @ x \<and> port_room c0 + length x = port_room ?c"
    using port_append [OF inv _ room c0_def] by simp
  define c' where "c' = c0\<lparr>c_bytesPerSample := c_bytesPerSample c\<rparr>"
  have "port_receive x (?c\<lparr>c_bytesPerSample := c_bytesPerSample c\<rparr>) = Some c'"
    by (subst port_receive_bps) (simp add: r c'_def)
  then have "port_receive x c = Some c'" by simp
  moreover have "c0\<lparr>c_bytesPerSample := 1\<rparr> = c0" by (simp add: c0_def)
  ultimately show ?thesis using c0 by (intro exI [of _ c']) (simp add: c'_def port_ok_def)
qed

lemma write_request_asks:
  assumes "list_all2 carries (write_request flow num st x) xs" "length x + 19 < 2 ^ 18" "AuValidDataTransferState st"
  shows "asks_to_write (delivered client (concat xs)) num flow st x"
proof -
  let ?n = "word_of_nat (length x) :: u32"
  let ?fs = "[(0, [Au_WriteElement]), (1, [num]), (2, bytes16 (4 + ucast (drop_bit 2 (PAD4 ?n)))), (4, bytes32 flow), (8, bytes32 ?n), (12, [st])]"
  obtain h y where xs: "xs = [h, y]" "carries (PutReq 16 ?fs) h" "carries (PutData x) y"
    using assms(1) by (auto simp: write_request_def Let_def list_all2_Cons1 simp del: carries.simps)
  obtain pad where y: "y = x @ pad" "length pad = padlength ! (length x mod 4)" using xs(3) by auto
  have "apart ?fs 0 16" by (simp add: bytes16_def)
  note h = carries_header [OF xs(2) this, of y]
  have "length y = (length x + 3) div 4 * 4" using padlength_rounds [of "length x"] y by simp
  moreover have "load (h @ y) 16 (length x) = Some x" using h y by (simp add: load_def)
  ultimately show ?thesis using h assms(2,3)
    by (simp add: asks_to_write_def delivered_def xs(1) holds_simps load_fields)
qed

text \<open>A request that fits the port, whether it asks for a restart or not.\<close>

lemma write_appends:
  assumes "asks_to_write rq num i st x" "import_port_of d i num r k c" "port_ok c" "length x \<le> port_room c"
  shows "\<exists>c'. port_ok c' \<and> port_bytes c' = port_bytes c @ x \<and> port_room c' + length x = port_room c \<and>
    ProcAuWriteElement env rq d =
      do { let s = put_comp k (if st = AuTransferStateEnd then c'\<lparr>c_eof := True, c_incoming := 0\<rparr> else c') (di_server d);
           s \<leftarrow> (if st \<noteq> AuTransferStatePending \<and> x \<noteq> [] then restart_port (de_fuel env) (r, unat num) s else Some s);
           Some (Returns SuccessCode, put_server s d) }"
proof -
  let ?n = "word_of_nat (length x) :: u32"
  have n: "unat ?n = length x" using assms(1) by (simp add: asks_to_write_def unat_of_nat)
  have zero: "?n = 0 \<longleftrightarrow> x = []" using n by (auto simp: unat_eq_zero [symmetric])
  have load: "load (rq_buffer rq) 16 (length x) = Some x" using assms(1) by (simp add: asks_to_write_def)
  obtain el where el: "get_el (r, unat num) (di_server d) = Some el" "e_component el = Some k" "get_comp k (di_server d) = Some c"
    using assms(2) by (auto simp: import_port_of_def)
  have room: "\<not> c_dataSize c - c_currentSize c < ?n" using assms(4) by (simp add: port_room_def word_less_nat_alt n)
  obtain c' where "port_receive x c = Some c'" "port_ok c' \<and> port_bytes c' = port_bytes c @ x \<and> port_room c' + length x = port_room c"
    using port_receive_appends [OF assms(3,4)] by blast
  then show ?thesis using el room
    by (intro exI [of _ c']) (simp add: write_port_reached [OF assms(1,2)] write_port_def n zero load Let_def)
qed

text \<open>The server serves requests one after the other.\<close>

fun serve_writes :: "dispatch_env \<Rightarrow> nat \<Rightarrow> bytes list \<Rightarrow> dispatch \<Rightarrow> (request_status list \<times> dispatch) option" where
  "serve_writes env client [] d = Some ([], d)"
| "serve_writes env client (b # bs) d =
     do { (st, d) \<leftarrow> ProcAuWriteElement env (delivered client b) d;
          (sts, d) \<leftarrow> serve_writes env client bs d;
          Some (st # sts, d) }"

definition sends :: "put list \<Rightarrow> bytes \<Rightarrow> bool" where
  "sends ps b \<longleftrightarrow> (\<exists>xs. list_all2 carries ps xs \<and> b = concat xs)"

definition put_port :: "nat \<Rightarrow> component \<Rightarrow> dispatch \<Rightarrow> dispatch" where
  "put_port k c d = put_server (put_comp k c (di_server d)) d"

lemma import_port_of_put: "import_port_of d i num r k c \<Longrightarrow> import_port_of (put_port k c' d) i num r k c'"
  by (auto simp: import_port_of_def put_port_def put_server_def put_comp_def get_flow_def get_el_def get_comp_def lookup_def)

lemma put_port_put_port [simp]: "put_port k c2 (put_port k c1 d) = put_port k c2 d"
  by (simp add: put_port_def put_server_def put_comp_def)

lemma write_chunks_served:
  assumes "0 < unat mx" "unat mx < 2 ^ 18 - 19" "AuValidDataTransferState fin" "fin \<noteq> AuTransferStatePending"
  shows "x \<noteq> [] \<Longrightarrow> length x \<le> n \<Longrightarrow> import_port_of d i num r k c \<Longrightarrow> port_ok c \<Longrightarrow> length x \<le> port_room c \<Longrightarrow>
   \<exists>rqs. write_chunks mx i num fin x (replicate n True) = Some rqs \<and>
    (\<forall>bs. list_all2 sends rqs bs \<longrightarrow>
       (\<exists>c'. port_ok c' \<and> port_bytes c' = port_bytes c @ x \<and>
          serve_writes env client bs d =
            do { s \<leftarrow> restart_port (de_fuel env) (r, unat num)
                   (put_comp k (if fin = AuTransferStateEnd then c'\<lparr>c_eof := True, c_incoming := 0\<rparr> else c') (di_server d));
                 Some (replicate (length bs) (Returns SuccessCode), put_server s d) }))"
proof (induction n arbitrary: x d c)
  case (Suc n)
  show ?case
  proof (cases "unat mx < length x")
    case False
    have "\<exists>c'. port_ok c' \<and> port_bytes c' = port_bytes c @ x \<and>
        serve_writes env client [b] d = do { s \<leftarrow> restart_port (de_fuel env) (r, unat num)
            (put_comp k (if fin = AuTransferStateEnd then c'\<lparr>c_eof := True, c_incoming := 0\<rparr> else c') (di_server d));
          Some ([Returns SuccessCode], put_server s d) }" if "sends (write_request i num fin x) b" for b
    proof -
      have "asks_to_write (delivered client b) num i fin x"
        using that write_request_asks [of i num fin x] assms(2,3) False unfolding sends_def by auto
      from write_appends [OF this Suc.prems(3-5), of env] show ?thesis using assms(4) Suc.prems(1) by (auto simp: Let_def)
    qed
    then show ?thesis using False by (auto simp: Let_def list_all2_Cons1 split del: if_split)
  next
    case True
    let ?x = "take (unat mx) x" and ?rest = "drop (unat mx) x" and ?P = AuTransferStatePending
    have rest: "?rest \<noteq> []" "length ?rest \<le> n" using True assms(1) Suc.prems(2) by simp_all
    have fit: "length ?x \<le> port_room c" using Suc.prems(5) by simp
    have first: "\<exists>c'. port_ok c' \<and> port_bytes c' = port_bytes c @ ?x \<and> port_room c' + length ?x = port_room c \<and>
        ProcAuWriteElement env (delivered client b) d = Some (Returns SuccessCode, put_port k c' d)"
      if "sends (write_request i num ?P ?x) b" for b
    proof -
      have "asks_to_write (delivered client b) num i ?P ?x"
        using that write_request_asks [of i num ?P ?x] assms(2) unfolding sends_def by (auto simp: AuValidDataTransferState_def)
      from write_appends [OF this Suc.prems(3,4) fit, of env] show ?thesis by (auto simp: Let_def put_port_def)
    qed
    have ex: "\<exists>rqs. write_chunks mx i num fin ?rest (replicate n True) = Some rqs"
      using Suc.IH [OF rest] Suc.prems(3-5) by fastforce
    then obtain rqs where rqs: "write_chunks mx i num fin ?rest (replicate n True) = Some rqs" by blast
    have "\<exists>c'. port_ok c' \<and> port_bytes c' = port_bytes c @ x \<and>
        serve_writes env client (b # bs) d = do { s \<leftarrow> restart_port (de_fuel env) (r, unat num)
            (put_comp k (if fin = AuTransferStateEnd then c'\<lparr>c_eof := True, c_incoming := 0\<rparr> else c') (di_server d));
          Some (replicate (length (b # bs)) (Returns SuccessCode), put_server s d) }"
      if b: "sends (write_request i num ?P ?x) b" "list_all2 sends rqs bs" for b bs
    proof -
      obtain c1 where c1: "port_ok c1" "port_bytes c1 = port_bytes c @ ?x" "port_room c1 + length ?x = port_room c"
          "ProcAuWriteElement env (delivered client b) d = Some (Returns SuccessCode, put_port k c1 d)" using first [OF b(1)] by blast
      have "length ?rest \<le> port_room c1" using c1(3) Suc.prems(5) True by simp
      then obtain c' where c': "port_ok c'" "port_bytes c' = port_bytes c1 @ ?rest"
          "serve_writes env client bs (put_port k c1 d) = do { s \<leftarrow> restart_port (de_fuel env) (r, unat num)
            (put_comp k (if fin = AuTransferStateEnd then c'\<lparr>c_eof := True, c_incoming := 0\<rparr> else c') (di_server (put_port k c1 d)));
          Some (replicate (length bs) (Returns SuccessCode), put_server s (put_port k c1 d)) }"
        using Suc.IH [OF rest import_port_of_put [OF Suc.prems(3)] c1(1)] rqs b(2) by auto
      have "put_comp k y (di_server (put_port k c1 d)) = put_comp k y (di_server d)" "put_server s (put_port k c1 d) = put_server s d" for y s
        by (simp_all add: put_port_def put_server_def put_comp_def)
      then show ?thesis using c' c1 by (intro exI [of _ c']) (simp add: case_prod_unfold)
    qed
    then show ?thesis using True rest(1) rqs by (auto simp: Let_def list_all2_Cons1 split del: if_split)
  qed
qed simp


lemma sends_plain: "sends ps (concat (map plain_bytes ps))"
  unfolding sends_def using carries_plain by blast


section \<open>Elements read back\<close>

text \<open>A call that gives all it is asked for.\<close>

definition gives :: "nat \<Rightarrow> io_result \<Rightarrow> bool" where
  "gives n r \<longleftrightarrow> (case r of Moves m \<Rightarrow> n \<le> m | _ \<Rightarrow> False)"

text \<open>\<open>reads f x m\<close>: \<open>f\<close> takes the bytes \<open>b\<close> for \<open>x\<close>, whatever the calls give, and ends if there are \<open>m\<close> of them that give all.\<close>

definition reads :: "(bytes \<Rightarrow> io_result list \<Rightarrow> ('a \<times> bytes) io) \<Rightarrow> bytes \<Rightarrow> 'a \<Rightarrow> nat \<Rightarrow> bool" where
  "reads f b x m \<longleftrightarrow>
     (\<forall>rest rs y inp rs'. f (b @ rest) rs = Some (Inr (y, inp), rs') \<longrightarrow> y = x \<and> inp = rest) \<and>
     (\<forall>rest rs. list_all (gives (length b)) rs \<longrightarrow> m \<le> length rs \<longrightarrow>
        (\<exists>rs'. f (b @ rest) rs = Some (Inr (x, rest), rs') \<and> (\<exists>used. rs = used @ rs' \<and> length used \<le> m)))"

lemma reads_exact: "reads f b x m \<Longrightarrow> f (b @ rest) rs = Some (Inr (y, inp), rs') \<Longrightarrow> y = x \<and> inp = rest"
  unfolding reads_def by blast

lemma reads_returns:
  "reads f b x m \<Longrightarrow> list_all (gives (length b)) rs \<Longrightarrow> m \<le> length rs \<Longrightarrow>
   \<exists>used rs'. f (b @ rest) rs = Some (Inr (x, rest), rs') \<and> rs = used @ rs' \<and> length used \<le> m"
  unfolding reads_def by blast

lemma reads_return: "reads (\<lambda>inp rs. Some (Inr (x, inp), rs)) [] x 0"
  by (simp add: reads_def)

lemma reads_bind:
  assumes f: "reads f b x m" and g: "reads (g x) c y k"
  shows "reads (\<lambda>inp rs. io_bind (f inp rs) (\<lambda>(x, inp) rs. g x inp rs)) (b @ c) y (m + k)"
  unfolding reads_def
proof (rule conjI; intro allI impI)
  fix rest rs z inp rs'
  assume "io_bind (f ((b @ c) @ rest) rs) (\<lambda>(x, inp) rs. g x inp rs) = Some (Inr (z, inp), rs')"
  then obtain x' inp1 rs1 where 1: "f (b @ (c @ rest)) rs = Some (Inr (x', inp1), rs1)" "g x' inp1 rs1 = Some (Inr (z, inp), rs')"
    by (auto simp: io_bind_Inr)
  then have "x' = x \<and> inp1 = c @ rest" using reads_exact [OF f] by blast
  with 1(2) show "z = y \<and> inp = rest" using reads_exact [OF g] by blast
next
  fix rest rs
  assume rs: "list_all (gives (length (b @ c))) rs" "m + k \<le> length rs"
  then have rs_b: "list_all (gives (length b)) rs" and rs_c: "list_all (gives (length c)) rs"
    by (auto simp: gives_def elim!: list.pred_mono_strong split: io_result.splits)
  obtain rs1 used where 1: "f (b @ (c @ rest)) rs = Some (Inr (x, c @ rest), rs1)" "rs = used @ rs1" "length used \<le> m"
    using reads_returns [OF f rs_b] rs(2) by fastforce
  have "list_all (gives (length c)) rs1" "k \<le> length rs1" using rs_c rs(2) 1(2,3) by simp_all
  then obtain rs2 used2 where "g x (c @ rest) rs1 = Some (Inr (y, rest), rs2)" "rs1 = used2 @ rs2" "length used2 \<le> k"
    using reads_returns [OF g] by blast
  with 1 show "\<exists>rs'. io_bind (f ((b @ c) @ rest) rs) (\<lambda>(x, inp) rs. g x inp rs) = Some (Inr (y, rest), rs') \<and>
      (\<exists>used. rs = used @ rs' \<and> length used \<le> m + k)"
    by (intro exI [of _ rs2] conjI exI [of _ "used @ used2"]) simp_all
qed

lemma reads_map: "reads f b x m \<Longrightarrow> reads (\<lambda>inp rs. io_bind (f inp rs) (\<lambda>(x, inp) rs. Some (Inr (h x, inp), rs))) b (h x) m"
  using reads_bind [of f b x m "\<lambda>x inp rs. Some (Inr (h x, inp), rs)" "[]" "h x" 0] reads_return [of "h x"] by simp

lemma reads_pad:
  assumes "length pad = padlength ! (length x mod 4)" "length x < 2 ^ 62"
  shows "reads (AuReadPad (length x)) (x @ pad) x 1"
proof -
  have len: "length (x @ pad) = (length x + 3) div 4 * 4" using assms(1) padlength_rounds [of "length x"] by simp
  have "y = x \<and> inp = rest" if "AuReadPad (length x) ((x @ pad) @ rest) rs = Some (Inr (y, inp), rs')" for rest rs y inp rs'
    using AuReadPad_exact [OF that] assms(2) len by simp
  moreover have "\<exists>rs'. AuReadPad (length x) ((x @ pad) @ rest) rs = Some (Inr (x, rest), rs') \<and> (\<exists>used. rs = used @ rs' \<and> length used \<le> 1)"
    if g: "list_all (gives (length (x @ pad))) rs" "1 \<le> length rs" for rest rs
  proof (cases "x = []")
    case True
    then show ?thesis using assms(1) by (auto simp: AuReadPad_def padlength_def)
  next
    case False
    obtain n rs' where rs: "rs = Moves n # rs'" "length (x @ pad) \<le> n"
      using g by (cases rs) (auto simp: gives_def split: io_result.splits)
    have u: "unat (word_of_nat (length x) :: 64 word) = length x" using assms(2) by (simp add: unat_of_nat)
    have "padlength ! (length x mod 4) < 4" by (rule padlength_less)
    then have "AuReadPad (length x) ((x @ pad) @ rest) rs = Some (Inr (x, rest), rs')"
      using False rs assms u by (simp add: AuReadPad_def Let_def min_absorb2)
    with rs show ?thesis by auto
  qed
  ultimately show ?thesis unfolding reads_def by blast
qed

text \<open>A block of \<open>n\<close> bytes, four or a multiple, is read as it is.\<close>

lemma reads_block: "length w = n \<Longrightarrow> 4 dvd n \<Longrightarrow> n < 2 ^ 62 \<Longrightarrow> reads (AuReadPad n) w w 1"
  using reads_pad [of "[]" w] by (auto simp: padlength_def)

lemma reads_actions:
  "list_all2 (\<lambda>a w. length w = sizeof_auElementAction \<and> holds (action_fields a) w 0) acts ws \<Longrightarrow>
   reads (read_actions (length acts)) (concat ws) acts (length acts)"
proof (induction acts ws rule: list_all2_induct)
  case Nil
  have "read_actions 0 = (\<lambda>inp rs. Some (Inr ([], inp), rs))" by (intro ext) simp
  then show ?case using reads_return [of "[]"] by simp
next
  case (Cons a acts w ws)
  let ?g = "\<lambda>x inp rs. case load_action x 0 of None \<Rightarrow> None
    | Some act \<Rightarrow> io_bind (read_actions (length acts) inp rs) (\<lambda>(acts, inp) rs. Some (Inr (act # acts, inp), rs))"
  have "?g w = (\<lambda>inp rs. io_bind (read_actions (length acts) inp rs) (\<lambda>(acts, inp) rs. Some (Inr (a # acts, inp), rs)))"
    using load_action_holds [of a w 0] Cons.hyps(1) by simp
  then have "reads (?g w) (concat ws) (a # acts) (length acts)" using reads_map [OF Cons.IH, of "(#) a"] by simp
  then have "reads (\<lambda>inp rs. io_bind (AuReadPad sizeof_auElementAction inp rs) (\<lambda>(x, inp) rs. ?g x inp rs)) (w @ concat ws) (a # acts)
      (1 + length acts)"
    using Cons.hyps(1) by (intro reads_bind [where g = ?g, OF reads_block]) simp_all
  moreover have "read_actions (length (a # acts)) = (\<lambda>inp rs. io_bind (AuReadPad sizeof_auElementAction inp rs) (\<lambda>(x, inp) rs. ?g x inp rs))"
    by (intro ext) simp
  ultimately show ?case by simp
qed

lemma reads_tracks:
  "list_all2 (\<lambda>t w. length w = sizeof_auInputTrack \<and> holds [(0, [fst t]), (1, [snd t])] w 0) ts ws \<Longrightarrow>
   reads (read_tracks (length ts)) (concat ws) ts (length ts)"
proof (induction ts ws rule: list_all2_induct)
  case Nil
  have "read_tracks 0 = (\<lambda>inp rs. Some (Inr ([], inp), rs))" by (intro ext) simp
  then show ?case using reads_return [of "[]"] by simp
next
  case (Cons t ts w ws)
  let ?g = "\<lambda>x inp rs. case (ld8 x 0, ld8 x 1) of
      (Some y, Some z) \<Rightarrow> io_bind (read_tracks (length ts) inp rs) (\<lambda>(trs, inp) rs. Some (Inr ((y, z) # trs, inp), rs))
    | _ \<Rightarrow> None"
  have "ld8 w 0 = Some (fst t)" "ld8 w 1 = Some (snd t)" using Cons.hyps(1) by (simp_all add: holds_simps load_fields)
  then have "?g w = (\<lambda>inp rs. io_bind (read_tracks (length ts) inp rs) (\<lambda>(trs, inp) rs. Some (Inr (t # trs, inp), rs)))" by simp
  then have "reads (?g w) (concat ws) (t # ts) (length ts)" using reads_map [OF Cons.IH, of "(#) t"] by simp
  then have "reads (\<lambda>inp rs. io_bind (AuReadPad sizeof_auInputTrack inp rs) (\<lambda>(x, inp) rs. ?g x inp rs)) (w @ concat ws) (t # ts)
      (1 + length ts)"
    using Cons.hyps(1) by (intro reads_bind [where g = ?g, OF reads_block]) simp_all
  moreover have "read_tracks (length (t # ts)) = (\<lambda>inp rs. io_bind (AuReadPad sizeof_auInputTrack inp rs) (\<lambda>(x, inp) rs. ?g x inp rs))"
    by (intro ext) simp
  ultimately show ?case by simp
qed

lemma fixed_part:
  "holds (el_fields e) h 0 \<Longrightarrow> \<forall>ts. e \<noteq> Bundle ts \<Longrightarrow> \<forall>is. e \<noteq> Sum is \<Longrightarrow> load_element h 0 (el_type e) (el_actions e) = Some e"
  by (cases e) (simp_all add: load_element_def el_type_def el_actions_def el_fields_def holds_simps load_fields del: add_2_eq_Suc')

definition element_reads :: "au_element \<Rightarrow> nat" where
  "element_reads e = (case e of Bundle ts \<Rightarrow> 1 + length ts | Sum is \<Rightarrow> 2 | _ \<Rightarrow> 1 + length (el_actions e))"

lemma read_element_rest: "read_element = (\<lambda>inp rs. io_bind (AuReadPad sizeof_auElement inp rs) (\<lambda>(e, inp) rs. read_rest e inp rs))"
  by (intro ext) (simp add: read_element_def)

lemma reads_rest_actions:
  assumes h: "holds (el_fields e) h 0" and v: "var_ok e v" and ok: "countable_element e" and off: "num_actions_at (el_type e) = Some off"
  shows "reads (read_rest h) v e (length (el_actions e))"
proof -
  have ty: "ld16 h 0 = Some (el_type e)" using h by (simp add: el_fields_def holds_simps load_fields)
  have n: "ld32 h off = Some (word_of_nat (length (el_actions e)))" "unat (word_of_nat (length (el_actions e)) :: u32) = length (el_actions e)"
    using h off length_actions [OF ok]
    by (cases e; auto simp: num_actions_at_def el_type_def el_actions_def el_fields_def holds_simps load_fields unat_of_nat)+
  have not: "\<forall>ts. e \<noteq> Bundle ts" "\<forall>is. e \<noteq> Sum is" using off by (auto simp: num_actions_at_def el_type_def)
  obtain ws where ws: "v = concat ws" "list_all2 (\<lambda>a w. length w = sizeof_auElementAction \<and> holds (action_fields a) w 0) (el_actions e) ws"
    using v off by (cases e) (auto simp: var_ok_def el_actions_def num_actions_at_def el_type_def)
  let ?g = "\<lambda>acts inp rs. map_option (\<lambda>el. (Inr (el, inp), rs)) (load_element h 0 (el_type e) acts)"
  have eq: "?g (el_actions e) = (\<lambda>inp rs. Some (Inr (e, inp), rs))" using fixed_part [OF h not] by simp
  have "reads (?g (el_actions e)) [] e 0" unfolding eq by (rule reads_return)
  from reads_bind [where g = ?g, OF reads_actions [OF ws(2)] this]
  have "reads (\<lambda>inp rs. io_bind (read_actions (length (el_actions e)) inp rs) (\<lambda>(acts, inp) rs. ?g acts inp rs)) v e (length (el_actions e))"
    by (simp add: ws(1))
  moreover have "read_rest h = (\<lambda>inp rs. io_bind (read_actions (length (el_actions e)) inp rs) (\<lambda>(acts, inp) rs. ?g acts inp rs))"
    using ty n off by (intro ext) (simp add: read_rest_def)
  ultimately show ?thesis by simp
qed

lemma reads_rest_bundle:
  assumes h: "holds (el_fields (Bundle ts)) h 0" and v: "var_ok (Bundle ts) v" and ok: "countable_element (Bundle ts)"
  shows "reads (read_rest h) v (Bundle ts) (length ts)"
proof -
  have ty: "ld16 h 0 = Some AuElementTypeBundle" "ld16 h 2 = Some (word_of_nat (length ts))"
    using h by (simp_all add: el_fields_def el_type_def holds_simps load_fields del: add_2_eq_Suc add_2_eq_Suc')
  have n: "unat (word_of_nat (length ts) :: u16) = length ts" using ok by (simp add: countable_element_def unat_of_nat)
  obtain ws where ws: "v = concat ws" "list_all2 (\<lambda>t w. length w = sizeof_auInputTrack \<and> holds [(0, [fst t]), (1, [snd t])] w 0) ts ws"
    using v by (auto simp: var_ok_def)
  have "read_rest h = (\<lambda>inp rs. io_bind (read_tracks (length ts) inp rs) (\<lambda>(trs, inp) rs. Some (Inr (Bundle trs, inp), rs)))"
    using ty n by (intro ext) (simp add: read_rest_def num_actions_at_def)
  with reads_map [OF reads_tracks [OF ws(2)], of Bundle] show ?thesis by (simp add: ws(1))
qed

lemma reads_rest_sum:
  assumes h: "holds (el_fields (Sum is)) h 0" and v: "var_ok (Sum is) v" and ok: "countable_element (Sum is)"
  shows "reads (read_rest h) v (Sum is) 1"
proof -
  have ty: "ld16 h 0 = Some AuElementTypeSum" "ld16 h 2 = Some (word_of_nat (length is))"
    using h by (simp_all add: el_fields_def el_type_def holds_simps load_fields del: add_2_eq_Suc add_2_eq_Suc')
  have small: "length is < 2 ^ 16" and n: "unat (word_of_nat (length is) :: u16) = length is"
    using ok by (simp_all add: countable_element_def unat_of_nat)
  obtain pad where pad: "v = concat (map bytes16 is) @ pad" "length pad = 2 * (length is mod 2)" using v by (auto simp: var_ok_def)
  have len: "length (concat (map bytes16 is)) = 2 * length is" by (rule length_inputs)
  have "padlength ! ((2 * length is) mod 4) = 2 * (length is mod 2)"
  proof -
    have "(2 * length is) mod 4 = 2 * (length is mod 2)" "length is mod 2 = 0 \<or> length is mod 2 = 1" by presburger+
    then show ?thesis by (auto simp: padlength_def)
  qed
  with pad(2) len small have r: "reads (AuReadPad (2 * length is)) v (concat (map bytes16 is)) 1"
    using reads_pad [of pad "concat (map bytes16 is)"] unfolding len pad(1) by simp
  have "read_rest h = (\<lambda>inp rs. io_bind (AuReadPad (2 * length is) inp rs) (\<lambda>(x, inp) rs.
      Some (Inr (Sum (map (\<lambda>k. mk16 (x ! (2 * k)) (x ! (2 * k + 1))) [0..<length is]), inp), rs)))"
    using ty n by (intro ext) (simp add: read_rest_def num_actions_at_def)
  with reads_map [OF r, of "\<lambda>x. Sum (map (\<lambda>k. mk16 (x ! (2 * k)) (x ! (2 * k + 1))) [0..<length is])"] sum_inputs [of "is" "[]"]
  show ?thesis by simp
qed

lemma reads_rest_plain:
  assumes h: "holds (el_fields e) h 0" and v: "var_ok e v" and none: "num_actions_at (el_type e) = None"
    and not: "\<forall>ts. e \<noteq> Bundle ts" "\<forall>is. e \<noteq> Sum is"
  shows "reads (read_rest h) v e 0"
proof -
  have ty: "ld16 h 0 = Some (el_type e)" using h by (simp add: el_fields_def holds_simps load_fields)
  have "el_type e \<noteq> AuElementTypeBundle" "el_type e \<noteq> AuElementTypeSum" using not none by (cases e; simp add: el_type_def num_actions_at_def)+
  moreover have "el_actions e = []" using no_actions [OF none] .
  ultimately have "read_rest h = (\<lambda>inp rs. Some (Inr (e, inp), rs))"
    using ty none fixed_part [OF h not] by (intro ext) (simp add: read_rest_def)
  moreover have "v = []" using v not \<open>el_actions e = []\<close> by (cases e) (auto simp: var_ok_def)
  ultimately show ?thesis using reads_return [of e] by simp
qed

lemma reads_element:
  assumes "length h = sizeof_auElement" "holds (el_fields e) h 0" "var_ok e v" "countable_element e"
  shows "reads read_element (h @ v) e (element_reads e)"
proof -
  have "\<exists>m. reads (read_rest h) v e m \<and> 1 + m = element_reads e"
  proof (cases "num_actions_at (el_type e)")
    case (Some off)
    then have "1 + length (el_actions e) = element_reads e" by (cases e) (auto simp: element_reads_def num_actions_at_def el_type_def)
    then show ?thesis using reads_rest_actions [OF assms(2-4) Some] by blast
  next
    case None
    show ?thesis
    proof (cases "(\<exists>ts. e = Bundle ts) \<or> (\<exists>is. e = Sum is)")
      case True
      then show ?thesis using reads_rest_bundle [of _ h v] reads_rest_sum [of _ h v] assms by (auto simp: element_reads_def)
    next
      case False
      then have "element_reads e = 1" using no_actions [OF None] by (cases e) (auto simp: element_reads_def)
      then show ?thesis using reads_rest_plain [OF assms(2,3) None] False by auto
    qed
  qed
  then obtain m where m: "reads (read_rest h) v e m" "1 + m = element_reads e" by blast
  have "reads (AuReadPad sizeof_auElement) h h 1" using assms(1) by (intro reads_block) simp_all
  from reads_bind [where g = read_rest, OF this m(1)] m(2) show ?thesis by (simp add: read_element_rest)
qed

lemma reads_elements:
  "encodes els b \<Longrightarrow> list_all countable_element els \<Longrightarrow> reads (AuGetElements (length els)) b els (sum_list (map element_reads els))"
proof (induction els arbitrary: b)
  case Nil
  have "AuGetElements 0 = (\<lambda>inp rs. Some (Inr ([], inp), rs))" by (intro ext) simp
  then show ?case using reads_return [of "[]"] Nil by simp
next
  case (Cons el els)
  obtain h v r where b: "b = (h @ v) @ r" "length h = sizeof_auElement" "holds (el_fields el) h 0" "var_ok el v" "encodes els r"
    using Cons.prems(1) by auto
  have el: "reads read_element (h @ v) el (element_reads el)" using b(2-4) Cons.prems(2) by (intro reads_element) simp_all
  have els: "reads (AuGetElements (length els)) r els (sum_list (map element_reads els))" using Cons.IH [OF b(5)] Cons.prems(2) by simp
  let ?g = "\<lambda>el inp rs. io_bind (AuGetElements (length els) inp rs) (\<lambda>(els, inp) rs. Some (Inr (el # els, inp), rs))"
  have "reads (\<lambda>inp rs. io_bind (read_element inp rs) (\<lambda>(el, inp) rs. ?g el inp rs)) ((h @ v) @ r) (el # els)
      (element_reads el + sum_list (map element_reads els))"
    by (rule reads_bind [where g = ?g, OF el reads_map [OF els, of "(#) el"]])
  moreover have "AuGetElements (length (el # els)) = (\<lambda>inp rs. io_bind (read_element inp rs) (\<lambda>(el, inp) rs. ?g el inp rs))"
    by (intro ext) simp
  ultimately show ?case by (simp add: b(1))
qed

text \<open>
  C20. A client reads back the elements that are sent to it: of the bytes of any list of elements laid out as the protocol says, with
  anything behind them, \<^verbatim>\<open>AuGetElements\<close> makes exactly these elements and leaves what is behind, however the bytes come in
  portions; and it returns when calls give what they are asked for.
\<close>

theorem get_elements_roundtrip:
  assumes "encodes els b" "list_all countable_element els"
  shows "(\<forall>els' inp rs'. AuGetElements (length els) (b @ rest) rs = Some (Inr (els', inp), rs') \<longrightarrow> els' = els \<and> inp = rest) \<and>
    (\<exists>rs'. AuGetElements (length els) (b @ rest) (replicate (sum_list (map element_reads els)) (Moves (length b))) = Some (Inr (els, rest), rs'))"
proof (intro conjI allI impI)
  fix els' inp rs'
  assume run: "AuGetElements (length els) (b @ rest) rs = Some (Inr (els', inp), rs')"
  from reads_exact [OF reads_elements [OF assms] run] show "els' = els" "inp = rest" by simp_all
next
  show "\<exists>rs'. AuGetElements (length els) (b @ rest) (replicate (sum_list (map element_reads els)) (Moves (length b))) = Some (Inr (els, rest), rs')"
    using reads_returns [OF reads_elements [OF assms], of "replicate (sum_list (map element_reads els)) (Moves (length b))" rest]
    by (auto simp: list_all_length gives_def)
qed

lemma get_elements_roundtrip_witness:
  "\<exists>rs'. AuGetElements 3 (concat demo_wire) (replicate 4 (Moves (length (concat demo_wire)))) = Some (Inr (demo_elements, []), rs')"
proof -
  have "list_all countable_element demo_elements" by (simp add: demo_elements_def countable_element_def el_actions_def)
  moreover have "length demo_elements = 3" "sum_list (map element_reads demo_elements) = 4"
    by (simp_all add: demo_elements_def element_reads_def el_actions_def)
  ultimately show ?thesis using get_elements_roundtrip [OF demo_encodes, of "[]"] by (simp del: AuGetElements.simps)
qed

section \<open>States from the library to the server\<close>

definition state_fields :: "u32 \<times> u8 \<times> u8 \<Rightarrow> (nat \<times> bytes) list" where
  "state_fields st = (case st of (flow, num, s) \<Rightarrow> [(0, bytes32 flow), (4, [num]), (5, [s])])"

lemma carries_states:
  "list_all2 carries (write_states s sts) ys \<Longrightarrow> length s = 8 \<Longrightarrow>
   list_all2 (\<lambda>st w. length w = 8 \<and> holds (state_fields st) w 0) sts ys"
proof (induction sts arbitrary: s ys)
  case (Cons st sts)
  obtain flow num x where st: "st = (flow, num, x)" by (cases st)
  let ?s = "put_fields (state_fields st) 0 s"
  have "apart (state_fields st) 0 8" by (simp add: st state_fields_def)
  then have s: "length ?s = 8" "holds (state_fields st) ?s 0"
    using put_fields_holds [of "state_fields st" 0 8 s] Cons.prems(2) by simp_all
  obtain y ys' where y: "ys = y # ys'" "carries (PutData ?s) y" "list_all2 carries (write_states ?s sts) ys'"
    using Cons.prems(1) by (auto simp: st state_fields_def Let_def list_all2_Cons1)
  have "y = ?s" using carries_whole [OF y(2)] s(1) by simp
  with Cons.IH [OF y(3) s(1)] s y(1) show ?case by simp
qed simp

text \<open>The flow has the element, or all of its elements are meant.\<close>

definition state_ok :: "dispatch \<Rightarrow> u32 \<times> u8 \<times> u8 \<Rightarrow> bool" where
  "state_ok d st = (case st of (i, num, _) \<Rightarrow>
     (case lookup (di_auFlowType d) i d of
        Some (Some r) \<Rightarrow> (case get_flow r (di_server d) of
           Some f \<Rightarrow> ucast num = AuElementAll \<or> unat num < f_numElements f \<and> e_isComponent (flow_elements f ! unat num)
         | None \<Rightarrow> False)
      | _ \<Rightarrow> False))"

definition resolved :: "dispatch \<Rightarrow> u32 \<times> u8 \<times> u8 \<Rightarrow> nat \<times> u8 \<times> u8" where
  "resolved d st = (case st of (i, num, x) \<Rightarrow> (the (the (lookup (di_auFlowType d) i d)), num, x))"

lemma check_states_wire:
  "list_all2 (\<lambda>st w. length w = 8 \<and> holds (state_fields st) w 0) sts ws \<Longrightarrow> list_all (state_ok d) sts \<Longrightarrow>
   check_states d (pre @ concat ws) (length sts) (length pre) = Some (Inr (map (resolved d) sts))"
proof (induction sts ws arbitrary: pre rule: list_all2_induct)
  case (Cons st sts w ws)
  obtain i num x where st: "st = (i, num, x)" by (cases st)
  have "holds (state_fields st) (pre @ w @ concat ws) (length pre)" using holds_part [of "state_fields st" w pre "concat ws"] Cons.hyps(1) by simp
  then have f: "ld32 (pre @ w @ concat ws) (length pre) = Some i" "ld8 (pre @ w @ concat ws) (length pre + 4) = Some num"
      "ld8 (pre @ w @ concat ws) (length pre + 5) = Some x"
    by (simp_all add: st state_fields_def holds_simps load_fields)
  have "check_states d ((pre @ w) @ concat ws) (length sts) (length (pre @ w)) = Some (Inr (map (resolved d) sts))"
    using Cons.prems by (intro Cons.IH) simp
  then have rest: "check_states d (pre @ w @ concat ws) (length sts) (length pre + 8) = Some (Inr (map (resolved d) sts))"
    using Cons.hyps(1) by simp
  obtain r fl where r: "lookup (di_auFlowType d) i d = Some (Some r)" "get_flow r (di_server d) = Some fl"
      "ucast num = AuElementAll \<or> unat num < f_numElements fl \<and> e_isComponent (flow_elements fl ! unat num)"
    using Cons.prems by (auto simp: st state_ok_def split: option.splits)
  then have "\<not> (ucast num \<noteq> AuElementAll \<and> (f_numElements fl \<le> unat num \<or> \<not> e_isComponent (flow_elements fl ! unat num)))" by auto
  with f r(1,2) rest show ?case by (simp add: st resolved_def)
qed simp

lemma state_ok_server: "sv_flows s = sv_flows (di_server d) \<Longrightarrow> state_ok (put_server s d) = state_ok d"
proof -
  assume "sv_flows s = sv_flows (di_server d)"
  then have "get_flow r (di_server (put_server s d)) = get_flow r (di_server d)"
    "lookup (di_auFlowType (put_server s d)) i (put_server s d) = lookup (di_auFlowType d) i d" for r i
    by (simp_all add: get_flow_def put_server_def lookup_def)
  then show ?thesis by (intro ext) (simp add: state_ok_def cong: option.case_cong)
qed

text \<open>
  The states a client sets are those the server acts on: of the request \<^verbatim>\<open>AuSetElementStates\<close> writes, if all flows and
  elements in it are there, the server processes exactly the state changes in it, in their order.
\<close>

theorem set_states_end_to_end:
  assumes "list_all2 carries (AuSetElementStates J sts) xs" "locals_ok J" "8 + 8 * length sts < 2 ^ 18"
    and "list_all (state_ok d) sts" "aualloc (di_server d) = (True, s)"
  shows "ProcAuSetElementStates env (delivered client (concat xs)) d =
    do { s \<leftarrow> AuProcessStateChanges (de_fuel env) (map (resolved d) sts) s; Some (Returns SuccessCode, put_server s d) }"
proof -
  let ?len = "2 + ucast (signed_drop_bit 2 (word_of_nat (length sts * 8) :: s32)) :: u16"
  let ?fs = "[(0, [Au_SetElementStates]), (2, bytes16 ?len), (4, bytes32 (word_of_nat (length sts)))]"
  obtain h ys where xs: "xs = h # ys" "carries (PutReq 8 ?fs) h" "list_all2 carries (write_states (k_state J) sts) ys"
    using assms(1) by (auto simp: AuSetElementStates_def Let_def list_all2_Cons1 simp del: carries.simps)
  have w: "list_all2 (\<lambda>st w. length w = 8 \<and> holds (state_fields st) w 0) sts ys"
    using carries_states [OF xs(3)] assms(2) by (simp add: locals_ok_def)
  have "apart ?fs 0 8" by (simp add: bytes16_def)
  note h = carries_header [OF xs(2) this, of "concat ys"]
  have len: "length (concat ys) = 8 * length sts" using length_concat_parts [OF w] by simp
  have n: "ld32 (h @ concat ys) 4 = Some (word_of_nat (length sts))" "unat (word_of_nat (length sts) :: u32) = length sts"
    using h assms(3) by (simp_all add: holds_simps load_fields unat_of_nat)
  have flows: "sv_flows s = sv_flows (di_server d)" using assms(5) by (auto simp: aualloc_def split: list.splits)
  have "resolved (put_server s d) = resolved d" by (rule ext) (simp add: resolved_def lookup_def put_server_def)
  then have c: "check_states (put_server s d) (concat ys) (length sts) 0 = Some (Inr (map (resolved d) sts))"
    using check_states_wire [OF w, of "put_server s d" "[]"] assms(4) state_ok_server [OF flows] by simp
  have "(8 + 8 * length sts) div 4 = 2 + 2 * length sts" by simp
  then show ?thesis
    using h len n c assms(5)
    by (simp add: ProcAuSetElementStates_def delivered_def xs(1) at_least_size_def Let_def mult.commute) (simp add: put_server_def)
qed

definition state_dispatch :: dispatch where
  "state_dispatch = write_dispatch\<lparr>di_server := (di_server write_dispatch)\<lparr>sv_flows :=
     [3 \<mapsto> flow0\<lparr>f_elements := Some [element0\<lparr>e_raw := ImportClient 8000 6 1 False 4 0 [], e_isComponent := True\<rparr>]\<rparr>]\<rparr>\<rparr>"

lemma set_states_end_to_end_witness:
  "\<forall>env. ProcAuSetElementStates env (delivered 1 (concat (map plain_bytes (AuSetElementStates demo_locals [(0x400005, 0, AuStateStart), (0x400005, 255, AuStateStop)]))))
      state_dispatch =
    do { s \<leftarrow> AuProcessStateChanges (de_fuel env) [(3, 0, AuStateStart), (3, 255, AuStateStop)] (di_server state_dispatch);
         Some (Returns SuccessCode, put_server s state_dispatch) }"
proof -
  let ?sts = "[(0x400005, 0, AuStateStart), (0x400005, 255, AuStateStop)]"
  have 1: "locals_ok demo_locals" by (simp add: locals_ok_def demo_locals_def)
  have "Hash 6 0x400005 = Some 5" "CLIENT_ID 0x400005 = 1" by (simp_all add: Hash_def CLIENT_ID_def)
  then have l: "lookup (di_auFlowType state_dispatch) 0x400005 state_dispatch = Some (Some 3)"
    by (simp add: state_dispatch_def write_dispatch_def lookup_def LookupIDByType_def get_client_def chain_of_def bucket_of_def)
  then have 2: "list_all (state_ok state_dispatch) ?sts"
    by (simp add: state_ok_def) (simp add: state_dispatch_def get_flow_def f_numElements_def flow_elements_def flow0_def)
  have 3: "aualloc (di_server state_dispatch) = (True, di_server state_dispatch)"
    by (simp add: state_dispatch_def write_dispatch_def aualloc_def server_init_def)
  show ?thesis
    using set_states_end_to_end [OF carries_plain 1 _ 2 3, where client = 1] l by (simp add: resolved_def)
qed

end
