(* ===== verification/Lib_Queue.thy ===== *)
theory Lib_Queue
  imports Prelude
begin

text \<open>
  The queue of events in the client library: a list linked by \<^verbatim>\<open>next\<close> with head and tail, and a list of free elements
  (\<^verbatim>\<open>_AuEnq\<close> in \<^verbatim>\<open>lib/audio/Alibint.c\<close>, \<^verbatim>\<open>NextEvent.c\<close>, \<^verbatim>\<open>ScanEvents.c\<close>, \<^verbatim>\<open>ReqEvent.c\<close>, \<^verbatim>\<open>Sync.c\<close>). Elements are numbers;
  an access through a pointer to an element that is not allocated is \<open>None\<close>. \<open>queue_is\<close> says which events are in the
  queue, in order; every operation is proved to do to that list what its name says.
\<close>

section \<open>Elements and lists\<close>

type_synonym 'e nodes = "nat \<rightharpoonup> 'e \<times> nat option"

record 'e event_queue =
  q_nodes :: "'e nodes"
  q_head :: "nat option"
  q_tail :: "nat option"
  q_free :: "nat option"
  q_len :: int

definition get_next :: "nat \<Rightarrow> 'e nodes \<Rightarrow> nat option option" where
  "get_next x N = map_option snd (N x)"

definition put_next :: "nat \<Rightarrow> nat option \<Rightarrow> 'e nodes \<Rightarrow> 'e nodes option" where
  "put_next x n N = map_option (\<lambda>(e, _). N(x \<mapsto> (e, n))) (N x)"

definition put_event :: "nat \<Rightarrow> 'e \<Rightarrow> 'e nodes \<Rightarrow> 'e nodes option" where
  "put_event x e N = map_option (\<lambda>(_, n). N(x \<mapsto> (e, n))) (N x)"

section \<open>Operations\<close>

text \<open>
  \<^verbatim>\<open>_AuEnq\<close>: \<open>new\<close> is the element \<^verbatim>\<open>malloc\<close> gives, with arbitrary contents \<open>junk\<close>, if it is called; without one the program
  ends, which is \<open>Inl ()\<close>. \<open>ev\<close> is what the reformatter makes of the wire's event, \<open>None\<close> if it is to be ignored.
\<close>

definition take_node :: "(nat \<times> 'e) option \<Rightarrow> 'e event_queue \<Rightarrow> (unit + nat \<times> 'e event_queue) option" where
  "take_node new q =
     (case q_free q of
        Some x \<Rightarrow> do { n \<leftarrow> get_next x (q_nodes q); Some (Inr (x, q\<lparr>q_free := n\<rparr>)) }
      | None \<Rightarrow> (case new of
          None \<Rightarrow> Some (Inl ())
        | Some (x, junk) \<Rightarrow> Some (Inr (x, q\<lparr>q_nodes := (q_nodes q)(x \<mapsto> (junk, None))\<rparr>))))"

definition AuEnq :: "(nat \<times> 'e) option \<Rightarrow> 'e option \<Rightarrow> 'e event_queue \<Rightarrow> (unit + 'e event_queue) option" where
  "AuEnq new ev q =
     do { r \<leftarrow> take_node new q;
          (case r of
             Inl e \<Rightarrow> Some (Inl e)
           | Inr (x, q) \<Rightarrow>
               do { N \<leftarrow> put_next x None (q_nodes q);
                    (case ev of
                       Some e \<Rightarrow>
                         do { N \<leftarrow> put_event x e N;
                              (N, h) \<leftarrow> (case q_tail q of
                                 Some t \<Rightarrow> do { N \<leftarrow> put_next t (Some x) N; Some (N, q_head q) }
                               | None \<Rightarrow> Some (N, Some x));
                              Some (Inr (q\<lparr>q_nodes := N, q_head := h, q_tail := Some x, q_len := q_len q + 1\<rparr>)) }
                     | None \<Rightarrow>
                         do { N \<leftarrow> put_next x (q_free q) N; Some (Inr (q\<lparr>q_nodes := N, q_free := Some x\<rparr>)) }) }) }"

text \<open>\<^verbatim>\<open>AuNextEvent\<close> from the point where there is an event.\<close>

definition AuNextEvent :: "bool \<Rightarrow> 'e event_queue \<Rightarrow> ('e \<times> 'e event_queue) option" where
  "AuNextEvent dequeue q =
     do { x \<leftarrow> q_head q;
          (e, n) \<leftarrow> q_nodes q x;
          (if \<not> dequeue then Some (e, q)
           else do { N \<leftarrow> put_next x (q_free q) (q_nodes q);
                     Some (e, q\<lparr>q_nodes := N, q_head := n, q_tail := (if n = None then None else q_tail q), q_free := Some x,
                       q_len := q_len q - 1\<rparr>) }) }"

text \<open>One pass of \<^verbatim>\<open>AuScanEvents\<close> from \<open>qelt\<close> on; the result is the match, or the last element passed.\<close>

partial_function (option) scan_pass ::
  "('e \<Rightarrow> bool) \<Rightarrow> bool \<Rightarrow> nat option \<Rightarrow> nat option \<Rightarrow> 'e event_queue \<Rightarrow> ('e option \<times> nat option \<times> 'e event_queue) option" where
  "scan_pass P dequeue prev qelt q =
     (case qelt of
        None \<Rightarrow> Some (None, prev, q)
      | Some x \<Rightarrow>
          do { (e, n) \<leftarrow> q_nodes q x;
               (if P e then
                  (if \<not> dequeue then Some (Some e, prev, q)
                   else do { q \<leftarrow> (case prev of
                               Some p \<Rightarrow> do { N \<leftarrow> put_next p n (q_nodes q);
                                             Some (q\<lparr>q_nodes := N, q_tail := (if n = None then Some p else q_tail q)\<rparr>) }
                             | None \<Rightarrow> Some (q\<lparr>q_head := n, q_tail := (if n = None then None else q_tail q)\<rparr>));
                             N \<leftarrow> put_next x (q_free q) (q_nodes q);
                             Some (Some e, prev, q\<lparr>q_nodes := N, q_free := Some x, q_len := q_len q - 1\<rparr>) })
                else scan_pass P dequeue (Some x) n q) })"

text \<open>Where a pass starts: behind the last element of the pass before.\<close>

definition scan_from :: "('e \<Rightarrow> bool) \<Rightarrow> bool \<Rightarrow> nat option \<Rightarrow> 'e event_queue \<Rightarrow> ('e option \<times> nat option \<times> 'e event_queue) option" where
  "scan_from P dequeue prev q =
     do { start \<leftarrow> (case prev of Some p \<Rightarrow> get_next p (q_nodes q) | None \<Rightarrow> Some (q_head q));
          scan_pass P dequeue prev start q }"

fun walk :: "nat \<Rightarrow> nat \<Rightarrow> 'e nodes \<Rightarrow> nat option" where
  "walk 0 x N = Some x"
| "walk (Suc k) x N = do { n \<leftarrow> get_next x N; y \<leftarrow> n; walk k y N }"

definition AuRequeueEvent :: "(nat \<times> 'e) option \<Rightarrow> 'e \<Rightarrow> int \<Rightarrow> 'e event_queue \<Rightarrow> (bool \<times> 'e event_queue) option" where
  "AuRequeueEvent new ev skip q =
     (case (q_free q, new) of
        (None, None) \<Rightarrow> Some (False, q)
      | _ \<Rightarrow>
          do { r \<leftarrow> take_node new q;
               (case r of
                  Inl _ \<Rightarrow> None
                | Inr (x, q) \<Rightarrow>
                    do { N \<leftarrow> put_event x ev (q_nodes q);
                         prev \<leftarrow> (if skip \<le> 0 then Some None
                                  else if q_len q \<le> skip then Some (q_tail q)
                                  else do { h \<leftarrow> q_head q; p \<leftarrow> walk (nat skip - 1) h N; Some (Some p) });
                         (N, h) \<leftarrow> (case prev of
                            Some p \<Rightarrow> do { n \<leftarrow> get_next p N; N \<leftarrow> put_next x n N; N \<leftarrow> put_next p (Some x) N; Some (N, q_head q) }
                          | None \<Rightarrow> do { N \<leftarrow> put_next x (q_head q) N; Some (N, Some x) });
                         Some (True, q\<lparr>q_nodes := N, q_head := h, q_tail := (if prev = q_tail q then Some x else q_tail q),
                           q_len := q_len q + 1\<rparr>) }) })"

text \<open>What \<^verbatim>\<open>AuSync\<close> does with the events in the queue when it is to discard them.\<close>

definition discard_events :: "'e event_queue \<Rightarrow> 'e event_queue option" where
  "discard_events q =
     (if q_head q = None then Some q
      else do { t \<leftarrow> q_tail q;
                N \<leftarrow> put_next t (q_free q) (q_nodes q);
                Some (q\<lparr>q_nodes := N, q_free := q_head q, q_head := None, q_tail := None, q_len := 0\<rparr>) })"

section \<open>The events in a queue\<close>

fun path :: "'e nodes \<Rightarrow> nat option \<Rightarrow> nat list \<Rightarrow> nat option \<Rightarrow> bool" where
  "path N h [] e \<longleftrightarrow> h = e"
| "path N h (x # xs) e \<longleftrightarrow> h = Some x \<and> (case N x of None \<Rightarrow> False | Some (_, n) \<Rightarrow> path N n xs e)"

definition end_of :: "nat list \<Rightarrow> nat option" where
  "end_of xs = (if xs = [] then None else Some (last xs))"

definition queue_inv :: "'e event_queue \<Rightarrow> nat list \<Rightarrow> nat list \<Rightarrow> bool" where
  "queue_inv q xs fs \<longleftrightarrow> path (q_nodes q) (q_head q) xs None \<and> path (q_nodes q) (q_free q) fs None \<and> distinct (xs @ fs) \<and>
     q_tail q = end_of xs \<and> q_len q = int (length xs)"

definition event_at :: "'e event_queue \<Rightarrow> nat \<Rightarrow> 'e" where
  "event_at q x = fst (the (q_nodes q x))"

definition queue_is :: "'e event_queue \<Rightarrow> 'e list \<Rightarrow> bool" where
  "queue_is q es \<longleftrightarrow> (\<exists>xs fs. queue_inv q xs fs \<and> map (event_at q) xs = es)"

text \<open>The same, and \<open>p\<close> is the \<open>k\<close>-th element of the queue, null for 0.\<close>

definition queue_at :: "'e event_queue \<Rightarrow> 'e list \<Rightarrow> nat \<Rightarrow> nat option \<Rightarrow> bool" where
  "queue_at q es k p \<longleftrightarrow> (\<exists>xs fs. queue_inv q xs fs \<and> map (event_at q) xs = es \<and> k \<le> length xs \<and> p = end_of (take k xs))"

text \<open>The element \<^verbatim>\<open>malloc\<close> gives is not in use.\<close>

definition fresh :: "(nat \<times> 'e) option \<Rightarrow> 'e event_queue \<Rightarrow> bool" where
  "fresh new q \<longleftrightarrow> (\<exists>x junk. new = Some (x, junk) \<and> q_nodes q x = None)"

lemma path_upd [simp]: "x \<notin> set xs \<Longrightarrow> path (N(x \<mapsto> v)) h xs e \<longleftrightarrow> path N h xs e"
  by (induction xs arbitrary: h) (auto split: option.splits)

lemma path_dom: "path N h xs e \<Longrightarrow> x \<in> set xs \<Longrightarrow> N x \<noteq> None"
  by (induction xs arbitrary: h) (auto split: option.splits)

lemma path_append: "path N h (xs @ ys) e \<longleftrightarrow> (\<exists>m. path N h xs m \<and> path N m ys e)"
  by (induction xs arbitrary: h) (auto split: option.splits)

lemma path_relink: "path N h (xs @ [x]) e \<Longrightarrow> x \<notin> set xs \<Longrightarrow> N x = Some (ev, n) \<Longrightarrow> path (N(x \<mapsto> (ev', e'))) h (xs @ [x]) e'"
  by (auto simp: path_append)

lemma path_head: "path N h xs None \<Longrightarrow> h = None \<longleftrightarrow> xs = []"
  by (cases xs) auto

lemma end_of_simps [simp]: "end_of [] = None" "end_of (xs @ [x]) = Some x" "end_of (x # xs) = Some (if xs = [] then x else last xs)"
  by (simp_all add: end_of_def)

lemma end_of_None [simp]: "end_of xs = None \<longleftrightarrow> xs = []" "None = end_of xs \<longleftrightarrow> xs = []"
  by (auto simp: end_of_def)

lemma event_at_simps [simp]: "event_at (q\<lparr>q_head := h\<rparr>) = event_at q" "event_at (q\<lparr>q_tail := t\<rparr>) = event_at q"
    "event_at (q\<lparr>q_free := f\<rparr>) = event_at q" "event_at (q\<lparr>q_len := l\<rparr>) = event_at q"
  by (simp_all add: event_at_def [abs_def])

lemma map_event_at: "(\<And>x. x \<in> set xs \<Longrightarrow> map_option fst (q_nodes q' x) = map_option fst (q_nodes q x)) \<Longrightarrow> path (q_nodes q) h xs e \<Longrightarrow>
   map (event_at q') xs = map (event_at q) xs"
proof -
  assume a: "\<And>x. x \<in> set xs \<Longrightarrow> map_option fst (q_nodes q' x) = map_option fst (q_nodes q x)" and p: "path (q_nodes q) h xs e"
  have "event_at q' x = event_at q x" if "x \<in> set xs" for x
    using a [OF that] path_dom [OF p that] by (auto simp: event_at_def)
  then show ?thesis by simp
qed

lemma take_node_inv:
  assumes "queue_inv q xs fs" "q_free q = None \<longrightarrow> fresh new q"
  obtains x q' fs' where "take_node new q = Some (Inr (x, q'))" "queue_inv q' xs fs'" "x \<notin> set xs" "x \<notin> set fs'"
    "\<exists>e n. q_nodes q' x = Some (e, n)" "\<forall>y \<in> set xs. q_nodes q' y = q_nodes q y"
proof (cases fs)
  case Nil
  then have free: "q_free q = None" using assms(1) by (simp add: queue_inv_def)
  then obtain x junk where x: "new = Some (x, junk)" "q_nodes q x = None" using assms(2) by (auto simp: fresh_def)
  then have "x \<notin> set xs" using assms(1) path_dom unfolding queue_inv_def by metis
  with x free assms(1) Nil show ?thesis
    by (intro that [of x "q\<lparr>q_nodes := (q_nodes q)(x \<mapsto> (junk, None))\<rparr>" "[]"]) (auto simp: take_node_def queue_inv_def)
next
  case (Cons x fs')
  then obtain e n where "q_free q = Some x" "q_nodes q x = Some (e, n)" "path (q_nodes q) n fs' None" "x \<notin> set xs" "x \<notin> set fs'"
    using assms(1) by (auto simp: queue_inv_def split: option.splits)
  with assms(1) Cons show ?thesis
    by (intro that [of x "q\<lparr>q_free := n\<rparr>" fs']) (auto simp: take_node_def get_next_def queue_inv_def)
qed

text \<open>An event that is not ignored goes to the end of the queue.\<close>

lemma AuEnq_queue:
  assumes "queue_at q es k p" "q_free q = None \<longrightarrow> fresh new q"
  shows "\<exists>q'. AuEnq new ev q = Some (Inr q') \<and> queue_at q' (es @ (case ev of Some e \<Rightarrow> [e] | None \<Rightarrow> [])) k p"
proof -
  obtain xs fs where q: "queue_inv q xs fs" "map (event_at q) xs = es" "k \<le> length xs" "p = end_of (take k xs)"
    using assms(1) by (auto simp: queue_at_def)
  obtain x q1 fs1 where t: "take_node new q = Some (Inr (x, q1))" "queue_inv q1 xs fs1" "x \<notin> set xs" "x \<notin> set fs1"
      "\<exists>e n. q_nodes q1 x = Some (e, n)" "\<forall>y \<in> set xs. q_nodes q1 y = q_nodes q y"
    using take_node_inv [OF q(1) assms(2)] by blast
  obtain e0 n0 where x: "q_nodes q1 x = Some (e0, n0)" using t(5) by blast
  have es: "map (event_at q1) xs = es" using q t(6) by (auto simp: event_at_def)
  show ?thesis
  proof (cases ev)
    case None
    define q2 where "q2 = q1\<lparr>q_nodes := (q_nodes q1)(x \<mapsto> (e0, q_free q1)), q_free := Some x\<rparr>"
    have "AuEnq new ev q = Some (Inr q2)" using t(1) x None by (simp add: AuEnq_def put_next_def q2_def)
    moreover have "queue_inv q2 xs (x # fs1)" using t(2-4) by (auto simp: queue_inv_def q2_def)
    moreover have "map (event_at q2) xs = es" using es t(3) by (auto simp: q2_def event_at_def)
    ultimately show ?thesis using None q(3,4) unfolding queue_at_def by auto
  next
    case (Some e)
    show ?thesis
    proof (cases xs rule: rev_cases)
      case Nil
      define q2 where "q2 = q1\<lparr>q_nodes := (q_nodes q1)(x \<mapsto> (e, None)), q_head := Some x, q_tail := Some x, q_len := q_len q1 + 1\<rparr>"
      have "AuEnq new ev q = Some (Inr q2)" using t(1,2) x Some Nil by (simp add: AuEnq_def put_next_def put_event_def q2_def queue_inv_def)
      moreover have "queue_inv q2 [x] fs1" using t(2-4) Nil by (auto simp: queue_inv_def q2_def)
      moreover have "map (event_at q2) [x] = es @ [e]" using es Nil by (simp add: q2_def event_at_def)
      moreover have "k \<le> length [x]" "p = end_of (take k [x])" using q(3,4) Nil by simp_all
      ultimately show ?thesis using Some unfolding queue_at_def by (intro exI [of _ q2]) (simp only: option.case, blast)
    next
      case (snoc ys y)
      obtain ey ny where y: "q_nodes q1 y = Some (ey, ny)" "y \<noteq> x" "q_tail q1 = Some y"
        using t(2,3) path_dom [of "q_nodes q1" "q_head q1" xs None y] snoc by (auto simp: queue_inv_def)
      let ?N = "(q_nodes q1)(x \<mapsto> (e, None), y \<mapsto> (ey, Some x))"
      define q2 where "q2 = q1\<lparr>q_nodes := ?N, q_tail := Some x, q_len := q_len q1 + 1\<rparr>"
      have "AuEnq new ev q = Some (Inr q2)" using t(1) x y Some by (simp add: AuEnq_def put_next_def put_event_def q2_def)
      moreover have "path ?N (q_head q1) (xs @ [x]) None"
        using t(2,3) y snoc by (auto simp: queue_inv_def path_append)
      then have "queue_inv q2 (xs @ [x]) fs1" using t(2-4) snoc by (auto simp: queue_inv_def q2_def end_of_def)
      moreover have "map (event_at q2) (xs @ [x]) = es @ [e]"
        using es t(2,3) y snoc by (auto simp: q2_def event_at_def queue_inv_def)
      moreover have "k \<le> length (xs @ [x])" "p = end_of (take k (xs @ [x]))" using q(3,4) by simp_all
      ultimately show ?thesis using Some unfolding queue_at_def by (intro exI [of _ q2]) (simp only: option.case, blast)
    qed
  qed
qed

lemma AuNextEvent_queue:
  assumes "queue_is q (e # es)"
  shows "\<exists>q'. AuNextEvent dequeue q = Some (e, q') \<and> queue_is q' (if dequeue then es else e # es)"
proof -
  obtain x xs fs where q: "queue_inv q (x # xs) fs" "event_at q x = e" "map (event_at q) xs = es"
    using assms by (auto simp: queue_is_def Cons_eq_map_conv map_eq_Cons_conv)
  obtain n where x: "q_head q = Some x" "q_nodes q x = Some (e, n)" "path (q_nodes q) n xs None" "x \<notin> set xs" "x \<notin> set fs"
    using q(1,2) by (auto simp: queue_inv_def event_at_def split: option.splits)
  show ?thesis
  proof (cases dequeue)
    case True
    define q' where "q' = q\<lparr>q_nodes := (q_nodes q)(x \<mapsto> (e, q_free q)), q_head := n, q_tail := (if n = None then None else q_tail q),
      q_free := Some x, q_len := q_len q - 1\<rparr>"
    have "AuNextEvent dequeue q = Some (e, q')" using x True by (simp add: AuNextEvent_def put_next_def q'_def)
    moreover have "queue_inv q' xs (x # fs)"
      using q(1) x path_head [OF x(3)] by (auto simp: queue_inv_def q'_def end_of_def)
    moreover have "map (event_at q') xs = es" using q(3) x(4) by (auto simp: q'_def event_at_def)
    ultimately show ?thesis using True unfolding queue_is_def by auto
  qed (use assms x in \<open>simp add: AuNextEvent_def\<close>)
qed

lemma queue_at_start: "queue_at q es 0 p \<longleftrightarrow> queue_is q es \<and> p = None"
  by (auto simp: queue_at_def queue_is_def)

lemma queue_at_is: "queue_at q es k p \<Longrightarrow> queue_is q es"
  by (auto simp: queue_at_def queue_is_def)

section \<open>Scanning\<close>

text \<open>Elements whose event does not match are passed.\<close>

lemma scan_pass_skip:
  "path (q_nodes q) h xs m \<Longrightarrow> \<forall>x \<in> set xs. \<not> P (event_at q x) \<Longrightarrow>
   scan_pass P d prev h q = scan_pass P d (if xs = [] then prev else Some (last xs)) m q"
proof (induction xs arbitrary: h prev)
  case (Cons x xs)
  then obtain e n where x: "h = Some x" "q_nodes q x = Some (e, n)" "path (q_nodes q) n xs m" by (auto split: option.splits)
  then have "\<not> P e" using Cons.prems(2) by (auto simp: event_at_def)
  then have "scan_pass P d prev h q = scan_pass P d (Some x) n q" using x by (subst scan_pass.simps) simp
  with Cons.IH [OF x(3), of "Some x"] Cons.prems(2) show ?case by simp
qed simp

lemma scan_pass_none: "scan_pass P d prev None q = Some (None, prev, q)"
  by (subst scan_pass.simps) simp

text \<open>Taking an element out of the middle.\<close>

lemma unlink_element:
  assumes q: "queue_inv q (as @ x # ds) fs" and x: "q_nodes q x = Some (e, n)"
  shows "\<exists>q'. (do { q \<leftarrow> (case end_of as of
                   Some p \<Rightarrow> do { N \<leftarrow> put_next p n (q_nodes q); Some (q\<lparr>q_nodes := N, q_tail := (if n = None then Some p else q_tail q)\<rparr>) }
                 | None \<Rightarrow> Some (q\<lparr>q_head := n, q_tail := (if n = None then None else q_tail q)\<rparr>));
               N \<leftarrow> put_next x (q_free q) (q_nodes q);
               Some (q\<lparr>q_nodes := N, q_free := Some x, q_len := q_len q - 1\<rparr>) }) = Some q' \<and>
    queue_inv q' (as @ ds) (x # fs) \<and> map (event_at q') (as @ ds) = map (event_at q) (as @ ds)"
proof -
  have d: "x \<notin> set as" "x \<notin> set ds" "x \<notin> set fs" "distinct (as @ ds @ fs)" using q by (auto simp: queue_inv_def)
  have p: "path (q_nodes q) (q_head q) as (Some x)" "path (q_nodes q) n ds None" "path (q_nodes q) (q_free q) fs None"
    using q x by (auto simp: queue_inv_def path_append split: option.splits)
  have n: "n = None \<longleftrightarrow> ds = []" using path_head [OF p(2)] .
  have t: "q_tail q = Some (last (x # ds))" "q_len q = 1 + int (length as + length ds)" using q by (auto simp: queue_inv_def end_of_def)
  show ?thesis
  proof (cases as rule: rev_cases)
    case Nil
    define q' where "q' = q\<lparr>q_head := n, q_tail := (if n = None then None else q_tail q), q_nodes := (q_nodes q)(x \<mapsto> (e, q_free q)),
      q_free := Some x, q_len := q_len q - 1\<rparr>"
    have "queue_inv q' ds (x # fs)" using d p n t Nil by (auto simp: queue_inv_def q'_def end_of_def)
    moreover have "map (event_at q') ds = map (event_at q) ds" using d by (auto simp: q'_def event_at_def)
    ultimately show ?thesis using x Nil by (auto simp: put_next_def q'_def)
  next
    case (snoc bs b)
    obtain eb nb where b: "q_nodes q b = Some (eb, nb)" "b \<noteq> x" "b \<notin> set ds" "b \<notin> set fs" "b \<notin> set bs"
      using path_dom [OF p(1), of b] d snoc by auto
    let ?N = "(q_nodes q)(b \<mapsto> (eb, n), x \<mapsto> (e, q_free q))"
    define q' where "q' = q\<lparr>q_tail := (if n = None then Some b else q_tail q), q_nodes := ?N, q_free := Some x, q_len := q_len q - 1\<rparr>"
    have "path ?N (q_head q) (bs @ [b]) n" using p(1) b d snoc by (auto simp: path_append)
    moreover have "path ?N n ds None" using p(2) b d by simp
    ultimately have "path ?N (q_head q) (as @ ds) None" using snoc path_append by blast
    moreover have "path ?N (Some x) (x # fs) None" using p(3) b d by simp
    ultimately have "queue_inv q' (as @ ds) (x # fs)" using d n t snoc b by (auto simp: queue_inv_def q'_def end_of_def)
    moreover have "map (event_at q') (as @ ds) = map (event_at q) (as @ ds)" using d b snoc by (auto simp: q'_def event_at_def)
    ultimately show ?thesis using x b snoc by (auto simp: put_next_def q'_def)
  qed
qed

text \<open>A pass finds the first match behind where it starts, and takes it out if asked to.\<close>

lemma scan_from_miss:
  assumes "queue_at q es k p" "\<forall>e \<in> set (drop k es). \<not> P e"
  shows "\<exists>p'. scan_from P d p q = Some (None, p', q) \<and> queue_at q es (length es) p'"
proof -
  obtain xs fs where q: "queue_inv q xs fs" "map (event_at q) xs = es" "k \<le> length xs" "p = end_of (take k xs)"
    using assms(1) by (auto simp: queue_at_def)
  obtain m where m: "path (q_nodes q) (q_head q) (take k xs) m" "path (q_nodes q) m (drop k xs) None"
    using q(1) path_append [of "q_nodes q" "q_head q" "take k xs" "drop k xs" None] by (auto simp: queue_inv_def)
  have start: "(case p of Some p \<Rightarrow> get_next p (q_nodes q) | None \<Rightarrow> Some (q_head q)) = Some m"
    using m(1) by (cases "take k xs" rule: rev_cases) (auto simp: q(4) path_append get_next_def split: option.splits)
  have "\<forall>x \<in> set (drop k xs). \<not> P (event_at q x)" using assms(2) q(2) by (auto simp: drop_map)
  from scan_pass_skip [OF m(2) this, of d p]
  have "scan_from P d p q = Some (None, (if drop k xs = [] then p else Some (last (drop k xs))), q)"
    using start by (simp add: scan_from_def scan_pass_none)
  moreover have "(if drop k xs = [] then p else Some (last (drop k xs))) = end_of xs"
    using q(3,4) by (auto simp: end_of_def last_drop not_le)
  ultimately show ?thesis using q by (auto simp: queue_at_def)
qed

lemma scan_from_match:
  assumes "queue_at q (es @ e # es') k p" "k \<le> length es" "\<forall>x \<in> set (drop k es). \<not> P x" "P e"
  shows "\<exists>p' q'. scan_from P d p q = Some (Some e, p', q') \<and> queue_is q' (if d then es @ es' else es @ e # es')"
proof -
  obtain xs fs where q: "queue_inv q xs fs" "map (event_at q) xs = es @ e # es'" "p = end_of (take k xs)"
    using assms(1) by (auto simp: queue_at_def)
  obtain as x ds where xs: "xs = as @ x # ds" "map (event_at q) as = es" "event_at q x = e" "map (event_at q) ds = es'"
    using q(2) by (auto simp: map_eq_append_conv map_eq_Cons_conv)
  have len: "length as = length es" using xs(2) by (metis length_map)
  have take: "take k xs = take k as" using xs(1) assms(2) len by simp
  have "path (q_nodes q) (q_head q) (take k as @ drop k as) (Some x)" using q(1) xs(1) by (auto simp: queue_inv_def path_append)
  then obtain m where m: "path (q_nodes q) (q_head q) (take k as) m" "path (q_nodes q) m (drop k as) (Some x)"
    using path_append by blast
  have start: "(case p of Some p \<Rightarrow> get_next p (q_nodes q) | None \<Rightarrow> Some (q_head q)) = Some m"
    using m(1) by (cases "take k as" rule: rev_cases) (auto simp: q(3) take path_append get_next_def split: option.splits)
  have "\<forall>y \<in> set (drop k as). \<not> P (event_at q y)" using assms(3) xs(2) by (auto simp: drop_map)
  then have "scan_pass P d p m q = scan_pass P d (if drop k as = [] then p else Some (last (drop k as))) (Some x) q"
    by (rule scan_pass_skip [OF m(2)])
  moreover have "(if drop k as = [] then p else Some (last (drop k as))) = end_of as"
    using assms(2) len by (auto simp: q(3) take end_of_def last_drop not_le)
  ultimately have pass: "scan_from P d p q = scan_pass P d (end_of as) (Some x) q" using start by (simp add: scan_from_def)
  obtain n where n: "q_nodes q x = Some (e, n)"
    using q(1) xs(1,3) by (auto simp: queue_inv_def event_at_def path_append split: option.splits)
  show ?thesis
  proof (cases d)
    case True
    obtain q' where q': "(do { q \<leftarrow> (case end_of as of
                   Some p \<Rightarrow> do { N \<leftarrow> put_next p n (q_nodes q); Some (q\<lparr>q_nodes := N, q_tail := (if n = None then Some p else q_tail q)\<rparr>) }
                 | None \<Rightarrow> Some (q\<lparr>q_head := n, q_tail := (if n = None then None else q_tail q)\<rparr>));
               N \<leftarrow> put_next x (q_free q) (q_nodes q);
               Some (q\<lparr>q_nodes := N, q_free := Some x, q_len := q_len q - 1\<rparr>) }) = Some q'"
        "queue_inv q' (as @ ds) (x # fs)" "map (event_at q') (as @ ds) = map (event_at q) (as @ ds)"
      using unlink_element [OF q(1) [unfolded xs(1)] n] by blast
    have "scan_pass P d (end_of as) (Some x) q = Some (Some e, end_of as, q')"
      using n assms(4) True q'(1) by (subst scan_pass.simps) (auto simp: bind_eq_Some_conv)
    then show ?thesis using pass q'(2,3) xs(2,4) True unfolding queue_is_def by auto
  next
    case False
    then have "scan_pass P d (end_of as) (Some x) q = Some (Some e, end_of as, q)"
      using n assms(4) by (subst scan_pass.simps) simp
    then show ?thesis using pass False queue_at_is [OF assms(1)] by auto
  qed
qed

section \<open>Putting back, throwing away\<close>

lemma walk_path: "path N h xs e \<Longrightarrow> k < length xs \<Longrightarrow> h = Some x \<Longrightarrow> walk k x N = Some (xs ! k)"
proof (induction xs arbitrary: h k x)
  case (Cons y ys)
  then obtain ev n where y: "x = y" "N y = Some (ev, n)" "path N n ys e" by (auto split: option.splits)
  show ?case
  proof (cases k)
    case (Suc j)
    then obtain z zs where "ys = z # zs" using Cons.prems(2) by (cases ys) auto
    then have "n = Some z" using y(3) by simp
    then show ?thesis using y Suc Cons.IH [OF y(3), of j z] Cons.prems(2) by (simp add: get_next_def)
  qed (use y in simp)
qed simp

text \<open>Linking an element that is in no list behind \<open>as\<close>.\<close>

lemma link_behind:
  assumes q: "queue_inv q (as @ bs) fs" and x: "q_nodes q x = Some (e0, n0)" "x \<notin> set (as @ bs)" "x \<notin> set fs"
  shows "\<exists>q'. (do { N \<leftarrow> put_event x e (q_nodes q);
                   (N, h) \<leftarrow> (case end_of as of
                      Some p \<Rightarrow> do { n \<leftarrow> get_next p N; N \<leftarrow> put_next x n N; N \<leftarrow> put_next p (Some x) N; Some (N, q_head q) }
                    | None \<Rightarrow> do { N \<leftarrow> put_next x (q_head q) N; Some (N, Some x) });
                   Some (True, q\<lparr>q_nodes := N, q_head := h, q_tail := (if end_of as = q_tail q then Some x else q_tail q), q_len := q_len q + 1\<rparr>) })
      = Some (True, q') \<and> queue_inv q' (as @ x # bs) fs \<and>
    map (event_at q') (as @ x # bs) = map (event_at q) as @ e # map (event_at q) bs"
proof -
  have d: "distinct (as @ bs @ fs)" and t: "q_tail q = end_of (as @ bs)" "q_len q = int (length as + length bs)"
    using q by (auto simp: queue_inv_def)
  obtain m where p: "path (q_nodes q) (q_head q) as m" "path (q_nodes q) m bs None" "path (q_nodes q) (q_free q) fs None"
    using q by (auto simp: queue_inv_def path_append)
  have tail: "end_of as = q_tail q \<longleftrightarrow> bs = []"
    using d by (cases bs rule: rev_cases; cases as rule: rev_cases) (auto simp: t(1) end_of_def)
  show ?thesis
  proof (cases as rule: rev_cases)
    case Nil
    let ?N = "(q_nodes q)(x \<mapsto> (e, q_head q))"
    define q' where "q' = q\<lparr>q_nodes := ?N, q_head := Some x, q_tail := (if end_of as = q_tail q then Some x else q_tail q), q_len := q_len q + 1\<rparr>"
    have "queue_inv q' (x # bs) fs" using p d t x tail Nil by (auto simp: queue_inv_def q'_def end_of_def)
    moreover have "map (event_at q') (x # bs) = e # map (event_at q) bs" using x Nil by (auto simp: q'_def event_at_def)
    ultimately show ?thesis using x Nil by (intro exI [of _ q']) (simp add: put_event_def put_next_def q'_def)
  next
    case (snoc cs c)
    have c: "q_nodes q c = Some (event_at q c, m)" "c \<noteq> x" "c \<notin> set bs" "c \<notin> set fs" "c \<notin> set cs" "path (q_nodes q) (q_head q) cs (Some c)"
      using p(1) d x snoc by (auto simp: path_append event_at_def split: option.splits)
    let ?N = "(q_nodes q)(x \<mapsto> (e, m), c \<mapsto> (event_at q c, Some x))"
    define q' where "q' = q\<lparr>q_nodes := ?N, q_head := q_head q, q_tail := (if end_of as = q_tail q then Some x else q_tail q), q_len := q_len q + 1\<rparr>"
    have "path ?N (q_head q) as (Some x)" using c x snoc by (simp add: path_append)
    moreover have "path ?N (Some x) (x # bs) None" using p(2) c x by simp
    ultimately have "path ?N (q_head q) (as @ x # bs) None" using path_append by blast
    moreover have "path ?N (q_free q) fs None" using p(3) c x by simp
    ultimately have "queue_inv q' (as @ x # bs) fs" using d t x tail snoc by (auto simp: queue_inv_def q'_def end_of_def)
    moreover have "map (event_at q') (as @ x # bs) = map (event_at q) as @ e # map (event_at q) bs"
      using c x snoc by (auto simp: q'_def event_at_def)
    ultimately show ?thesis using x c snoc
      by (intro exI [of _ q']) (simp add: put_event_def put_next_def get_next_def q'_def fun_upd_twist [of x c])
  qed
qed

text \<open>\<^verbatim>\<open>AuRequeueEvent\<close> puts the event behind the first \<open>skip\<close> events, or at the end.\<close>

lemma AuRequeueEvent_queue:
  assumes "queue_is q es" "fresh new q"
  shows "\<exists>q'. AuRequeueEvent new e skip q = Some (True, q') \<and> queue_is q' (take (nat skip) es @ e # drop (nat skip) es)"
proof -
  obtain xs fs where q: "queue_inv q xs fs" "map (event_at q) xs = es" using assms(1) by (auto simp: queue_is_def)
  obtain x q1 fs1 where t: "take_node new q = Some (Inr (x, q1))" "queue_inv q1 xs fs1" "x \<notin> set xs" "x \<notin> set fs1"
      "\<exists>e n. q_nodes q1 x = Some (e, n)" "\<forall>y \<in> set xs. q_nodes q1 y = q_nodes q y"
    using take_node_inv [OF q(1)] assms(2) by blast
  obtain e0 n0 where x: "q_nodes q1 x = Some (e0, n0)" using t(5) by blast
  have es: "map (event_at q1) xs = es" using q t(6) by (auto simp: event_at_def)
  let ?as = "take (nat skip) xs" and ?bs = "drop (nat skip) xs"
  define N where "N = (q_nodes q1)(x \<mapsto> (e, n0))"
  have N: "put_event x e (q_nodes q1) = Some N" using x by (simp add: put_event_def N_def)
  have prev: "(if skip \<le> 0 then Some None else if q_len q1 \<le> skip then Some (q_tail q1)
      else do { h \<leftarrow> q_head q1; p \<leftarrow> walk (nat skip - 1) h N; Some (Some p) }) = Some (end_of ?as)"
  proof -
    have len: "q_len q1 = int (length xs)" "q_tail q1 = end_of xs" "path N (q_head q1) xs None"
      using t(2,3) by (auto simp: queue_inv_def N_def)
    consider "skip \<le> 0" | "0 < skip" "int (length xs) \<le> skip" | "0 < skip" "skip < int (length xs)" by linarith
    then show ?thesis
    proof cases
      case 3
      then have k: "nat skip - 1 < length xs" "nat skip \<noteq> 0" by auto
      then obtain h where h: "q_head q1 = Some h" using len(3) by (cases xs) auto
      have "walk (nat skip - 1) h N = Some (xs ! (nat skip - 1))" by (rule walk_path [OF len(3) k(1) h])
      moreover have "end_of ?as = Some (xs ! (nat skip - 1))" using 3 k by (auto simp: end_of_def last_conv_nth min_def)
      ultimately show ?thesis using 3 len h by simp
    qed (use len in \<open>auto simp: end_of_def\<close>)
  qed
  obtain q' where q': "(do { N \<leftarrow> put_event x e (q_nodes q1);
                   (N, h) \<leftarrow> (case end_of ?as of
                      Some p \<Rightarrow> do { n \<leftarrow> get_next p N; N \<leftarrow> put_next x n N; N \<leftarrow> put_next p (Some x) N; Some (N, q_head q1) }
                    | None \<Rightarrow> do { N \<leftarrow> put_next x (q_head q1) N; Some (N, Some x) });
                   Some (True, q1\<lparr>q_nodes := N, q_head := h, q_tail := (if end_of ?as = q_tail q1 then Some x else q_tail q1), q_len := q_len q1 + 1\<rparr>) })
      = Some (True, q')" "queue_inv q' (?as @ x # ?bs) fs1"
      "map (event_at q') (?as @ x # ?bs) = map (event_at q1) ?as @ e # map (event_at q1) ?bs"
    using link_behind [of q1 ?as ?bs fs1 x e0 n0 e] t(2-4) x by auto
  have "AuRequeueEvent new e skip q = Some (True, q')"
  proof -
    have "\<exists>y j. new = Some (y, j)" using assms(2) by (auto simp: fresh_def)
    then have "AuRequeueEvent new e skip q = (case Inr (x, q1) :: unit + nat \<times> 'a event_queue of Inl _ \<Rightarrow> None | Inr (x, q) \<Rightarrow>
        do { N \<leftarrow> put_event x e (q_nodes q);
             prev \<leftarrow> (if skip \<le> 0 then Some None else if q_len q \<le> skip then Some (q_tail q)
                     else do { h \<leftarrow> q_head q; p \<leftarrow> walk (nat skip - 1) h N; Some (Some p) });
             (N, h) \<leftarrow> (case prev of
                Some p \<Rightarrow> do { n \<leftarrow> get_next p N; N \<leftarrow> put_next x n N; N \<leftarrow> put_next p (Some x) N; Some (N, q_head q) }
              | None \<Rightarrow> do { N \<leftarrow> put_next x (q_head q) N; Some (N, Some x) });
             Some (True, q\<lparr>q_nodes := N, q_head := h, q_tail := (if prev = q_tail q then Some x else q_tail q), q_len := q_len q + 1\<rparr>) })"
      using t(1) by (auto simp: AuRequeueEvent_def split: option.split)
    then show ?thesis using q'(1) by (simp only: sum.case prod.case N prev Option.bind.bind_lunit)
  qed
  moreover have "queue_is q' (take (nat skip) es @ e # drop (nat skip) es)"
    using q'(2,3) unfolding queue_is_def es [symmetric] by (auto simp: take_map drop_map)
  ultimately show ?thesis by blast
qed

lemma discard_events_queue: "queue_is q es \<Longrightarrow> \<exists>q'. discard_events q = Some q' \<and> queue_is q' []"
proof -
  assume "queue_is q es"
  then obtain xs fs where q: "queue_inv q xs fs" by (auto simp: queue_is_def)
  show ?thesis
  proof (cases xs rule: rev_cases)
    case Nil
    with q have "discard_events q = Some q" by (simp add: discard_events_def queue_inv_def)
    then show ?thesis using q Nil by (auto simp: queue_is_def)
  next
    case (snoc ys y)
    have y: "q_nodes q y = Some (event_at q y, None)" "y \<notin> set ys" "y \<notin> set fs" "path (q_nodes q) (q_head q) ys (Some y)"
      "path (q_nodes q) (q_free q) fs None" "q_tail q = Some y" "q_head q \<noteq> None"
      using q snoc path_head [of "q_nodes q" "q_head q" xs] by (auto simp: queue_inv_def path_append event_at_def split: option.splits)
    let ?N = "(q_nodes q)(y \<mapsto> (event_at q y, q_free q))"
    have "path ?N (q_head q) (xs @ fs) None" using y snoc by (auto simp: path_append)
    then have "queue_inv (q\<lparr>q_nodes := ?N, q_free := q_head q, q_head := None, q_tail := None, q_len := 0\<rparr>) [] (xs @ fs)"
      using q by (auto simp: queue_inv_def)
    moreover have "discard_events q = Some (q\<lparr>q_nodes := ?N, q_free := q_head q, q_head := None, q_tail := None, q_len := 0\<rparr>)"
      using y by (auto simp: discard_events_def put_next_def)
    ultimately show ?thesis unfolding queue_is_def by fastforce
  qed
qed

section \<open>The queue as a list\<close>

datatype 'e queue_op = OpEnq "'e option" | OpNext bool | OpScan "'e \<Rightarrow> bool" bool | OpRequeue 'e int | OpDiscard

fun run_op :: "(nat \<times> 'e) option \<Rightarrow> 'e queue_op \<Rightarrow> 'e event_queue \<Rightarrow> ('e option \<times> 'e event_queue) option" where
  "run_op new (OpEnq ev) q = (case AuEnq new ev q of Some (Inr q) \<Rightarrow> Some (None, q) | _ \<Rightarrow> None)"
| "run_op new (OpNext d) q =
     (if q_head q = None then Some (None, q) else map_option (\<lambda>(e, q). (Some e, q)) (AuNextEvent d q))"
| "run_op new (OpScan P d) q = map_option (\<lambda>(e, _, q). (e, q)) (scan_from P d None q)"
| "run_op new (OpRequeue e skip) q = map_option (\<lambda>(_, q). (None, q)) (AuRequeueEvent new e skip q)"
| "run_op new OpDiscard q = map_option (\<lambda>q. (None, q)) (discard_events q)"

fun list_op :: "'e queue_op \<Rightarrow> 'e list \<Rightarrow> 'e option \<times> 'e list" where
  "list_op (OpEnq ev) es = (None, es @ (case ev of Some e \<Rightarrow> [e] | None \<Rightarrow> []))"
| "list_op (OpNext d) es = (case es of [] \<Rightarrow> (None, []) | e # es' \<Rightarrow> (Some e, if d then es' else es))"
| "list_op (OpScan P d) es =
     (case dropWhile (\<lambda>e. \<not> P e) es of
        [] \<Rightarrow> (None, es)
      | e # es' \<Rightarrow> (Some e, if d then takeWhile (\<lambda>e. \<not> P e) es @ es' else es))"
| "list_op (OpRequeue e skip) es = (None, take (nat skip) es @ e # drop (nat skip) es)"
| "list_op OpDiscard es = (None, [])"

text \<open>
  C19. The library's event queue, with its head, tail and free list, is a list of events: entering an event appends it, unless it
  is ignored; the next event is the first; scanning finds the first match and takes out only that; putting an event back inserts
  it behind the first \<open>skip\<close> events or at the end; discarding leaves none. Every operation keeps the links, the tail and
  the count right, and uses only elements of its own.
\<close>

theorem event_queue_refines:
  assumes "queue_is q es" "fresh new q"
  shows "\<exists>q'. run_op new op q = Some (fst (list_op op es), q') \<and> queue_is q' (snd (list_op op es))"
proof (cases op)
  case (OpEnq ev)
  then show ?thesis
    using AuEnq_queue [of q es 0 None new ev] assms by (auto simp: queue_at_start)
next
  case (OpNext d)
  show ?thesis
  proof (cases es)
    case Nil
    then have "q_head q = None" using assms(1) by (auto simp: queue_is_def queue_inv_def)
    then show ?thesis using OpNext Nil assms(1) by simp
  next
    case (Cons e es')
    then have "q_head q \<noteq> None" using assms(1) by (auto simp: queue_is_def queue_inv_def Cons_eq_map_conv map_eq_Cons_conv)
    then show ?thesis using AuNextEvent_queue [of q e es' d] assms(1) OpNext Cons by auto
  qed
next
  case (OpScan P d)
  have at: "queue_at q es 0 None" using assms(1) by (simp add: queue_at_start)
  show ?thesis
  proof (cases "dropWhile (\<lambda>e. \<not> P e) es")
    case Nil
    then have "\<forall>e \<in> set es. \<not> P e" by (simp add: dropWhile_eq_Nil_conv)
    then obtain p' where "scan_from P d None q = Some (None, p', q)" using scan_from_miss [OF at, of P d] by auto
    then show ?thesis using OpScan Nil assms(1) by (simp del: dropWhile_eq_Nil_conv)
  next
    case (Cons e es')
    define pre where "pre = takeWhile (\<lambda>e. \<not> P e) es"
    have es: "es = pre @ e # es'" "P e" "\<forall>x \<in> set pre. \<not> P x"
      using Cons takeWhile_dropWhile_id [of "\<lambda>e. \<not> P e" es] dropWhile_eq_Cons_conv [of "\<lambda>e. \<not> P e" es e es']
        set_takeWhileD [of _ "\<lambda>e. \<not> P e" es] unfolding pre_def by (metis, metis, metis)
    have "queue_at q (pre @ e # es') 0 None" using at es(1) by (rule subst [rotated])
    then obtain p' q' where "scan_from P d None q = Some (Some e, p', q')" "queue_is q' (if d then pre @ es' else pre @ e # es')"
      using scan_from_match [of q pre e es' 0 None P d] es(2,3) by auto
    then show ?thesis using OpScan Cons es(1) [symmetric] by (cases d) (simp_all add: pre_def [symmetric])
  qed
next
  case (OpRequeue e skip)
  then show ?thesis using AuRequeueEvent_queue [OF assms, of e skip] by auto
next
  case OpDiscard
  then show ?thesis using discard_events_queue [OF assms(1)] by auto
qed

definition demo_queue :: "nat event_queue" where
  "demo_queue = \<lparr>q_nodes = [1 \<mapsto> (7, Some 2), 2 \<mapsto> (8, Some 3), 3 \<mapsto> (9, None)], q_head = Some 1, q_tail = Some 3, q_free = None, q_len = 3\<rparr>"

lemma event_queue_refines_witness:
  "\<exists>q. run_op (Some (4, 0)) (OpScan (\<lambda>e. e = 8) True) demo_queue = Some (Some 8, q) \<and> queue_is q [7, 9]"
proof -
  have "queue_inv demo_queue [1, 2, 3] []" "map (event_at demo_queue) [1, 2, 3] = [7, 8, 9]"
    by (simp_all add: queue_inv_def demo_queue_def event_at_def)
  then have "queue_is demo_queue [7, 8, 9]" unfolding queue_is_def by (intro exI conjI)
  moreover have "fresh (Some (4, 0)) demo_queue" by (simp add: fresh_def demo_queue_def)
  ultimately obtain q where "run_op (Some (4, 0)) (OpScan (\<lambda>e. e = 8) True) demo_queue =
      Some (fst (list_op (OpScan (\<lambda>e. e = 8) True) [7, 8, 9]), q)"
    "queue_is q (snd (list_op (OpScan (\<lambda>e. e = 8) True) [7, 8, 9]))" using event_queue_refines by blast
  moreover have "list_op (OpScan (\<lambda>e. e = 8) True) [7, 8, 9 :: nat] = (Some 8, [7, 9])" by simp
  ultimately show ?thesis by (intro exI [of _ q]) (simp only: fst_conv snd_conv)
qed

end
