(* ===== verification/Lib_Packets.thy ===== *)
theory Lib_Packets
  imports Lib_Requests Lib_Queue
begin

text \<open>
  What the client library reads from the server: events, errors and replies, packets of 32 bytes of which replies may be longer
  (\<^verbatim>\<open>lib/audio/Alibint.c\<close>, \<^verbatim>\<open>AlibAsync.c\<close>, \<^verbatim>\<open>NextEvent.c\<close>, \<^verbatim>\<open>Sync.c\<close>). The state has both directions of the connection:
  the output buffer and \<open>au_unread\<close>, what the server still sends. System calls give what a list of results says
  (\<open>Lib_Transport\<close>); the queue of events is a list, which the linked one implements (\<open>Lib_Queue\<close>).

  The only asynchronous handlers are those of \<^verbatim>\<open>_AuForceRoundTrip\<close>, there are no protocol extensions, and an application's
  error handler returns without a call of the library. \<open>None\<close> is a list of results that is too short or a loop that
  does not end, \<open>Inl ()\<close> the end of the program.
\<close>

section \<open>State\<close>

datatype client_event =
    AuElementNotifyEvent u8 u32 bool u32 u32 u8 u8 u8 u8 u8 u32
  | AuMonitorNotifyEvent u8 u32 bool u32 u32 u8 u8 u8 u16 u16 u32 u32 u32

record error_event =
  er_serial :: u32
  er_time :: u32
  er_resourceid :: u32
  er_error_code :: u8
  er_request_code :: u8
  er_minor_code :: u8
  er_data :: "u32 list"

record async_error =
  as_min :: u32
  as_max :: u32
  as_error_code :: u8
  as_major :: u8
  as_minor :: u16
  as_last_error :: u8
  as_error_count :: s32

record au_server =
  au_out :: aud_out
  au_unread :: bytes
  au_queue :: "client_event list"
  au_last_read :: u32
  au_handlers :: "async_error list"
  au_error_handler :: bool
  au_reported :: "error_event list"

abbreviation (input) Au_Error :: u8 where "Au_Error \<equiv> 0"
abbreviation (input) Au_Reply :: u8 where "Au_Reply \<equiv> 1"
abbreviation (input) AuEventTypeElementNotify :: u8 where "AuEventTypeElementNotify \<equiv> 2"
abbreviation (input) AuEventTypeMonitorNotify :: u8 where "AuEventTypeMonitorNotify \<equiv> 4"
abbreviation (input) AuBadImplementation :: u8 where "AuBadImplementation \<equiv> 17"
abbreviation (input) Au_GetCloseDownMode :: u8 where "Au_GetCloseDownMode \<equiv> 33"

text \<open>Fields of a packet; a packet has at least 32 bytes.\<close>

definition f8 :: "nat \<Rightarrow> bytes \<Rightarrow> u8" where "f8 k p = p ! k"
definition f16 :: "nat \<Rightarrow> bytes \<Rightarrow> u16" where "f16 k p = mk16 (p ! k) (p ! (k + 1))"
definition f32 :: "nat \<Rightarrow> bytes \<Rightarrow> u32" where "f32 k p = mk32 (f16 k p) (f16 (k + 2) p)"

definition recv :: "nat \<Rightarrow> au_server \<Rightarrow> io_result list \<Rightarrow> (bytes \<times> au_server) io" where
  "recv n s rs = io_bind (AuRead n (au_unread s) rs) (\<lambda>(x, inp) rs. Some (Inr (x, s\<lparr>au_unread := inp\<rparr>), rs))"

section \<open>Sequence numbers\<close>

partial_function (option) seq_loop :: "u32 \<Rightarrow> u32 \<Rightarrow> u32 \<Rightarrow> u32 option" where
  "seq_loop newseq lastseq req =
     (if newseq < lastseq then
        let n = newseq + 0x10000 in if req < n then Some (n - 0x10000) else seq_loop n lastseq req
      else Some newseq)"

definition AuSetLastRequestRead :: "u16 \<Rightarrow> au_server \<Rightarrow> (u32 \<times> au_server) option" where
  "AuSetLastRequestRead seq s =
     do { n \<leftarrow> seq_loop ((au_last_read s AND NOT 0xffff) OR ucast seq) (au_last_read s) (request (au_out s));
          Some (n, s\<lparr>au_last_read := n\<rparr>) }"

section \<open>Events and errors\<close>

definition AuWireToEvent :: "bytes \<Rightarrow> au_server \<Rightarrow> (client_event option \<times> au_server) option" where
  "AuWireToEvent p s =
     do { (serial, s) \<leftarrow> AuSetLastRequestRead (f16 2 p) s;
          let ty = f8 0 p AND 0x7f; send_event = (f8 0 p AND 0x80 \<noteq> 0); time = f32 4 p in
          Some (if ty = AuEventTypeElementNotify then
                  Some (AuElementNotifyEvent ty serial send_event time (f32 8 p) (ucast (f16 12 p)) (ucast (f16 14 p)) (ucast (f16 16 p))
                    (ucast (f16 18 p)) (ucast (f16 20 p)) (f32 24 p))
                else if ty = AuEventTypeMonitorNotify then
                  Some (AuMonitorNotifyEvent ty serial send_event time (f32 8 p) (ucast (f16 12 p)) (f8 14 p) (f8 15 p) (f16 16 p) (f16 18 p)
                    (f32 20 p) (f32 24 p) (f32 28 p))
                else None, s) }"

text \<open>\<^verbatim>\<open>event_vec\<close>: the types from \<^verbatim>\<open>AuFirstEventType\<close> to \<^verbatim>\<open>AuLastEventType\<close> are reformatted, all others are unknown.\<close>

definition event_vec :: "bytes \<Rightarrow> au_server \<Rightarrow> (client_event option \<times> au_server) option" where
  "event_vec p s =
     (let ty = f8 0 p AND 0x7f in
      if AuEventTypeElementNotify \<le> ty \<and> ty \<le> AuEventTypeMonitorNotify then AuWireToEvent p s else Some (None, s))"

definition enq_packet :: "bytes \<Rightarrow> au_server \<Rightarrow> au_server option" where
  "enq_packet p s =
     do { (ev, s) \<leftarrow> event_vec p s;
          Some (s\<lparr>au_queue := snd (list_op (OpEnq ev) (au_queue s))\<rparr>) }"

text \<open>The handler of a round trip takes the errors that match its state, with the serial number that was read last.\<close>

definition AuAsyncErrorHandler :: "u32 \<Rightarrow> bytes \<Rightarrow> async_error \<Rightarrow> async_error option" where
  "AuAsyncErrorHandler lastread p a =
     (if f8 0 p = Au_Error \<and> (as_error_code a = 0 \<or> f8 1 p = as_error_code a) \<and> (as_major a = 0 \<or> f8 14 p = as_major a) \<and>
        (as_minor a = 0 \<or> f16 12 p = as_minor a) \<and> (as_min a = 0 \<or> as_min a \<le> lastread) \<and> (as_max a = 0 \<or> lastread \<le> as_max a)
      then Some (a\<lparr>as_last_error := f8 1 p, as_error_count := as_error_count a + 1\<rparr>) else None)"

text \<open>The handlers are asked in turn until one takes the packet.\<close>

fun run_handlers :: "u32 \<Rightarrow> bytes \<Rightarrow> async_error list \<Rightarrow> async_error list option" where
  "run_handlers lastread p [] = None"
| "run_handlers lastread p (a # hs) =
     (case AuAsyncErrorHandler lastread p a of
        Some a' \<Rightarrow> Some (a' # hs)
      | None \<Rightarrow> map_option ((#) a) (run_handlers lastread p hs))"

definition AuError :: "bytes \<Rightarrow> au_server \<Rightarrow> (unit + au_server) option" where
  "AuError p s =
     do { (serial, s) \<leftarrow> AuSetLastRequestRead (f16 2 p) s;
          Some (case run_handlers (au_last_read s) p (au_handlers s) of
              Some hs \<Rightarrow> Inr (s\<lparr>au_handlers := hs\<rparr>)
            | None \<Rightarrow>
                let e = \<lparr>er_serial = serial, er_time = f32 4 p, er_resourceid = f32 8 p, er_error_code = f8 1 p, er_request_code = f8 14 p,
                         er_minor_code = ucast (f16 12 p), er_data = map (\<lambda>k. f32 k p) [16, 20, 24, 28]\<rparr> in
                if au_error_handler s then Inr (s\<lparr>au_reported := au_reported s @ [e]\<rparr>)
                else if f8 1 p = AuBadImplementation then Inr s else Inl ()) }"

text \<open>A packet that is no reply.\<close>

definition take_other :: "bytes \<Rightarrow> au_server \<Rightarrow> (unit + au_server) option" where
  "take_other p s = (if f8 0 p = Au_Error then AuError p s else map_option Inr (enq_packet p s))"

definition lift_io :: "(unit + 'a) option \<Rightarrow> io_result list \<Rightarrow> 'a io" where
  "lift_io r rs = map_option (\<lambda>x. (x, rs)) r"

section \<open>Replies nobody waits for\<close>

function AuEatData :: "nat \<Rightarrow> au_server \<Rightarrow> io_result list \<Rightarrow> au_server io" where
  "AuEatData n s rs =
     (if n = 0 then Some (Inr s, rs) else io_bind (recv (min n 2048) s rs) (\<lambda>(_, s) rs. AuEatData (n - min n 2048) s rs))"
  by pat_completeness auto
termination by (relation "measure (\<lambda>(n, _, _). n)") auto

declare AuEatData.simps [simp del]

text \<open>
  The packets behind a reply, up to the next reply: \<open>None\<close> if there is one, or how many bytes of the last packet are there.
\<close>

fun scan_packets :: "bytes \<Rightarrow> nat option" where
  "scan_packets buf =
     (if 32 < length buf then if hd buf = Au_Reply then None else scan_packets (drop 32 buf) else Some (length buf))"

declare scan_packets.simps [simp del]

text \<open>
  \<^verbatim>\<open>_AuAsyncReply\<close>: \<open>buf\<close> are the bytes in hand, from the reply on. The results say whether the reply is left to the caller, and
  give the bytes in hand behind it. When the last packet in hand is not complete the rest of it is read. Lengths that wrap around, of 2^30 - 8 words
  and more, are outside of the model.
\<close>

definition AuAsyncReply :: "bytes \<Rightarrow> bool \<Rightarrow> au_server \<Rightarrow> io_result list \<Rightarrow> (bool \<times> bytes \<times> au_server) io" where
  "AuAsyncReply buf discard s rs =
     (case AuSetLastRequestRead (f16 2 buf) s of
        None \<Rightarrow> None
      | Some (_, s) \<Rightarrow>
          let len = sint (32 + push_bit 2 (f32 4 buf)); lenp = int (length buf);
              taken = run_handlers (au_last_read s) buf (au_handlers s); consumed = (taken \<noteq> None);
              s = (case taken of Some hs \<Rightarrow> s\<lparr>au_handlers := hs\<rparr> | None \<Rightarrow> s) in
          if \<not> consumed \<and> \<not> discard then Some (Inr (True, buf, s), rs)
          else if len < 32 then None
          else io_bind (if \<not> consumed \<and> lenp < len then AuEatData (nat (len - lenp)) s rs else Some (Inr s, rs)) (\<lambda>s rs.
            if lenp \<le> len then Some (Inr (False, [], s), rs)
            else let buf = drop (nat len) buf in
              case scan_packets buf of
                None \<Rightarrow> Some (Inr (False, buf, s), rs)
              | Some r \<Rightarrow>
                  if 0 < r \<and> r < 32 then io_bind (recv (32 - r) s rs) (\<lambda>(x, s) rs. Some (Inr (False, buf @ x, s), rs))
                  else Some (Inr (False, buf, s), rs)))"

lemma AuRead_uses: "AuRead n inp rs = Some (r, rs') \<Longrightarrow> length rs' \<le> length rs \<and> (0 < n \<longrightarrow> length rs' < length rs)"
proof -
  have "read_loop sz got inp rs = Some (r, rs') \<Longrightarrow> length rs' < length rs" for sz got
    by (induction rs arbitrary: sz got inp) (auto simp: Let_def intro: less_SucI split: io_result.splits if_splits)
  then show "AuRead n inp rs = Some (r, rs') \<Longrightarrow> ?thesis"
    by (auto simp: AuRead_def intro: less_imp_le split: if_splits)
qed

lemma recv_uses: "recv n s rs = Some (Inr x, rs') \<Longrightarrow> length rs' \<le> length rs \<and> (0 < n \<longrightarrow> length rs' < length rs)"
  by (auto simp: recv_def io_bind_Inr dest: AuRead_uses)

lemma recv_length: "recv n s rs = Some (Inr (x, s'), rs') \<Longrightarrow> length x = n"
  by (auto simp: recv_def io_bind_Inr dest!: AuRead_exact)

lemma AuEatData_uses: "AuEatData n s rs = Some (Inr s', rs') \<Longrightarrow> length rs' \<le> length rs"
proof (induction n s rs rule: AuEatData.induct)
  case (1 n s rs)
  show ?case
  proof (cases "n = 0")
    case True
    then show ?thesis using 1(2) by (simp add: AuEatData.simps)
  next
    case False
    then obtain x s1 rs1 where "recv (min n 2048) s rs = Some (Inr (x, s1), rs1)" "AuEatData (n - min n 2048) s1 rs1 = Some (Inr s', rs')"
      using 1(2) by (subst (asm) AuEatData.simps) (auto simp: io_bind_Inr)
    then show ?thesis using 1(1) [OF False] recv_uses by fastforce
  qed
qed

lemma AuAsyncReply_uses: "AuAsyncReply buf d s rs = Some (Inr x, rs') \<Longrightarrow> length rs' \<le> length rs"
  by (auto simp: AuAsyncReply_def Let_def io_bind_Inr split: option.splits if_splits prod.splits dest!: AuEatData_uses recv_uses)

lemma AuAsyncReply_shrinks:
  assumes "AuAsyncReply buf True s rs = Some (Inr (still, buf', s'), rs')"
  shows "length buf' < length buf \<or> buf = []"
proof -
  have scan: "scan_packets b = Some r \<Longrightarrow> r \<le> length b \<and> (b \<noteq> [] \<longrightarrow> 0 < r)" for b r
    by (induction b rule: scan_packets.induct) (subst (asm) (2) scan_packets.simps, auto split: if_splits)
  show ?thesis
    using assms by (auto simp: AuAsyncReply_def Let_def io_bind_Inr split: option.splits if_splits prod.splits dest!: scan recv_length)
qed

section \<open>Reading packets\<close>

function handle_packets :: "bytes \<Rightarrow> au_server \<Rightarrow> io_result list \<Rightarrow> au_server io" where
  "handle_packets buf s rs =
     (if buf = [] then Some (Inr s, rs)
      else if hd buf = Au_Reply then io_bind (AuAsyncReply buf True s rs) (\<lambda>(_, buf, s) rs. handle_packets buf s rs)
      else io_bind (lift_io (take_other (take 32 buf) s) rs) (\<lambda>s rs. handle_packets (drop 32 buf) s rs))"
  by pat_completeness auto
termination by (relation "measure (\<lambda>(buf, _, _). length buf)") (auto dest: AuAsyncReply_shrinks)

declare handle_packets.simps [simp del]

text \<open>
  \<^verbatim>\<open>_AuEventsQueued\<close> and \<^verbatim>\<open>_AuReadEvents\<close> read what is there, at least a packet, at most the buffer, in whole packets. What the
  system says about the bytes that can be read is a function \<open>avail\<close> of those to come.
\<close>

definition read_packets :: "nat \<Rightarrow> au_server \<Rightarrow> io_result list \<Rightarrow> au_server io" where
  "read_packets pend s rs =
     (let len = (if pend < 32 then 32 else if BUFSIZE < pend then BUFSIZE else pend) div 32 * 32 in
      io_bind (recv len s rs) (\<lambda>(buf, s) rs. handle_packets buf s rs))"

definition flush :: "au_server \<Rightarrow> io_result list \<Rightarrow> au_server io" where
  "flush s rs = io_bind (AuFlush (au_out s) rs) (\<lambda>out rs. Some (Inr (s\<lparr>au_out := out\<rparr>), rs))"

definition AuEventsQueued :: "(nat \<Rightarrow> nat) \<Rightarrow> bool \<Rightarrow> au_server \<Rightarrow> io_result list \<Rightarrow> au_server io" where
  "AuEventsQueued avail after_flush s rs =
     io_bind (if after_flush then flush s rs else Some (Inr s, rs)) (\<lambda>s rs.
       if after_flush \<and> au_queue s \<noteq> [] then Some (Inr s, rs)
       else let pend = avail (length (au_unread s)) in if pend = 0 then Some (Inr s, rs) else read_packets pend s rs)"

lemma AuFlush_uses: "AuFlush out rs = Some (Inr out', rs') \<Longrightarrow> length rs' \<le> length rs"
proof -
  have "flush_loop b i sz todo w rs = Some (Inr x, rs') \<Longrightarrow> length rs' \<le> length rs" for b i sz todo w x
    by (induction rs arbitrary: i sz todo w) (auto simp: Let_def intro: le_SucI split: io_result.splits if_splits)
  then show "AuFlush out rs = Some (Inr out', rs') \<Longrightarrow> ?thesis" by (auto simp: AuFlush_def io_bind_Inr)
qed

lemma flush_uses: "flush s rs = Some (Inr s', rs') \<Longrightarrow> length rs' \<le> length rs"
  by (auto simp: flush_def io_bind_Inr dest: AuFlush_uses)

lemma handle_packets_uses: "handle_packets buf s rs = Some (Inr s', rs') \<Longrightarrow> length rs' \<le> length rs"
proof (induction buf s rs rule: handle_packets.induct)
  case (1 buf s rs)
  show ?case
  proof (cases "buf = []")
    case True
    then show ?thesis using 1(3) by (simp add: handle_packets.simps)
  next
    case False
    show ?thesis
    proof (cases "hd buf = Au_Reply")
      case True
      then obtain still buf1 s1 rs1 where "AuAsyncReply buf True s rs = Some (Inr (still, buf1, s1), rs1)" "handle_packets buf1 s1 rs1 = Some (Inr s', rs')"
        using 1(3) False by (subst (asm) handle_packets.simps) (auto simp: io_bind_Inr)
      then show ?thesis using 1(1) [OF False True] AuAsyncReply_uses by fastforce
    next
      case reply: False
      then obtain s1 where "lift_io (take_other (take 32 buf) s) rs = Some (Inr s1, rs)" "handle_packets (drop 32 buf) s1 rs = Some (Inr s', rs')"
        using 1(3) False by (subst (asm) handle_packets.simps) (auto simp: io_bind_Inr lift_io_def)
      then show ?thesis using 1(2) [OF False reply] by fastforce
    qed
  qed
qed

lemma read_packets_uses: "read_packets pend s rs = Some (Inr s', rs') \<Longrightarrow> length rs' < length rs"
proof -
  assume a: "read_packets pend s rs = Some (Inr s', rs')"
  have pos: "0 < (if pend < 32 then 32 else if BUFSIZE < pend then BUFSIZE else pend) div 32 * 32" by auto
  show ?thesis using a pos by (auto simp: read_packets_def Let_def io_bind_Inr dest!: recv_uses handle_packets_uses)
qed

text \<open>The loop of \<^verbatim>\<open>_AuReadEvents\<close>; the output is flushed the first time it would wait.\<close>

function read_events :: "(nat \<Rightarrow> nat) \<Rightarrow> bool \<Rightarrow> au_server \<Rightarrow> io_result list \<Rightarrow> au_server io" where
  "read_events avail not_yet_flushed s rs =
     (let pend = avail (length (au_unread s)); first = (pend < 32 \<and> not_yet_flushed) in
      io_bind (if first then flush s rs else Some (Inr s, rs)) (\<lambda>s rs.
        io_bind (read_packets pend s rs) (\<lambda>s rs.
          if au_queue s = [] then read_events avail (not_yet_flushed \<and> \<not> first) s rs else Some (Inr s, rs))))"
  by pat_completeness auto
termination
  by (relation "measure (\<lambda>(_, _, _, rs). length rs)")
     (auto dest!: read_packets_uses flush_uses simp: Let_def split: if_splits)

declare read_events.simps [simp del]

text \<open>\<^verbatim>\<open>AuNextEvent\<close>: the first event, for which it waits.\<close>

definition next_event :: "(nat \<Rightarrow> nat) \<Rightarrow> bool \<Rightarrow> au_server \<Rightarrow> io_result list \<Rightarrow> (client_event \<times> au_server) io" where
  "next_event avail dequeue s rs =
     io_bind (if au_queue s = [] then read_events avail True s rs else Some (Inr s, rs)) (\<lambda>s rs.
       case list_op (OpNext dequeue) (au_queue s) of
         (Some e, es) \<Rightarrow> Some (Inr (e, s\<lparr>au_queue := es\<rparr>), rs)
       | (None, _) \<Rightarrow> None)"

section \<open>Waiting for a reply\<close>

record reply =
  rp_ok :: bool
  rp_status :: u8
  rp_packet :: bytes
  rp_extra :: bytes

text \<open>
  \<^verbatim>\<open>_AuReply\<close> behind the flush: \<open>cur\<close> is the request it waits for, \<open>asked\<close> says whether the caller passed a place for the status,
  \<open>st\<close> is the status so far. A reply that is shorter than \<open>extra\<close> says ends the program.
\<close>

definition finish_reply :: "nat \<Rightarrow> bool \<Rightarrow> u8 \<Rightarrow> bytes \<Rightarrow> au_server \<Rightarrow> io_result list \<Rightarrow> (reply \<times> au_server) io" where
  "finish_reply extra discard st rep s rs =
     (let n = unat (f32 4 rep) in
      if n < extra then io_bind (recv (4 * n) s rs) (\<lambda>_ rs. Some (Inl (), rs))
      else io_bind (recv (4 * extra) s rs) (\<lambda>(x, s) rs.
        io_bind (if discard \<and> extra < n then AuEatData (unat (push_bit 2 (f32 4 rep - word_of_nat extra))) s rs else Some (Inr s, rs)) (\<lambda>s rs.
          Some (Inr (\<lparr>rp_ok = True, rp_status = st, rp_packet = rep, rp_extra = x\<rparr>, s), rs))))"

text \<open>One packet: \<open>Inl\<close> the status to go on with, or \<open>Inr\<close> the answer.\<close>

definition reply_packet :: "u32 \<Rightarrow> nat \<Rightarrow> bool \<Rightarrow> bool \<Rightarrow> u8 \<Rightarrow> bytes \<Rightarrow> au_server \<Rightarrow> io_result list \<Rightarrow> ((u8 + reply) \<times> au_server) io" where
  "reply_packet cur extra discard asked st rep s rs =
     (if f8 0 rep = Au_Reply then
        io_bind (if f16 2 rep = ucast cur then Some (Inr (True, s\<lparr>au_last_read := cur\<rparr>), rs)
                 else io_bind (AuAsyncReply rep False s rs) (\<lambda>(still, _, s) rs. Some (Inr (still, s), rs)))
          (\<lambda>(still, s) rs.
            if still then io_bind (finish_reply extra discard st rep s rs) (\<lambda>(rp, s) rs. Some (Inr (Inr rp, s), rs))
            else Some (Inr (Inl st, s), rs))
      else if f8 0 rep = Au_Error then
        (case AuSetLastRequestRead (f16 2 rep) s of
           None \<Rightarrow> None
         | Some (serial, s) \<Rightarrow>
             let st = f8 1 rep; failed = \<lparr>rp_ok = False, rp_status = st, rp_packet = rep, rp_extra = []\<rparr> in
             if serial = cur \<and> asked then Some (Inr (Inr failed, s), rs)
             else io_bind (lift_io (AuError rep s) rs) (\<lambda>s rs. Some (Inr (if serial = cur then Inr failed else Inl st, s), rs)))
      else io_bind (lift_io (map_option Inr (enq_packet rep s)) rs) (\<lambda>s rs. Some (Inr (Inl st, s), rs)))"

lemma finish_reply_uses: "finish_reply extra discard st rep s rs = Some (Inr x, rs') \<Longrightarrow> length rs' \<le> length rs"
  by (auto simp: finish_reply_def Let_def io_bind_Inr split: if_splits dest!: AuEatData_uses recv_uses)

lemma reply_packet_uses: "reply_packet cur extra discard asked st rep s rs = Some (Inr x, rs') \<Longrightarrow> length rs' \<le> length rs"
  by (auto simp: reply_packet_def Let_def io_bind_Inr lift_io_def split: if_splits option.splits prod.splits dest!: finish_reply_uses AuAsyncReply_uses)

function reply_loop :: "u32 \<Rightarrow> nat \<Rightarrow> bool \<Rightarrow> bool \<Rightarrow> u8 \<Rightarrow> au_server \<Rightarrow> io_result list \<Rightarrow> (reply \<times> au_server) io" where
  "reply_loop cur extra discard asked st s rs =
     io_bind (recv 32 s rs) (\<lambda>r rs. case r of (rep, s) \<Rightarrow>
       io_bind (reply_packet cur extra discard asked st rep s rs) (\<lambda>r rs. case r of
         (Inl st, s) \<Rightarrow> reply_loop cur extra discard asked st s rs
       | (Inr rp, s) \<Rightarrow> Some (Inr (rp, s), rs)))"
  by pat_completeness auto
termination
  by (relation "measure (\<lambda>(_, _, _, _, _, _, rs). length rs)") (auto dest!: recv_uses reply_packet_uses)

declare reply_loop.simps [simp del]

definition AuReply :: "nat \<Rightarrow> bool \<Rightarrow> bool \<Rightarrow> au_server \<Rightarrow> io_result list \<Rightarrow> (reply \<times> au_server) io" where
  "AuReply extra discard asked s rs =
     (let cur = request (au_out s) in io_bind (flush s rs) (reply_loop cur extra discard asked 0))"

text \<open>\<^verbatim>\<open>_AuGetEmptyReq\<close> of \<^verbatim>\<open>GetCloseDownMode\<close>.\<close>

definition ask_close_down_mode :: "au_server \<Rightarrow> io_result list \<Rightarrow> au_server io" where
  "ask_close_down_mode s rs =
     io_bind (AuGetReq 4 [(0, [Au_GetCloseDownMode]), (2, bytes16 1)] (au_out s) rs) (\<lambda>out rs. Some (Inr (s\<lparr>au_out := out\<rparr>), rs))"

text \<open>\<^verbatim>\<open>_AuForceRoundTrip\<close>: the handler is put in front of the others and taken out again; the results are its verdict and the status.\<close>

definition AuForceRoundTrip :: "u8 \<Rightarrow> u8 \<Rightarrow> u16 \<Rightarrow> au_server \<Rightarrow> io_result list \<Rightarrow> ((bool \<times> u8) \<times> au_server) io" where
  "AuForceRoundTrip error_code majorop minorop s rs =
     (let seq = request (au_out s);
          async = \<lparr>as_min = seq, as_max = seq, as_error_code = error_code, as_major = majorop, as_minor = minorop,
                   as_last_error = 0, as_error_count = 0\<rparr> in
      io_bind (ask_close_down_mode (s\<lparr>au_handlers := async # au_handlers s\<rparr>) rs) (\<lambda>s rs.
        io_bind (AuReply 0 True False s rs) (\<lambda>(_, s) rs.
          case au_handlers s of
            [] \<Rightarrow> None
          | a # hs \<Rightarrow> Some (Inr ((as_error_count a = 0, if 0 <s as_error_count a then as_last_error a else 0), s\<lparr>au_handlers := hs\<rparr>), rs))))"

definition AuSync :: "bool \<Rightarrow> au_server \<Rightarrow> io_result list \<Rightarrow> au_server io" where
  "AuSync discard s rs =
     io_bind (ask_close_down_mode s rs) (\<lambda>s rs.
       io_bind (AuReply 0 True False s rs) (\<lambda>(_, s) rs.
         Some (Inr (if discard then s\<lparr>au_queue := snd (list_op OpDiscard (au_queue s))\<rparr> else s), rs)))"

section \<open>Calls with one result\<close>

text \<open>\<open>yields N m f x\<close>: if \<open>f\<close> returns, it returns \<open>x\<close>; and it returns if there are \<open>m\<close> calls that give all, up to \<open>N\<close> bytes.\<close>

definition yields :: "nat \<Rightarrow> nat \<Rightarrow> (io_result list \<Rightarrow> 'a io) \<Rightarrow> 'a \<Rightarrow> bool" where
  "yields N m f x \<longleftrightarrow>
     (\<forall>rs y rs'. f rs = Some (Inr y, rs') \<longrightarrow> y = x) \<and>
     (\<forall>rs. list_all (gives N) rs \<longrightarrow> m \<le> length rs \<longrightarrow> (\<exists>used rs'. f rs = Some (Inr x, rs') \<and> rs = used @ rs' \<and> length used \<le> m))"

lemma yields_exact: "yields N m f x \<Longrightarrow> f rs = Some (Inr y, rs') \<Longrightarrow> y = x"
  unfolding yields_def by blast

lemma yields_returns:
  "yields N m f x \<Longrightarrow> list_all (gives N) rs \<Longrightarrow> m \<le> length rs \<Longrightarrow> \<exists>used rs'. f rs = Some (Inr x, rs') \<and> rs = used @ rs' \<and> length used \<le> m"
  unfolding yields_def by blast

lemma yields_return [simp]: "yields N m (\<lambda>rs. Some (Inr x, rs)) x"
  by (auto simp: yields_def)

lemma yields_bind:
  assumes f: "yields N m f x" and g: "yields N k (g x) y" and n: "m + k \<le> n"
  shows "yields N n (\<lambda>rs. io_bind (f rs) g) y"
  unfolding yields_def
proof (rule conjI; intro allI impI)
  fix rs z rs'
  assume "io_bind (f rs) g = Some (Inr z, rs')"
  then obtain x' rs1 where 1: "f rs = Some (Inr x', rs1)" "g x' rs1 = Some (Inr z, rs')" by (auto simp: io_bind_Inr)
  then have "x' = x" using yields_exact [OF f] by blast
  with 1(2) show "z = y" using yields_exact [OF g] by blast
next
  fix rs
  assume rs: "list_all (gives N) rs" "n \<le> length rs"
  then obtain used rs1 where 1: "f rs = Some (Inr x, rs1)" "rs = used @ rs1" "length used \<le> m"
    using yields_returns [OF f] n by fastforce
  then have "list_all (gives N) rs1" "k \<le> length rs1" using rs n by auto
  then obtain used2 rs2 where 2: "g x rs1 = Some (Inr y, rs2)" "rs1 = used2 @ rs2" "length used2 \<le> k"
    using yields_returns [OF g] by blast
  with 1 n show "\<exists>used rs'. io_bind (f rs) g = Some (Inr y, rs') \<and> rs = used @ rs' \<and> length used \<le> n"
    by (intro exI [of _ "used @ used2"] exI [of _ rs2]) simp
qed

lemma yields_more: "yields N m f x \<Longrightarrow> m \<le> n \<Longrightarrow> yields N n f x"
  unfolding yields_def by (meson order.trans)

lemma yields_recv:
  assumes "au_unread s = x @ rest" "length x = n" "n \<le> N"
  shows "yields N 1 (recv n s) (x, s\<lparr>au_unread := rest\<rparr>)"
  unfolding yields_def
proof (rule conjI; intro allI impI)
  fix rs y rs'
  assume "recv n s rs = Some (Inr y, rs')"
  then show "y = (x, s\<lparr>au_unread := rest\<rparr>)" using assms by (auto simp: recv_def io_bind_Inr dest: AuRead_exact)
next
  fix rs
  assume rs: "list_all (gives N) rs" "1 \<le> length rs"
  then obtain k rs' where "rs = Moves k # rs'" "N \<le> k" by (cases rs) (auto simp: gives_def split: io_result.splits)
  then show "\<exists>used rs'. recv n s rs = Some (Inr (x, s\<lparr>au_unread := rest\<rparr>), rs') \<and> rs = used @ rs' \<and> length used \<le> 1"
    using assms by (cases "n = 0") (auto simp: recv_def AuRead_def Let_def min_absorb2)
qed

lemma yields_eat:
  "au_unread s = x @ rest \<Longrightarrow> length x = n \<Longrightarrow> 2048 \<le> N \<Longrightarrow> yields N n (AuEatData n s) (s\<lparr>au_unread := rest\<rparr>)"
proof (induction n arbitrary: s x rule: less_induct)
  case (less n)
  show ?case
  proof (cases "n = 0")
    case True
    then have "AuEatData n s = (\<lambda>rs. Some (Inr (s\<lparr>au_unread := rest\<rparr>), rs))" using less.prems by (auto simp: AuEatData.simps fun_eq_iff)
    then show ?thesis by simp
  next
    case False
    define k where "k = min n 2048"
    define s1 where "s1 = s\<lparr>au_unread := drop k x @ rest\<rparr>"
    have k: "0 < k" "k \<le> n" "k \<le> N" using False less.prems(3) by (auto simp: k_def)
    have eat: "AuEatData n s = (\<lambda>rs. io_bind (recv k s rs) (\<lambda>(_, s) rs. AuEatData (n - k) s rs))"
      using False by (auto simp: AuEatData.simps [of n] k_def fun_eq_iff)
    have "au_unread s = take k x @ drop k x @ rest" using less.prems(1) by simp
    then have first: "yields N 1 (recv k s) (take k x, s1)" unfolding s1_def by (rule yields_recv) (use less.prems(2) k in simp_all)
    have "yields N (n - k) (AuEatData (n - k) s1) (s1\<lparr>au_unread := rest\<rparr>)"
      using less.IH [of "n - k" s1 "drop k x"] k less.prems(2,3) by (simp add: s1_def)
    then have rest: "yields N (n - k) ((\<lambda>(_, s) rs. AuEatData (n - k) s rs) (take k x, s1)) (s\<lparr>au_unread := rest\<rparr>)" by (simp add: s1_def)
    show ?thesis unfolding eat by (rule yields_bind [OF first]) (rule rest, use k in simp)
  qed
qed

section \<open>Packets\<close>

text \<open>What the server sends: packets of 32 bytes, replies with as many words behind them as they say.\<close>

definition packet_ok :: "bytes \<Rightarrow> bool" where
  "packet_ok p \<longleftrightarrow> 32 \<le> length p \<and> length p = (if f8 0 p = Au_Reply then 32 + 4 * unat (f32 4 p) else 32) \<and> length p < 2 ^ 31"

text \<open>What a packet read does to the state, a reply nobody waits for included.\<close>

definition take_packet :: "bytes \<Rightarrow> au_server \<Rightarrow> (unit + au_server) option" where
  "take_packet p s =
     (if f8 0 p = Au_Reply then map_option (\<lambda>(_, s). Inr s) (AuSetLastRequestRead (f16 2 p) s) else take_other p s)"

fun take_packets :: "bytes list \<Rightarrow> au_server \<Rightarrow> (unit + au_server) option" where
  "take_packets [] s = Some (Inr s)"
| "take_packets (p # ps) s = (case take_packet p s of Some (Inr s) \<Rightarrow> take_packets ps s | r \<Rightarrow> r)"

definition unread :: "bytes \<Rightarrow> au_server \<Rightarrow> au_server" where
  "unread u s = s\<lparr>au_unread := u\<rparr>"

lemma unread_simps [simp]:
  "au_unread (unread u s) = u" "unread u (unread v s) = unread u s" "unread (au_unread s) s = s"
  "au_out (unread u s) = au_out s" "au_queue (unread u s) = au_queue s" "au_handlers (unread u s) = au_handlers s"
  "au_last_read (unread u s) = au_last_read s" "au_error_handler (unread u s) = au_error_handler s" "au_reported (unread u s) = au_reported s"
  "(unread u s)\<lparr>au_last_read := n\<rparr> = unread u (s\<lparr>au_last_read := n\<rparr>)" "(unread u s)\<lparr>au_queue := es\<rparr> = unread u (s\<lparr>au_queue := es\<rparr>)"
  "(unread u s)\<lparr>au_handlers := hs\<rparr> = unread u (s\<lparr>au_handlers := hs\<rparr>)" "(unread u s)\<lparr>au_reported := er\<rparr> = unread u (s\<lparr>au_reported := er\<rparr>)"
  "(unread u s)\<lparr>au_out := out\<rparr> = unread u (s\<lparr>au_out := out\<rparr>)"
  by (simp_all add: unread_def)

lemma last_read_frame:
  "AuSetLastRequestRead q (unread u s) = map_option (map_prod id (unread u)) (AuSetLastRequestRead q s)"
  by (cases "seq_loop ((au_last_read s AND NOT 0xffff) OR ucast q) (au_last_read s) (request (au_out s))") (simp_all add: AuSetLastRequestRead_def)

lemma take_packet_frame: "take_packet p (unread u s) = map_option (map_sum id (unread u)) (take_packet p s)"
  by (cases "AuSetLastRequestRead (f16 2 p) s")
     (auto simp: take_packet_def take_other_def AuError_def enq_packet_def event_vec_def AuWireToEvent_def Let_def last_read_frame split: option.split)

lemma take_packets_frame: "take_packets ps (unread u s) = map_option (map_sum id (unread u)) (take_packets ps s)"
  by (induction ps arbitrary: s) (auto simp: take_packet_frame split: option.split sum.split)

lemma take_packet_unread: "take_packet p s = Some (Inr s') \<Longrightarrow> au_unread s' = au_unread s"
  using take_packet_frame [of p "au_unread s" s] by simp (metis unread_simps(1))

lemma take_packets_append:
  "take_packets (ps @ qs) s = (case take_packets ps s of Some (Inr s) \<Rightarrow> take_packets qs s | r \<Rightarrow> r)"
  by (induction ps arbitrary: s) (auto split: option.split sum.split)

section \<open>Packets are taken whole\<close>

text \<open>The first \<open>n\<close> bytes of the packets end behind a packet, or behind the first 32 bytes of a reply or later.\<close>

fun aligned :: "nat \<Rightarrow> bytes list \<Rightarrow> bool" where
  "aligned n [] \<longleftrightarrow> n = 0"
| "aligned n (p # ps) \<longleftrightarrow> n = 0 \<or> 32 \<le> n \<and> (f8 0 p = Au_Reply \<or> aligned (n - 32) ps)"

lemma aligned_0 [simp]: "aligned 0 ps"
  by (cases ps) auto

lemma aligned_whole: "32 dvd n \<Longrightarrow> n \<le> length (concat ps) \<Longrightarrow> list_all packet_ok ps \<Longrightarrow> aligned n ps"
proof (induction ps arbitrary: n)
  case (Cons p ps)
  show ?case
  proof (cases "n = 0 \<or> f8 0 p = Au_Reply")
    case False
    then have "length p = 32" "32 \<le> n" using Cons.prems by (auto simp: packet_ok_def dvd_imp_le)
    then show ?thesis using Cons.IH [of "n - 32"] Cons.prems by (auto intro: dvd_diff_nat)
  qed (use Cons.prems in \<open>auto simp: dvd_imp_le\<close>)
qed simp

lemma packet_start:
  assumes "p @ x = buf @ y" "32 \<le> length p" "32 \<le> length buf"
  shows "take 32 buf = take 32 p" "k < 32 \<Longrightarrow> f8 k buf = f8 k p" "k < 31 \<Longrightarrow> f16 k buf = f16 k p" "k < 29 \<Longrightarrow> f32 k buf = f32 k p"
proof -
  show start: "take 32 buf = take 32 p" using arg_cong [OF assms(1), of "take 32"] assms(2,3) by simp
  have nth: "buf ! k = p ! k" if "k < 32" for k using arg_cong [OF start, of "\<lambda>x. x ! k"] that by simp
  then show "k < 32 \<Longrightarrow> f8 k buf = f8 k p" "k < 31 \<Longrightarrow> f16 k buf = f16 k p" "k < 29 \<Longrightarrow> f32 k buf = f32 k p"
    by (auto simp: f8_def f16_def f32_def)
qed

lemma scan_packets_aligned:
  assumes "concat ps = buf @ y" "list_all packet_ok ps"
  shows "case scan_packets buf of
           None \<Rightarrow> aligned (length buf) ps
         | Some r \<Rightarrow> if 0 < r \<and> r < 32 then 32 - r \<le> length y \<and> aligned (length buf + (32 - r)) ps else aligned (length buf) ps"
  using assms
proof (induction buf arbitrary: ps rule: scan_packets.induct)
  case (1 buf)
  show ?case
  proof (cases "buf = []")
    case True
    then show ?thesis by (simp add: scan_packets.simps)
  next
    case False
    then obtain p ps' where ps: "ps = p # ps'" using 1(2) by (cases ps) auto
    then have p: "packet_ok p" "concat (p # ps') = buf @ y" "list_all packet_ok ps'" using 1(2,3) by simp_all
    have long: "32 \<le> length p" using p(1) by (auto simp: packet_ok_def)
    show ?thesis
    proof (cases "32 < length buf")
      case True
      have hd: "hd buf = f8 0 p" using packet_start(2) [of p "concat ps'" buf y 0] p(2) long True False by (simp add: f8_def hd_conv_nth)
      show ?thesis
      proof (cases "f8 0 p = Au_Reply")
        case True
        with \<open>32 < length buf\<close> hd ps show ?thesis by (simp add: scan_packets.simps)
      next
        case other: False
        then have "length p = 32" using p(1) by (simp add: packet_ok_def)
        then have "concat ps' = drop 32 buf @ y" using arg_cong [OF p(2), of "drop 32"] True by simp
        with True other hd show ?thesis
          using 1(1) [OF True _ _ p(3)] ps by (subst scan_packets.simps) (auto split: option.splits if_splits)
      qed
    next
      case short: False
      then have "scan_packets buf = Some (length buf)" by (simp add: scan_packets.simps)
      moreover have "32 - length buf \<le> length y" using arg_cong [OF p(2), of length] long short by simp
      ultimately show ?thesis using ps short by (cases "length buf < 32") auto
    qed
  qed
qed

lemma reply_unhandled: "f8 0 p = Au_Reply \<Longrightarrow> run_handlers n p hs = None"
  by (induction hs) (simp_all add: AuAsyncErrorHandler_def)

lemma reply_length:
  assumes "packet_ok p" "f8 0 p = Au_Reply" shows "sint (32 + push_bit 2 (f32 4 p)) = int (length p)"
proof -
  have len: "32 + 4 * unat (f32 4 p) = length p" "length p < 2 ^ 31" using assms by (simp_all add: packet_ok_def)
  have "32 + push_bit 2 (f32 4 p) = (word_of_nat (length p) :: u32)"
    by (simp add: len(1) [symmetric] push_bit_eq_mult)
  moreover have "sint (word_of_nat (length p) :: u32) = int (length p)"
    using len(2) signed_of_nat [of "length p", where ?'a = int and ?'b = 32] by (simp add: signed_take_bit_int_eq_self)
  ultimately show ?thesis by simp
qed

lemma last_read_unread: "AuSetLastRequestRead q s = Some (n, s') \<Longrightarrow> au_unread s' = au_unread s \<and> au_last_read s' = n \<and> s' = s\<lparr>au_last_read := n\<rparr>"
  by (auto simp: AuSetLastRequestRead_def bind_eq_Some_conv)

lemma async_reply_yields:
  assumes "concat (p # ps) = buf @ au_unread s" "list_all packet_ok (p # ps)" "f8 0 p = Au_Reply" "32 \<le> length buf"
    and "AuSetLastRequestRead (f16 2 p) s = Some (n, s1)" "2048 \<le> N"
  obtains buf2 s2 where "yields N (length p) (AuAsyncReply buf True s) (False, buf2, s2)"
    "concat ps = buf2 @ au_unread s2" "aligned (length buf2) ps" "s1 = unread (au_unread s) s2"
proof -
  have p: "packet_ok p" "32 \<le> length p" using assms(2) by (auto simp: packet_ok_def)
  have same: "f8 0 buf = Au_Reply" "f16 2 buf = f16 2 p" "f32 4 buf = f32 4 p"
    using packet_start [of p "concat ps" buf "au_unread s"] assms(1,3,4) p(2) by simp_all
  have len: "sint (32 + push_bit 2 (f32 4 buf)) = int (length p)" using reply_length [OF p(1) assms(3)] same by simp
  have s1: "s1 = s\<lparr>au_last_read := n\<rparr>" using last_read_unread [OF assms(5)] by simp
  have eq: "AuAsyncReply buf True s = (\<lambda>rs.
      io_bind (if length buf < length p then AuEatData (length p - length buf) s1 rs else Some (Inr s1, rs)) (\<lambda>s rs.
        if length buf \<le> length p then Some (Inr (False, [], s), rs)
        else case scan_packets (drop (length p) buf) of
            None \<Rightarrow> Some (Inr (False, drop (length p) buf, s), rs)
          | Some r \<Rightarrow>
              if 0 < r \<and> r < 32 then io_bind (recv (32 - r) s rs) (\<lambda>(x, s) rs. Some (Inr (False, drop (length p) buf @ x, s), rs))
              else Some (Inr (False, drop (length p) buf, s), rs)))"
    using p(2) by (simp add: AuAsyncReply_def same(2) assms(5) reply_unhandled [OF same(1)] len Let_def fun_eq_iff nat_diff_distrib)
  show ?thesis
  proof (cases "length buf \<le> length p")
    case True
    have u: "au_unread s1 = drop (length buf) p @ concat ps" using arg_cong [OF assms(1), of "drop (length buf)"] True s1 by simp
    then have "yields N (length p - length buf) (AuEatData (length p - length buf) s1) (unread (concat ps) s1)"
      unfolding unread_def by (rule yields_eat) (use assms(6) in simp_all)
    then have "yields N (length p) (\<lambda>rs. io_bind (AuEatData (length p - length buf) s1 rs) (\<lambda>s rs. Some (Inr (False, [], s), rs)))
        (False, [], unread (concat ps) s1)"
      by (rule yields_bind [where k = 0]) simp_all
    moreover have "AuAsyncReply buf True s = (\<lambda>rs. io_bind (AuEatData (length p - length buf) s1 rs) (\<lambda>s rs. Some (Inr (False, [], s), rs)))"
      using True by (auto simp: eq AuEatData.simps [of 0])
    ultimately show ?thesis using that [of "[]" "unread (concat ps) s1"] s1 by simp
  next
    case False
    let ?b = "drop (length p) buf"
    have ps: "concat ps = ?b @ au_unread s" using arg_cong [OF assms(1), of "drop (length p)"] False by simp
    note scan = scan_packets_aligned [OF ps] assms(2)
    show ?thesis
    proof (cases "\<exists>r. scan_packets ?b = Some r \<and> 0 < r \<and> r < 32")
      case True
      then obtain r where r: "scan_packets ?b = Some r" "0 < r" "r < 32" by blast
      define x where "x = take (32 - r) (au_unread s)"
      have fill: "length x = 32 - r" "aligned (length (?b @ x)) ps" using scan r by (auto simp: x_def)
      have "yields N 1 (recv (32 - r) s1) (x, unread (drop (32 - r) (au_unread s)) s1)"
        unfolding unread_def by (rule yields_recv) (use fill s1 assms(6) in \<open>auto simp: x_def\<close>)
      then have "yields N (length p) (\<lambda>rs. io_bind (recv (32 - r) s1 rs) (\<lambda>(x, s) rs. Some (Inr (False, ?b @ x, s), rs)))
          (False, ?b @ x, unread (drop (32 - r) (au_unread s)) s1)"
        by (rule yields_bind [where k = 0]) (use p(2) in simp_all)
      then show ?thesis
        using that [of "?b @ x" "unread (drop (32 - r) (au_unread s)) s1"] False r fill ps s1 by (simp add: eq x_def add.commute)
    next
      case full: False
      then have "AuAsyncReply buf True s = (\<lambda>rs. Some (Inr (False, ?b, s1), rs))"
        using False by (auto simp: eq fun_eq_iff split: option.splits)
      moreover have "aligned (length ?b) ps" using scan full by (auto split: option.splits)
      ultimately show ?thesis using that [of ?b s1] ps s1 by simp
    qed
  qed
qed

lemma take_packets_Cons: "take_packets (p # ps) s = Some (Inr t) \<longleftrightarrow> (\<exists>s1. take_packet p s = Some (Inr s1) \<and> take_packets ps s1 = Some (Inr t))"
  by (auto split: option.split sum.split)

lemma packet_ok_length: "packet_ok p \<Longrightarrow> 32 \<le> length p"
  by (simp add: packet_ok_def)

lemma handle_packets_yields:
  assumes "concat ps = buf @ au_unread s" "list_all packet_ok ps" "aligned (length buf) ps" "take_packets ps s = Some (Inr t)" "2048 \<le> N"
  shows "\<exists>k s'. k \<le> length ps \<and> (buf \<noteq> [] \<longrightarrow> 0 < k) \<and> yields N (length (concat ps)) (handle_packets buf s) s' \<and>
           au_unread s' = concat (drop k ps) \<and> take_packets (take k ps) s = Some (Inr (unread (au_unread s) s'))"
  using assms(1-4)
proof (induction ps arbitrary: buf s t)
  case Nil
  then have "handle_packets buf s = (\<lambda>rs. Some (Inr s, rs))" "buf = []" by (auto simp: handle_packets.simps)
  then show ?case using Nil by (intro exI [of _ 0] exI [of _ s]) simp
next
  case (Cons p ps)
  show ?case
  proof (cases "buf = []")
    case True
    then have "handle_packets buf s = (\<lambda>rs. Some (Inr s, rs))" by (auto simp: handle_packets.simps)
    then show ?thesis using Cons.prems(1) True by (intro exI [of _ 0] exI [of _ s]) simp
  next
    case False
    then have long: "32 \<le> length buf" "32 \<le> length p" "list_all packet_ok ps" using Cons.prems(2,3) False packet_ok_length [of p] by auto
    have start: "take 32 buf = take 32 p" "hd buf = f8 0 p"
      using packet_start [of p "concat ps" buf "au_unread s"] Cons.prems(1) long False by (simp_all add: f8_def hd_conv_nth)
    obtain s1 where s1: "take_packet p s = Some (Inr s1)" "take_packets ps s1 = Some (Inr t)"
      using Cons.prems(4) by (auto simp: take_packets_Cons simp del: take_packets.simps)
    have continue: "\<exists>k s'. k \<le> length (p # ps) \<and> 0 < k \<and> yields N (length (concat (p # ps))) (handle_packets buf s) s' \<and>
        au_unread s' = concat (drop k (p # ps)) \<and> take_packets (take k (p # ps)) s = Some (Inr (unread (au_unread s) s'))"
      if after: "concat ps = buf2 @ au_unread s2" "aligned (length buf2) ps" "s1 = unread (au_unread s) s2"
        and step: "\<And>s'. yields N (length (concat ps)) (handle_packets buf2 s2) s' \<Longrightarrow> yields N (length (concat (p # ps))) (handle_packets buf s) s'"
      for buf2 s2
    proof -
      have "take_packets ps s2 = Some (Inr (unread (au_unread s2) t))"
        using s1(2) take_packets_frame [of ps "au_unread s2" s1] after(3) by simp
      then obtain k s' where k: "k \<le> length ps" "yields N (length (concat ps)) (handle_packets buf2 s2) s'"
          "au_unread s' = concat (drop k ps)" "take_packets (take k ps) s2 = Some (Inr (unread (au_unread s2) s'))"
        using Cons.IH [OF after(1) long(3) after(2)] by blast
      moreover have "take_packets (take k ps) s1 = Some (Inr (unread (au_unread s) s'))"
        using k(4) take_packets_frame [of "take k ps" "au_unread s" s2] after(3) by simp
      ultimately show ?thesis using step s1(1) by (intro exI [of _ "Suc k"] exI [of _ s']) simp
    qed
    show ?thesis
    proof (cases "f8 0 p = Au_Reply")
      case True
      then obtain n where n: "AuSetLastRequestRead (f16 2 p) s = Some (n, s1)" using s1(1) by (auto simp: take_packet_def)
      obtain buf2 s2 where a: "yields N (length p) (AuAsyncReply buf True s) (False, buf2, s2)"
          "concat ps = buf2 @ au_unread s2" "aligned (length buf2) ps" "s1 = unread (au_unread s) s2"
        using async_reply_yields [OF Cons.prems(1,2) True long(1) n assms(5)] by metis
      have eq: "handle_packets buf s = (\<lambda>rs. io_bind (AuAsyncReply buf True s rs) (\<lambda>(_, buf, s) rs. handle_packets buf s rs))"
        using True start False by (simp add: handle_packets.simps [of buf] fun_eq_iff)
      have "yields N (length (concat (p # ps))) (handle_packets buf s) s'" if "yields N (length (concat ps)) (handle_packets buf2 s2) s'" for s'
        unfolding eq
        by (rule yields_bind [OF a(1), where k = "length (concat ps)"]) (use that in simp_all)
      then show ?thesis using continue [OF a(2-4)] by blast
    next
      case other: False
      then have p: "length p = 32" "take 32 buf = p" using Cons.prems(2) start(1) by (auto simp: packet_ok_def)
      have unread: "au_unread s1 = au_unread s" by (rule take_packet_unread [OF s1(1)])
      have "handle_packets buf s = handle_packets (drop 32 buf) s1"
        using other start s1(1) p(2) False
        by (auto simp: handle_packets.simps [of buf] fun_eq_iff lift_io_def take_packet_def)
      then have step: "yields N (length (concat (p # ps))) (handle_packets buf s) s'"
        if "yields N (length (concat ps)) (handle_packets (drop 32 buf) s1) s'" for s'
        using yields_more [OF that] by simp
      have "concat ps = drop 32 buf @ au_unread s1" using arg_cong [OF Cons.prems(1), of "drop 32"] p(1) long(1) unread by simp
      moreover have "aligned (length (drop 32 buf)) ps" using Cons.prems(3) other False by simp
      moreover have "s1 = unread (au_unread s) s1" using unread by (metis unread_simps(3))
      ultimately show ?thesis using continue [OF _ _ _ step] by blast
    qed
  qed
qed

lemma read_packets_yields:
  assumes "au_unread s = concat ps" "list_all packet_ok ps" "take_packets ps s = Some (Inr t)" "pend \<le> length (concat ps)" "ps \<noteq> []" "2048 \<le> N"
  obtains k s' where "k \<le> length ps" "0 < k" "yields N (Suc (length (concat ps))) (read_packets pend s) s'"
    "au_unread s' = concat (drop k ps)" "take_packets (take k ps) s = Some (Inr (unread (au_unread s) s'))"
proof -
  define len where "len = (if pend < 32 then 32 else if BUFSIZE < pend then BUFSIZE else pend) div 32 * 32"
  have "32 \<le> length (concat ps)" using assms(2,5) by (cases ps) (auto simp: packet_ok_def)
  then have len: "32 dvd len" "0 < len" "len \<le> length (concat ps)" "len \<le> N" using assms(4,6) by (auto simp: len_def)
  define buf where "buf = take len (concat ps)"
  define s1 where "s1 = unread (drop len (concat ps)) s"
  have buf: "length buf = len" "concat ps = buf @ au_unread s1" using len by (auto simp: buf_def s1_def)
  have first: "yields N 1 (recv len s) (buf, s1)"
    unfolding s1_def unread_def by (rule yields_recv) (use assms(1) len in \<open>simp_all add: buf_def\<close>)
  have "take_packets ps s1 = Some (Inr (unread (drop len (concat ps)) t))" using assms(3) by (simp add: s1_def take_packets_frame)
  then obtain k s' where k: "k \<le> length ps" "0 < k" "yields N (length (concat ps)) (handle_packets buf s1) s'"
      "au_unread s' = concat (drop k ps)" "take_packets (take k ps) s1 = Some (Inr (unread (au_unread s1) s'))"
    using handle_packets_yields [OF buf(2) assms(2) aligned_whole [OF _ _ assms(2)] _ assms(6)] len buf by auto
  have eq: "read_packets pend s = (\<lambda>rs. io_bind (recv len s rs) (\<lambda>(buf, s) rs. handle_packets buf s rs))"
    by (simp add: read_packets_def len_def Let_def fun_eq_iff)
  have "yields N (Suc (length (concat ps))) (read_packets pend s) s'" unfolding eq
    by (rule yields_bind [OF first, where k = "length (concat ps)"]) (use k(3) in simp_all)
  moreover have "take_packets (take k ps) s = Some (Inr (unread (au_unread s) s'))"
    using k(5) take_packets_frame [of "take k ps" "au_unread s" s1] by (simp add: s1_def)
  ultimately show ?thesis using that k by blast
qed

definition demo_server :: au_server where
  "demo_server = \<lparr>au_out = fresh_out, au_unread = [], au_queue = [], au_last_read = 0, au_handlers = [], au_error_handler = False, au_reported = []\<rparr>"

lemma AuEventsQueued_plain:
  "avail (length (au_unread s)) \<noteq> 0 \<Longrightarrow> AuEventsQueued avail False s = read_packets (avail (length (au_unread s))) s"
  by (simp add: AuEventsQueued_def fun_eq_iff Let_def)


section \<open>Sequence numbers\<close>

text \<open>A packet's sequence number replaces the lower half of the one read last.\<close>

lemma word_bounds: "unat (v :: u32) < 4294967296" "unat (q :: u16) < 65536"
  using unsigned_less [of v, where 'a = nat] unsigned_less [of q, where 'a = nat] by simp_all

lemma low_half: "unat (v AND 0xffff :: u32) = unat v mod 65536"
proof -
  have "v AND 0xffff = take_bit 16 v" by (simp only: take_bit_eq_mask) (simp add: mask_eq_exp_minus_1)
  moreover have "unat (take_bit 16 v) = take_bit 16 (unat v)" by (rule unsigned_take_bit_eq)
  ultimately show ?thesis by (simp only: take_bit_eq_mod) simp
qed

lemma seq_start: "unat ((v AND NOT 0xffff) OR ucast q :: u32) = unat v div 65536 * 65536 + unat (q :: u16)"
proof -
  let ?m = "mask 16 :: u32"
  have m: "0xffff = ?m" by (simp add: mask_eq_exp_minus_1)
  have "(v AND NOT ?m) AND (v AND ?m) = 0" "(v AND NOT ?m) OR (v AND ?m) = v" by (rule bit_word_eqI; auto simp: bit_simps)+
  then have "(v AND NOT ?m) + (v AND ?m) = v" using word_plus_and_or [of "v AND NOT ?m" "v AND ?m"] by simp
  then have "v AND NOT ?m = v - (v AND ?m)" by (simp add: eq_diff_eq)
  moreover have "v AND ?m \<le> v" using low_half [of v] m by (simp add: word_le_nat_alt)
  ultimately have high: "unat (v AND NOT ?m) = unat v div 65536 * 65536"
    using low_half [of v] m by (simp add: unat_sub minus_mod_eq_div_mult)
  have "(v AND NOT ?m) AND ucast q = 0" by (rule bit_word_eqI) (auto simp: bit_simps dest: bit_imp_le_length)
  then have "(v AND NOT ?m) OR ucast q = (v AND NOT ?m) + ucast q" using word_plus_and_or [of "v AND NOT ?m" "ucast q"] by simp
  moreover have "unat v div 65536 * 65536 + unat q < 2 ^ 32"
  proof -
    have "unat v div 65536 < 65536" using word_bounds(1) [of v] by (simp add: less_mult_imp_div_less)
    moreover have "unat q < 65536" using word_bounds(2) [of q] by simp
    ultimately show ?thesis by (simp add: less_mult_imp_div_less)
  qed
  ultimately show ?thesis using high m by (simp add: unat_word_ariths unsigned_ucast_eq take_bit_eq_mod)
qed



lemma seq_loop_low: "seq_loop a l r = Some n \<Longrightarrow> (ucast n :: u16) = ucast a"
proof (rule seq_loop.raw_induct [where P = "\<lambda>a l r n. (ucast n :: u16) = ucast a"])
  fix f and a l r n :: u32
  assume a: "\<And>a l r n. f a l r = Some n \<Longrightarrow> (ucast n :: u16) = ucast a"
    "(if a < l then let n = a + 0x10000 in if r < n then Some (n - 0x10000) else f n l r else Some a) = Some n"
  have "(ucast (a + 0x10000) :: u16) = ucast a"
    by (simp add: word_unat_eq_iff unsigned_ucast_eq take_bit_eq_mod unat_word_ariths mod_mod_cancel)
  then show "(ucast n :: u16) = ucast a" using a(2) by (auto simp: Let_def split: if_splits dest!: a(1))
qed

lemma last_read_again:
  assumes "AuSetLastRequestRead q s = Some (n, s1)"
  shows "ucast n = q" "AuSetLastRequestRead q s1 = Some (n, s1)"
proof -
  have n: "seq_loop ((au_last_read s AND NOT 0xffff) OR ucast q) (au_last_read s) (request (au_out s)) = Some n" and s1: "s1 = s\<lparr>au_last_read := n\<rparr>"
    using assms by (auto simp: AuSetLastRequestRead_def bind_eq_Some_conv)
  have low: "(ucast ((v AND NOT 0xffff) OR ucast q :: u32) :: u16) = q" for v
    unfolding word_unat_eq_iff unsigned_ucast_eq take_bit_eq_mod seq_start using word_bounds(2) [of q] by simp
  show q: "ucast n = q" using seq_loop_low [OF n] low by simp
  have "unat (ucast n :: u16) = unat n mod 65536" by (simp add: unsigned_ucast_eq take_bit_eq_mod)
  then have "unat ((n AND NOT 0xffff) OR ucast q :: u32) = unat n" using q by (simp only: seq_start) simp
  then have "(n AND NOT 0xffff) OR ucast q = n" by (simp add: word_unat_eq_iff)
  then show "AuSetLastRequestRead q s1 = Some (n, s1)" by (simp add: AuSetLastRequestRead_def s1 seq_loop.simps [of n])
qed

section \<open>The answer to a request\<close>

definition flushed :: "au_server \<Rightarrow> au_server" where
  "flushed s = s\<lparr>au_out := (au_out s)\<lparr>bufptr := 0, wire := stream (au_out s)\<rparr>\<rparr>"

lemma AuFlush_yields:
  assumes "out_ok out" "2048 \<le> N" shows "yields N 1 (AuFlush out) (out\<lparr>bufptr := 0, wire := stream out\<rparr>)"
  unfolding yields_def
proof (rule conjI; intro allI impI)
  fix rs y rs'
  assume out: "AuFlush out rs = Some (Inr y, rs')"
  have "stream y = stream out" "bufptr y = 0" using AuFlush_stream [OF out assms(1)] by simp_all
  moreover have "y = out\<lparr>bufptr := 0, wire := wire y\<rparr>" using out by (auto simp: AuFlush_def io_bind_Inr)
  ultimately show "y = out\<lparr>bufptr := 0, wire := stream out\<rparr>" by (simp add: stream_def)
next
  fix rs
  assume rs: "list_all (gives N) rs" "1 \<le> length rs"
  then obtain k rs' where k: "rs = Moves k # rs'" "N \<le> k" by (cases rs) (auto simp: gives_def split: io_result.splits)
  have "bufptr out \<le> k" using assms k(2) by (simp add: out_ok_def)
  moreover have "flush_loop b i 0 0 w rs' = Some (Inr w, rs')" for b i w by (cases rs') simp_all
  ultimately show "\<exists>used rs'. AuFlush out rs = Some (Inr (out\<lparr>bufptr := 0, wire := stream out\<rparr>), rs') \<and> rs = used @ rs' \<and> length used \<le> 1"
    using k(1) by (auto simp: AuFlush_def stream_def min_absorb2)
qed

lemma flush_yields:
  assumes "out_ok (au_out s)" "2048 \<le> N" shows "yields N 1 (flush s) (flushed s)"
proof -
  have "flush s = (\<lambda>rs. io_bind (AuFlush (au_out s) rs) (\<lambda>out rs. Some (Inr (s\<lparr>au_out := out\<rparr>), rs)))"
    by (simp add: flush_def fun_eq_iff)
  then show ?thesis
    by (simp only:) (rule yields_bind [OF AuFlush_yields [OF assms], where k = 0], simp_all add: flushed_def)
qed

text \<open>Packets that do not end the wait for the answer to \<open>cur\<close>, and the code of the last error among packets.\<close>

definition not_ours :: "u32 \<Rightarrow> bytes \<Rightarrow> bool" where
  "not_ours cur p \<longleftrightarrow> f8 0 p \<noteq> Au_Reply \<and> (f8 0 p = Au_Error \<longrightarrow> f16 2 p \<noteq> ucast cur)"

definition last_error :: "u8 \<Rightarrow> bytes list \<Rightarrow> u8" where
  "last_error st ps = fold (\<lambda>p st. if f8 0 p = Au_Error then f8 1 p else st) ps st"

lemma AuError_again: "AuSetLastRequestRead (f16 2 p) s = Some (n, s1) \<Longrightarrow> AuError p s1 = AuError p s"
  using last_read_again(2) [of "f16 2 p" s n s1] by (simp add: AuError_def)

lemma last_error_Cons [simp]: "last_error st [] = st" "last_error st (p # ps) = last_error (if f8 0 p = Au_Error then f8 1 p else st) ps"
  unfolding last_error_def by simp_all

text \<open>Such a packet is taken as any other; an error is remembered as the status.\<close>

lemma reply_packet_skips:
  assumes "not_ours cur p" "take_packet p s = Some (Inr s1)"
  shows "reply_packet cur extra discard asked st p s rs = Some (Inr (Inl (if f8 0 p = Au_Error then f8 1 p else st), s1), rs)"
proof (cases "f8 0 p = Au_Error")
  case True
  then obtain n s0 where n: "AuSetLastRequestRead (f16 2 p) s = Some (n, s0)" "AuError p s = Some (Inr s1)"
    using assms by (auto simp: take_packet_def take_other_def AuError_def bind_eq_Some_conv)
  then have "n \<noteq> cur" using last_read_again(1) [OF n(1)] assms(1) True by (auto simp: not_ours_def)
  then show ?thesis using True n AuError_again [OF n(1)] by (simp add: reply_packet_def lift_io_def Let_def)
next
  case False
  then show ?thesis using assms by (auto simp: reply_packet_def not_ours_def take_packet_def take_other_def lift_io_def)
qed

lemma reply_loop_yields:
  assumes "au_unread s = rep @ rest" "length rep = 32" "yields N m (reply_packet cur extra discard asked st rep (unread rest s)) r"
    "yields N k ((\<lambda>r rs. case r of (Inl st, s) \<Rightarrow> reply_loop cur extra discard asked st s rs | (Inr rp, s) \<Rightarrow> Some (Inr (rp, s), rs)) r) y"
    "Suc (m + k) \<le> n" "2048 \<le> N"
  shows "yields N n (reply_loop cur extra discard asked st s) y"
proof -
  have first: "yields N 1 (recv 32 s) (rep, unread rest s)"
    unfolding unread_def by (rule yields_recv) (use assms(1,2,6) in simp_all)
  have "reply_loop cur extra discard asked st s = (\<lambda>rs. io_bind (recv 32 s rs) (\<lambda>r rs. case r of (rep, s) \<Rightarrow>
      io_bind (reply_packet cur extra discard asked st rep s rs) (\<lambda>r rs. case r of
        (Inl st, s) \<Rightarrow> reply_loop cur extra discard asked st s rs | (Inr rp, s) \<Rightarrow> Some (Inr (rp, s), rs))))"
    by (rule ext) (rule reply_loop.simps)
  moreover have "yields N (m + k) (\<lambda>rs. io_bind (reply_packet cur extra discard asked st rep (unread rest s) rs) (\<lambda>r rs. case r of
        (Inl st, s) \<Rightarrow> reply_loop cur extra discard asked st s rs | (Inr rp, s) \<Rightarrow> Some (Inr (rp, s), rs))) y"
    by (rule yields_bind [OF assms(3)]) (rule assms(4), simp)
  ultimately show ?thesis
    by (simp only:) (rule yields_bind [OF first, where k = "m + k"], simp only: prod.case, use assms(5) in simp)
qed

lemma reply_loop_skips:
  assumes "au_unread s = concat ps @ rest" "list_all packet_ok ps" "list_all (not_ours cur) ps" "take_packets ps s = Some (Inr t)"
    and "yields N m (reply_loop cur extra discard asked (last_error st ps) (unread rest t)) y" "2048 \<le> N"
  shows "yields N (m + length ps) (reply_loop cur extra discard asked st s) y"
  using assms(1-5)
proof (induction ps arbitrary: s st t)
  case Nil
  then have "unread rest t = s" by (simp add: unread_def)
  with Nil show ?case by simp
next
  case (Cons p ps)
  have p: "length p = 32" "not_ours cur p" "list_all packet_ok ps" "list_all (not_ours cur) ps"
    using Cons.prems(2,3) by (simp_all add: packet_ok_def [of p] not_ours_def [of _ p])
  obtain s1 where s1: "take_packet p s = Some (Inr s1)" "take_packets ps s1 = Some (Inr t)"
    using Cons.prems(4) by (auto simp: take_packets_Cons simp del: take_packets.simps)
  let ?u = "concat ps @ rest" and ?st = "if f8 0 p = Au_Error then f8 1 p else st"
  have "yields N (m + length ps) (reply_loop cur extra discard asked ?st (unread ?u s1)) y"
  proof (rule Cons.IH)
    show "take_packets ps (unread ?u s1) = Some (Inr (unread ?u t))" using s1(2) by (simp add: take_packets_frame)
    show "yields N m (reply_loop cur extra discard asked (last_error ?st ps) (unread rest (unread ?u t))) y"
      using Cons.prems(5) by simp
  qed (use p in simp_all)
  moreover have "take_packet p (unread ?u s) = Some (Inr (unread ?u s1))" using s1(1) by (simp add: take_packet_frame)
  then have "reply_packet cur extra discard asked st p (unread ?u s) = (\<lambda>rs. Some (Inr (Inl ?st, unread ?u s1), rs))"
    using reply_packet_skips [OF p(2)] by (simp add: fun_eq_iff)
  ultimately show ?case
    using Cons.prems(1) p(1) assms(6)
    by (intro reply_loop_yields [of s p ?u N 0 cur extra discard asked st "(Inl ?st, unread ?u s1)" "m + length ps"]) simp_all
qed

text \<open>The answer itself: a reply of 32 bytes, then its data, of which the caller takes \<open>extra\<close> words and may discard the rest.\<close>

definition answer_ok :: "u32 \<Rightarrow> nat \<Rightarrow> bytes \<Rightarrow> bytes \<Rightarrow> bool" where
  "answer_ok cur extra rep d \<longleftrightarrow> length rep = 32 \<and> f8 0 rep = Au_Reply \<and> f16 2 rep = ucast cur \<and> length d = 4 * unat (f32 4 rep) \<and>
     length d < 2 ^ 31 \<and> extra \<le> unat (f32 4 rep)"

lemma words_unat: "k < 2 ^ 30 \<Longrightarrow> unat (push_bit 2 (word_of_nat k :: u32)) = 4 * k"
  by (simp add: push_bit_eq_mult unat_word_ariths unat_of_nat)

lemma finish_reply_yields:
  assumes "au_unread s = d @ rest" "answer_ok cur extra rep d" "2048 \<le> N" "4 * extra \<le> N"
  shows "yields N (Suc (length d)) (finish_reply extra discard st rep s)
    (\<lparr>rp_ok = True, rp_status = st, rp_packet = rep, rp_extra = take (4 * extra) d\<rparr>,
     unread (if discard then rest else drop (4 * extra) d @ rest) s)"
proof -
  let ?n = "unat (f32 4 rep)" and ?rp = "\<lparr>rp_ok = True, rp_status = st, rp_packet = rep, rp_extra = take (4 * extra) d\<rparr>"
  let ?s1 = "unread (drop (4 * extra) d @ rest) s"
  have d: "length d = 4 * ?n" "4 * ?n < 2 ^ 31" "extra \<le> ?n" using assms(2) by (auto simp: answer_ok_def)
  have sub: "(f32 4 rep - word_of_nat extra :: u32) = word_of_nat (?n - extra)" using d(3) by (simp add: of_nat_diff)
  have eat: "unat (push_bit 2 (f32 4 rep - word_of_nat extra)) = 4 * (?n - extra)"
    unfolding sub using words_unat [of "?n - extra"] d by simp
  have first: "yields N 1 (recv (4 * extra) s) (take (4 * extra) d, ?s1)"
    unfolding unread_def by (rule yields_recv) (use assms(1,4) d in simp_all)
  have rest: "yields N (length d) (\<lambda>rs. if discard \<and> extra < ?n then AuEatData (unat (push_bit 2 (f32 4 rep - word_of_nat extra))) ?s1 rs else Some (Inr ?s1, rs))
      (unread (if discard then rest else drop (4 * extra) d @ rest) s)"
  proof (cases "discard \<and> extra < ?n")
    case True
    have "yields N (4 * (?n - extra)) (AuEatData (4 * (?n - extra)) ?s1) (unread rest ?s1)"
      unfolding unread_def by (rule yields_eat) (use d assms(3) in auto)
    then show ?thesis using True d by (simp only: eat) (auto intro: yields_more)
  next
    case False
    then show ?thesis using d by auto
  qed
  have "finish_reply extra discard st rep s = (\<lambda>rs. io_bind (recv (4 * extra) s rs) (\<lambda>(x, s) rs.
        io_bind (if discard \<and> extra < ?n then AuEatData (unat (push_bit 2 (f32 4 rep - word_of_nat extra))) s rs else Some (Inr s, rs)) (\<lambda>s rs.
          Some (Inr (\<lparr>rp_ok = True, rp_status = st, rp_packet = rep, rp_extra = x\<rparr>, s), rs))))"
    using d(3) by (simp add: finish_reply_def Let_def fun_eq_iff not_less)
  moreover have "yields N (length d) (\<lambda>rs. io_bind (if discard \<and> extra < ?n then AuEatData (unat (push_bit 2 (f32 4 rep - word_of_nat extra))) ?s1 rs
        else Some (Inr ?s1, rs)) (\<lambda>s rs. Some (Inr (?rp, s), rs))) (?rp, unread (if discard then rest else drop (4 * extra) d @ rest) s)"
    by (rule yields_bind [OF rest, where k = 0]) simp_all
  ultimately show ?thesis
    by (simp only:) (rule yields_bind [OF first, where k = "length d"], simp only: prod.case, simp)
qed

lemma AuReply_reply:
  assumes "out_ok (au_out s)" "au_unread s = concat ps @ rep @ d @ rest" "list_all packet_ok ps" "list_all (not_ours (request (au_out s))) ps"
    and "take_packets ps (flushed s) = Some (Inr t)" "answer_ok (request (au_out s)) extra rep d" "2048 \<le> N" "4 * extra \<le> N"
  shows "yields N (4 + length ps + length d) (AuReply extra discard asked s)
    (\<lparr>rp_ok = True, rp_status = last_error 0 ps, rp_packet = rep, rp_extra = take (4 * extra) d\<rparr>,
     unread (if discard then rest else drop (4 * extra) d @ rest) (t\<lparr>au_last_read := request (au_out s)\<rparr>))"
proof -
  let ?cur = "request (au_out s)" and ?u = "rep @ d @ rest"
  let ?rp = "\<lparr>rp_ok = True, rp_status = last_error 0 ps, rp_packet = rep, rp_extra = take (4 * extra) d\<rparr>"
  define t' where "t' = unread (if discard then rest else drop (4 * extra) d @ rest) (t\<lparr>au_last_read := ?cur\<rparr>)"
  have rep: "length rep = 32" "f8 0 rep = Au_Reply" "f16 2 rep = ucast ?cur" using assms(6) by (simp_all add: answer_ok_def)
  have eq: "reply_packet ?cur extra discard asked (last_error 0 ps) rep (unread (d @ rest) t) =
      (\<lambda>rs. io_bind (finish_reply extra discard (last_error 0 ps) rep (unread (d @ rest) (t\<lparr>au_last_read := ?cur\<rparr>)) rs)
        (\<lambda>(rp, s) rs. Some (Inr (Inr rp, s), rs)))"
    using rep by (simp add: reply_packet_def fun_eq_iff)
  have "yields N (Suc (length d)) (finish_reply extra discard (last_error 0 ps) rep (unread (d @ rest) (t\<lparr>au_last_read := ?cur\<rparr>))) (?rp, t')"
    using finish_reply_yields [of "unread (d @ rest) (t\<lparr>au_last_read := ?cur\<rparr>)" d rest ?cur extra rep N discard "last_error 0 ps"] assms(6-8) by (simp add: t'_def)
  then have "yields N (Suc (length d)) (\<lambda>rs. io_bind (finish_reply extra discard (last_error 0 ps) rep (unread (d @ rest) (t\<lparr>au_last_read := ?cur\<rparr>)) rs)
      (\<lambda>(rp, s) rs. Some (Inr (Inr rp, s), rs))) (Inr ?rp, t')"
    by (rule yields_bind [where k = 0]) simp_all
  then have "yields N (Suc (length d)) (reply_packet ?cur extra discard asked (last_error 0 ps) rep (unread (d @ rest) t)) (Inr ?rp, t')"
    unfolding eq .
  then have "yields N (2 + length d) (reply_loop ?cur extra discard asked (last_error 0 ps) (unread ?u t)) (?rp, t')"
    by (intro reply_loop_yields [of "unread ?u t" rep "d @ rest" N "Suc (length d)" _ _ _ _ _ _ 0])
       (simp_all only: rep assms(7) unread_simps prod.case sum.case yields_return append_assoc, simp)
  then have "yields N (2 + length d + length ps) (reply_loop ?cur extra discard asked 0 (flushed s)) (?rp, t')"
    by (intro reply_loop_skips [OF _ assms(3-5)]) (use assms(2,7) in \<open>simp_all add: flushed_def\<close>)
  moreover have "AuReply extra discard asked s = (\<lambda>rs. io_bind (flush s rs) (reply_loop ?cur extra discard asked 0))"
    by (simp add: AuReply_def fun_eq_iff)
  ultimately show ?thesis unfolding t'_def [symmetric]
    by (simp only:) (rule yields_bind [OF flush_yields [OF assms(1,7)]], assumption, simp)
qed

text \<open>
  C5. A call that waits for the reply to its request gets it: of what the server sends, the packets before the reply are taken as
  everywhere, events into the queue and errors to their handlers, and the reply and the data asked for are handed to the caller. The status,
  though, is that of the last error among those packets, an error of an earlier request, while the call succeeds.
\<close>

theorem AuReply_answer:
  assumes "out_ok (au_out s)" "au_unread s = concat ps @ rep @ d @ rest" "list_all packet_ok ps" "list_all (not_ours (request (au_out s))) ps"
    and "take_packets ps (flushed s) = Some (Inr t)" "answer_ok (request (au_out s)) extra rep d" "2048 \<le> N" "4 * extra \<le> N"
  shows "yields N (4 + length ps + length d) (AuReply extra discard asked s)
    (\<lparr>rp_ok = True, rp_status = last_error 0 ps, rp_packet = rep, rp_extra = take (4 * extra) d\<rparr>,
     unread (if discard then rest else drop (4 * extra) d @ rest) (t\<lparr>au_last_read := request (au_out s)\<rparr>))"
  using assms by (rule AuReply_reply)

text \<open>An error of request 1 and an event, then the reply to request 2 with two words.\<close>

definition demo_packets :: "bytes list" where
  "demo_packets = [[0, 9, 1, 0] @ replicate 28 0, [2, 0, 1, 0] @ replicate 28 7]"

definition demo_answer :: bytes where
  "demo_answer = [1, 0, 2, 0, 2, 0, 0, 0] @ replicate 24 0"

definition demo_waiting :: au_server where
  "demo_waiting = demo_server\<lparr>au_out := fresh_out\<lparr>request := 2\<rparr>, au_unread := concat demo_packets @ demo_answer @ [1, 2, 3, 4, 5, 6, 7, 8] @ [],
     au_error_handler := True\<rparr>"

lemmas packet_simps = packet_ok_def f8_def f16_def f32_def mk16_def mk32_def take_packet_def take_other_def AuError_def AuSetLastRequestRead_def
  seq_loop.simps enq_packet_def event_vec_def AuWireToEvent_def Let_def AuAsyncErrorHandler_def

lemma demo_packets_taken: "\<exists>t. take_packets demo_packets (flushed demo_waiting) = Some (Inr t)"
  by (simp add: demo_packets_def demo_waiting_def demo_server_def flushed_def fresh_out_def packet_simps)

lemma AuReply_answer_witness:
  "\<exists>t. yields 2048 14 (AuReply 1 True True demo_waiting)
     (\<lparr>rp_ok = True, rp_status = 9, rp_packet = demo_answer, rp_extra = [1, 2, 3, 4]\<rparr>, unread [] (t\<lparr>au_last_read := 2\<rparr>))"
proof -
  obtain t where t: "take_packets demo_packets (flushed demo_waiting) = Some (Inr t)" using demo_packets_taken by blast
  have "yields 2048 (4 + length demo_packets + length ([1, 2, 3, 4, 5, 6, 7, 8] :: bytes)) (AuReply 1 True True demo_waiting)
     (\<lparr>rp_ok = True, rp_status = last_error 0 demo_packets, rp_packet = demo_answer, rp_extra = take (4 * 1) [1, 2, 3, 4, 5, 6, 7, 8]\<rparr>,
      unread (if True then [] else drop (4 * 1) [1, 2, 3, 4, 5, 6, 7, 8] @ []) (t\<lparr>au_last_read := request (au_out demo_waiting)\<rparr>))"
  proof (rule AuReply_answer [OF _ _ _ _ t])
    show "out_ok (au_out demo_waiting)" by (simp add: demo_waiting_def fresh_out_def out_ok_def)
    show "au_unread demo_waiting = concat demo_packets @ demo_answer @ [1, 2, 3, 4, 5, 6, 7, 8] @ []" by (simp add: demo_waiting_def)
    show "list_all packet_ok demo_packets" by (simp add: demo_packets_def packet_ok_def f8_def)
    show "list_all (not_ours (request (au_out demo_waiting))) demo_packets"
      by (simp add: demo_packets_def demo_waiting_def not_ours_def f8_def f16_def mk16_def)
    show "answer_ok (request (au_out demo_waiting)) 1 demo_answer [1, 2, 3, 4, 5, 6, 7, 8]"
      by (simp add: demo_waiting_def demo_answer_def answer_ok_def f8_def f16_def f32_def mk16_def mk32_def)
  qed simp_all
  then show ?thesis by (intro exI [of _ t]) (simp add: demo_packets_def demo_waiting_def f8_def)
qed

section \<open>Round trips\<close>

definition with_request :: "nat \<Rightarrow> (nat \<times> bytes) list \<Rightarrow> aud_out \<Rightarrow> aud_out" where
  "with_request n fs out =
     (let out = (if BUFSIZE < bufptr out + n then out\<lparr>bufptr := 0, wire := stream out\<rparr> else out) in
      out\<lparr>buffer := put_fields fs (bufptr out) (buffer out), bufptr := bufptr out + n, request := request out + 1\<rparr>)"

lemma AuGetReq_yields:
  assumes "out_ok out" "2048 \<le> N" shows "yields N 1 (AuGetReq n fs out) (with_request n fs out)"
proof -
  have "AuGetReq n fs out = (\<lambda>rs. io_bind (if BUFSIZE < bufptr out + n then AuFlush out rs else Some (Inr out, rs)) (\<lambda>s rs.
      Some (Inr (s\<lparr>buffer := put_fields fs (bufptr s) (buffer s), bufptr := bufptr s + n, request := request s + 1\<rparr>), rs)))"
    by (simp add: AuGetReq_def fun_eq_iff)
  moreover have "yields N 1 (\<lambda>rs. if BUFSIZE < bufptr out + n then AuFlush out rs else Some (Inr out, rs))
      (if BUFSIZE < bufptr out + n then out\<lparr>bufptr := 0, wire := stream out\<rparr> else out)"
    using AuFlush_yields [OF assms] by (cases "BUFSIZE < bufptr out + n") simp_all
  ultimately show ?thesis
    by (simp only:) (rule yields_bind [where k = 0], assumption, simp_all add: with_request_def Let_def)
qed

lemma with_request_ok:
  assumes "out_ok out" "valid_put (PutReq n fs)" shows "out_ok (with_request n fs out)"
proof -
  obtain used rs' where "AuGetReq n fs out [Moves 2048] = Some (Inr (with_request n fs out), rs')"
    using yields_returns [OF AuGetReq_yields [OF assms(1), of 2048 n fs], of "[Moves 2048]"] by (auto simp: gives_def)
  then show ?thesis using run_put_stream [of "PutReq n fs" out "[Moves 2048]"] assms by auto
qed

text \<open>The state in which a round trip waits for its reply.\<close>

definition asking :: "au_server \<Rightarrow> au_server" where
  "asking s = s\<lparr>au_out := with_request 4 [(0, [Au_GetCloseDownMode]), (2, bytes16 1)] (au_out s)\<rparr>"

lemma ask_yields:
  assumes "out_ok (au_out s)" "2048 \<le> N" shows "yields N 1 (ask_close_down_mode s) (asking s)" "out_ok (au_out (asking s))"
proof -
  have "ask_close_down_mode s = (\<lambda>rs. io_bind (AuGetReq 4 [(0, [Au_GetCloseDownMode]), (2, bytes16 1)] (au_out s) rs)
      (\<lambda>out rs. Some (Inr (s\<lparr>au_out := out\<rparr>), rs)))"
    by (simp add: ask_close_down_mode_def fun_eq_iff)
  then show "yields N 1 (ask_close_down_mode s) (asking s)"
    by (simp only:) (rule yields_bind [OF AuGetReq_yields [OF assms], where k = 0], simp_all add: asking_def)
  show "out_ok (au_out (asking s))" unfolding asking_def using with_request_ok [OF assms(1)] by (simp add: bytes16_def)
qed

lemma asking_simps [simp]:
  "request (au_out (asking s)) = request (au_out s) + 1" "au_unread (asking s) = au_unread s" "au_handlers (asking s) = au_handlers s"
  "au_handlers (flushed s) = au_handlers s"
  by (simp_all add: asking_def with_request_def Let_def flushed_def)

text \<open>The codes of the errors among packets whose serial number is \<open>seq\<close>.\<close>

fun errors_at :: "u32 \<Rightarrow> bytes list \<Rightarrow> au_server \<Rightarrow> u8 list" where
  "errors_at seq [] s = []"
| "errors_at seq (p # ps) s =
     (case take_packet p s of
        Some (Inr s') \<Rightarrow> (if f8 0 p = Au_Error \<and> au_last_read s' = seq then [f8 1 p] else []) @ errors_at seq ps s'
      | _ \<Rightarrow> [])"

definition own_handler :: "u32 \<Rightarrow> async_error \<Rightarrow> bool" where
  "own_handler seq a \<longleftrightarrow> seq \<noteq> 0 \<and> as_min a = seq \<and> as_max a = seq \<and> as_error_code a = 0 \<and> as_major a = 0 \<and> as_minor a = 0"

definition counted :: "u8 list \<Rightarrow> async_error \<Rightarrow> async_error" where
  "counted es a = a\<lparr>as_last_error := last (as_last_error a # es), as_error_count := as_error_count a + word_of_nat (length es)\<rparr>"

lemma take_packet_handlers:
  assumes "take_packet p s = Some (Inr s')" "au_handlers s = a # hs" "own_handler seq a"
  shows "\<exists>hs'. au_handlers s' = counted (if f8 0 p = Au_Error \<and> au_last_read s' = seq then [f8 1 p] else []) a # hs'"
proof (cases "f8 0 p = Au_Error")
  case True
  then obtain n where n: "AuSetLastRequestRead (f16 2 p) s = Some (n, s\<lparr>au_last_read := n\<rparr>)" "AuError p s = Some (Inr s')"
    using assms(1) by (auto simp: take_packet_def take_other_def AuError_def AuSetLastRequestRead_def bind_eq_Some_conv)
  have h: "AuAsyncErrorHandler n p a = (if n = seq then Some (counted [f8 1 p] a) else None)"
    using assms(3) True by (auto simp: AuAsyncErrorHandler_def own_handler_def counted_def)
  show ?thesis
  proof (cases "n = seq")
    case True
    then have "s' = s\<lparr>au_last_read := n, au_handlers := counted [f8 1 p] a # hs\<rparr>" using n assms(2) h by (simp add: AuError_def)
    then show ?thesis using True \<open>f8 0 p = Au_Error\<close> by simp
  next
    case False
    then obtain hs' where "au_handlers s' = a # hs'" "au_last_read s' = n"
      using n assms(2) h by (auto simp: AuError_def Let_def split: option.splits if_splits)
    then show ?thesis using False by (simp add: counted_def)
  qed
next
  case False
  then have "au_handlers s' = au_handlers s"
    using assms(1) by (auto simp: take_packet_def take_other_def enq_packet_def event_vec_def AuWireToEvent_def AuSetLastRequestRead_def Let_def
      bind_eq_Some_conv split: if_splits)
  then show ?thesis using False assms(2) by (simp add: counted_def)
qed

lemma take_packets_handlers:
  "take_packets ps s = Some (Inr t) \<Longrightarrow> au_handlers s = a # hs \<Longrightarrow> own_handler seq a \<Longrightarrow> \<exists>hs'. au_handlers t = counted (errors_at seq ps s) a # hs'"
proof (induction ps arbitrary: s a hs)
  case Nil
  then show ?case by (simp add: counted_def)
next
  case (Cons p ps)
  obtain s1 where s1: "take_packet p s = Some (Inr s1)" "take_packets ps s1 = Some (Inr t)"
    using Cons.prems(1) by (auto simp: take_packets_Cons simp del: take_packets.simps)
  let ?e = "if f8 0 p = Au_Error \<and> au_last_read s1 = seq then [f8 1 p] else []"
  obtain hs1 where "au_handlers s1 = counted ?e a # hs1" using take_packet_handlers [OF s1(1) Cons.prems(2,3)] by blast
  moreover have "own_handler seq (counted ?e a)" using Cons.prems(3) by (simp add: own_handler_def counted_def)
  ultimately obtain hs' where "au_handlers t = counted (errors_at seq ps s1) (counted ?e a) # hs'" using Cons.IH [OF s1(2)] by blast
  then show ?case using s1(1) by (simp add: counted_def)
qed

lemma errors_at_length: "length (errors_at seq ps s) \<le> length ps"
  by (induction ps arbitrary: s) (auto split: option.split sum.split intro: le_SucI)

lemma count_signed:
  assumes "n < 2 ^ 31" shows "(word_of_nat n = (0 :: s32)) = (n = 0)" "(0 <s (word_of_nat n :: s32)) = (n \<noteq> 0)"
proof -
  have "sint (word_of_nat n :: s32) = int n"
    using assms signed_of_nat [of n, where ?'a = int and ?'b = 32] by (simp add: signed_take_bit_int_eq_self)
  then show "(word_of_nat n = (0 :: s32)) = (n = 0)" "(0 <s (word_of_nat n :: s32)) = (n \<noteq> 0)"
    by (auto simp: word_sless_alt)
qed

text \<open>
  C17. The status of a round trip is that of its own request: \<^verbatim>\<open>_AuForceRoundTrip\<close> says success exactly if the packets before the reply
  hold no error with the serial number of the request, and otherwise gives the code of the last one that does; errors of other
  requests and events do not matter. Its handler is taken out again.
\<close>

theorem round_trip_verdict:
  fixes s :: au_server and seq :: u32 and ps :: "bytes list"
  defines "seq \<equiv> request (au_out s)"
    and "start \<equiv> s\<lparr>au_handlers := \<lparr>as_min = request (au_out s), as_max = request (au_out s), as_error_code = 0, as_major = 0, as_minor = 0,
        as_last_error = 0, as_error_count = 0\<rparr> # au_handlers s\<rparr>"
  assumes "out_ok (au_out s)" "seq \<noteq> 0" "length ps < 2 ^ 31" "au_unread s = concat ps @ rep @ rest"
    and "list_all packet_ok ps" "list_all (not_ours (seq + 1)) ps" "answer_ok (seq + 1) 0 rep []"
    and "take_packets ps (flushed (asking start)) = Some (Inr t)" "2048 \<le> N"
  shows "let es = errors_at seq ps (flushed (asking start)) in
    yields N (5 + length ps) (AuForceRoundTrip 0 0 0 s)
      ((es = [], if es = [] then 0 else last es), unread rest (t\<lparr>au_last_read := seq + 1, au_handlers := tl (au_handlers t)\<rparr>))"
proof -
  define a where "a = \<lparr>as_min = seq, as_max = seq, as_error_code = 0, as_major = 0, as_minor = 0, as_last_error = 0, as_error_count = 0\<rparr>"
  define es where "es = errors_at seq ps (flushed (asking start))"
  let ?t = "unread rest (t\<lparr>au_last_read := seq + 1\<rparr>)"
  have start: "au_out start = au_out s" "au_unread start = au_unread s" "au_handlers start = a # au_handlers s"
    by (simp_all add: start_def a_def seq_def)
  have ask: "yields N 1 (ask_close_down_mode start) (asking start)" "out_ok (au_out (asking start))"
    using ask_yields [of start N] assms(3,11) start by simp_all
  have "\<exists>rp. yields N (4 + length ps) (AuReply 0 True False (asking start)) (rp, ?t)"
    using AuReply_reply [OF ask(2), of ps rep "[]" rest t 0 N True False] assms(6-11) start by (auto simp: seq_def)
  then obtain rp where reply: "yields N (4 + length ps) (AuReply 0 True False (asking start)) (rp, ?t)" by blast
  obtain hs' where t: "au_handlers t = counted es a # hs'"
    using take_packets_handlers [OF assms(10), of a "au_handlers s" seq] assms(4) start by (auto simp: own_handler_def a_def es_def)
  have len: "length es < 2 ^ 31" using errors_at_length [of seq ps "flushed (asking start)"] assms(5) by (simp add: es_def)
  have count: "as_error_count (counted es a) = word_of_nat (length es)" "as_last_error (counted es a) = last (0 # es)"
    by (simp_all add: counted_def a_def)
  have "(word_of_nat (length es) = (0 :: s32)) = (es = [])" "(0 <s (word_of_nat (length es) :: s32)) = (es \<noteq> [])"
    using count_signed [OF len] by simp_all
  then have verdict: "(as_error_count (counted es a) = 0, if 0 <s as_error_count (counted es a) then as_last_error (counted es a) else 0) =
      (es = [], if es = [] then 0 else last es)"
    by (simp add: count)
  have "AuForceRoundTrip 0 0 0 s = (\<lambda>rs. io_bind (ask_close_down_mode start rs) (\<lambda>s rs.
      io_bind (AuReply 0 True False s rs) (\<lambda>(_, s) rs. case au_handlers s of [] \<Rightarrow> None | a # hs \<Rightarrow>
        Some (Inr ((as_error_count a = 0, if 0 <s as_error_count a then as_last_error a else 0), s\<lparr>au_handlers := hs\<rparr>), rs))))"
    by (simp add: AuForceRoundTrip_def start_def Let_def fun_eq_iff)
  moreover have "yields N (4 + length ps) (\<lambda>rs. io_bind (AuReply 0 True False (asking start) rs) (\<lambda>(_, s) rs. case au_handlers s of [] \<Rightarrow> None | a # hs \<Rightarrow>
        Some (Inr ((as_error_count a = 0, if 0 <s as_error_count a then as_last_error a else 0), s\<lparr>au_handlers := hs\<rparr>), rs)))
      ((es = [], if es = [] then 0 else last es), unread rest (t\<lparr>au_last_read := seq + 1, au_handlers := tl (au_handlers t)\<rparr>))"
    by (rule yields_bind [OF reply, where k = 0]) (simp_all add: t verdict [symmetric])
  ultimately show ?thesis
    unfolding Let_def es_def [symmetric] by (simp only:) (rule yields_bind [OF ask(1)], assumption, simp)
qed

definition demo_asking :: au_server where
  "demo_asking = demo_server\<lparr>au_out := fresh_out\<lparr>request := 1\<rparr>, au_unread := concat demo_packets @ ([1, 0, 2, 0] @ replicate 28 0) @ []\<rparr>"

lemma round_trip_verdict_witness:
  "\<exists>t. yields 2048 7 (AuForceRoundTrip 0 0 0 demo_asking) ((False, 9), unread [] t)"
proof -
  let ?a = "\<lparr>as_min = request (au_out demo_asking), as_max = request (au_out demo_asking), as_error_code = 0, as_major = 0, as_minor = 0,
    as_last_error = 0, as_error_count = 0\<rparr>"
  let ?s = "flushed (asking (demo_asking\<lparr>au_handlers := ?a # au_handlers demo_asking\<rparr>))"
  note defs = demo_packets_def demo_asking_def demo_server_def flushed_def fresh_out_def asking_def with_request_def packet_simps
  have "\<exists>t. take_packets demo_packets ?s = Some (Inr t)" by (simp add: defs)
  then obtain t where t: "take_packets demo_packets ?s = Some (Inr t)" by blast
  have es: "errors_at (request (au_out demo_asking)) demo_packets ?s = [9]" by (simp add: defs)
  have "let es = errors_at (request (au_out demo_asking)) demo_packets ?s in
    yields 2048 (5 + length demo_packets) (AuForceRoundTrip 0 0 0 demo_asking)
      ((es = [], if es = [] then 0 else last es), unread [] (t\<lparr>au_last_read := request (au_out demo_asking) + 1, au_handlers := tl (au_handlers t)\<rparr>))"
  proof (rule round_trip_verdict [OF _ _ _ _ _ _ _ t])
    show "out_ok (au_out demo_asking)" by (simp add: demo_asking_def fresh_out_def out_ok_def)
    show "au_unread demo_asking = concat demo_packets @ ([1, 0, 2, 0] @ replicate 28 0) @ []" by (simp add: demo_asking_def)
    show "list_all packet_ok demo_packets" by (simp add: demo_packets_def packet_ok_def f8_def)
    show "list_all (not_ours (request (au_out demo_asking) + 1)) demo_packets"
      by (simp add: demo_packets_def demo_asking_def not_ours_def f8_def f16_def mk16_def)
    show "answer_ok (request (au_out demo_asking) + 1) 0 ([1, 0, 2, 0] @ replicate 28 0) []"
      by (simp add: demo_asking_def answer_ok_def f8_def f16_def f32_def mk16_def mk32_def)
  qed (simp_all add: demo_asking_def demo_packets_def)
  then show ?thesis unfolding es by (auto simp: demo_packets_def)
qed

text \<open>A reply nobody waits for, of 36 bytes, an event and an error; the system says that 40 bytes can be read.\<close>

definition demo_stream :: "bytes list" where
  "demo_stream = [[1, 0, 1, 0, 1, 0, 0, 0] @ replicate 28 5, [2, 0, 1, 0] @ replicate 28 7, [0, 9, 2, 0] @ replicate 28 0]"


section \<open>Waiting for an event\<close>

text \<open>What is sent does not matter for what is read, as long as the number of requests is the same.\<close>

lemma take_packet_flushed: "take_packet p (flushed s) = map_option (map_sum id flushed) (take_packet p s)"
proof -
  have "AuSetLastRequestRead q (flushed s) = map_option (map_prod id flushed) (AuSetLastRequestRead q s)" for q
    by (cases "seq_loop ((au_last_read s AND NOT 0xffff) OR ucast q) (au_last_read s) (request (au_out s))")
       (simp_all add: AuSetLastRequestRead_def flushed_def)
  moreover have "au_queue (flushed s) = au_queue s" "au_last_read (flushed s) = au_last_read s" "au_error_handler (flushed s) = au_error_handler s"
      "au_reported (flushed s) = au_reported s" "(flushed s)\<lparr>au_queue := es\<rparr> = flushed (s\<lparr>au_queue := es\<rparr>)"
      "(flushed s)\<lparr>au_handlers := hs\<rparr> = flushed (s\<lparr>au_handlers := hs\<rparr>)" "(flushed s)\<lparr>au_reported := er\<rparr> = flushed (s\<lparr>au_reported := er\<rparr>)" for s es hs er
    by (simp_all add: flushed_def)
  ultimately show ?thesis
    by (cases "AuSetLastRequestRead (f16 2 p) s")
       (auto simp: take_packet_def take_other_def AuError_def enq_packet_def event_vec_def AuWireToEvent_def Let_def split: option.split)
qed

lemma take_packets_flushed: "take_packets ps (flushed s) = map_option (map_sum id flushed) (take_packets ps s)"
  by (induction ps arbitrary: s) (auto simp: take_packet_flushed split: option.split sum.split)

lemma take_packet_out: "take_packet p s = Some (Inr s') \<Longrightarrow> au_out s' = au_out s"
  by (auto simp: take_packet_def take_other_def AuError_def enq_packet_def event_vec_def AuWireToEvent_def AuSetLastRequestRead_def Let_def
      bind_eq_Some_conv split: if_splits option.splits)

lemma take_packets_out: "take_packets ps s = Some (Inr t) \<Longrightarrow> au_out t = au_out s"
proof (induction ps arbitrary: s)
  case (Cons p ps)
  then obtain s1 where "take_packet p s = Some (Inr s1)" "take_packets ps s1 = Some (Inr t)"
    by (auto simp: take_packets_Cons simp del: take_packets.simps)
  then show ?case using take_packet_out Cons.IH by fastforce
qed simp

lemma flushed_simps [simp]:
  "au_unread (flushed s) = au_unread s" "au_queue (flushed s) = au_queue s" "unread u (flushed s) = flushed (unread u s)"
  by (simp_all add: flushed_def unread_def)

text \<open>Packets only add to the queue.\<close>

lemma take_packet_queue: "take_packet p s = Some (Inr s') \<Longrightarrow> \<exists>es. au_queue s' = au_queue s @ es"
  by (auto simp: take_packet_def take_other_def AuError_def enq_packet_def event_vec_def AuWireToEvent_def AuSetLastRequestRead_def Let_def
      bind_eq_Some_conv split: if_splits option.splits)

lemma take_packets_queue: "take_packets ps s = Some (Inr t) \<Longrightarrow> \<exists>es. au_queue t = au_queue s @ es"
proof (induction ps arbitrary: s)
  case (Cons p ps)
  then obtain s1 where "take_packet p s = Some (Inr s1)" "take_packets ps s1 = Some (Inr t)"
    by (auto simp: take_packets_Cons simp del: take_packets.simps)
  then show ?case using take_packet_queue Cons.IH by fastforce
qed simp

lemma read_events_yields:
  assumes "au_unread s = concat ps" "list_all packet_ok ps" "take_packets ps s = Some (Inr t)" "au_queue s = []" "au_queue t \<noteq> []"
    and "\<forall>n. avail n \<le> n" "out_ok (au_out s) \<or> \<not> nyf" "2048 \<le> N"
  shows "\<exists>m k s' es. yields N m (read_events avail nyf s) s' \<and> k \<le> length ps \<and> au_unread s' = concat (drop k ps) \<and>
           au_queue t = au_queue s' @ es \<and> au_queue s' \<noteq> []"
  using assms(1-5,7)
proof (induction "length ps" arbitrary: ps s t nyf rule: less_induct)
  case less
  have "ps \<noteq> []" using less.prems(3-5) by auto
  let ?pend = "avail (length (au_unread s))"
  define f where "f \<longleftrightarrow> ?pend < 32 \<and> nyf"
  define s0 where "s0 = (if f then flushed s else s)"
  have t0: "\<exists>t0. take_packets ps s0 = Some (Inr t0) \<and> au_queue t0 = au_queue t" "au_unread s0 = concat ps" "au_queue s0 = []"
    using less.prems(1,3,4) by (auto simp: s0_def take_packets_flushed)
  then obtain t0 where t0': "take_packets ps s0 = Some (Inr t0)" "au_queue t0 = au_queue t" by blast
  obtain k s' where k: "k \<le> length ps" "0 < k" "yields N (Suc (length (concat ps))) (read_packets ?pend s0) s'"
      "au_unread s' = concat (drop k ps)" "take_packets (take k ps) s0 = Some (Inr (unread (au_unread s0) s'))"
    using read_packets_yields [OF t0(2) less.prems(2) t0'(1), of ?pend N] assms(6,8) less.prems(1) \<open>ps \<noteq> []\<close> by metis
  let ?qs = "drop k ps"
  have "take_packets (take k ps @ ?qs) s0 = Some (Inr t0)" using t0'(1) by simp
  then have "take_packets ?qs (unread (au_unread s0) s') = Some (Inr t0)" unfolding take_packets_append k(5) by simp
  then have rest: "take_packets ?qs s' = Some (Inr (unread (au_unread s') t0))"
    using take_packets_frame [of ?qs "au_unread s'" "unread (au_unread s0) s'"] by simp
  then obtain es where es: "au_queue t = au_queue s' @ es" using take_packets_queue [OF rest] t0'(2) by auto
  have first: "yields N 1 (\<lambda>rs. if f then flush s rs else Some (Inr s, rs)) s0"
    using flush_yields [of s N] less.prems(6) assms(8) by (cases f) (auto simp: s0_def f_def)
  have eq: "read_events avail nyf s = (\<lambda>rs. io_bind (if f then flush s rs else Some (Inr s, rs)) (\<lambda>s rs.
      io_bind (read_packets ?pend s rs) (\<lambda>s rs. if au_queue s = [] then read_events avail (nyf \<and> \<not> f) s rs else Some (Inr s, rs))))"
    by (rule ext) (subst read_events.simps, simp only: Let_def f_def)
  show ?case
  proof (cases "au_queue s' = []")
    case False
    then have "yields N (Suc (length (concat ps))) (\<lambda>rs. io_bind (read_packets ?pend s0 rs)
        (\<lambda>s rs. if au_queue s = [] then read_events avail (nyf \<and> \<not> f) s rs else Some (Inr s, rs))) s'"
      by (intro yields_bind [OF k(3), where k = 0]) simp_all
    then have "yields N (Suc (Suc (length (concat ps)))) (read_events avail nyf s) s'"
      unfolding eq by (rule yields_bind [OF first]) simp
    then show ?thesis using k(1,4) es False by blast
  next
    case True
    have "out_ok (au_out s') \<or> \<not> (nyf \<and> \<not> f)"
      using less.prems(6) take_packets_out [OF k(5)] by (cases f) (auto simp: s0_def)
    moreover have "length ?qs < length ps" "list_all packet_ok ?qs" using k(1,2) less.prems(2) by (auto simp: list_all_iff dest: in_set_dropD)
    moreover have "au_queue (unread (au_unread s') t0) \<noteq> []" using t0'(2) less.prems(5) by simp
    ultimately obtain m k' s2 es' where m: "yields N m (read_events avail (nyf \<and> \<not> f) s') s2" "k' \<le> length ?qs" "au_unread s2 = concat (drop k' ?qs)"
        "au_queue t = au_queue s2 @ es'" "au_queue s2 \<noteq> []"
      using less.hyps [OF _ k(4) _ rest True] t0'(2) by (metis unread_simps(5))
    have "yields N (Suc (length (concat ps)) + m) (\<lambda>rs. io_bind (read_packets ?pend s0 rs)
        (\<lambda>s rs. if au_queue s = [] then read_events avail (nyf \<and> \<not> f) s rs else Some (Inr s, rs))) s2"
      by (rule yields_bind [OF k(3), where k = m]) (use True m(1) in simp_all)
    then have "yields N (Suc (Suc (length (concat ps)) + m)) (read_events avail nyf s) s2"
      unfolding eq by (rule yields_bind [OF first]) simp
    moreover have "k + k' \<le> length ps" "au_unread s2 = concat (drop (k + k') ps)" using m(2,3) k(1) by (simp_all add: add.commute)
    ultimately show ?thesis using m(4,5) by blast
  qed
qed


end
