(* ===== verification/File_IO.thy ===== *)
theory File_IO
  imports Wire_Elements
begin

text \<open>
  Files as the library's sound formats use them: the functions of C's \<^verbatim>\<open>stdio\<close> on a file's contents and position, and
  \<^verbatim>\<open>lib/audio/fileutil.c\<close>. A file that is written can be written; a position behind the end is possible, as in C.
\<close>

record FILE =
  f_data :: bytes
  f_pos :: nat

text \<open>
  \<^verbatim>\<open>fread (p, n, 1, fp)\<close> gives one item of \<open>n\<close> bytes, or none: then the position is the end of the file. There is no item of size
  0. \<open>fread1\<close> is \<^verbatim>\<open>fread (p, 1, n, fp)\<close>, which gives as many bytes as there are.
\<close>

definition fread1 :: "nat \<Rightarrow> FILE \<Rightarrow> bytes \<times> FILE" where
  "fread1 n f = (let x = take n (drop (f_pos f) (f_data f)) in (x, f\<lparr>f_pos := f_pos f + length x\<rparr>))"

definition fread :: "nat \<Rightarrow> FILE \<Rightarrow> bytes option \<times> FILE" where
  "fread n f = (case fread1 n f of (x, f) \<Rightarrow> (if n \<noteq> 0 \<and> length x = n then Some x else None, f))"

definition fwrite :: "bytes \<Rightarrow> FILE \<Rightarrow> FILE" where
  "fwrite x f =
     (let d = f_data f @ replicate (f_pos f - length (f_data f)) 0 in
      f\<lparr>f_data := take (f_pos f) d @ x @ drop (f_pos f + length x) d, f_pos := f_pos f + length x\<rparr>)"

text \<open>\<^verbatim>\<open>fseek\<close> to a position counted from the start; the result says whether it fails.\<close>

definition fseek :: "int \<Rightarrow> FILE \<Rightarrow> bool \<times> FILE" where
  "fseek target f = (if target < 0 then (True, f) else (False, f\<lparr>f_pos := nat target\<rparr>))"

section \<open>Numbers\<close>

definition FileSwapS :: "u16 \<Rightarrow> u16" where
  "FileSwapS us = drop_bit 8 us OR push_bit 8 us"

definition FileSwapL :: "u32 \<Rightarrow> u32" where
  "FileSwapL ul = drop_bit 24 ul OR (drop_bit 8 ul AND 0xff00) OR (push_bit 8 ul AND 0xff0000) OR push_bit 24 ul"

text \<open>A number that cannot be read is not initialised, which is \<open>None\<close>.\<close>

definition FileReadS :: "bool \<Rightarrow> FILE \<Rightarrow> u16 option \<times> FILE" where
  "FileReadS swapit f =
     (case fread 2 f of (x, f) \<Rightarrow> (map_option (\<lambda>x. let us = mk16 (x ! 0) (x ! 1) in if swapit then FileSwapS us else us) x, f))"

definition FileReadL :: "bool \<Rightarrow> FILE \<Rightarrow> u32 option \<times> FILE" where
  "FileReadL swapit f =
     (case fread 4 f of (x, f) \<Rightarrow>
        (map_option (\<lambda>x. let ul = mk32 (mk16 (x ! 0) (x ! 1)) (mk16 (x ! 2) (x ! 3)) in if swapit then FileSwapL ul else ul) x, f))"

definition FileWriteS :: "u16 \<Rightarrow> bool \<Rightarrow> FILE \<Rightarrow> FILE" where
  "FileWriteS us swapit f = fwrite (bytes16 (if swapit then FileSwapS us else us)) f"

definition FileWriteL :: "u32 \<Rightarrow> bool \<Rightarrow> FILE \<Rightarrow> FILE" where
  "FileWriteL ul swapit f = fwrite (bytes32 (if swapit then FileSwapL ul else ul)) f"

text \<open>The name behind the last slash, as a C string; nothing for a pipe.\<close>

definition FileCommentFromFilename :: "bytes \<Rightarrow> bytes" where
  "FileCommentFromFilename fname =
     (if fname = [45] then [0] else rev (takeWhile (\<lambda>c. c \<noteq> 47) (rev fname)) @ [0])"

section \<open>Reading what is there\<close>

text \<open>The bytes from the position on.\<close>

definition ahead :: "FILE \<Rightarrow> bytes" where
  "ahead f = drop (f_pos f) (f_data f)"

definition advance :: "nat \<Rightarrow> FILE \<Rightarrow> FILE" where
  "advance n f = f\<lparr>f_pos := f_pos f + n\<rparr>"

lemma advance_simps [simp]:
  "f_data (advance n f) = f_data f" "f_pos (advance n f) = f_pos f + n" "advance 0 f = f" "advance m (advance n f) = advance (n + m) f"
  by (simp_all add: advance_def)

lemma ahead_advance [simp]: "ahead f = x @ y \<Longrightarrow> length x = n \<Longrightarrow> ahead (advance n f) = y"
  by (metis advance_simps(1,2) ahead_def append_eq_conv_conj drop_drop add.commute)

lemma fread_ahead: "ahead f = x @ y \<Longrightarrow> length x = n \<Longrightarrow> 0 < n \<Longrightarrow> fread n f = (Some x, advance n f)"
  by (simp add: fread_def fread1_def ahead_def advance_def Let_def)

lemma fread1_ahead: "ahead f = x @ y \<Longrightarrow> length x = n \<Longrightarrow> fread1 n f = (x, advance n f)"
  by (simp add: fread1_def ahead_def advance_def Let_def)

lemma FileSwapS_twice [simp]: "FileSwapS (FileSwapS us) = us"
proof (rule bit_word_eqI)
  fix n assume "n < LENGTH(16)"
  then show "bit (FileSwapS (FileSwapS us)) n = bit us n"
    by (cases "n < 8") (auto simp: FileSwapS_def bit_simps not_less)
qed

lemma FileSwapL_twice [simp]: "FileSwapL (FileSwapL ul) = ul"
proof -
  have m: "0xff00 = push_bit 8 (mask 8 :: u32)" "0xff0000 = push_bit 16 (mask 8 :: u32)" by (simp_all add: mask_eq_exp_minus_1 push_bit_eq_mult)
  have swap: "FileSwapL v = drop_bit 24 v OR (drop_bit 8 v AND push_bit 8 (mask 8)) OR (push_bit 8 v AND push_bit 16 (mask 8)) OR push_bit 24 v" for v
    unfolding FileSwapL_def m ..
  show ?thesis
  proof (rule bit_word_eqI)
    fix n assume n: "n < LENGTH(32)"
    have "n < 8 \<or> 8 \<le> n \<and> n < 16 \<or> 16 \<le> n \<and> n < 24 \<or> 24 \<le> n" by auto
    then show "bit (FileSwapL (FileSwapL ul)) n = bit ul n"
      using n by (elim disjE) (auto simp: swap bit_simps less_diff_conv2 dest: bit_imp_le_length)
  qed
qed

lemma mk16_bytes [simp]: "mk16 (bytes16 v ! 0) (bytes16 v ! Suc 0) = v"
  by (simp add: bytes16_def)

lemma mk32_bytes [simp]:
  "mk32 (mk16 (bytes32 v ! 0) (bytes32 v ! Suc 0)) (mk16 (bytes32 v ! 2) (bytes32 v ! 3)) = v"
  by (simp add: bytes32_def bytes16_def nth_append)

lemma FileReadS_ahead:
  "ahead f = bytes16 (if swapit then FileSwapS v else v) @ y \<Longrightarrow> FileReadS swapit f = (Some v, advance 2 f)"
  by (simp add: FileReadS_def fread_ahead [of f _ y 2])

lemma FileReadL_ahead:
  "ahead f = bytes32 (if swapit then FileSwapL v else v) @ y \<Longrightarrow> FileReadL swapit f = (Some v, advance 4 f)"
  by (simp add: FileReadL_def fread_ahead [of f _ y 4])

text \<open>Writing at the end.\<close>

lemma fwrite_end: "f_pos f = length (f_data f) \<Longrightarrow> fwrite x f = \<lparr>f_data = f_data f @ x, f_pos = length (f_data f @ x)\<rparr>"
  by (simp add: fwrite_def Let_def)

lemma fwrite_inside:
  "f_data f = a @ x @ b \<Longrightarrow> f_pos f = length a \<Longrightarrow> length y = length x \<Longrightarrow> fwrite y f = \<lparr>f_data = a @ y @ b, f_pos = length a + length y\<rparr>"
  by (simp add: fwrite_def Let_def)

end
