(* ===== verification/Wave_File.thy ===== *)
theory Wave_File
  imports File_IO
begin

text \<open>
  RIFF WAVE files (\<^verbatim>\<open>lib/audio/wave.c\<close>): reading and writing the header, comment and data. \<open>None\<close> is a read that does not
  return, a division by zero or the use of a field that was never set; \<open>Inl ()\<close> is the result \<^verbatim>\<open>NULL\<close>. Files can be written
  and memory is there, except for blocks of negative size.
\<close>

section \<open>State\<close>

abbreviation (input) RIFF_RiffID :: bytes where "RIFF_RiffID \<equiv> [82, 73, 70, 70]"
abbreviation (input) RIFF_WaveID :: bytes where "RIFF_WaveID \<equiv> [87, 65, 86, 69]"
abbreviation (input) RIFF_ListID :: bytes where "RIFF_ListID \<equiv> [76, 73, 83, 84]"
abbreviation (input) RIFF_ListInfoID :: bytes where "RIFF_ListInfoID \<equiv> [73, 78, 70, 79]"
abbreviation (input) RIFF_InfoIcmtID :: bytes where "RIFF_InfoIcmtID \<equiv> [73, 67, 77, 84]"
abbreviation (input) RIFF_WaveFmtID :: bytes where "RIFF_WaveFmtID \<equiv> [102, 109, 116, 32]"
abbreviation (input) RIFF_WaveDataID :: bytes where "RIFF_WaveDataID \<equiv> [100, 97, 116, 97]"
abbreviation (input) RIFF_WaveFmtSize :: u32 where "RIFF_WaveFmtSize \<equiv> 16"
abbreviation (input) RIFF_WAVE_FORMAT_PCM :: u16 where "RIFF_WAVE_FORMAT_PCM \<equiv> 1"

text \<open>\<open>wv_fmt\<close> is \<^verbatim>\<open>channels\<close>, \<^verbatim>\<open>sampleRate\<close> and \<^verbatim>\<open>bitsPerSample\<close> once they are set, with \<^verbatim>\<open>format\<close>.\<close>

record wave =
  wv_file :: FILE
  wv_comment :: "bytes option"
  wv_fmt :: "(s16 \<times> s32 \<times> s16) option"
  wv_dataOffset :: u32
  wv_numSamples :: u32
  wv_fileSize :: u32
  wv_dataSize :: u32
  wv_sizeOffset :: u32
  wv_writing :: bool

definition PAD2 :: "u32 \<Rightarrow> u32" where
  "PAD2 x = (x + 1) AND NOT 1"

section \<open>Reading\<close>

definition readChunk :: "FILE \<Rightarrow> (bytes \<times> s32) option \<times> FILE" where
  "readChunk f =
     (case fread 8 f of (x, f) \<Rightarrow> (map_option (\<lambda>x. (take 4 x, mk32 (mk16 (x ! 4) (x ! 5)) (mk16 (x ! 6) (x ! 7)))) x, f))"

text \<open>The chunks of a list of kind INFO, of which comments are kept.\<close>

partial_function (option) wave_info :: "s32 \<Rightarrow> bytes option \<Rightarrow> FILE \<Rightarrow> (unit + bytes option \<times> FILE) option" where
  "wave_info ckSize comment f =
     (if ckSize = 0 then Some (Inr (comment, f))
      else case readChunk f of
        (None, f) \<Rightarrow> Some (Inl ())
      | (Some (ckID, n), f) \<Rightarrow>
          if ckID = RIFF_InfoIcmtID then
            (if sint n < 0 then Some (Inl ())
             else case fread (nat (sint n)) f of
               (None, f) \<Rightarrow> Some (Inl ())
             | (Some x, f) \<Rightarrow>
                 wave_info (ckSize - (8 + PAD2 n)) (Some x) (if n AND 1 \<noteq> 0 then snd (fread1 1 f) else f))
          else wave_info (ckSize - (8 + PAD2 n)) comment (snd (fseek (int (f_pos f) + sint (PAD2 n)) f)))"

definition read_fmt :: "s32 \<Rightarrow> FILE \<Rightarrow> (unit + (s16 \<times> s32 \<times> s16) \<times> FILE) option" where
  "read_fmt ckSize f =
     (case FileReadS False f of (format, f) \<Rightarrow>
      case FileReadS False f of (channels, f) \<Rightarrow>
      case FileReadL False f of (rate, f) \<Rightarrow>
      case FileReadL False f of (_, f) \<Rightarrow>
      case FileReadS False f of (_, f) \<Rightarrow>
      case format of
        None \<Rightarrow> None
      | Some format \<Rightarrow>
          if format \<noteq> RIFF_WAVE_FORMAT_PCM then Some (Inl ())
          else case FileReadS False f of (bits, f) \<Rightarrow>
            (case (channels, rate, bits) of
               (Some channels, Some rate, Some bits) \<Rightarrow>
                 Some (Inr ((channels, rate, bits), snd (fseek (int (f_pos f) + sint (PAD2 (ckSize - 16))) f)))
             | _ \<Rightarrow> None))"

text \<open>The data is skipped; if it would end behind the file, its size is what is there.\<close>

definition read_data :: "s32 \<Rightarrow> wave \<Rightarrow> wave" where
  "read_data ckSize w =
     (let f = wv_file w; offset = word_of_nat (f_pos f) :: u32; endOfFile = length (f_data f); target = unat (offset + PAD2 ckSize) in
      if endOfFile < target then
        w\<lparr>wv_file := f\<lparr>f_pos := endOfFile\<rparr>, wv_dataSize := word_of_nat endOfFile - offset, wv_dataOffset := offset - 8\<rparr>
      else w\<lparr>wv_file := f\<lparr>f_pos := target\<rparr>, wv_dataSize := ckSize, wv_dataOffset := offset - 8\<rparr>)"

partial_function (option) wave_chunks :: "s32 \<Rightarrow> wave \<Rightarrow> (unit + wave) option" where
  "wave_chunks fileSize w =
     (if sint fileSize < 8 then Some (Inr w)
      else case readChunk (wv_file w) of
        (None, f) \<Rightarrow> Some (Inl ())
      | (Some (ckID, n), f) \<Rightarrow>
          let fileSize = fileSize - (8 + PAD2 n); skip = (\<lambda>off f. snd (fseek (int (f_pos f) + off) f)) in
          if ckID = RIFF_ListID then
            (case fread 4 f of
               (None, f) \<Rightarrow> Some (Inl ())
             | (Some fourcc, f) \<Rightarrow>
                 if fourcc = RIFF_ListInfoID then
                   do { r \<leftarrow> wave_info (n - 4) (wv_comment w) f;
                        (case r of
                           Inl e \<Rightarrow> Some (Inl e)
                         | Inr (comment, f) \<Rightarrow> wave_chunks fileSize (w\<lparr>wv_file := f, wv_comment := comment\<rparr>)) }
                 else wave_chunks fileSize (w\<lparr>wv_file := skip (sint (PAD2 n) - 4) f\<rparr>))
          else if ckID = RIFF_WaveFmtID \<and> wv_fmt w = None then
            do { r \<leftarrow> read_fmt n f;
                 (case r of
                    Inl e \<Rightarrow> Some (Inl e)
                  | Inr (fmt, f) \<Rightarrow> wave_chunks fileSize (w\<lparr>wv_file := f, wv_fmt := Some fmt\<rparr>)) }
          else if ckID = RIFF_WaveDataID \<and> wv_dataOffset w = 0 then
            wave_chunks fileSize (read_data n (w\<lparr>wv_file := f\<rparr>))
          else wave_chunks fileSize (w\<lparr>wv_file := skip (sint (PAD2 n)) f\<rparr>))"

definition WaveRewindFile :: "wave \<Rightarrow> int \<times> wave" where
  "WaveRewindFile w =
     (if wv_writing w then (-1, w)
      else case fseek (uint (wv_dataOffset w) + 8) (wv_file w) of (e, f) \<Rightarrow> (if e then -1 else 0, w\<lparr>wv_file := f\<rparr>))"

text \<open>The end of \<^verbatim>\<open>WaveOpenFileForReading\<close>: the number of samples, in unsigned arithmetic, and a comment if there is none.\<close>

definition wave_opened :: "bytes \<Rightarrow> wave \<Rightarrow> (unit + wave) option" where
  "wave_opened name w =
     (if wv_dataOffset w = 0 then Some (Inl ())
      else case wv_fmt w of
        None \<Rightarrow> None
      | Some (channels, _, bits) \<Rightarrow>
          let c = signed channels :: u32; b = signed_drop_bit 3 (signed bits :: s32) in
          if c = 0 \<or> b = 0 then None
          else Some (Inr (snd (WaveRewindFile
            (w\<lparr>wv_numSamples := wv_dataSize w div c div b,
               wv_comment := (case wv_comment w of None \<Rightarrow> Some (FileCommentFromFilename name) | c \<Rightarrow> c)\<rparr>)))))"

definition new_wave :: "FILE \<Rightarrow> wave" where
  "new_wave f = \<lparr>wv_file = f, wv_comment = None, wv_fmt = None, wv_dataOffset = 0, wv_numSamples = 0, wv_fileSize = 0, wv_dataSize = 0,
     wv_sizeOffset = 0, wv_writing = False\<rparr>"

definition WaveOpenFileForReading :: "bytes \<Rightarrow> bytes option \<Rightarrow> (unit + wave) option" where
  "WaveOpenFileForReading name content =
     (case content of
        None \<Rightarrow> Some (Inl ())
      | Some d \<Rightarrow>
          case readChunk \<lparr>f_data = d, f_pos = 0\<rparr> of
            (None, f) \<Rightarrow> Some (Inl ())
          | (Some (ckID, n), f) \<Rightarrow>
              if ckID \<noteq> RIFF_RiffID then Some (Inl ())
              else (case fread 4 f of
                 (None, f) \<Rightarrow> Some (Inl ())
               | (Some fourcc, f) \<Rightarrow>
                   if fourcc \<noteq> RIFF_WaveID then Some (Inl ())
                   else do { r \<leftarrow> wave_chunks (PAD2 n - 4) (new_wave f);
                             (case r of Inl e \<Rightarrow> Some (Inl e) | Inr w \<Rightarrow> wave_opened name w) }))"

definition WaveReadFile :: "nat \<Rightarrow> wave \<Rightarrow> bytes \<times> wave" where
  "WaveReadFile n w = (case fread1 n (wv_file w) of (x, f) \<Rightarrow> (x, w\<lparr>wv_file := f\<rparr>))"

definition WaveSeekFile :: "s32 \<Rightarrow> wave \<Rightarrow> int \<times> wave" where
  "WaveSeekFile n w =
     (if wv_writing w then (-1, w)
      else case fseek (uint (wv_dataOffset w) + 8 + sint n) (wv_file w) of (e, f) \<Rightarrow> (if e then -1 else 0, w\<lparr>wv_file := f\<rparr>))"

definition WaveTellFile :: "wave \<Rightarrow> s32" where
  "WaveTellFile w = (if wv_writing w then -1 else word_of_int (int (f_pos (wv_file w)) - uint (wv_dataOffset w) - 8))"

section \<open>Writing\<close>

text \<open>\<open>comment\<close> is the text without the terminating zero.\<close>

definition write_comment :: "bytes \<Rightarrow> FILE \<Rightarrow> FILE \<times> u32" where
  "write_comment comment f =
     (if comment = [] then (f, 0)
      else let n = word_of_nat (length comment + 1) :: u32; sz = 8 + 4 + PAD2 n;
               f = fwrite RIFF_ListID f; f = FileWriteL sz False f; f = fwrite RIFF_ListInfoID f; f = fwrite RIFF_InfoIcmtID f;
               f = FileWriteL n False f; f = fwrite (comment @ [0]) f;
               f = (if n AND 1 \<noteq> 0 then fwrite [0] f else f)
           in (f, 8 + sz))"

definition write_fmt :: "s16 \<Rightarrow> s32 \<Rightarrow> s16 \<Rightarrow> FILE \<Rightarrow> FILE" where
  "write_fmt channels rate bits f =
     (let c = signed channels :: s32; b = signed_drop_bit 3 (signed bits :: s32);
          f = fwrite RIFF_WaveFmtID f; f = FileWriteL RIFF_WaveFmtSize False f; f = FileWriteS RIFF_WAVE_FORMAT_PCM False f;
          f = FileWriteS channels False f; f = FileWriteL rate False f; f = FileWriteL (c * rate * b) False f;
          f = FileWriteS (ucast (c * b)) False f
      in FileWriteS bits False f)"

definition WaveOpenFileForWriting :: "bytes \<Rightarrow> s16 \<Rightarrow> s32 \<Rightarrow> s16 \<Rightarrow> wave" where
  "WaveOpenFileForWriting comment channels rate bits =
     (let f = fwrite RIFF_RiffID \<lparr>f_data = [], f_pos = 0\<rparr>;
          sizeOffset = word_of_nat (f_pos f);
          f = FileWriteL 0 False f; f = fwrite RIFF_WaveID f;
          (f, csize) = write_comment comment f;
          f = write_fmt channels rate bits f;
          f = fwrite RIFF_WaveDataID f;
          dataOffset = word_of_nat (f_pos f);
          f = FileWriteL 0 False f
      in \<lparr>wv_file = f, wv_comment = Some (comment @ [0]), wv_fmt = Some (channels, rate, bits), wv_dataOffset = dataOffset, wv_numSamples = 0,
          wv_fileSize = 4 + csize + (8 + RIFF_WaveFmtSize) + 8, wv_dataSize = 0, wv_sizeOffset = sizeOffset, wv_writing = True\<rparr>)"

definition WaveWriteFile :: "bytes \<Rightarrow> wave \<Rightarrow> wave" where
  "WaveWriteFile x w = w\<lparr>wv_file := fwrite x (wv_file w), wv_dataSize := wv_dataSize w + word_of_nat (length x)\<rparr>"

text \<open>What is in the file when it is closed: the sizes in the header are known now.\<close>

definition WaveCloseFile :: "wave \<Rightarrow> bytes" where
  "WaveCloseFile w =
     (let f = wv_file w in
      if wv_writing w then
        let f = (if wv_dataSize w AND 1 \<noteq> 0 then fwrite [0] f else f);
            f = FileWriteL (wv_fileSize w + PAD2 (wv_dataSize w)) False (snd (fseek (uint (wv_sizeOffset w)) f));
            f = FileWriteL (wv_dataSize w) False (snd (fseek (uint (wv_dataOffset w)) f))
        in f_data f
      else f_data f)"

section \<open>Round trip\<close>

definition even_size :: "nat \<Rightarrow> nat" where
  "even_size k = k + k mod 2"

lemma even_size_even: "even k \<Longrightarrow> even_size k = k" "even (even_size k)"
  by (simp_all add: even_size_def)

lemma PAD2_word: "k < 2 ^ 31 \<Longrightarrow> PAD2 (word_of_nat k) = word_of_nat (even_size k)"
proof -
  assume k: "k < 2 ^ 31"
  let ?w = "word_of_nat (k + 1) :: u32"
  have "(?w AND NOT 1) AND (?w AND 1) = 0" "(?w AND NOT 1) OR (?w AND 1) = ?w" by (rule bit_word_eqI; auto simp: bit_simps)+
  then have split: "?w AND NOT 1 = ?w - (?w AND 1)" using word_plus_and_or [of "?w AND NOT 1" "?w AND 1"] by (simp add: eq_diff_eq)
  have "unat ?w = k + 1" using k by (subst unat_of_nat) simp
  then have "unat (?w AND 1) = (k + 1) mod 2" by (simp only: and_one_eq unat_mod_distrib) simp
  then have "?w AND 1 = word_of_nat ((k + 1) mod 2)" by (rule unat_eqD)
  then have "?w AND NOT 1 = word_of_nat (k + 1) - word_of_nat ((k + 1) mod 2)" using split by simp
  also have "\<dots> = word_of_nat (k + 1 - (k + 1) mod 2)" by (rule of_nat_diff [symmetric]) simp
  also have "k + 1 - (k + 1) mod 2 = even_size k" unfolding even_size_def by presburger
  finally show ?thesis by (simp add: PAD2_def add.commute)
qed

lemma sint_word: "k < 2 ^ 31 \<Longrightarrow> sint (word_of_nat k :: s32) = int k"
  using signed_of_nat [of k, where ?'a = int and ?'b = 32] by (simp add: signed_take_bit_int_eq_self)

lemma odd_word: "(word_of_nat k AND 1 \<noteq> (0 :: u32)) \<longleftrightarrow> odd k"
proof -
  have "bit (word_of_nat k :: u32) 0 = bit k 0" by (simp add: bit_simps)
  then show ?thesis by (simp add: and_one_eq odd_iff_mod_2_eq_one [symmetric] bit_0)
qed

definition file_end :: "bytes \<Rightarrow> FILE" where
  "file_end d = \<lparr>f_data = d, f_pos = length d\<rparr>"

lemma file_end_write [simp]:
  "fwrite x (file_end d) = file_end (d @ x)" "FileWriteL v False (file_end d) = file_end (d @ bytes32 v)"
  "FileWriteS u False (file_end d) = file_end (d @ bytes16 u)" "f_pos (file_end d) = length d" "f_data (file_end d) = d"
  by (simp_all add: file_end_def fwrite_def FileWriteL_def FileWriteS_def)

text \<open>The parts of a file.\<close>

definition comment_part :: "bytes \<Rightarrow> bytes" where
  "comment_part c =
     (if c = [] then []
      else let n = length c + 1 in
        RIFF_ListID @ bytes32 (word_of_nat (12 + even_size n)) @ RIFF_ListInfoID @ RIFF_InfoIcmtID @ bytes32 (word_of_nat n) @
        c @ [0] @ replicate (n mod 2) 0)"

definition fmt_part :: "s16 \<Rightarrow> s32 \<Rightarrow> s16 \<Rightarrow> bytes" where
  "fmt_part ch rate bits = f_data (write_fmt ch rate bits (file_end []))"

definition header :: "bytes \<Rightarrow> s16 \<Rightarrow> s32 \<Rightarrow> s16 \<Rightarrow> u32 \<Rightarrow> u32 \<Rightarrow> bytes" where
  "header c ch rate bits fsize dsize =
     RIFF_RiffID @ bytes32 fsize @ RIFF_WaveID @ comment_part c @ fmt_part ch rate bits @ RIFF_WaveDataID @ bytes32 dsize"

lemma write_fmt_end: "write_fmt ch rate bits (file_end d) = file_end (d @ fmt_part ch rate bits)"
  by (simp add: fmt_part_def write_fmt_def Let_def)

lemma length_fmt_part [simp]: "length (fmt_part ch rate bits) = 24"
  by (simp add: fmt_part_def write_fmt_def Let_def)

lemma length_comment_part: "length (comment_part c) = (if c = [] then 0 else 20 + even_size (length c + 1))"
  by (simp add: comment_part_def Let_def even_size_def)

lemma write_comment_end:
  assumes "length c < 2 ^ 31 - 1" shows "write_comment c (file_end d) = (file_end (d @ comment_part c), word_of_nat (length (comment_part c)))"
proof (cases "c = []")
  case False
  define n where "n = length c + 1"
  have pad: "PAD2 (word_of_nat n) = word_of_nat (even_size n)" using assms by (intro PAD2_word) (simp add: n_def)
  have sizes: "(8 + 4 + word_of_nat (even_size n) :: u32) = word_of_nat (12 + even_size n)"
      "(8 + word_of_nat (12 + even_size n) :: u32) = word_of_nat (20 + even_size n)" by simp_all
  have comment: "comment_part c = RIFF_ListID @ bytes32 (word_of_nat (12 + even_size n)) @ RIFF_ListInfoID @ RIFF_InfoIcmtID @
      bytes32 (word_of_nat n) @ c @ [0] @ replicate (n mod 2) 0" "length (comment_part c) = 20 + even_size n"
    using False unfolding length_comment_part n_def by (simp_all only: comment_part_def Let_def if_False)
  have padded: "(if odd n then file_end (x @ [0]) else file_end x) = file_end (x @ replicate (n mod 2) 0)" for x
    by (cases "odd n") (simp_all add: odd_iff_mod_2_eq_one even_iff_mod_2_eq_zero)
  show ?thesis
    unfolding comment(2) unfolding write_comment_def Let_def n_def [symmetric] pad odd_word sizes comment(1) file_end_write padded
    using False by simp
qed (simp add: write_comment_def comment_part_def)

lemma opened_for_writing:
  assumes "length c < 2 ^ 31 - 1"
  shows "WaveOpenFileForWriting c ch rate bits = \<lparr>wv_file = file_end (header c ch rate bits 0 0), wv_comment = Some (c @ [0]),
     wv_fmt = Some (ch, rate, bits), wv_dataOffset = word_of_nat (length (header c ch rate bits 0 0) - 4), wv_numSamples = 0,
     wv_fileSize = 4 + word_of_nat (length (comment_part c)) + 24 + 8, wv_dataSize = 0, wv_sizeOffset = 4, wv_writing = True\<rparr>"
proof -
  have start: "\<lparr>f_data = [], f_pos = 0\<rparr> = file_end []" by (simp add: file_end_def)
  show ?thesis
    unfolding WaveOpenFileForWriting_def start Let_def file_end_write write_comment_end [OF assms] prod.case write_fmt_end
    by (simp add: header_def)
qed

lemma written:
  "wv_file w = file_end d \<Longrightarrow> fold WaveWriteFile xs w = w\<lparr>wv_file := file_end (d @ concat xs), wv_dataSize := wv_dataSize w + word_of_nat (length (concat xs))\<rparr>"
  by (induction xs arbitrary: w d) (simp_all add: WaveWriteFile_def add.assoc)

text \<open>What is in the file at the end.\<close>

lemma closed:
  assumes "length c < 2 ^ 31 - 1" "length (header c ch rate bits 0 0) + length (concat xs) < 2 ^ 31"
  shows "WaveCloseFile (fold WaveWriteFile xs (WaveOpenFileForWriting c ch rate bits)) =
     header c ch rate bits (word_of_nat (36 + length (comment_part c) + even_size (length (concat xs)))) (word_of_nat (length (concat xs))) @
     concat xs @ replicate (length (concat xs) mod 2) 0"
proof -
  let ?x = "concat xs" let ?n = "length ?x" let ?p = "replicate (?n mod 2) 0"
  define fs ds where "fs = (word_of_nat (36 + length (comment_part c) + even_size ?n) :: u32)" and "ds = (word_of_nat ?n :: u32)"
  define w where "w = fold WaveWriteFile xs (WaveOpenFileForWriting c ch rate bits)"
  have w: "wv_file w = file_end (header c ch rate bits 0 0 @ ?x)" "wv_dataSize w = ds" "wv_sizeOffset w = 4" "wv_writing w"
    "wv_dataOffset w = word_of_nat (length (header c ch rate bits 0 0) - 4)" "wv_fileSize w = 36 + word_of_nat (length (comment_part c))"
    unfolding w_def by (simp_all add: opened_for_writing [OF assms(1)] written ds_def)
  have n: "?n < 2 ^ 31" using assms(2) by simp
  have pad: "wv_fileSize w + PAD2 (wv_dataSize w) = fs" using PAD2_word [OF n] by (simp add: w(2,6) ds_def fs_def)
  have f0: "(if wv_dataSize w AND 1 \<noteq> 0 then fwrite [0] (wv_file w) else wv_file w) = file_end (header c ch rate bits 0 0 @ ?x @ ?p)"
    unfolding w(1,2) ds_def odd_word by (cases "odd ?n") (simp_all add: odd_iff_mod_2_eq_one even_iff_mod_2_eq_zero)
  have d0: "header c ch rate bits 0 0 @ ?x @ ?p = RIFF_RiffID @ bytes32 0 @ (RIFF_WaveID @ comment_part c @ fmt_part ch rate bits @ RIFF_WaveDataID @ bytes32 0 @ ?x @ ?p)"
    by (simp add: header_def)
  have f1: "FileWriteL fs False (snd (fseek (uint (wv_sizeOffset w)) (file_end (header c ch rate bits 0 0 @ ?x @ ?p)))) =
      \<lparr>f_data = header c ch rate bits fs 0 @ ?x @ ?p, f_pos = 8\<rparr>"
    unfolding FileWriteL_def
    by (subst fwrite_inside [of _ RIFF_RiffID "bytes32 0" "RIFF_WaveID @ comment_part c @ fmt_part ch rate bits @ RIFF_WaveDataID @ bytes32 0 @ ?x @ ?p"])
       (simp_all add: w(3) fseek_def file_end_def header_def)
  have off: "uint (wv_dataOffset w) = int (length (header c ch rate bits 0 0) - 4)"
    using assms(2) unfolding w(5) by (simp add: uint_nat unat_of_nat)
  have f2: "FileWriteL ds False (snd (fseek (uint (wv_dataOffset w)) \<lparr>f_data = header c ch rate bits fs 0 @ ?x @ ?p, f_pos = 8\<rparr>)) =
      \<lparr>f_data = header c ch rate bits fs ds @ ?x @ ?p, f_pos = length (header c ch rate bits 0 0)\<rparr>"
    unfolding FileWriteL_def off
    by (subst fwrite_inside [of _ "RIFF_RiffID @ bytes32 fs @ RIFF_WaveID @ comment_part c @ fmt_part ch rate bits @ RIFF_WaveDataID" "bytes32 0" "?x @ ?p"])
       (simp_all add: fseek_def header_def)
  show ?thesis
    unfolding w_def [symmetric] WaveCloseFile_def Let_def pad f0
    using w(4) by (simp add: f1 w(2) f2 del: file_end_write) (simp add: fs_def ds_def)
qed

lemma readChunk_ahead:
  assumes "ahead f = ckID @ bytes32 n @ y" "length ckID = 4" shows "readChunk f = (Some (ckID, n), advance 8 f)"
proof -
  have "fread 8 f = (Some (ckID @ bytes32 n), advance 8 f)" by (rule fread_ahead [of _ _ y]) (use assms in simp_all)
  moreover have "(ckID @ bytes32 n) ! k = bytes32 n ! (k - 4)" if "4 \<le> k" for k using assms(2) that by (simp add: nth_append)
  ultimately show ?thesis using assms(2) by (simp add: readChunk_def)
qed

lemma fseek_on: "snd (fseek (int (f_pos f) + int k) f) = advance k f"
  by (simp add: fseek_def advance_def nat_add_distrib)

text \<open>Each kind of chunk a written file has.\<close>

lemma comment_read:
  assumes "ahead f = RIFF_InfoIcmtID @ bytes32 (word_of_nat n) @ c @ [0] @ replicate (n mod 2) 0 @ y" "n = length c + 1" "n < 2 ^ 31"
  shows "wave_info (word_of_nat (8 + even_size n)) cm f = Some (Inr (Some (c @ [0]), advance (8 + even_size n) f))"
proof -
  have start: "readChunk f = (Some (RIFF_InfoIcmtID, word_of_nat n), advance 8 f)" by (rule readChunk_ahead [OF assms(1)]) simp
  have a8: "ahead (advance 8 f) = (c @ [0]) @ replicate (n mod 2) 0 @ y"
    using ahead_advance [of f "RIFF_InfoIcmtID @ bytes32 (word_of_nat n)" _ 8] assms(1) by simp
  have body: "fread n (advance 8 f) = (Some (c @ [0]), advance n (advance 8 f))"
    by (rule fread_ahead [OF a8]) (use assms(2) in simp_all)
  have an: "ahead (advance n (advance 8 f)) = replicate (n mod 2) 0 @ y" by (rule ahead_advance [OF a8]) (simp add: assms(2))
  have pad: "(if odd n then snd (fread1 1 (advance n (advance 8 f))) else advance n (advance 8 f)) = advance (8 + even_size n) f"
  proof (cases "odd n")
    case True
    then have "fread1 1 (advance n (advance 8 f)) = ([0], advance 1 (advance n (advance 8 f)))"
      by (intro fread1_ahead) (use an in \<open>simp_all add: odd_iff_mod_2_eq_one\<close>)
    then show ?thesis using True by (simp add: even_size_def odd_iff_mod_2_eq_one add.commute)
  qed (simp add: even_size_def even_iff_mod_2_eq_zero add.commute)
  have even: "PAD2 (word_of_nat n) = word_of_nat (even_size n)" by (rule PAD2_word [OF assms(3)])
  have size: "word_of_nat (8 + even_size n) \<noteq> (0 :: s32)"
  proof -
    have "8 + even_size n < 2 ^ 32" using assms(3) by (simp add: even_size_def)
    then have "unat (word_of_nat (8 + even_size n) :: s32) = 8 + even_size n" by (subst unat_of_nat) simp
    then show ?thesis by (metis add_is_0 unat_0 zero_neq_numeral)
  qed
  have rest: "word_of_nat (8 + even_size n) - (8 + PAD2 (word_of_nat n)) = (0 :: s32)" by (simp add: even)
  have last: "wave_info 0 cm g = Some (Inr (cm, g))" for cm g by (simp add: wave_info.simps)
  show ?thesis
    by (subst wave_info.simps) (simp only: size if_False start prod.case option.case sint_word [OF assms(3)] nat_int body odd_word pad rest last, simp)
qed

lemma fmt_read:
  assumes "ahead f = drop 8 (fmt_part ch rate bits) @ y"
  shows "read_fmt 16 f = Some (Inr ((ch, rate, bits), advance 16 f))"
proof -
  let ?c = "signed ch :: s32" and ?b = "signed_drop_bit 3 (signed bits :: s32)"
  have f: "ahead f = bytes16 RIFF_WAVE_FORMAT_PCM @ bytes16 ch @ bytes32 rate @ bytes32 (?c * rate * ?b) @ bytes16 (ucast (?c * ?b)) @ bytes16 bits @ y"
    using assms by (simp add: fmt_part_def write_fmt_def Let_def)
  have a: "ahead (advance 2 f) = bytes16 ch @ bytes32 rate @ bytes32 (?c * rate * ?b) @ bytes16 (ucast (?c * ?b)) @ bytes16 bits @ y"
      "ahead (advance 4 f) = bytes32 rate @ bytes32 (?c * rate * ?b) @ bytes16 (ucast (?c * ?b)) @ bytes16 bits @ y"
      "ahead (advance 8 f) = bytes32 (?c * rate * ?b) @ bytes16 (ucast (?c * ?b)) @ bytes16 bits @ y"
      "ahead (advance 12 f) = bytes16 (ucast (?c * ?b)) @ bytes16 bits @ y"
      "ahead (advance 14 f) = bytes16 bits @ y"
    using ahead_advance [of f "bytes16 1" _ 2] ahead_advance [of f "bytes16 1 @ bytes16 ch" _ 4] ahead_advance [of f "bytes16 1 @ bytes16 ch @ bytes32 rate" _ 8]
      ahead_advance [of f "bytes16 1 @ bytes16 ch @ bytes32 rate @ bytes32 (?c * rate * ?b)" _ 12]
      ahead_advance [of f "bytes16 1 @ bytes16 ch @ bytes32 rate @ bytes32 (?c * rate * ?b) @ bytes16 (ucast (?c * ?b))" _ 14] f
    by simp_all
  have reads: "FileReadS False f = (Some RIFF_WAVE_FORMAT_PCM, advance 2 f)" "FileReadS False (advance 2 f) = (Some ch, advance 4 f)"
      "FileReadL False (advance 4 f) = (Some rate, advance 8 f)" "FileReadL False (advance 8 f) = (Some (?c * rate * ?b), advance 12 f)"
      "FileReadS False (advance 12 f) = (Some (ucast (?c * ?b)), advance 14 f)" "FileReadS False (advance 14 f) = (Some bits, advance 16 f)"
    using FileReadS_ahead [of f False 1] FileReadS_ahead [of "advance 2 f" False ch] FileReadL_ahead [of "advance 4 f" False rate]
      FileReadL_ahead [of "advance 8 f" False "?c * rate * ?b"] FileReadS_ahead [of "advance 12 f" False "ucast (?c * ?b)"]
      FileReadS_ahead [of "advance 14 f" False bits] f a by simp_all
  have "PAD2 (16 - 16) = 0" by (simp add: PAD2_def)
  then show ?thesis using fseek_on [of "advance 16 f" 0] by (simp add: read_fmt_def reads)
qed

text \<open>The chunks behind the name of the format, one after the other.\<close>

lemma list_chunk:
  assumes "ahead (wv_file w) = comment_part c @ y" "c \<noteq> []" "length c + 1 \<le> 2 ^ 29" "r < 2 ^ 30"
  shows "wave_chunks (word_of_nat (length (comment_part c) + r)) w =
     wave_chunks (word_of_nat r) (w\<lparr>wv_file := advance (length (comment_part c)) (wv_file w), wv_comment := Some (c @ [0])\<rparr>)"
proof -
  define n where "n = length c + 1"
  let ?f = "wv_file w"
  have part: "comment_part c = RIFF_ListID @ bytes32 (word_of_nat (12 + even_size n)) @ RIFF_ListInfoID @ RIFF_InfoIcmtID @
      bytes32 (word_of_nat n) @ c @ [0] @ replicate (n mod 2) 0" and len: "length (comment_part c) = 20 + even_size n"
    using assms(2) unfolding length_comment_part n_def by (simp_all only: comment_part_def Let_def if_False)
  have small: "n \<le> 2 ^ 29" "even_size n \<le> n + 1" using assms(3) by (auto simp: n_def even_size_def)
  have f: "ahead ?f = RIFF_ListID @ bytes32 (word_of_nat (12 + even_size n)) @ RIFF_ListInfoID @ RIFF_InfoIcmtID @
      bytes32 (word_of_nat n) @ c @ [0] @ replicate (n mod 2) 0 @ y"
    using assms(1) by (simp add: part)
  have chunk: "readChunk ?f = (Some (RIFF_ListID, word_of_nat (12 + even_size n)), advance 8 ?f)" by (rule readChunk_ahead [OF f]) simp
  have a8: "ahead (advance 8 ?f) = RIFF_ListInfoID @ RIFF_InfoIcmtID @ bytes32 (word_of_nat n) @ c @ [0] @ replicate (n mod 2) 0 @ y"
    using ahead_advance [of ?f "RIFF_ListID @ bytes32 (word_of_nat (12 + even_size n))" _ 8] f by simp
  have kind: "fread 4 (advance 8 ?f) = (Some RIFF_ListInfoID, advance 12 ?f)" using fread_ahead [OF a8, of 4] by simp
  have a12: "ahead (advance 12 ?f) = RIFF_InfoIcmtID @ bytes32 (word_of_nat n) @ c @ [0] @ replicate (n mod 2) 0 @ y"
    using ahead_advance [OF a8, of 4] by simp
  have size: "(word_of_nat (12 + even_size n) - 4 :: s32) = word_of_nat (8 + even_size n)" by simp
  have info: "wave_info (word_of_nat (12 + even_size n) - 4) cm (advance 12 ?f) = Some (Inr (Some (c @ [0]), advance (20 + even_size n) ?f))" for cm
    unfolding size using comment_read [OF a12 n_def, of cm] small(1) by (simp add: add.commute)
  have whole: "\<not> sint (word_of_nat (length (comment_part c) + r) :: s32) < 8"
  proof -
    have "length (comment_part c) + r < 2 ^ 31" using small assms(4) by (simp add: len)
    then show ?thesis by (simp only: sint_word) (simp add: len)
  qed
  have "even_size (12 + even_size n) = 12 + even_size n" using even_size_even(2) [of n] by (intro even_size_even) simp
  then have "PAD2 (word_of_nat (12 + even_size n)) = word_of_nat (12 + even_size n)" using PAD2_word [of "12 + even_size n"] small by simp
  then have left: "word_of_nat (length (comment_part c) + r) - (8 + PAD2 (word_of_nat (12 + even_size n))) = (word_of_nat r :: s32)" by (simp add: len)
  show ?thesis
    by (subst wave_chunks.simps) (simp only: whole [unfolded len] if_False chunk prod.case option.case Let_def if_True kind info left [unfolded len] Option.bind.bind_lunit sum.case len refl)
qed

lemma fmt_chunk:
  assumes "ahead (wv_file w) = fmt_part ch rate bits @ y" "wv_fmt w = None" "r < 2 ^ 30"
  shows "wave_chunks (word_of_nat (24 + r)) w = wave_chunks (word_of_nat r) (w\<lparr>wv_file := advance 24 (wv_file w), wv_fmt := Some (ch, rate, bits)\<rparr>)"
proof -
  let ?f = "wv_file w"
  have "fmt_part ch rate bits = RIFF_WaveFmtID @ bytes32 16 @ drop 8 (fmt_part ch rate bits)" by (simp add: fmt_part_def write_fmt_def Let_def)
  then have f: "ahead ?f = RIFF_WaveFmtID @ bytes32 16 @ drop 8 (fmt_part ch rate bits) @ y" using assms(1) by (metis append_assoc)
  have chunk: "readChunk ?f = (Some (RIFF_WaveFmtID, 16), advance 8 ?f)" by (rule readChunk_ahead [OF f]) simp
  have a8: "ahead (advance 8 ?f) = drop 8 (fmt_part ch rate bits) @ y" using ahead_advance [of ?f "RIFF_WaveFmtID @ bytes32 16" _ 8] f by simp
  have fmt: "read_fmt 16 (advance 8 ?f) = Some (Inr ((ch, rate, bits), advance 24 ?f))" using fmt_read [OF a8] by simp
  have whole: "\<not> sint (word_of_nat (24 + r) :: s32) < 8" using sint_word [of "24 + r"] assms(3) by (simp del: of_nat_add)
  have "PAD2 16 = (16 :: u32)" using PAD2_word [of 16] by (simp add: even_size_def)
  then have left: "word_of_nat (24 + r) - (8 + PAD2 16) = (word_of_nat r :: s32)" by simp
  show ?thesis
    by (subst wave_chunks.simps) (simp add: whole chunk Let_def fmt left assms(2) del: of_nat_add)
qed

lemma read_data_file:
  "read_data n (w\<lparr>wv_file := f\<rparr>) =
     (if length (f_data f) < unat (word_of_nat (f_pos f) + PAD2 n)
      then w\<lparr>wv_file := f\<lparr>f_pos := length (f_data f)\<rparr>, wv_dataSize := word_of_nat (length (f_data f)) - word_of_nat (f_pos f),
             wv_dataOffset := word_of_nat (f_pos f) - 8\<rparr>
      else w\<lparr>wv_file := f\<lparr>f_pos := unat (word_of_nat (f_pos f) + PAD2 n)\<rparr>, wv_dataSize := n, wv_dataOffset := word_of_nat (f_pos f) - 8\<rparr>)"
  by (simp add: read_data_def Let_def)

lemma data_chunk:
  assumes "ahead (wv_file w) = RIFF_WaveDataID @ bytes32 (word_of_nat n) @ x @ replicate (n mod 2) 0" "length x = n" "wv_dataOffset w = 0"
    and "f_pos (wv_file w) + 8 + even_size n < 2 ^ 31"
  shows "wave_chunks (word_of_nat (8 + even_size n)) w =
     Some (Inr (w\<lparr>wv_file := advance (8 + even_size n) (wv_file w), wv_dataSize := word_of_nat n, wv_dataOffset := word_of_nat (f_pos (wv_file w))\<rparr>))"
proof -
  let ?f = "wv_file w" and ?p = "f_pos (wv_file w)"
  have n: "n < 2 ^ 31" using assms(4) by (simp add: even_size_def)
  have even: "PAD2 (word_of_nat n) = word_of_nat (even_size n)" by (rule PAD2_word [OF n])
  have chunk: "readChunk ?f = (Some (RIFF_WaveDataID, word_of_nat n), advance 8 ?f)" by (rule readChunk_ahead [OF assms(1)]) simp
  have "length (ahead ?f) = 8 + even_size n" using assms(1,2) by (simp add: even_size_def)
  then have eof: "length (f_data ?f) = ?p + 8 + even_size n" by (auto simp: ahead_def)
  have "(word_of_nat (?p + 8) + PAD2 (word_of_nat n) :: u32) = word_of_nat (?p + 8 + even_size n)" by (simp add: even)
  then have target: "unat (word_of_nat (?p + 8) + PAD2 (word_of_nat n) :: u32) = ?p + 8 + even_size n"
    using assms(4) by (simp only:) (subst unat_of_nat, simp)
  have data: "read_data (word_of_nat n) (w\<lparr>wv_file := advance 8 ?f\<rparr>) =
      w\<lparr>wv_file := advance (8 + even_size n) ?f, wv_dataSize := word_of_nat n, wv_dataOffset := word_of_nat ?p\<rparr>"
    unfolding read_data_file advance_simps target eof
    by (simp add: advance_def add.assoc)
  have whole: "\<not> sint (word_of_nat (8 + even_size n) :: s32) < 8" using sint_word [of "8 + even_size n"] assms(4) by (simp del: of_nat_add)
  have left: "word_of_nat (8 + even_size n) - (8 + PAD2 (word_of_nat n)) = (0 :: s32)" by (simp add: even)
  have stop: "wave_chunks 0 v = Some (Inr v)" for v by (simp add: wave_chunks.simps)
  show ?thesis
    by (subst wave_chunks.simps) (simp add: whole chunk Let_def data left stop assms(3) del: of_nat_add)
qed


definition demo_wave :: bytes where
  "demo_wave = WaveCloseFile (fold WaveWriteFile [[1, 2], [3]] (WaveOpenFileForWriting [104, 105] 1 8000 8))"


section \<open>A file that is read for ever\<close>

text \<open>The next chunk is of an unknown kind, and its size takes the position back to where the chunk starts.\<close>

definition stuck :: "s32 \<Rightarrow> wave \<Rightarrow> bool" where
  "stuck fileSize w \<longleftrightarrow> 8 \<le> sint fileSize \<and> (\<exists>ckID n f. readChunk (wv_file w) = (Some (ckID, n), f) \<and>
     ckID \<notin> {RIFF_ListID, RIFF_WaveFmtID, RIFF_WaveDataID} \<and> 8 + PAD2 n = 0 \<and> snd (fseek (int (f_pos f) + sint (PAD2 n)) f) = wv_file w)"

lemma wave_chunks_stuck: "wave_chunks fileSize w = Some r \<Longrightarrow> \<not> stuck fileSize w"
proof (rule wave_chunks.raw_induct [where P = "\<lambda>fileSize w r. \<not> stuck fileSize w"])
  fix f fileSize w r
  assume IH: "\<And>fileSize w r. f fileSize w = Some r \<Longrightarrow> \<not> stuck fileSize w" and
    r: "(if sint fileSize < 8 then Some (Inr w)
      else case readChunk (wv_file w) of
        (None, fp) \<Rightarrow> Some (Inl ())
      | (Some (ckID, n), fp) \<Rightarrow>
          let fileSize = fileSize - (8 + PAD2 n); skip = (\<lambda>off fp. snd (fseek (int (f_pos fp) + off) fp)) in
          if ckID = RIFF_ListID then
            (case fread 4 fp of
               (None, fp) \<Rightarrow> Some (Inl ())
             | (Some fourcc, fp) \<Rightarrow>
                 if fourcc = RIFF_ListInfoID then
                   do { r \<leftarrow> wave_info (n - 4) (wv_comment w) fp;
                        (case r of
                           Inl e \<Rightarrow> Some (Inl e)
                         | Inr (comment, fp) \<Rightarrow> f fileSize (w\<lparr>wv_file := fp, wv_comment := comment\<rparr>)) }
                 else f fileSize (w\<lparr>wv_file := skip (sint (PAD2 n) - 4) fp\<rparr>))
          else if ckID = RIFF_WaveFmtID \<and> wv_fmt w = None then
            do { r \<leftarrow> read_fmt n fp;
                 (case r of
                    Inl e \<Rightarrow> Some (Inl e)
                  | Inr (fmt, fp) \<Rightarrow> f fileSize (w\<lparr>wv_file := fp, wv_fmt := Some fmt\<rparr>)) }
          else if ckID = RIFF_WaveDataID \<and> wv_dataOffset w = 0 then
            f fileSize (read_data n (w\<lparr>wv_file := fp\<rparr>))
          else f fileSize (w\<lparr>wv_file := skip (sint (PAD2 n)) fp\<rparr>)) = Some r"
  show "\<not> stuck fileSize w"
  proof
    assume "stuck fileSize w"
    then obtain ckID n fp where st: "8 \<le> sint fileSize" "readChunk (wv_file w) = (Some (ckID, n), fp)"
        "ckID \<notin> {RIFF_ListID, RIFF_WaveFmtID, RIFF_WaveDataID}" "8 + PAD2 n = 0" "snd (fseek (int (f_pos fp) + sint (PAD2 n)) fp) = wv_file w"
      unfolding stuck_def by blast
    then have "f fileSize w = Some r" using r by (simp add: Let_def)
    then show False using IH \<open>stuck fileSize w\<close> by blast
  qed
qed

text \<open>
  A file can keep its reader for ever: the size of a chunk is taken as a signed number, so a chunk of size -8 takes the reader
  back to its own header, and opening a file of 20 bytes does not return.
\<close>

theorem wave_read_never_returns:
  "WaveOpenFileForReading name (Some (RIFF_RiffID @ bytes32 16 @ RIFF_WaveID @ [106, 117, 110, 107] @ bytes32 (- 8))) = None"
proof -
  let ?d = "RIFF_RiffID @ bytes32 16 @ RIFF_WaveID @ [106, 117, 110, 107] @ bytes32 (- 8)"
  let ?f = "\<lparr>f_data = ?d, f_pos = 0\<rparr>" and ?w = "new_wave \<lparr>f_data = ?d, f_pos = 12\<rparr>"
  have riff: "readChunk ?f = (Some (RIFF_RiffID, 16), advance 8 ?f)" by (rule readChunk_ahead) (simp_all add: ahead_def)
  have kind: "fread 4 (advance 8 ?f) = (Some RIFF_WaveID, advance 12 ?f)"
    using fread_ahead [of "advance 8 ?f" RIFF_WaveID "[106, 117, 110, 107] @ bytes32 (- 8)" 4] by (simp add: ahead_def)
  have chunk: "readChunk (wv_file ?w) = (Some ([106, 117, 110, 107], - 8), advance 8 (wv_file ?w))"
    by (rule readChunk_ahead [of _ _ _ "[]"]) (simp_all add: ahead_def new_wave_def)
  have pad: "PAD2 (- 8) = - 8" "PAD2 16 - 4 = 12" by code_simp+
  have "stuck 12 ?w" unfolding stuck_def chunk
    by (intro conjI exI [of _ "[106, 117, 110, 107]"] exI [of _ "- 8"] exI [of _ "advance 8 (wv_file ?w)"])
       (simp_all add: pad fseek_def new_wave_def advance_def)
  then have "wave_chunks 12 ?w = None" using wave_chunks_stuck [of 12 ?w] by (cases "wave_chunks 12 ?w") auto
  then show ?thesis
    unfolding WaveOpenFileForReading_def option.case riff kind prod.case pad(2) by (simp add: advance_def)
qed
end
